(* ===== verification/Chirp_Prelude.thy ===== *)
theory Chirp_Prelude
  imports Main "HOL-Library.Word" "HOL-Library.Char_ord" "HOL-Library.List_Lexorder"
    "HOL-Library.Multiset" "HOL-Library.Sublist"
begin

text \<open>
  Shared vocabulary of the development: Go's byte sequences, errors and results, big-endian
  integers, and the in-place insertion sort the repository writes out three times.

  A Go \<open>string\<close> and a Go \<open>[]byte\<close> are both sequences of 8-bit bytes, and the code converts
  freely between them; both are modelled by \<^typ>\<open>char list\<close>, whose elements are exactly the
  256 byte values. A slice for which the code distinguishes \<open>nil\<close> is an \<open>option\<close>.
\<close>

section \<open>Types and collections\<close>

type_synonym bytes = string
type_synonym gotime = int   \<comment> \<open>\<open>time.Time\<close>, nanoseconds since the Unix epoch\<close>

named_theorems bytes_simps \<open>byte-level codecs: lengths, inverses, order\<close>
named_theorems bolt_simps \<open>what a bucket lookup returns after an update\<close>
named_theorems store_defs \<open>definitions of the store's operations\<close>
named_theorems inv_intros \<open>preservation lemmas of the store invariant\<close>

text \<open>\<open>time.Time{}\<close>: midnight, 1 January of year 1.\<close>

definition time_zero :: gotime where
  "time_zero = - 62135596800 * 1000000000"

section \<open>Errors\<close>

text \<open>
  The sentinel errors of the packages and libraries, plain \<open>errors.New\<close> texts (\<open>Err\<close>),
  \<open>fmt.Errorf\<close> with its format and arguments (\<open>ErrF\<close>), and \<open>fmt.Errorf\<close> with \<open>%w\<close>
  (\<open>ErrWrap\<close>), which keeps the wrapped error reachable for \<open>errors.Is\<close>.
\<close>

datatype err =
    ErrNotFound | ErrPassphraseRequired | ErrFileNotFound | ErrFileHashMismatch
  | ErrUnknownPeer | ErrKeyChanged | ErrBadBody | ErrBadName | ErrRoomPending
  | ErrFPMismatch | ErrBadPassphrase | ErrFrameTooLarge | ErrEmptyFrame
  | ErrEOF | ErrUnexpectedEOF | ErrRand | ErrKeyLength | ErrCorruptBase64
  | Err string
  | ErrF string "string list"
  | ErrWrap string err
  | Panic string   \<comment> \<open>a Go panic\<close>

type_synonym 'a result = "err + 'a"

fun errors_Is :: "err \<Rightarrow> err \<Rightarrow> bool" where
  "errors_Is (ErrWrap msg e) t = (ErrWrap msg e = t \<or> errors_Is e t)"
| "errors_Is e t = (e = t)"

definition bindR :: "'a result \<Rightarrow> ('a \<Rightarrow> 'b result) \<Rightarrow> 'b result" where
  "bindR r f = (case r of Inl e \<Rightarrow> Inl e | Inr x \<Rightarrow> f x)"

lemma bindR_simps [simp]:
  "bindR (Inl e) f = Inl e"
  "bindR (Inr x) f = f x"
  by (simp_all add: bindR_def)

lemma bindR_eq_Inr [simp]: "bindR r f = Inr y \<longleftrightarrow> (\<exists>x. r = Inr x \<and> f x = Inr y)"
  by (cases r) simp_all

text \<open>A sequence of checks, the first failing one giving the error.\<close>

fun checks :: "unit result list \<Rightarrow> unit result" where
  "checks [] = Inr ()"
| "checks (r # rs) = bindR r (\<lambda>_. checks rs)"

definition require :: "bool \<Rightarrow> err \<Rightarrow> unit result" where
  "require b e = (if b then Inr () else Inl e)"

lemma require_Inr [simp]: "require b e = Inr () \<longleftrightarrow> b"
  by (simp add: require_def)

lemma checks_Inr [simp]: "checks rs = Inr () \<longleftrightarrow> (\<forall>r\<in>set rs. r = Inr ())"
  by (induction rs) auto

definition wrap_err :: "string \<Rightarrow> 'a result \<Rightarrow> 'a result" where
  "wrap_err msg r = (case r of Inl e \<Rightarrow> Inl (ErrWrap msg e) | Inr x \<Rightarrow> Inr x)"

lemma wrap_err_Inr [simp]: "wrap_err msg r = Inr x \<longleftrightarrow> r = Inr x"
  by (cases r) (simp_all add: wrap_err_def)

text \<open>A loop that stops at the first error, as \<open>ForEach\<close> with an error-returning callback.\<close>

fun mapR :: "('a \<Rightarrow> 'b result) \<Rightarrow> 'a list \<Rightarrow> 'b list result" where
  "mapR f [] = Inr []"
| "mapR f (x # xs) = bindR (f x) (\<lambda>y. bindR (mapR f xs) (\<lambda>ys. Inr (y # ys)))"

lemma mapR_all_Inr: "(\<And>x. x \<in> set xs \<Longrightarrow> f x = Inr (g x)) \<Longrightarrow> mapR f xs = Inr (map g xs)"
  by (induction xs) simp_all

lemma mapR_length: "mapR f xs = Inr ys \<Longrightarrow> length ys = length xs"
  by (induction xs arbitrary: ys) auto

section \<open>Big-endian integers\<close>

text \<open>
  \<open>binary.BigEndian\<close>: the \<open>k\<close> low-order bytes of \<open>n\<close>, most significant first. The order of the
  encodings is the order of the numbers, which is what makes a sequence number usable as the
  tail of a database key.
\<close>

fun be_bytes :: "nat \<Rightarrow> nat \<Rightarrow> bytes" where
  "be_bytes 0 n = []"
| "be_bytes (Suc k) n = char_of (n div 256 ^ k) # be_bytes k (n mod 256 ^ k)"

definition be_nat :: "bytes \<Rightarrow> nat" where
  "be_nat bs = foldl (\<lambda>a b. a * 256 + of_char b) 0 bs"

lemma length_be_bytes [simp, bytes_simps]: "length (be_bytes k n) = k"
  by (induction k arbitrary: n) simp_all

lemma of_char_lt_256 [simp]: "(of_char (c :: char) :: nat) < 256"
  by (fact nat_of_char_less_256)

lemma of_char_le_255 [simp]: "(of_char (c :: char) :: nat) \<le> 255"
  using of_char_lt_256 [of c] by linarith

lemma char_of_inject: "\<lbrakk>m < 256; n < 256\<rbrakk> \<Longrightarrow> (char_of m = (char_of n :: char)) \<longleftrightarrow> m = n" for m n :: nat
  by (metis mod_less of_char_of)

lemma char_of_eq_of_char: "char_of n = c \<longleftrightarrow> n mod 256 = of_char c" for n :: nat
  by (metis char_of_char char_of_mod_256 of_char_of)

lemma foldl_be: "foldl (\<lambda>a b. a * 256 + of_char b) z bs =
    z * 256 ^ length bs + (foldl (\<lambda>a b. a * 256 + of_char b) 0 bs :: nat)"
proof (induction bs arbitrary: z)
  case Nil
  then show ?case by simp
next
  case (Cons b bs)
  show ?case
    using Cons [of "z * 256 + of_char b"] Cons [of "of_char b"]
    by (simp add: algebra_simps)
qed

lemma be_nat_Nil [simp]: "be_nat [] = 0"
  by (simp add: be_nat_def)

lemma be_nat_Cons [simp]: "be_nat (b # bs) = of_char b * 256 ^ length bs + be_nat bs"
  using foldl_be [of "of_char b" bs] by (simp add: be_nat_def)

lemma be_nat_be_bytes [simp, bytes_simps]: "be_nat (be_bytes k n) = n mod 256 ^ k"
proof (induction k arbitrary: n)
  case 0
  then show ?case by simp
next
  case (Suc k)
  have "n mod 256 ^ Suc k = n div 256 ^ k mod 256 * 256 ^ k + n mod 256 ^ k"
    by (metis mod_mult2_eq mult.commute power_Suc2)
  then show ?case by (simp add: Suc)
qed

lemma be_nat_less: "be_nat bs < 256 ^ length bs"
proof (induction bs)
  case Nil
  then show ?case by simp
next
  case (Cons b bs)
  have "of_char b * 256 ^ length bs \<le> (255 :: nat) * 256 ^ length bs"
    by (rule mult_right_mono) simp_all
  then show ?case using Cons unfolding be_nat_Cons length_Cons power_Suc by linarith
qed

lemma be_bytes_be_nat [bytes_simps]: "be_bytes (length bs) (be_nat bs) = bs"
proof (induction bs)
  case Nil
  then show ?case by simp
next
  case (Cons b bs)
  with be_nat_less [of bs] show ?case by simp
qed

lemma be_bytes_inj: "\<lbrakk>be_bytes k m = be_bytes k n; m < 256 ^ k; n < 256 ^ k\<rbrakk> \<Longrightarrow> m = n"
  by (metis be_nat_be_bytes mod_less)

lemma be_bytes_strict_mono: "\<lbrakk>m < n; n < 256 ^ k\<rbrakk> \<Longrightarrow> be_bytes k m < be_bytes k n"
proof (induction k arbitrary: m n)
  case 0
  then show ?case by simp
next
  case (Suc k)
  have b: "m div 256 ^ k < 256" "n div 256 ^ k < 256"
    using Suc.prems by (simp_all add: less_mult_imp_div_less)
  have le: "m div 256 ^ k \<le> n div 256 ^ k"
    using Suc.prems(1) by (simp add: div_le_mono)
  show ?case
  proof (cases "m div 256 ^ k = n div 256 ^ k")
    case True
    then have "m mod 256 ^ k < n mod 256 ^ k"
      using Suc.prems(1) by (metis div_mult_mod_eq nat_add_left_cancel_less)
    then have "be_bytes k (m mod 256 ^ k) < be_bytes k (n mod 256 ^ k)"
      by (rule Suc.IH) simp
    with True show ?thesis by simp
  next
    case False
    with le b show ?thesis by (simp add: less_char_def)
  qed
qed

text \<open>\<open>binary.BigEndian.PutUint64\<close> and \<open>Uint64\<close>.\<close>

definition PutUint64 :: "64 word \<Rightarrow> bytes" where
  "PutUint64 w = be_bytes 8 (unat w)"

definition Uint64 :: "bytes \<Rightarrow> 64 word" where
  "Uint64 bs = of_nat (be_nat bs)"

lemma unat_lt_256_8: "unat (w :: 64 word) < 256 ^ 8"
proof -
  have "unat w < 2 ^ LENGTH(64)" by (rule unsigned_less)
  then show ?thesis by simp
qed

lemma Uint64_PutUint64 [simp, bytes_simps]: "Uint64 (PutUint64 w) = w"
  using unat_lt_256_8 [of w] by (simp add: Uint64_def PutUint64_def)

lemma length_PutUint64 [simp, bytes_simps]: "length (PutUint64 w) = 8"
  by (simp add: PutUint64_def)

lemma PutUint64_less_iff [simp, bytes_simps]: "PutUint64 v < PutUint64 w \<longleftrightarrow> v < w"
proof -
  have "PutUint64 v < PutUint64 w" if "v < w" for v w
    using that unat_lt_256_8 [of w]
    by (simp add: PutUint64_def be_bytes_strict_mono word_less_nat_alt)
  then show ?thesis by (metis less_asym linorder_neqE)
qed

lemma PutUint64_inject [simp, bytes_simps]: "PutUint64 v = PutUint64 w \<longleftrightarrow> v = w"
  by (metis Uint64_PutUint64)

section \<open>Insertion sort\<close>

text \<open>
  \<open>sortBySeq\<close>, \<open>sortByRoomSeq\<close> and \<open>sortStrings\<close> are one algorithm on a slice:
  \<^verbatim>\<open>
  for i := 1; i < len(m); i++ {
    for j := i; j > 0 && less(m[j], m[j-1]); j-- { m[j], m[j-1] = m[j-1], m[j] }
  }
  \<close>
  \<open>sift_down\<close> is the inner loop and \<open>slice_sort\<close> the outer one, on the list as the array.
\<close>

fun sift_down :: "('a \<Rightarrow> 'a \<Rightarrow> bool) \<Rightarrow> nat \<Rightarrow> 'a list \<Rightarrow> 'a list" where
  "sift_down lt 0 m = m"
| "sift_down lt (Suc j) m =
     (if lt (m ! Suc j) (m ! j)
      then sift_down lt j (m[Suc j := m ! j, j := m ! Suc j]) else m)"

definition slice_sort :: "('a \<Rightarrow> 'a \<Rightarrow> bool) \<Rightarrow> 'a list \<Rightarrow> 'a list" where
  "slice_sort lt m = fold (sift_down lt) [1..<length m] m"

lemma length_sift_down [simp]: "length (sift_down lt j m) = length m"
  by (induction lt j m rule: sift_down.induct) simp_all

lemma sift_down_append:
  "j < length m \<Longrightarrow> sift_down lt j (m @ zs) = sift_down lt j m @ zs"
  by (induction lt j m rule: sift_down.induct)
    (simp_all add: nth_append list_update_append)

text \<open>Sifting the last element into a sorted list is a right-to-left ordered insertion.\<close>

lemma sift_down_snoc:
  fixes key :: "'a \<Rightarrow> 'k :: linorder"
  assumes "sorted (map key ys)"
  shows "sift_down (\<lambda>a b. key a < key b) (length ys) (ys @ [x]) =
    takeWhile (\<lambda>y. key y \<le> key x) ys @ [x] @ dropWhile (\<lambda>y. key y \<le> key x) ys"
  using assms
proof (induction ys rule: rev_induct)
  case Nil
  then show ?case by simp
next
  case (snoc y ys)
  have s: "sorted (map key ys)" and le: "\<forall>z\<in>set ys. key z \<le> key y"
    using snoc.prems by (auto simp: sorted_append)
  show ?case
  proof (cases "key x < key y")
    case True
    have "sift_down (\<lambda>a b. key a < key b) (length (ys @ [y])) ((ys @ [y]) @ [x])
        = sift_down (\<lambda>a b. key a < key b) (length ys) ((ys @ [x]) @ [y])"
      using True by (simp add: nth_append list_update_append)
    also have "\<dots> = sift_down (\<lambda>a b. key a < key b) (length ys) (ys @ [x]) @ [y]"
      by (rule sift_down_append) simp
    also have "\<dots> = (takeWhile (\<lambda>y. key y \<le> key x) ys @ [x]
        @ dropWhile (\<lambda>y. key y \<le> key x) ys) @ [y]"
      using snoc.IH [OF s] by simp
    finally show ?thesis
      using True by (auto simp: takeWhile_append dropWhile_append not_le)
  next
    case False
    then have "\<forall>z\<in>set (ys @ [y]). key z \<le> key x" using le by force
    then have t: "takeWhile (\<lambda>y. key y \<le> key x) (ys @ [y]) = ys @ [y]"
      and d: "dropWhile (\<lambda>y. key y \<le> key x) (ys @ [y]) = []"
      by (simp_all only: takeWhile_eq_all_conv dropWhile_eq_Nil_conv)
    show ?thesis using False by (simp only: t d) (simp add: nth_append)
  qed
qed

lemma slice_sort_snoc:
  "slice_sort lt (ys @ [x]) = sift_down lt (length ys) (slice_sort lt ys @ [x])"
proof -
  have f: "fold (sift_down lt) is (ys @ [x]) = fold (sift_down lt) is ys @ [x]"
    if "\<forall>i\<in>set is. i < length ys" for "is"
    using that
  proof (induction "is" arbitrary: ys)
    case Nil
    then show ?case by simp
  next
    case (Cons i "is")
    then show ?case by (simp add: sift_down_append)
  qed
  have u: "[1..<length (ys @ [x])] = (if ys = [] then [] else [1..<length ys] @ [length ys])"
    by (cases ys) simp_all
  have "fold (sift_down lt) [1..<length ys] (ys @ [x])
      = fold (sift_down lt) [1..<length ys] ys @ [x]"
    by (rule f) simp
  then show ?thesis by (cases ys) (simp_all add: slice_sort_def u)
qed

lemma length_slice_sort [simp]: "length (slice_sort lt m) = length m"
  by (induction m rule: rev_induct) (simp_all add: slice_sort_snoc slice_sort_def [of _ "[]"])

lemma sorted_insertion:
  fixes key :: "'a \<Rightarrow> 'k :: linorder"
  assumes "sorted (map key ys)"
  shows "sorted (map key (takeWhile (\<lambda>y. key y \<le> key x) ys @ [x]
    @ dropWhile (\<lambda>y. key y \<le> key x) ys))"
  using assms
proof (induction ys)
  case Nil
  then show ?case by simp
next
  case (Cons y ys)
  then show ?case
    by (fastforce dest: set_takeWhileD set_dropWhileD)
qed

lemma filter_insertion:
  fixes key :: "'a \<Rightarrow> 'k :: linorder"
  assumes "sorted (map key ys)"
  shows "filter (\<lambda>z. key k = key z) (takeWhile (\<lambda>y. key y \<le> key x) ys @ [x]
    @ dropWhile (\<lambda>y. key y \<le> key x) ys) = filter (\<lambda>z. key k = key z) (ys @ [x])"
  using assms
proof (induction ys)
  case Nil
  then show ?case by simp
next
  case (Cons y ys)
  show ?case
  proof (cases "key y \<le> key x")
    case True
    moreover have "sorted (map key ys)" using Cons.prems by simp
    ultimately show ?thesis using Cons.IH by (auto split: if_splits)
  next
    case False
    then have "\<forall>z\<in>set (y # ys). key z \<noteq> key x" using Cons.prems by fastforce
    then have "filter (\<lambda>z. key k = key z) (y # ys) = [] \<or> key k \<noteq> key x"
      by (auto simp: filter_empty_conv)
    with False show ?thesis by auto
  qed
qed

text \<open>The array loop computes the library's stable sort.\<close>

theorem slice_sort_eq_sort_key:
  fixes key :: "'a \<Rightarrow> 'k :: linorder"
  shows "slice_sort (\<lambda>a b. key a < key b) m = sort_key key m"
proof -
  let ?s = "slice_sort (\<lambda>a b. key a < key b)"
  have "mset (?s m) = mset m \<and> sorted (map key (?s m))
    \<and> (\<forall>k. filter (\<lambda>z. key k = key z) (?s m) = filter (\<lambda>z. key k = key z) m)"
  proof (induction m rule: rev_induct)
    case Nil
    then show ?case by (simp add: slice_sort_def)
  next
    case (snoc x m)
    then have s: "sorted (map key (?s m))" by blast
    have e: "?s (m @ [x]) = takeWhile (\<lambda>y. key y \<le> key x) (?s m) @ [x]
        @ dropWhile (\<lambda>y. key y \<le> key x) (?s m)"
      using sift_down_snoc [OF s, of x] by (simp add: slice_sort_snoc)
    have "mset (?s (m @ [x])) = mset (?s m @ [x])"
      unfolding e by simp (metis mset_append takeWhile_dropWhile_id)
    with snoc show ?case
      using sorted_insertion [OF s, of x] filter_insertion [OF s] by (simp add: e)
  qed
  then show ?thesis
    by (intro sym [OF properties_for_sort_key]) auto
qed

lemma sort_key_strict: "distinct (map f xs) \<Longrightarrow> sorted_wrt (<) (map f (sort_key f xs))"
  by (simp add: strict_sorted_iff) (simp add: distinct_map)

section \<open>Reversal in place\<close>

text \<open>
  \<^verbatim>\<open>for i, j := 0, len(out)-1; i < j; i, j = i+1, j-1 { out[i], out[j] = out[j], out[i] }\<close>
\<close>

fun swap_ends :: "nat \<Rightarrow> nat \<Rightarrow> 'a list \<Rightarrow> 'a list" where
  "swap_ends i j m = (if i < j then swap_ends (i + 1) (j - 1) (m[i := m ! j, j := m ! i]) else m)"

declare swap_ends.simps [simp del]

definition slice_reverse :: "'a list \<Rightarrow> 'a list" where
  "slice_reverse m = swap_ends 0 (length m - 1) m"

lemma swap_ends_segment:
  "swap_ends (length xs) (length xs + length ys - 1) (xs @ ys @ zs) = xs @ rev ys @ zs"
proof (induction ys arbitrary: xs zs rule: length_induct)
  case (1 ys)
  show ?case
  proof (cases "length ys < 2")
    case True
    then consider "ys = []" | y where "ys = [y]"
      by (metis One_nat_def Suc_1 length_0_conv length_Suc_conv less_2_cases)
    then show ?thesis by cases (subst swap_ends.simps, auto)+
  next
    case False
    then obtain a ys' b where ys: "ys = a # ys' @ [b]"
      by (metis One_nat_def Suc_1 length_Cons lessI less_Suc_eq list.exhaust list.size(3)
          rev_exhaust zero_less_Suc)
    let ?j = "length xs + length ys - 1"
    have s: "(xs @ ys @ zs)[length xs := (xs @ ys @ zs) ! ?j, ?j := (xs @ ys @ zs) ! length xs]
        = (xs @ [b]) @ ys' @ (a # zs)"
      by (simp add: ys nth_append list_update_append)
    have "swap_ends (length xs) ?j (xs @ ys @ zs)
        = swap_ends (length (xs @ [b])) (length (xs @ [b]) + length ys' - 1) ((xs @ [b]) @ ys' @ (a # zs))"
      unfolding swap_ends.simps [of "length xs"] s by (simp add: ys)
    also have "\<dots> = (xs @ [b]) @ rev ys' @ (a # zs)"
      by (rule 1 [rule_format]) (simp add: ys)
    finally show ?thesis by (simp add: ys)
  qed
qed

theorem slice_reverse_eq_rev: "slice_reverse m = rev m"
  using swap_ends_segment [of "[]" m "[]"] by (simp add: slice_reverse_def)

section \<open>Decimal numbers\<close>

text \<open>\<open>strconv.Itoa\<close> on a natural number.\<close>

fun Itoa :: "nat \<Rightarrow> string" where
  "Itoa n = (if n < 10 then [char_of (48 + n)] else Itoa (n div 10) @ [char_of (48 + n mod 10)])"

declare Itoa.simps [simp del]

text \<open>\<open>strconv.Itoa\<close> and \<open>%d\<close> on an \<open>int\<close>.\<close>

definition itoa :: "int \<Rightarrow> string" where
  "itoa i = (if i < 0 then ''-'' @ Itoa (nat (- i)) else Itoa (nat i))"

lemma set_Itoa: "c \<in> set (Itoa n) \<Longrightarrow> 48 \<le> (of_char c :: nat) \<and> (of_char c :: nat) \<le> 57"
proof (induction n rule: Itoa.induct)
  case (1 n)
  then show ?case by (subst (asm) (2) Itoa.simps) (auto split: if_splits)
qed

lemma Itoa_not_Nil [simp]: "Itoa n \<noteq> []"
  by (subst Itoa.simps) simp

end
