(* ===== verification/Go_Text.thy ===== *)
theory Go_Text
  imports Chirp_Prelude
begin

text \<open>
  What the repository uses of Go's text packages: UTF-8 decoding and \<open>range\<close> over a string
  (\<open>unicode/utf8\<close>), case mapping and trimming (\<open>strings\<close>, \<open>unicode\<close>), \<open>encoding/hex\<close> and
  \<open>encoding/base64\<close>.

  The Unicode case tables (\<open>unicode.ToLower\<close> and the simple-folding orbits behind
  \<open>strings.EqualFold\<close>) are data of the toolchain's Unicode version; they enter as the
  parameter record \<open>unicode\<close> and are consulted only for code points outside ASCII, as in the
  library. Everything else here is computed.
\<close>

section \<open>UTF-8\<close>

definition RuneError :: nat where "RuneError = 0xFFFD"

definition is_cont :: "nat \<Rightarrow> bool" where
  "is_cont b \<longleftrightarrow> 0x80 \<le> b \<and> b \<le> 0xBF"

text \<open>
  \<open>utf8.DecodeRuneInString\<close>: the code point and the number of bytes it takes; an ill-formed
  sequence gives \<open>(RuneError, 1)\<close>, the empty string \<open>(RuneError, 0)\<close>.
\<close>

definition DecodeRune :: "bytes \<Rightarrow> nat \<times> nat" where
  "DecodeRune s = (case map of_char (take 4 s) of
     [] \<Rightarrow> (RuneError, 0)
   | b0 # bs \<Rightarrow>
       if b0 < 0x80 then (b0, 1)
       else if 0xC2 \<le> b0 \<and> b0 \<le> 0xDF then
         (case bs of b1 # _ \<Rightarrow>
            if is_cont b1 then ((b0 - 0xC0) * 64 + (b1 - 0x80), 2) else (RuneError, 1)
          | [] \<Rightarrow> (RuneError, 1))
       else if 0xE0 \<le> b0 \<and> b0 \<le> 0xEF then
         (case bs of b1 # b2 # _ \<Rightarrow>
            if (if b0 = 0xE0 then 0xA0 else 0x80) \<le> b1 \<and> b1 \<le> (if b0 = 0xED then 0x9F else 0xBF)
               \<and> is_cont b2
            then ((b0 - 0xE0) * 4096 + (b1 - 0x80) * 64 + (b2 - 0x80), 3) else (RuneError, 1)
          | _ \<Rightarrow> (RuneError, 1))
       else if 0xF0 \<le> b0 \<and> b0 \<le> 0xF4 then
         (case bs of b1 # b2 # b3 # _ \<Rightarrow>
            if (if b0 = 0xF0 then 0x90 else 0x80) \<le> b1 \<and> b1 \<le> (if b0 = 0xF4 then 0x8F else 0xBF)
               \<and> is_cont b2 \<and> is_cont b3
            then ((b0 - 0xF0) * 262144 + (b1 - 0x80) * 4096 + (b2 - 0x80) * 64 + (b3 - 0x80), 4)
            else (RuneError, 1)
          | _ \<Rightarrow> (RuneError, 1))
       else (RuneError, 1))"

lemma DecodeRune_width: "s \<noteq> [] \<Longrightarrow> 1 \<le> snd (DecodeRune s)"
  by (cases s) (auto simp: DecodeRune_def split: list.splits)

text \<open>The code points of a string with the bytes of each, as \<open>range\<close> visits them.\<close>

function segs :: "bytes \<Rightarrow> (nat \<times> bytes) list" where
  "segs s = (if s = [] then []
     else (fst (DecodeRune s), take (snd (DecodeRune s)) s) # segs (drop (snd (DecodeRune s)) s))"
  by pat_completeness auto
termination
  by (relation "measure length") (use DecodeRune_width in \<open>fastforce simp: Suc_le_eq\<close>)+

declare segs.simps [simp del]

lemma segs_Nil [simp]: "segs [] = []"
  by (simp add: segs.simps)

definition runes :: "bytes \<Rightarrow> nat list" where
  "runes s = map fst (segs s)"

definition RuneCountInString :: "bytes \<Rightarrow> nat" where
  "RuneCountInString s = length (segs s)"

definition ValidString :: "bytes \<Rightarrow> bool" where
  "ValidString s \<longleftrightarrow> list_all (\<lambda>(r, c). \<not> (r = RuneError \<and> length c = 1)) (segs s)"

lemma concat_segs [simp]: "concat (map snd (segs s)) = s"
proof (induction s rule: segs.induct)
  case (1 s)
  then show ?case by (cases "s = []") (simp_all add: segs.simps [of s])
qed

text \<open>ASCII strings decode byte by byte.\<close>

abbreviation is_ascii :: "bytes \<Rightarrow> bool" where
  "is_ascii s \<equiv> \<forall>c\<in>set s. (of_char c :: nat) < 0x80"

lemma segs_ascii_Cons [simp]:
  assumes "(of_char c :: nat) < 0x80"
  shows "segs (c # s) = (of_char c, [c]) # segs s"
proof -
  have "DecodeRune (c # s) = (of_char c, 1)" using assms by (simp add: DecodeRune_def)
  then show ?thesis by (simp add: segs.simps [of "c # s"])
qed

lemma segs_ascii: "is_ascii s \<Longrightarrow> segs s = map (\<lambda>c. (of_char c, [c])) s"
  by (induction s) simp_all

lemma runes_ascii: "is_ascii s \<Longrightarrow> runes s = map of_char s"
  by (simp add: runes_def segs_ascii)

lemma ValidString_ascii: "is_ascii s \<Longrightarrow> ValidString s"
  by (auto simp: ValidString_def segs_ascii RuneError_def list_all_iff)

lemma RuneCount_le: "RuneCountInString s \<le> length s"
proof (induction s rule: segs.induct)
  case (1 s)
  show ?case
  proof (cases "s = []")
    case True
    then show ?thesis by (simp add: RuneCountInString_def)
  next
    case False
    have w: "1 \<le> snd (DecodeRune s)" by (rule DecodeRune_width [OF False])
    have "length (drop (snd (DecodeRune s)) s) < length s"
      using w False by (cases s) auto
    then show ?thesis
      using 1 False by (simp add: RuneCountInString_def segs.simps [of s])
  qed
qed

text \<open>\<open>utf8.AppendRune\<close>: surrogates and values beyond U+10FFFF encode as \<open>RuneError\<close>.\<close>

definition EncodeRune :: "nat \<Rightarrow> bytes" where
  "EncodeRune r0 = (let r = (if 0x10FFFF < r0 \<or> (0xD800 \<le> r0 \<and> r0 \<le> 0xDFFF) then RuneError else r0) in
     map char_of (if r < 0x80 then [r]
       else if r < 0x800 then [0xC0 + r div 64, 0x80 + r mod 64]
       else if r < 0x10000 then [0xE0 + r div 4096, 0x80 + r div 64 mod 64, 0x80 + r mod 64]
       else [0xF0 + r div 262144, 0x80 + r div 4096 mod 64, 0x80 + r div 64 mod 64, 0x80 + r mod 64]))"

section \<open>Case and space\<close>

record unicode =
  u_lower :: "nat \<Rightarrow> nat"           \<comment> \<open>\<open>unicode.ToLower\<close> outside ASCII\<close>
  u_fold :: "nat \<Rightarrow> nat \<Rightarrow> bool"     \<comment> \<open>same simple-folding orbit, one of the two outside ASCII\<close>

definition ascii_lower :: "nat \<Rightarrow> nat" where
  "ascii_lower r = (if 0x41 \<le> r \<and> r \<le> 0x5A then r + 0x20 else r)"

definition unicode_ToLower :: "('x) unicode_scheme \<Rightarrow> nat \<Rightarrow> nat" where
  "unicode_ToLower U r = (if r < 0x80 then ascii_lower r else u_lower U r)"

text \<open>\<open>strings.ToLower\<close>: byte-wise on ASCII strings, otherwise \<open>strings.Map(unicode.ToLower, s)\<close>.\<close>

definition ToLower :: "('x) unicode_scheme \<Rightarrow> bytes \<Rightarrow> bytes" where
  "ToLower U s =
     (if list_all (\<lambda>c. (of_char c :: nat) < 0x80) s
      then map (\<lambda>c. char_of (ascii_lower (of_char c))) s
      else concat (map (\<lambda>r. EncodeRune (unicode_ToLower U r)) (runes s)))"

text \<open>\<open>strings.EqualFold\<close>: equality of code points up to simple folding.\<close>

definition rune_EqualFold :: "('x) unicode_scheme \<Rightarrow> nat \<Rightarrow> nat \<Rightarrow> bool" where
  "rune_EqualFold U a b \<longleftrightarrow> a = b \<or>
     (if a < 0x80 \<and> b < 0x80 then ascii_lower a = ascii_lower b else u_fold U a b)"

definition EqualFold :: "('x) unicode_scheme \<Rightarrow> bytes \<Rightarrow> bytes \<Rightarrow> bool" where
  "EqualFold U s t \<longleftrightarrow> list_all2 (rune_EqualFold U) (runes s) (runes t)"

lemma EqualFold_refl [simp]: "EqualFold U s s"
  by (simp add: EqualFold_def rune_EqualFold_def list_all2_same)

lemma EqualFold_sym:
  assumes "\<And>a b. u_fold U a b \<Longrightarrow> u_fold U b a"
  shows "EqualFold U s t \<Longrightarrow> EqualFold U t s"
  unfolding EqualFold_def
  using assms by (auto simp: list_all2_conv_all_nth rune_EqualFold_def split: if_splits)

text \<open>On ASCII names the two notions of case-insensitivity agree.\<close>

lemma ascii_lower_lt: "r < 0x80 \<Longrightarrow> ascii_lower r < 0x80"
  by (auto simp: ascii_lower_def)

lemma EqualFold_ascii:
  assumes "is_ascii s" "is_ascii t"
  shows "EqualFold U s t \<longleftrightarrow> ToLower U s = ToLower U t"
proof -
  let ?l = "\<lambda>c. char_of (ascii_lower (of_char c)) :: char"
  have inj: "?l a = ?l b \<longleftrightarrow> ascii_lower (of_char a) = ascii_lower (of_char b)"
    if "(of_char a :: nat) < 0x80" "(of_char b :: nat) < 0x80" for a b
  proof -
    have "ascii_lower (of_char a) < 0x80" "ascii_lower (of_char b) < 0x80"
      using that by (simp_all add: ascii_lower_lt)
    then show ?thesis by (simp add: char_of_inject)
  qed
  have "EqualFold U s t \<longleftrightarrow>
      list_all2 (\<lambda>a b. ascii_lower (of_char a) = ascii_lower (of_char b)) s t"
    using assms unfolding EqualFold_def runes_ascii [OF assms(1)] runes_ascii [OF assms(2)]
    by (auto simp: list_all2_conv_all_nth rune_EqualFold_def)
  also have "\<dots> \<longleftrightarrow> map ?l s = map ?l t"
    using assms inj by (auto simp: list_all2_conv_all_nth list_eq_iff_nth_eq)
  finally show ?thesis using assms by (simp add: ToLower_def list_all_iff)
qed

text \<open>\<open>unicode.IsSpace\<close> and \<open>strings.TrimSpace\<close>.\<close>

definition IsSpace :: "nat \<Rightarrow> bool" where
  "IsSpace r \<longleftrightarrow> r \<in> {0x09, 0x0A, 0x0B, 0x0C, 0x0D, 0x20, 0x85, 0xA0, 0x1680, 0x2028, 0x2029,
     0x202F, 0x205F, 0x3000} \<or> (0x2000 \<le> r \<and> r \<le> 0x200A)"

definition TrimSpace :: "bytes \<Rightarrow> bytes" where
  "TrimSpace s = concat (map snd (rev (dropWhile (\<lambda>e. IsSpace (fst e))
     (rev (dropWhile (\<lambda>e. IsSpace (fst e)) (segs s))))))"

section \<open>Searching\<close>

text \<open>\<open>strings.Index\<close> (\<open>None\<close> for -1), \<open>strings.Contains\<close> and \<open>strings.Cut\<close>.\<close>

fun strings_Index :: "bytes \<Rightarrow> bytes \<Rightarrow> nat option" where
  "strings_Index s sub =
     (if prefix sub s then Some 0
      else case s of [] \<Rightarrow> None | _ # s' \<Rightarrow> map_option Suc (strings_Index s' sub))"

declare strings_Index.simps [simp del]

definition strings_Contains :: "bytes \<Rightarrow> bytes \<Rightarrow> bool" where
  "strings_Contains s sub \<longleftrightarrow> strings_Index s sub \<noteq> None"

definition strings_Cut :: "bytes \<Rightarrow> bytes \<Rightarrow> bytes \<times> bytes \<times> bool" where
  "strings_Cut s sep = (case strings_Index s sep of
     Some i \<Rightarrow> (take i s, drop (i + length sep) s, True) | None \<Rightarrow> (s, [], False))"

lemma strings_Index_Some:
  "strings_Index s sub = Some i \<Longrightarrow> i + length sub \<le> length s \<and> take (length sub) (drop i s) = sub"
proof (induction s arbitrary: i)
  case Nil
  then show ?case by (simp add: strings_Index.simps [of "[]"] split: if_splits)
next
  case (Cons c s)
  show ?case
  proof (cases "prefix sub (c # s)")
    case True
    with Cons.prems have "i = 0" by (simp add: strings_Index.simps [of "c # s"])
    with True show ?thesis using prefix_length_le [OF True] by (auto simp: prefix_def)
  next
    case False
    with Cons show ?thesis by (auto simp: strings_Index.simps [of "c # s"])
  qed
qed

section \<open>Hexadecimal\<close>

definition hex_digit :: "nat \<Rightarrow> char" where
  "hex_digit n = char_of (if n < 10 then 0x30 + n else 0x57 + n)"

definition hex_value :: "char \<Rightarrow> nat option" where
  "hex_value c = (let b = of_char c in
     if 0x30 \<le> b \<and> b \<le> 0x39 then Some (b - 0x30)
     else if 0x61 \<le> b \<and> b \<le> 0x66 then Some (b - 0x57)
     else if 0x41 \<le> b \<and> b \<le> 0x46 then Some (b - 0x37)
     else None)"

definition hex_EncodeToString :: "bytes \<Rightarrow> string" where
  "hex_EncodeToString bs =
     concat (map (\<lambda>b. [hex_digit (of_char b div 16), hex_digit (of_char b mod 16)]) bs)"

fun hex_DecodeString :: "string \<Rightarrow> bytes option" where
  "hex_DecodeString [] = Some []"
| "hex_DecodeString [x] = None"
| "hex_DecodeString (x # y # zs) =
     (case (hex_value x, hex_value y, hex_DecodeString zs) of
        (Some a, Some b, Some bs) \<Rightarrow> Some (char_of (a * 16 + b) # bs)
      | _ \<Rightarrow> None)"

lemma hex_value_digit: "n < 16 \<Longrightarrow> hex_value (hex_digit n) = Some n"
  by (auto simp: hex_value_def hex_digit_def of_char_of)

lemma length_hex_EncodeToString [simp, bytes_simps]: "length (hex_EncodeToString bs) = 2 * length bs"
  by (induction bs) (simp_all add: hex_EncodeToString_def)

lemma hex_roundtrip [simp, bytes_simps]: "hex_DecodeString (hex_EncodeToString bs) = Some bs"
proof (induction bs)
  case Nil
  then show ?case by (simp add: hex_EncodeToString_def)
next
  case (Cons b bs)
  have "(of_char b :: nat) div 16 < 16" using of_char_lt_256 [of b] by linarith
  with Cons show ?case by (simp add: hex_EncodeToString_def hex_value_digit)
qed

section \<open>Base64\<close>

definition b64_char :: "nat \<Rightarrow> char" where
  "b64_char n = (''ABCDEFGHIJKLMNOPQRSTUVWXYZabcdefghijklmnopqrstuvwxyz0123456789+/'' ! (n mod 64))"

definition b64_value :: "char \<Rightarrow> nat option" where
  "b64_value c = (let b = of_char c in
     if 0x41 \<le> b \<and> b \<le> 0x5A then Some (b - 0x41)
     else if 0x61 \<le> b \<and> b \<le> 0x7A then Some (b - 0x61 + 26)
     else if 0x30 \<le> b \<and> b \<le> 0x39 then Some (b - 0x30 + 52)
     else if b = 0x2B then Some 62
     else if b = 0x2F then Some 63
     else None)"

fun base64_EncodeToString :: "bytes \<Rightarrow> string" where
  "base64_EncodeToString [] = []"
| "base64_EncodeToString [a] = (let n = of_char a * 65536 in
     [b64_char (n div 262144), b64_char (n div 4096), CHR ''='', CHR ''=''])"
| "base64_EncodeToString [a, b] = (let n = of_char a * 65536 + of_char b * 256 in
     [b64_char (n div 262144), b64_char (n div 4096), b64_char (n div 64), CHR ''=''])"
| "base64_EncodeToString (a # b # c # bs) =
     (let n = of_char a * 65536 + of_char b * 256 + of_char c in
      b64_char (n div 262144) # b64_char (n div 4096) # b64_char (n div 64) # b64_char n
        # base64_EncodeToString bs)"

text \<open>
  \<open>base64.StdEncoding.DecodeString\<close>: carriage returns and line feeds are skipped, padding is
  required, and nothing may follow it. \<open>None\<close> is \<open>CorruptInputError\<close>.
\<close>

fun b64_quanta :: "string \<Rightarrow> bytes option" where
  "b64_quanta [] = Some []"
| "b64_quanta (w # x # y # z # rest) =
     (case (b64_value w, b64_value x) of
        (Some a, Some b) \<Rightarrow>
          if y = CHR ''='' then
            (if z = CHR ''='' \<and> rest = [] then Some [char_of ((a * 64 + b) div 16)] else None)
          else (case b64_value y of None \<Rightarrow> None | Some c \<Rightarrow>
            if z = CHR ''='' then
              (if rest = [] then
                 Some [char_of ((a * 64 + b) div 16), char_of ((a * 4096 + b * 64 + c) div 4)]
               else None)
            else (case (b64_value z, b64_quanta rest) of
                (Some d, Some bs) \<Rightarrow>
                  Some (char_of ((a * 64 + b) div 16) # char_of ((a * 4096 + b * 64 + c) div 4)
                    # char_of (c * 64 + d) # bs)
              | _ \<Rightarrow> None))
      | _ \<Rightarrow> None)"
| "b64_quanta _ = None"

definition base64_DecodeString :: "string \<Rightarrow> bytes option" where
  "base64_DecodeString s = b64_quanta (filter (\<lambda>c. c \<noteq> CHR 0x0A \<and> c \<noteq> CHR 0x0D) s)"

lemma b64_value_char [simp]: "b64_value (b64_char n) = Some (n mod 64)"
proof -
  let ?alphabet = "''ABCDEFGHIJKLMNOPQRSTUVWXYZabcdefghijklmnopqrstuvwxyz0123456789+/''"
  have "map b64_value ?alphabet = map Some [0..<64]"
    by (simp add: b64_value_def upt_rec)
  then have "map b64_value ?alphabet ! (n mod 64) = map Some [0..<64] ! (n mod 64)"
    by (rule arg_cong)
  then show ?thesis
    by (subst (asm) (1 2) nth_map) (simp_all add: b64_char_def)
qed

lemma b64_char_not_special [simp]:
  "b64_char n \<noteq> CHR ''=''" "b64_char n \<noteq> CHR 0x0A" "b64_char n \<noteq> CHR 0x0D"
proof -
  have "b64_value (CHR ''='') = None" "b64_value (CHR 0x0A) = None" "b64_value (CHR 0x0D) = None"
    by (simp_all add: b64_value_def)
  then show "b64_char n \<noteq> CHR ''=''" "b64_char n \<noteq> CHR 0x0A" "b64_char n \<noteq> CHR 0x0D"
    using b64_value_char [of n] by force+
qed

text \<open>Three bytes as four sextets, and back.\<close>

lemma div_eqI: "n = q * k + r \<Longrightarrow> r < k \<Longrightarrow> n div k = q" for n :: nat
  by simp

lemma mod_eqI: "n = q * k + r \<Longrightarrow> r < k \<Longrightarrow> n mod k = r" for n :: nat
  by simp

lemma sextets:
  fixes p q r s t u :: nat
  assumes "p < 64" "q < 4" "r < 16" "s < 16" "t < 4" "u < 64"
  defines "n \<equiv> (p * 4 + q) * 65536 + (r * 16 + s) * 256 + (t * 64 + u)"
  shows "n div 262144 mod 64 = p" "n div 4096 mod 64 = q * 16 + r"
    "n div 64 mod 64 = s * 4 + t" "n mod 64 = u"
proof -
  have "n div 262144 = p" unfolding n_def
    by (rule div_eqI [where r = "q * 65536 + r * 4096 + s * 256 + t * 64 + u"]) (use assms(1-6) in \<open>simp_all add: distrib_right\<close>)
  then show "n div 262144 mod 64 = p" using assms by simp
  have "n div 4096 = p * 64 + (q * 16 + r)" unfolding n_def
    by (rule div_eqI [where r = "s * 256 + t * 64 + u"]) (use assms(1-6) in \<open>simp_all add: distrib_right\<close>)
  then show "n div 4096 mod 64 = q * 16 + r" using assms by (simp add: mod_eqI)
  have "n div 64 = (p * 4096 + q * 1024 + r * 64) + (s * 4 + t)" unfolding n_def
    by (rule div_eqI [where r = u]) (use assms(1-6) in \<open>simp_all add: distrib_right\<close>)
  then show "n div 64 mod 64 = s * 4 + t"
    by (intro mod_eqI [where q = "p * 64 + q * 16 + r"]) (use assms(1-6) in \<open>simp_all add: distrib_right\<close>)
  show "n mod 64 = u" unfolding n_def
    by (rule mod_eqI [where q = "p * 4096 + q * 1024 + r * 64 + s * 4 + t"]) (use assms(1-6) in \<open>simp_all add: distrib_right\<close>)
qed

lemma sextets_back:
  fixes p q r s t u :: nat
  assumes "p < 64" "q < 4" "r < 16" "s < 16" "t < 4" "u < 64"
  shows "(p * 64 + (q * 16 + r)) div 16 = p * 4 + q"
   "(p * 4096 + (q * 16 + r) * 64 + (s * 4 + t)) div 4 mod 256 = r * 16 + s"
   "((s * 4 + t) * 64 + u) mod 256 = t * 64 + u"
proof -
  show "(p * 64 + (q * 16 + r)) div 16 = p * 4 + q"
    by (rule div_eqI [where r = r]) (use assms(1-6) in \<open>simp_all add: distrib_right\<close>)
  have "(p * 4096 + (q * 16 + r) * 64 + (s * 4 + t)) div 4 = (p * 4 + q) * 256 + (r * 16 + s)"
    by (rule div_eqI [where r = t]) (use assms(1-6) in \<open>simp_all add: distrib_right\<close>)
  then show "(p * 4096 + (q * 16 + r) * 64 + (s * 4 + t)) div 4 mod 256 = r * 16 + s"
    by (intro mod_eqI [where q = "p * 4 + q"]) (use assms(1-6) in \<open>simp_all add: distrib_right\<close>)
  show "((s * 4 + t) * 64 + u) mod 256 = t * 64 + u"
    by (rule mod_eqI [where q = s]) (use assms(1-6) in \<open>simp_all add: distrib_right\<close>)
qed

lemma three_bytes:
  fixes a b c :: nat
  assumes "a < 256" "b < 256" "c < 256"
  defines "n \<equiv> a * 65536 + b * 256 + c"
  shows "(n div 262144 mod 64 * 64 + n div 4096 mod 64) div 16 = a"
    "(n div 262144 mod 64 * 4096 + n div 4096 mod 64 * 64 + n div 64 mod 64) div 4 mod 256 = b"
    "(n div 64 mod 64 * 64 + n mod 64) mod 256 = c"
proof -
  define p q r s t u where "p = a div 4" "q = a mod 4" "r = b div 16" "s = b mod 16" "t = c div 64" "u = c mod 64"
  note d = p_q_r_s_t_u_def
  have bnd: "p < 64" "q < 4" "r < 16" "s < 16" "t < 4" "u < 64"
    using assms by (simp_all add: d less_mult_imp_div_less)
  have abc: "a = p * 4 + q" "b = r * 16 + s" "c = t * 64 + u" by (simp_all add: d)
  note n = n_def [unfolded abc]
  show "(n div 262144 mod 64 * 64 + n div 4096 mod 64) div 16 = a"
    unfolding n sextets [OF bnd] sextets_back [OF bnd] abc ..
  show "(n div 262144 mod 64 * 4096 + n div 4096 mod 64 * 64 + n div 64 mod 64) div 4 mod 256 = b"
    unfolding n sextets [OF bnd] sextets_back [OF bnd] abc ..
  show "(n div 64 mod 64 * 64 + n mod 64) mod 256 = c"
    unfolding n sextets [OF bnd] sextets_back [OF bnd] abc ..
qed

lemma b64_quanta_encode: "b64_quanta (base64_EncodeToString bs) = Some bs"
proof (induction bs rule: base64_EncodeToString.induct)
  case 1
  then show ?case by simp
next
  case (2 a)
  have "(of_char a :: nat) div 4 mod 64 = of_char a div 4"
    using of_char_lt_256 [of a] by (simp add: less_mult_imp_div_less)
  then show ?case
    using three_bytes(1) [of "of_char a" 0 0] by (simp add: Let_def char_of_eq_of_char)
next
  case (3 a b)
  show ?case
    using three_bytes(1,2) [of "of_char a" "of_char b" 0]
    by (simp add: Let_def char_of_eq_of_char)
next
  case (4 a b c bs)
  define n :: nat where "n = of_char a * 65536 + of_char b * 256 + of_char c"
  have e: "char_of ((n div 262144 mod 64 * 64 + n div 4096 mod 64) div 16) = a"
    "char_of ((n div 262144 mod 64 * 4096 + n div 4096 mod 64 * 64 + n div 64 mod 64) div 4) = b"
    "char_of (n div 64 mod 64 * 64 + n mod 64) = c"
    using three_bytes [of "of_char a" "of_char b" "of_char c"]
    by (simp_all only: char_of_eq_of_char n_def of_char_lt_256 of_char_mod_256)
  show ?case
    by (simp only: base64_EncodeToString.simps Let_def n_def [symmetric] b64_quanta.simps
        b64_value_char prod.case option.case b64_char_not_special if_False "4" [OF refl] e)
qed

lemma set_base64: "c \<in> set (base64_EncodeToString bs) \<Longrightarrow> c \<noteq> CHR 0x0A \<and> c \<noteq> CHR 0x0D"
  by (induction bs rule: base64_EncodeToString.induct) (auto simp: Let_def)

lemma base64_roundtrip [simp, bytes_simps]:
  "base64_DecodeString (base64_EncodeToString bs) = Some bs"
proof -
  have "filter (\<lambda>c. c \<noteq> CHR 0x0A \<and> c \<noteq> CHR 0x0D) (base64_EncodeToString bs)
      = base64_EncodeToString bs"
    using set_base64 by (auto simp: filter_id_conv)
  then show ?thesis by (simp add: base64_DecodeString_def b64_quanta_encode)
qed

lemma length_base64 [bytes_simps]:
  "length (base64_EncodeToString bs) = (length bs + 2) div 3 * 4"
  by (induction bs rule: base64_EncodeToString.induct) (simp_all add: Let_def, presburger)

section \<open>Encoding inverts decoding\<close>

lemma DecodeRune_take: "s \<noteq> [] \<Longrightarrow> DecodeRune s = (r, w) \<Longrightarrow> \<not> (r = RuneError \<and> w = 1) \<Longrightarrow>
    w \<le> length s \<and> DecodeRune (take w s @ t) = (r, w)"
  by (cases s; cases "tl s"; cases "tl (tl s)"; cases "tl (tl (tl s))")
    (auto simp: DecodeRune_def split: if_splits)


lemma two_base: "x < 64 \<Longrightarrow> (a * 64 + x) div 64 = a" "x < 64 \<Longrightarrow> (a * 64 + x) mod 64 = x" for a x :: nat
  by simp_all

lemma EncodeRune_ascii: "r < 0x80 \<Longrightarrow> EncodeRune r = [char_of r]"
  by (simp add: EncodeRune_def Let_def)

lemma EncodeRune_2:
  assumes "2 \<le> a" "a < 32" "x < 64"
  shows "EncodeRune (a * 64 + x) = map char_of [0xC0 + a, 0x80 + x]"
proof -
  have "0x80 \<le> a * 64 + x" "a * 64 + x < 0x800" using assms by linarith+
  with assms show ?thesis by (simp add: EncodeRune_def two_base)
qed

lemma EncodeRune_3:
  assumes "a < 16" "x < 64" "y < 64" "a = 0 \<Longrightarrow> 32 \<le> x" "a = 13 \<Longrightarrow> x < 32"
  shows "EncodeRune (a * 4096 + x * 64 + y) = map char_of [0xE0 + a, 0x80 + x, 0x80 + y]"
proof -
  define r where "r = a * 4096 + x * 64 + y"
  have lo: "0x800 \<le> r" "r < 0x10000" using assms(1-4) unfolding r_def by (cases "a = 0"; linarith)+
  have sur: "\<not> (0xD800 \<le> r \<and> r \<le> 0xDFFF)"
    using assms unfolding r_def by (cases "a = 13"; cases "a < 13") auto
  have "r div 4096 = a" unfolding r_def
    by (rule div_eqI [where r = "x * 64 + y"]) (use assms(1-3) in simp_all)
  moreover have "r div 64 = a * 64 + x" unfolding r_def
    by (rule div_eqI [where r = y]) (use assms(1-3) in simp_all)
  moreover have "r mod 64 = y" unfolding r_def
    by (rule mod_eqI [where q = "a * 64 + x"]) (use assms(1-3) in simp_all)
  ultimately show ?thesis using lo sur assms(2) unfolding r_def [symmetric] by (auto simp: EncodeRune_def two_base)
qed

lemma EncodeRune_4:
  assumes "a < 5" "x < 64" "y < 64" "z < 64" "a = 0 \<Longrightarrow> 16 \<le> x" "a = 4 \<Longrightarrow> x < 16"
  shows "EncodeRune (a * 262144 + x * 4096 + y * 64 + z) = map char_of [0xF0 + a, 0x80 + x, 0x80 + y, 0x80 + z]"
proof -
  define r where "r = a * 262144 + x * 4096 + y * 64 + z"
  have lo: "0x10000 \<le> r" "r \<le> 0x10FFFF" using assms unfolding r_def by (cases "a = 0"; cases "a = 4"; linarith)+
  have "r div 262144 = a" unfolding r_def
    by (rule div_eqI [where r = "x * 4096 + y * 64 + z"]) (use assms(1-4) in simp_all)
  moreover have "r div 4096 = a * 64 + x" unfolding r_def
    by (rule div_eqI [where r = "y * 64 + z"]) (use assms(1-4) in simp_all)
  moreover have "r div 64 = (a * 64 + x) * 64 + y" unfolding r_def
    by (rule div_eqI [where r = z]) (use assms(1-4) in simp_all)
  then have "r div 64 mod 64 = y" using assms(3) by (simp only: two_base)
  moreover have "r mod 64 = z" unfolding r_def
    by (rule mod_eqI [where q = "(a * 64 + x) * 64 + y"]) (use assms(1-4) in simp_all)
  ultimately show ?thesis using lo assms(2,3) unfolding r_def [symmetric] by (simp add: EncodeRune_def two_base)
qed

text \<open>A well-formed sequence is the encoding of the code point it decodes to.\<close>

lemma char_of_back: "k \<le> of_char c \<Longrightarrow> char_of (k + (of_char c - k)) = c" for k :: nat
  by simp

lemma EncodeRune_DecodeRune:
  assumes "DecodeRune (c # cs) = (r, w)" "\<not> (r = RuneError \<and> w = 1)"
  shows "EncodeRune r = take w (c # cs) \<and> (r < 0x80 \<longleftrightarrow> w = 1)"
proof -
  let ?n = "of_char :: char \<Rightarrow> nat"
  consider "?n c < 0x80" | "0xC2 \<le> ?n c" "?n c \<le> 0xDF" | "0xE0 \<le> ?n c" "?n c \<le> 0xEF" | "0xF0 \<le> ?n c" "?n c \<le> 0xF4"
    using assms by (auto simp: DecodeRune_def split: if_splits)
  then show ?thesis
  proof cases
    case 1
    then have "r = ?n c" "w = 1" using assms by (simp_all add: DecodeRune_def)
    with 1 show ?thesis by (simp add: EncodeRune_def)
  next
    case 2
    then obtain c1 ds where d: "cs = c1 # ds" "is_cont (?n c1)" "r = (?n c - 0xC0) * 64 + (?n c1 - 0x80)" "w = 2"
      using assms by (cases cs) (auto simp: DecodeRune_def split: if_splits)
    have "EncodeRune r = map char_of [0xC0 + (?n c - 0xC0), 0x80 + (?n c1 - 0x80)]"
      unfolding d(3) by (rule EncodeRune_2) (use 2 d(2) in \<open>auto simp: is_cont_def\<close>)
    with 2 d show ?thesis by (auto simp: is_cont_def char_of_back)
  next
    case 3
    then obtain c1 c2 ds where d: "cs = c1 # c2 # ds" "is_cont (?n c1)" "is_cont (?n c2)"
      "?n c = 0xE0 \<Longrightarrow> 0xA0 \<le> ?n c1" "?n c = 0xED \<Longrightarrow> ?n c1 \<le> 0x9F"
      "r = (?n c - 0xE0) * 4096 + (?n c1 - 0x80) * 64 + (?n c2 - 0x80)" "w = 3"
      using assms by (cases cs; cases "tl cs") (auto simp: DecodeRune_def is_cont_def split: if_splits)
    have "EncodeRune r = map char_of [0xE0 + (?n c - 0xE0), 0x80 + (?n c1 - 0x80), 0x80 + (?n c2 - 0x80)]"
      unfolding d(6) by (rule EncodeRune_3) (use 3 d(2-5) in \<open>(cases "?n c = 0xED"; auto simp: is_cont_def)+\<close>)
    moreover have "0x80 \<le> r" using 3 d(2-6) by (cases "?n c = 0xE0") (auto simp: is_cont_def)
    ultimately show ?thesis using 3 d by (simp add: is_cont_def char_of_back)
  next
    case 4
    then obtain c1 c2 c3 ds where d: "cs = c1 # c2 # c3 # ds" "is_cont (?n c1)" "is_cont (?n c2)" "is_cont (?n c3)"
      "?n c = 0xF0 \<Longrightarrow> 0x90 \<le> ?n c1" "?n c = 0xF4 \<Longrightarrow> ?n c1 \<le> 0x8F"
      "r = (?n c - 0xF0) * 262144 + (?n c1 - 0x80) * 4096 + (?n c2 - 0x80) * 64 + (?n c3 - 0x80)" "w = 4"
      using assms by (cases cs; cases "tl cs"; cases "tl (tl cs)") (auto simp: DecodeRune_def is_cont_def split: if_splits)
    have "EncodeRune r = map char_of [0xF0 + (?n c - 0xF0), 0x80 + (?n c1 - 0x80), 0x80 + (?n c2 - 0x80), 0x80 + (?n c3 - 0x80)]"
      unfolding d(7) by (rule EncodeRune_4) (use 4 d(2-6) in \<open>(cases "?n c = 0xF4"; auto simp: is_cont_def)+\<close>)
    moreover have "0x80 \<le> r" using 4 d(2-7) by (cases "?n c = 0xF0") (auto simp: is_cont_def)
    ultimately show ?thesis using 4 d by (simp add: is_cont_def char_of_back)
  qed
qed

lemma DecodeRune_width_le: "snd (DecodeRune s) \<le> 4"
  by (auto simp: DecodeRune_def split: list.splits)

lemma length_le_RuneCount: "length s \<le> 4 * RuneCountInString s"
proof (induction s rule: segs.induct)
  case (1 s)
  show ?case
  proof (cases "s = []")
    case False
    let ?w = "snd (DecodeRune s)"
    have "length (drop ?w s) \<le> 4 * RuneCountInString (drop ?w s)" using False by (rule 1)
    moreover have "RuneCountInString s = Suc (RuneCountInString (drop ?w s))"
      using False by (simp add: RuneCountInString_def segs.simps [of s])
    ultimately show ?thesis using DecodeRune_width_le [of s] by simp
  qed simp
qed

end
