(* ===== verification/Platform.thy ===== *)
theory Platform
  imports Go_Text
begin

text \<open>
  The code outside the repository that the modelled packages call, as one parameter record:
  the Unicode tables, SHA-256, ChaCha20-Poly1305, HKDF, Argon2id, scrypt and the derivation of
  an X25519 public key. Definitions take the record as their first argument; what the code
  relies on of it is stated by the predicates below and appears as a named hypothesis.
\<close>

record env = unicode +
  sha256 :: "bytes \<Rightarrow> bytes"
  aead_Seal :: "bytes \<Rightarrow> bytes \<Rightarrow> bytes \<Rightarrow> bytes \<Rightarrow> bytes"          \<comment> \<open>key, nonce, plaintext, additional data\<close>
  aead_Open :: "bytes \<Rightarrow> bytes \<Rightarrow> bytes \<Rightarrow> bytes \<Rightarrow> bytes option"   \<comment> \<open>key, nonce, ciphertext, additional data\<close>
  hkdf_sha256 :: "bytes \<Rightarrow> bytes \<Rightarrow> nat \<Rightarrow> bytes"                 \<comment> \<open>secret, info, length\<close>
  argon2id :: "bytes \<Rightarrow> bytes \<Rightarrow> nat \<Rightarrow> nat \<Rightarrow> nat \<Rightarrow> nat \<Rightarrow> bytes" \<comment> \<open>password, salt, time, memory, threads, length\<close>
  scrypt_Key :: "bytes \<Rightarrow> bytes \<Rightarrow> nat \<Rightarrow> nat \<Rightarrow> nat \<Rightarrow> nat \<Rightarrow> bytes" \<comment> \<open>password, salt, N, r, p, length\<close>
  x25519_public :: "bytes \<Rightarrow> bytes"                               \<comment> \<open>public key of a private key\<close>

text \<open>Random bytes read from the system; \<open>None\<close> is a failing \<open>rand.Read\<close>.\<close>

type_synonym rnd = "bytes option"

text \<open>Authenticated encryption opens what it sealed, and the tag takes 16 bytes.\<close>

definition aead_ok :: "env \<Rightarrow> bool" where
  "aead_ok E \<longleftrightarrow> (\<forall>k n p a. length k = 32 \<longrightarrow> length n = 12 \<longrightarrow>
     aead_Open E k n (aead_Seal E k n p a) a = Some p \<and> length (aead_Seal E k n p a) = length p + 16)"

text \<open>The key derivations return as many bytes as asked for.\<close>

definition kdf_ok :: "env \<Rightarrow> bool" where
  "kdf_ok E \<longleftrightarrow> (\<forall>s i n. length (hkdf_sha256 E s i n) = n)
     \<and> (\<forall>p s t m h n. length (argon2id E p s t m h n) = n)
     \<and> (\<forall>p s n r h l. length (scrypt_Key E p s n r h l) = l)"

definition sha256_ok :: "env \<Rightarrow> bool" where
  "sha256_ok E \<longleftrightarrow> (\<forall>b. length (sha256 E b) = 32)"

lemma aead_okD:
  "\<lbrakk>aead_ok E; length k = 32; length n = 12\<rbrakk> \<Longrightarrow> aead_Open E k n (aead_Seal E k n p a) a = Some p"
  "\<lbrakk>aead_ok E; length k = 32; length n = 12\<rbrakk> \<Longrightarrow> length (aead_Seal E k n p a) = length p + 16"
  by (simp_all add: aead_ok_def)

text \<open>
  A concrete platform, so that statements with these hypotheses can be instantiated. It is not
  the real cryptography: sealing appends the key's and nonce's first bytes as a tag, the hash
  pads or truncates. Its case tables know the one non-ASCII orbit of \<open>s\<close> (U+017F, the long s),
  which lower-cases to itself.
\<close>

definition pad :: "nat \<Rightarrow> bytes \<Rightarrow> bytes" where
  "pad n b = take n (b @ replicate n (CHR 0x00))"

definition sample_env :: env where
  "sample_env = \<lparr>
     u_lower = (\<lambda>r. r),
     u_fold = (\<lambda>a b. {a, b} = {0x17F, 0x73} \<or> {a, b} = {0x17F, 0x53}),
     sha256 = pad 32,
     aead_Seal = (\<lambda>k n p a. p @ take 8 k @ take 8 n),
     aead_Open = (\<lambda>k n c a. if 16 \<le> length c \<and> drop (length c - 16) c = take 8 k @ take 8 n
        then Some (take (length c - 16) c) else None),
     hkdf_sha256 = (\<lambda>s i n. pad n s),
     argon2id = (\<lambda>p s t m h n. pad n (p @ s)),
     scrypt_Key = (\<lambda>p s N r h n. pad n (p @ s)),
     x25519_public = rev\<rparr>"

lemma length_pad [simp]: "length (pad n b) = n"
  by (simp add: pad_def)

lemma sample_env_ok [simp]: "aead_ok sample_env" "kdf_ok sample_env" "sha256_ok sample_env"
  by (simp_all add: aead_ok_def kdf_ok_def sha256_ok_def sample_env_def)

end
