(* ===== verification/Go_Json.thy ===== *)
theory Go_Json
  imports Go_Text
begin

text \<open>
  What the repository uses of \<open>encoding/json\<close>: \<open>Marshal\<close> and \<open>MarshalIndent\<close>, \<open>Unmarshal\<close>,
  and \<open>Decoder.Decode\<close> followed by \<open>Decoder.More\<close>.

  The library scans a whole value for its syntax before it stores anything, so decoding is two
  steps here: text to a syntax tree (\<open>scan_value\<close>), and the tree to a Go value, field by field
  (\<open>decode_fields\<close>). The library goes on after a value that does not fit its field and returns
  the first such error in the end, which is the error of the first failing step here. The texts
  of syntax and type errors, which carry offsets and Go type names, are not modelled.
\<close>

section \<open>Integers as text\<close>

definition is_digit :: "char \<Rightarrow> bool" where
  "is_digit c \<longleftrightarrow> 48 \<le> (of_char c :: nat) \<and> (of_char c :: nat) \<le> 57"

definition digits_nat :: "string \<Rightarrow> nat option" where
  "digits_nat s = (if s = [] \<or> \<not> list_all is_digit s then None
     else Some (foldl (\<lambda>a c. a * 10 + (of_char c - 48)) 0 s))"

text \<open>\<open>strconv.ParseInt(s, 10, 64)\<close> and \<open>strconv.ParseUint(s, 10, bits)\<close>; \<open>None\<close> is an error.\<close>

definition ParseInt64 :: "string \<Rightarrow> int option" where
  "ParseInt64 s = (let (neg, ds) = (case s of c # cs \<Rightarrow> if c = CHR ''-'' then (True, cs)
         else if c = CHR ''+'' then (False, cs) else (False, s) | [] \<Rightarrow> (False, s)) in
     case digits_nat ds of None \<Rightarrow> None
     | Some n \<Rightarrow> let i = (if neg then - int n else int n) in
         if - (2 ^ 63) \<le> i \<and> i < 2 ^ 63 then Some i else None)"

definition ParseUint :: "nat \<Rightarrow> string \<Rightarrow> nat option" where
  "ParseUint bits s = (case digits_nat s of None \<Rightarrow> None
     | Some n \<Rightarrow> if n < 2 ^ bits then Some n else None)"

section \<open>Values as text\<close>

abbreviation BSL :: char where "BSL \<equiv> CHR 0x5C"
abbreviation QUOTE :: char where "QUOTE \<equiv> CHR 0x22"

text \<open>A JSON value. A number is its literal; a string is the text it stands for.\<close>

datatype json = JNull | JBool bool | JNum string | JStr string
  | JArr "json list" | JObj "(string \<times> json) list"

text \<open>
  \<open>appendString\<close> with HTML escaping, as \<open>Marshal\<close> has it: one code point with its bytes. A byte
  that is not UTF-8 becomes U+FFFD.
\<close>

definition esc_rune :: "nat \<times> bytes \<Rightarrow> bytes" where
  "esc_rune = (\<lambda>(r, c).
     if r = 0x22 \<or> r = 0x5C then [BSL, char_of r]
     else if r = 8 then BSL # ''b'' else if r = 12 then BSL # ''f''
     else if r = 10 then BSL # ''n'' else if r = 13 then BSL # ''r'' else if r = 9 then BSL # ''t''
     else if r < 0x20 \<or> r = 0x3C \<or> r = 0x3E \<or> r = 0x26
       then BSL # ''u00'' @ [hex_digit (r div 16), hex_digit (r mod 16)]
     else if r = RuneError \<and> length c = 1 then BSL # ''ufffd''
     else if r = 0x2028 \<or> r = 0x2029 then BSL # ''u202'' @ [hex_digit (r mod 16)]
     else c)"

definition appendString :: "bytes \<Rightarrow> bytes" where
  "appendString s = QUOTE # concat (map esc_rune (segs s)) @ [QUOTE]"

fun join_with :: "bytes \<Rightarrow> bytes list \<Rightarrow> bytes" where
  "join_with sep [] = []"
| "join_with sep [x] = x"
| "join_with sep (x # y # xs) = x @ sep @ join_with sep (y # xs)"

text \<open>
  The text of a value: \<open>nl l\<close> is what goes before an element at nesting level \<open>l\<close> (nothing, or a
  line break and the indentation) and \<open>sp\<close> what follows a colon.
\<close>

fun jprint :: "(nat \<Rightarrow> bytes) \<Rightarrow> bytes \<Rightarrow> nat \<Rightarrow> json \<Rightarrow> bytes" where
  "jprint nl sp l JNull = ''null''"
| "jprint nl sp l (JBool b) = (if b then ''true'' else ''false'')"
| "jprint nl sp l (JNum s) = s"
| "jprint nl sp l (JStr s) = appendString s"
| "jprint nl sp l (JArr vs) = (if vs = [] then ''[]'' else
     ''['' @ nl (Suc l) @ join_with (CHR '','' # nl (Suc l)) (map (jprint nl sp (Suc l)) vs) @ nl l @ '']'')"
| "jprint nl sp l (JObj kvs) = (if kvs = [] then ''{}'' else
     ''{'' @ nl (Suc l) @ join_with (CHR '','' # nl (Suc l))
       (map (\<lambda>(k, v). appendString k @ CHR '':'' # sp @ jprint nl sp (Suc l) v) kvs) @ nl l @ ''}'')"

definition Marshal :: "json \<Rightarrow> bytes" where
  "Marshal v = jprint (\<lambda>_. []) [] 0 v"

text \<open>\<open>MarshalIndent(v, "", "  ")\<close>.\<close>

definition MarshalIndent :: "json \<Rightarrow> bytes" where
  "MarshalIndent v = jprint (\<lambda>l. CHR 0x0A # replicate (2 * l) (CHR '' '')) '' '' 0 v"

section \<open>Text to values\<close>

definition json_syntax :: err where "json_syntax = Err ''json: syntax error''"

definition is_ws :: "char \<Rightarrow> bool" where
  "is_ws c \<longleftrightarrow> c \<in> {CHR '' '', CHR 0x09, CHR 0x0D, CHR 0x0A}"

definition skip_ws :: "bytes \<Rightarrow> bytes" where
  "skip_ws s = dropWhile is_ws s"

text \<open>Four hexadecimal digits (\<open>getu4\<close>).\<close>

definition getu4 :: "bytes \<Rightarrow> nat result" where
  "getu4 s = (case map hex_value (take 4 s) of
     [Some a, Some b, Some c, Some d] \<Rightarrow> Inr (((a * 16 + b) * 16 + c) * 16 + d)
   | hs \<Rightarrow> if None \<in> set hs then Inl json_syntax else Inl ErrUnexpectedEOF)"

text \<open>\<open>utf16.DecodeRune\<close> on the second half that may follow a surrogate.\<close>

definition utf16_pair :: "nat \<Rightarrow> bytes \<Rightarrow> nat option" where
  "utf16_pair r1 s = (case s of
     a # b # s' \<Rightarrow> if a = BSL \<and> b = CHR ''u'' then (case getu4 s' of
         Inr r2 \<Rightarrow> if 0xD800 \<le> r1 \<and> r1 < 0xDC00 \<and> 0xDC00 \<le> r2 \<and> r2 < 0xE000
           then Some ((r1 - 0xD800) * 1024 + (r2 - 0xDC00) + 0x10000) else None
       | Inl _ \<Rightarrow> None) else None
   | _ \<Rightarrow> None)"

text \<open>An escape after its backslash: the bytes it stands for and how many it took.\<close>

definition str_escape :: "bytes \<Rightarrow> (bytes \<times> nat) result" where
  "str_escape s = (case s of [] \<Rightarrow> Inl ErrUnexpectedEOF
   | e # es \<Rightarrow>
       if e = QUOTE \<or> e = BSL \<or> e = CHR ''/'' then Inr ([e], 1)
       else if e = CHR ''b'' then Inr ([CHR 0x08], 1) else if e = CHR ''f'' then Inr ([CHR 0x0C], 1)
       else if e = CHR ''n'' then Inr ([CHR 0x0A], 1) else if e = CHR ''r'' then Inr ([CHR 0x0D], 1)
       else if e = CHR ''t'' then Inr ([CHR 0x09], 1)
       else if e = CHR ''u'' then bindR (getu4 es) (\<lambda>r.
         if 0xD800 \<le> r \<and> r < 0xE000 then (case utf16_pair r (drop 4 es) of
             Some r' \<Rightarrow> Inr (EncodeRune r', 11)
           | None \<Rightarrow> Inr (EncodeRune RuneError, 5))
         else Inr (EncodeRune r, 5))
       else Inl json_syntax)"

text \<open>One unit of a string, its first byte given: what it stands for and how many more bytes it took.\<close>

definition str_unit :: "char \<Rightarrow> bytes \<Rightarrow> (bytes \<times> nat) result" where
  "str_unit c cs =
     (if c = BSL then str_escape cs
      else if (of_char c :: nat) < 0x20 then Inl json_syntax
      else if (of_char c :: nat) < 0x80 then Inr ([c], 0)
      else Inr (EncodeRune (fst (DecodeRune (c # cs))), snd (DecodeRune (c # cs)) - 1))"

text \<open>A string after its opening quote.\<close>

definition then_string :: "bytes \<Rightarrow> (bytes \<times> bytes) result \<Rightarrow> (bytes \<times> bytes) result" where
  "then_string d r = bindR r (\<lambda>(ds, rest). Inr (d @ ds, rest))"

fun str_body :: "bytes \<Rightarrow> (bytes \<times> bytes) result" where
  "str_body [] = Inl ErrUnexpectedEOF"
| "str_body (c # cs) = (if c = QUOTE then Inr ([], cs)
     else case str_unit c cs of Inl e \<Rightarrow> Inl e
       | Inr (d, k) \<Rightarrow> then_string d (str_body (drop k cs)))"

text \<open>Numbers: an optional sign, an integer without leading zeros, a fraction and an exponent.\<close>

definition num_digits :: "bytes \<Rightarrow> (bytes \<times> bytes) result" where
  "num_digits s = (case takeWhile is_digit s of
     [] \<Rightarrow> if s = [] then Inl ErrUnexpectedEOF else Inl json_syntax
   | ds \<Rightarrow> Inr (ds, dropWhile is_digit s))"

definition num_int :: "bytes \<Rightarrow> (bytes \<times> bytes) result" where
  "num_int s = (case s of c # r \<Rightarrow> if c = CHR ''0'' then Inr ([c], r) else num_digits s | [] \<Rightarrow> num_digits s)"

definition num_frac :: "bytes \<Rightarrow> (bytes \<times> bytes) result" where
  "num_frac s = (case s of c # r \<Rightarrow> if c = CHR ''.''
       then bindR (num_digits r) (\<lambda>(ds, r'). Inr (c # ds, r')) else Inr ([], s) | [] \<Rightarrow> Inr ([], s))"

definition num_exp :: "bytes \<Rightarrow> (bytes \<times> bytes) result" where
  "num_exp s = (case s of c # r \<Rightarrow> if c = CHR ''e'' \<or> c = CHR ''E''
       then (case r of
           d # r1 \<Rightarrow> if d = CHR ''+'' \<or> d = CHR ''-''
             then bindR (num_digits r1) (\<lambda>(ds, r'). Inr (c # d # ds, r'))
             else bindR (num_digits r) (\<lambda>(ds, r'). Inr (c # ds, r'))
         | [] \<Rightarrow> Inl ErrUnexpectedEOF)
       else Inr ([], s) | [] \<Rightarrow> Inr ([], s))"

definition scan_number :: "bytes \<Rightarrow> (bytes \<times> bytes) result" where
  "scan_number s = (let (sign, s0) = (case s of c # r \<Rightarrow> if c = CHR ''-'' then ([c], r) else ([], s) | [] \<Rightarrow> ([], s)) in
     bindR (num_int s0) (\<lambda>(i, s1). bindR (num_frac s1) (\<lambda>(f, s2). bindR (num_exp s2) (\<lambda>(x, s3).
       Inr (sign @ i @ f @ x, s3)))))"

definition scan_literal :: "bytes \<Rightarrow> json \<Rightarrow> bytes \<Rightarrow> (json \<times> bytes) result" where
  "scan_literal w v s = (if prefix w s then Inr (v, drop (length w) s)
     else if prefix s w then Inl ErrUnexpectedEOF else Inl json_syntax)"

text \<open>
  The elements of an array or object up to the closing bracket. A parser that consumes nothing
  would loop; the one used here always consumes (\<open>sep_by_unfold\<close>).
\<close>

fun sep_by :: "(bytes \<Rightarrow> ('a \<times> bytes) result) \<Rightarrow> char \<Rightarrow> bytes \<Rightarrow> ('a list \<times> bytes) result" where
  "sep_by p close s = (case p s of Inl e \<Rightarrow> Inl e
     | Inr (v, r) \<Rightarrow> (case skip_ws r of [] \<Rightarrow> Inl ErrUnexpectedEOF
         | c # r' \<Rightarrow> if c = close then Inr ([v], r')
             else if c = CHR '','' then
               (if length r' < length s then (case sep_by p close r' of Inl e \<Rightarrow> Inl e
                  | Inr (vs, r'') \<Rightarrow> Inr (v # vs, r''))
                else Inl (Panic ''no progress''))
             else Inl json_syntax))"

definition scan_member :: "(bytes \<Rightarrow> (json \<times> bytes) result) \<Rightarrow> bytes \<Rightarrow> ((string \<times> json) \<times> bytes) result" where
  "scan_member p s = (case skip_ws s of [] \<Rightarrow> Inl ErrUnexpectedEOF
     | c # r \<Rightarrow> if c \<noteq> QUOTE then Inl json_syntax
         else bindR (str_body r) (\<lambda>(k, r1). case skip_ws r1 of [] \<Rightarrow> Inl ErrUnexpectedEOF
           | c1 # r2 \<Rightarrow> if c1 \<noteq> CHR '':'' then Inl json_syntax
               else bindR (p r2) (\<lambda>(v, r3). Inr ((k, v), r3))))"

text \<open>A bracketed sequence after its opening bracket, possibly empty.\<close>

definition bracketed :: "(bytes \<Rightarrow> ('a \<times> bytes) result) \<Rightarrow> char \<Rightarrow> bytes \<Rightarrow> ('a list \<times> bytes) result" where
  "bracketed p close s = (case skip_ws s of [] \<Rightarrow> Inl ErrUnexpectedEOF
     | c # r \<Rightarrow> if c = close then Inr ([], r) else sep_by p close s)"

definition maxNestingDepth :: nat where "maxNestingDepth = 10000"

text \<open>One value, \<open>d\<close> more levels of nesting being allowed.\<close>

fun scan_value :: "nat \<Rightarrow> bytes \<Rightarrow> (json \<times> bytes) result" where
  "scan_value d s0 = (case skip_ws s0 of [] \<Rightarrow> Inl ErrUnexpectedEOF
     | c # s \<Rightarrow>
         if c = QUOTE then bindR (str_body s) (\<lambda>(t, r). Inr (JStr t, r))
         else if c = CHR ''{'' then
           (if d = 0 then Inl (Err ''json: exceeded max depth'')
            else bindR (bracketed (scan_member (scan_value (d - 1))) (CHR ''}'') s) (\<lambda>(kvs, r). Inr (JObj kvs, r)))
         else if c = CHR ''['' then
           (if d = 0 then Inl (Err ''json: exceeded max depth'')
            else bindR (bracketed (scan_value (d - 1)) (CHR '']'') s) (\<lambda>(vs, r). Inr (JArr vs, r)))
         else if c = CHR ''t'' then scan_literal ''true'' (JBool True) (c # s)
         else if c = CHR ''f'' then scan_literal ''false'' (JBool False) (c # s)
         else if c = CHR ''n'' then scan_literal ''null'' JNull (c # s)
         else if c = CHR ''-'' \<or> is_digit c then bindR (scan_number (c # s)) (\<lambda>(n, r). Inr (JNum n, r))
         else Inl json_syntax)"

declare sep_by.simps [simp del] scan_value.simps [simp del]

text \<open>
  \<open>Decoder.Decode\<close> up to the syntax tree, with the answer of \<open>Decoder.More\<close> for what follows the
  value: another byte that is not a closing bracket or brace.
\<close>

definition Decoder_More :: "bytes \<Rightarrow> bool" where
  "Decoder_More rest = (case skip_ws rest of [] \<Rightarrow> False | c # _ \<Rightarrow> c \<noteq> CHR '']'' \<and> c \<noteq> CHR ''}'')"

definition decoder_value :: "bytes \<Rightarrow> (json \<times> bytes) result" where
  "decoder_value b = (if skip_ws b = [] then Inl ErrEOF else scan_value maxNestingDepth b)"

text \<open>\<open>Unmarshal\<close> up to the tree: nothing but white space may follow the value.\<close>

definition unmarshal_value :: "bytes \<Rightarrow> json result" where
  "unmarshal_value b = bindR (scan_value maxNestingDepth b) (\<lambda>(v, rest).
     if skip_ws rest = [] then Inr v else Inl json_syntax)"

end
