(* ===== verification/Go_Json_Roundtrip.thy ===== *)
theory Go_Json_Roundtrip
  imports Go_Json
begin

text \<open>
  What \<open>Marshal\<close> and \<open>MarshalIndent\<close> print, the scanner reads back: integers, strings with every
  escape the printer writes (bytes that are not UTF-8 come back as U+FFFD), arrays and objects,
  with any text after them. The
  scanner is also shown to consume input at every step, which is why its loops end.
\<close>

section \<open>Integers parse back\<close>

lemma set_Itoa_digit: "list_all is_digit (Itoa n)"
  using set_Itoa by (auto simp: list_all_iff is_digit_def)

lemma digits_nat_Itoa: "digits_nat (Itoa n) = Some n"
proof -
  have "foldl (\<lambda>a c. a * 10 + (of_char c - 48)) 0 (Itoa n) = n"
  proof (induction n rule: Itoa.induct)
    case (1 n)
    then show ?case by (subst Itoa.simps) simp
  qed
  then show ?thesis by (simp add: digits_nat_def set_Itoa_digit)
qed

lemma Itoa_Cons: obtains c cs where "Itoa n = c # cs" "is_digit c" "list_all is_digit cs" "c = CHR ''0'' \<Longrightarrow> cs = []"
proof -
  have "\<exists>c cs. Itoa n = c # cs \<and> (c = CHR ''0'' \<longrightarrow> n = 0)"
  proof (induction n rule: Itoa.induct)
    case (1 n)
    show ?case
    proof (cases "n < 10")
      case True
      have "char_of (48 + n) = CHR ''0'' \<Longrightarrow> n = 0"
        using True by (simp add: char_of_eq_of_char)
      with True show ?thesis by (simp add: Itoa.simps [of n])
    next
      case False
      with 1 obtain c cs where "Itoa (n div 10) = c # cs" "c = CHR ''0'' \<longrightarrow> n div 10 = 0" by blast
      with False show ?thesis by (auto simp: Itoa.simps [of n] div_eq_0_iff)
    qed
  qed
  then obtain c cs where c: "Itoa n = c # cs" "c = CHR ''0'' \<Longrightarrow> n = 0" by blast
  moreover have "is_digit c" "list_all is_digit cs" using set_Itoa_digit [of n] c(1) by simp_all
  moreover have "cs = []" if "c = CHR ''0''"
    using c(1) unfolding c(2) [OF that] by (simp add: Itoa.simps)
  ultimately show thesis using that by blast
qed

lemma digit_simps [simp]: "\<not> is_digit (CHR ''-'')" "\<not> is_digit (CHR ''+'')" "\<not> is_digit (CHR ''.'')"
  "\<not> is_digit (CHR ''e'')" "\<not> is_digit (CHR ''E'')" "\<not> is_digit QUOTE" "\<not> is_digit (CHR ''{'')" "\<not> is_digit (CHR ''['')"
  "\<not> is_digit (CHR '','')" "\<not> is_digit (CHR ''}'')" "\<not> is_digit (CHR '']'')"
  "\<not> is_digit (CHR ''t'')" "\<not> is_digit (CHR ''f'')" "\<not> is_digit (CHR ''n'')" "\<not> is_digit (CHR '' '')"
  "\<not> is_digit (CHR 0x09)" "\<not> is_digit (CHR 0x0A)" "\<not> is_digit (CHR 0x0D)" "is_digit (CHR ''0'')"
  by (simp_all add: is_digit_def)

lemma ParseUint_Itoa: "n < 2 ^ bits \<Longrightarrow> ParseUint bits (Itoa n) = Some n"
  by (simp add: ParseUint_def digits_nat_Itoa)

lemma ParseInt64_itoa: "- (2 ^ 63) \<le> i \<Longrightarrow> i < 2 ^ 63 \<Longrightarrow> ParseInt64 (itoa i) = Some i"
proof (cases "i < 0")
  case True
  then show "- (2 ^ 63) \<le> i \<Longrightarrow> i < 2 ^ 63 \<Longrightarrow> ParseInt64 (itoa i) = Some i"
    by (simp add: ParseInt64_def itoa_def digits_nat_Itoa)
next
  case False
  obtain c cs where c: "Itoa (nat i) = c # cs" "is_digit c" by (rule Itoa_Cons)
  have ne: "c \<noteq> CHR ''-''" "c \<noteq> CHR ''+''" using c(2) by auto
  have "digits_nat (c # cs) = Some (nat i)" using digits_nat_Itoa [of "nat i"] c(1) by simp
  then show "- (2 ^ 63) \<le> i \<Longrightarrow> i < 2 ^ 63 \<Longrightarrow> ParseInt64 (itoa i) = Some i"
    using False ne by (simp add: ParseInt64_def itoa_def c(1))
qed

text \<open>What may follow a number: not a byte that would continue it.\<close>

definition num_stop :: "bytes \<Rightarrow> bool" where
  "num_stop s \<longleftrightarrow> (case s of [] \<Rightarrow> True | c # _ \<Rightarrow> \<not> is_digit c \<and> c \<noteq> CHR ''.'' \<and> c \<noteq> CHR ''e'' \<and> c \<noteq> CHR ''E'')"

lemma takeWhile_digits:
  "list_all P ds \<Longrightarrow> (case r of [] \<Rightarrow> True | c # _ \<Rightarrow> \<not> P c) \<Longrightarrow> takeWhile P (ds @ r) = ds \<and> dropWhile P (ds @ r) = r"
  by (induction ds) (auto split: list.splits)

lemma num_int_Itoa:
  assumes "num_stop rest"
  shows "num_int (Itoa n @ rest) = Inr (Itoa n, rest)"
proof -
  obtain c cs where c: "Itoa n = c # cs" "is_digit c" "list_all is_digit cs" "c = CHR ''0'' \<Longrightarrow> cs = []"
    using Itoa_Cons [of n] by blast
  have "takeWhile is_digit (cs @ rest) = cs \<and> dropWhile is_digit (cs @ rest) = rest"
    by (rule takeWhile_digits [OF c(3)]) (use assms in \<open>auto simp: num_stop_def split: list.splits\<close>)
  then show ?thesis using c by (auto simp: num_int_def num_digits_def)
qed

lemma scan_number_itoa:
  assumes "num_stop rest"
  shows "scan_number (itoa i @ rest) = Inr (itoa i, rest)"
proof -
  have f: "num_frac rest = Inr ([], rest)" "num_exp rest = Inr ([], rest)"
    using assms by (auto simp: num_frac_def num_exp_def num_stop_def split: list.splits)
  obtain c cs where c: "Itoa (nat i) = c # cs" "is_digit c" by (rule Itoa_Cons)
  have ne: "c \<noteq> CHR ''-''" using c(2) by auto
  show ?thesis
  proof (cases "i < 0")
    case True
    then show ?thesis by (simp add: scan_number_def itoa_def num_int_Itoa [OF assms] f)
  next
    case False
    then show ?thesis
      using num_int_Itoa [OF assms, of "nat i"] ne f by (simp add: scan_number_def itoa_def c(1))
  qed
qed

section \<open>Strings parse back\<close>

lemma getu4_simp: "\<lbrakk>hex_value a = Some i; hex_value b = Some j; hex_value c = Some k; hex_value d = Some l\<rbrakk>
    \<Longrightarrow> getu4 (a # b # c # d # t) = Inr (((i * 16 + j) * 16 + k) * 16 + l)"
  by (simp add: getu4_def)

lemma hex_value_simps: "hex_value (CHR ''0'') = Some 0" "hex_value (CHR ''2'') = Some 2" "hex_value (CHR ''f'') = Some 15" "hex_value (CHR ''d'') = Some 13"
  by (simp_all add: hex_value_def)

lemma str_body_escape_u:
  assumes "hex_value a = Some i" "hex_value b = Some j" "hex_value c = Some k" "hex_value d = Some l"
    and "r = ((i * 16 + j) * 16 + k) * 16 + l" "\<not> (0xD800 \<le> r \<and> r < 0xE000)"
  shows "str_body (BSL # CHR ''u'' # a # b # c # d # t) = then_string (EncodeRune r) (str_body t)"
proof -
  have "getu4 (a # b # c # d # t) = Inr r" unfolding assms(5) by (rule getu4_simp [OF assms(1-4)])
  then show ?thesis using assms(6) by (auto simp: str_unit_def str_escape_def)
qed

lemma char_of_escapes: "char_of (0x22 :: nat) = QUOTE" "char_of (0x5C :: nat) = BSL" "char_of (8 :: nat) = CHR 0x08"
  "char_of (12 :: nat) = CHR 0x0C" "char_of (10 :: nat) = CHR 0x0A" "char_of (13 :: nat) = CHR 0x0D" "char_of (9 :: nat) = CHR 0x09"
  by (simp_all add: char_of_eq_of_char)

lemma str_body_ascii:
  assumes "(of_char c :: nat) < 0x80"
  shows "str_body (esc_rune (of_char c, [c]) @ t) = then_string [c] (str_body t)"
proof -
  let ?r = "of_char c :: nat"
  have e: "EncodeRune ?r = [c]" using assms by (simp add: EncodeRune_def)
  consider "?r \<in> {0x22, 0x5C, 8, 12, 10, 13, 9}"
    | "?r \<notin> {0x22, 0x5C, 8, 12, 10, 13, 9}" "?r < 0x20 \<or> ?r = 0x3C \<or> ?r = 0x3E \<or> ?r = 0x26"
    | "?r \<notin> {0x22, 0x5C}" "\<not> ?r < 0x20" "?r \<notin> {0x3C, 0x3E, 0x26}" by auto
  then show ?thesis
  proof cases
    case 1
    then have "char_of ?r \<in> char_of ` {0x22, 0x5C, 8, 12, 10, 13, 9 :: nat}" by (rule imageI)
    then have "c \<in> {QUOTE, BSL, CHR 0x08, CHR 0x0C, CHR 0x0A, CHR 0x0D, CHR 0x09}"
      by (simp add: char_of_escapes)
    then show ?thesis by (elim insertE) (simp_all add: esc_rune_def str_unit_def str_escape_def char_of_escapes)
  next
    case 2
    have q: "?r div 16 < 16" using of_char_lt_256 [of c] by linarith
    have "str_body (BSL # CHR ''u'' # CHR ''0'' # CHR ''0'' # hex_digit (?r div 16) # hex_digit (?r mod 16) # t)
        = then_string (EncodeRune ?r) (str_body t)"
      by (rule str_body_escape_u [OF hex_value_simps(1) hex_value_simps(1) hex_value_digit [OF q] hex_value_digit])
        (use assms in simp_all)
    then show ?thesis using 2 by (simp add: esc_rune_def e)
  next
    case 3
    then have "c \<noteq> QUOTE" "c \<noteq> BSL" by auto
    with 3 show ?thesis using assms by (simp add: esc_rune_def RuneError_def str_unit_def)
  qed
qed

lemma str_body_rune:
  assumes "DecodeRune (c # cs) = (r, w)" "\<not> (r = RuneError \<and> w = 1)" "0x80 \<le> r"
  shows "str_body (esc_rune (r, take w (c # cs)) @ t) = then_string (take w (c # cs)) (str_body t)"
proof -
  have e: "EncodeRune r = take w (c # cs)" "w \<noteq> 1"
    using EncodeRune_DecodeRune [OF assms(1,2)] assms(3) by auto
  have w: "w \<le> length (c # cs)" and d: "DecodeRune (take w (c # cs) @ t) = (r, w)"
    using DecodeRune_take [OF _ assms(1,2)] by simp_all
  have "1 \<le> w" using DecodeRune_width [of "c # cs"] assms(1) by simp
  then obtain k where k: "w = Suc k" "k \<le> length cs" using w by (cases w) auto
  have c80: "\<not> (of_char c :: nat) < 0x80" using assms(1,3) by (auto simp: DecodeRune_def)
  show ?thesis
  proof (cases "r = 0x2028 \<or> r = 0x2029")
    case True
    define l where "l = r mod 16"
    have "l < 16" "r = ((2 * 16 + 0) * 16 + 2) * 16 + l" using True by (auto simp: l_def)
    then have "str_body (BSL # CHR ''u'' # CHR ''2'' # CHR ''0'' # CHR ''2'' # hex_digit l # t)
        = then_string (EncodeRune r) (str_body t)"
      by (intro str_body_escape_u [OF hex_value_simps(2) hex_value_simps(1) hex_value_simps(2) hex_value_digit]) simp_all
    moreover have "esc_rune (r, take w (c # cs)) = BSL # ''u202'' @ [hex_digit l]"
      using True by (auto simp: esc_rune_def RuneError_def l_def)
    ultimately show ?thesis by (simp add: e(1))
  next
    case False
    have "esc_rune (r, take w (c # cs)) = take w (c # cs)"
      using False assms(2,3) k by (auto simp: esc_rune_def)
    moreover have "c \<noteq> QUOTE" "c \<noteq> BSL" using c80 by auto
    moreover have "drop k (take k cs @ t) = t" using k(2) by simp
    ultimately show ?thesis
      using d c80 e(1) by (simp add: k(1) str_unit_def del: drop_append drop_take)
  qed
qed

text \<open>What a text becomes: every byte that is not part of UTF-8 is read back as U+FFFD.\<close>

definition clean_seg :: "nat \<times> bytes \<Rightarrow> bytes" where
  "clean_seg = (\<lambda>(r, c). if r = RuneError \<and> length c = 1 then EncodeRune RuneError else c)"

definition clean_text :: "bytes \<Rightarrow> bytes" where
  "clean_text s = concat (map clean_seg (segs s))"

lemma clean_text_valid [simp]: "ValidString s \<Longrightarrow> clean_text s = s"
proof -
  assume "ValidString s"
  then have "map clean_seg (segs s) = map snd (segs s)" by (auto simp: ValidString_def list_all_iff clean_seg_def)
  then show ?thesis unfolding clean_text_def by (simp only: concat_segs)
qed

lemma str_body_bad_byte: "str_body (esc_rune (RuneError, [c]) @ t) = then_string (EncodeRune RuneError) (str_body t)"
proof -
  have "str_body (BSL # CHR ''u'' # CHR ''f'' # CHR ''f'' # CHR ''f'' # CHR ''d'' # t) = then_string (EncodeRune RuneError) (str_body t)"
    by (rule str_body_escape_u [OF hex_value_simps(3,3,3,4)]) (simp_all add: RuneError_def)
  then show ?thesis by (simp add: esc_rune_def RuneError_def)
qed

lemma str_body_segs: "str_body (concat (map esc_rune (segs s)) @ QUOTE # rest) = Inr (clean_text s, rest)"
proof (induction s rule: segs.induct)
  case (1 s)
  show ?case
  proof (cases s)
    case Nil
    then show ?thesis by (simp add: clean_text_def)
  next
    case (Cons c cs)
    obtain r w where d: "DecodeRune (c # cs) = (r, w)" by fastforce
    have sg: "segs s = (r, take w s) # segs (drop w s)" by (simp add: segs.simps [of "c # cs"] d Cons)
    have w1: "1 \<le> w" using DecodeRune_width [of "c # cs"] d by simp
    have IH: "str_body (concat (map esc_rune (segs (drop w s))) @ QUOTE # rest) = Inr (clean_text (drop w s), rest)"
      using 1 Cons d by simp
    have step: "str_body (esc_rune (r, take w s) @ t) = then_string (clean_seg (r, take w s)) (str_body t)" for t
    proof (cases "r = RuneError \<and> w = 1")
      case True
      then show ?thesis using str_body_bad_byte [of c t] Cons by (simp add: clean_seg_def)
    next
      case v: False
      have l: "clean_seg (r, take w s) = take w s"
        using v w1 DecodeRune_take [OF _ d v] Cons by (auto simp: clean_seg_def)
      show ?thesis
      proof (cases "r < 0x80")
        case True
        then have "w = 1" "EncodeRune r = take w s" using EncodeRune_DecodeRune [OF d v] Cons by simp_all
        then have "r = of_char c" "take w s = [c]" using True Cons by (auto simp: EncodeRune_def)
        then show ?thesis using str_body_ascii [of c t] True l by simp
      next
        case False
        then show ?thesis using str_body_rune [OF d v] Cons l by simp
      qed
    qed
    show ?thesis unfolding sg list.map concat.simps append_assoc step IH by (simp add: then_string_def clean_text_def sg)
  qed
qed

lemma length_esc_rune: "c \<noteq> [] \<Longrightarrow> length (esc_rune (r, c)) \<le> 6 * length c"
  by (cases c) (auto simp: esc_rune_def)

lemma length_appendString: "length (appendString s) \<le> 6 * length s + 2"
proof -
  have "length (concat (map esc_rune (segs s))) \<le> 6 * length s"
  proof (induction s rule: segs.induct)
    case (1 s)
    show ?case
    proof (cases "s = []")
      case False
      let ?w = "snd (DecodeRune s)"
      have "take ?w s \<noteq> []" using DecodeRune_width [OF False] False by (cases s; cases ?w) auto
      then have "length (esc_rune (fst (DecodeRune s), take ?w s)) \<le> 6 * length (take ?w s)" by (rule length_esc_rune)
      moreover have "length s = length (take ?w s) + length (drop ?w s)" by (metis append_take_drop_id length_append)
      moreover have "length (concat (map esc_rune (segs (drop ?w s)))) \<le> 6 * length (drop ?w s)"
        using False by (rule 1)
      moreover have "segs s = (fst (DecodeRune s), take ?w s) # segs (drop ?w s)"
        using False by (subst segs.simps) simp
      ultimately show ?thesis by (simp only: list.map concat.simps length_append distrib_left add_mono)
    qed simp
  qed
  then show ?thesis by (simp add: appendString_def)
qed

text \<open>Plain ASCII text is quoted as it stands.\<close>

definition plain_char :: "char \<Rightarrow> bool" where
  "plain_char c \<longleftrightarrow> (let r = of_char c :: nat in 0x20 \<le> r \<and> r < 0x80 \<and> r \<notin> {0x22, 0x5C, 0x3C, 0x3E, 0x26})"

lemma appendString_plain:
  assumes "list_all plain_char s"
  shows "appendString s = QUOTE # s @ [QUOTE]"
proof -
  have "is_ascii s" using assms by (auto simp: list_all_iff plain_char_def Let_def)
  moreover have "concat (map (\<lambda>c. esc_rune (of_char c, [c])) s) = s"
    using assms by (induction s) (auto simp: esc_rune_def plain_char_def Let_def RuneError_def)
  ultimately show ?thesis by (simp add: appendString_def segs_ascii comp_def)
qed

section \<open>Printed values parse back\<close>

text \<open>Every parser here consumes at least a byte, so the loop over elements never stops short.\<close>

definition consumes :: "(bytes \<Rightarrow> ('a \<times> bytes) result) \<Rightarrow> bool" where
  "consumes p \<longleftrightarrow> (\<forall>s v r. p s = Inr (v, r) \<longrightarrow> length r < length s)"

lemma length_skip_ws: "length (skip_ws s) \<le> length s"
  by (simp add: skip_ws_def length_dropWhile_le)

lemma str_body_consumes: "str_body s = Inr (v, r) \<Longrightarrow> length r < length s"
proof (induction s arbitrary: v rule: str_body.induct)
  case (2 c cs)
  show ?case
  proof (cases "c = QUOTE")
    case False
    with 2(2) obtain d k where u: "str_unit c cs = Inr (d, k)" and t: "then_string d (str_body (drop k cs)) = Inr (v, r)"
      by (auto split: sum.splits)
    from t obtain ds where "str_body (drop k cs) = Inr (ds, r)" by (auto simp: then_string_def)
    from 2(1) [OF False u refl this] show ?thesis by simp
  qed (use 2(2) in simp)
qed simp

lemma sep_by_unfold:
  assumes "consumes p"
  shows "sep_by p close s = (case p s of Inl e \<Rightarrow> Inl e
     | Inr (v, r) \<Rightarrow> (case skip_ws r of [] \<Rightarrow> Inl ErrUnexpectedEOF
         | c # r' \<Rightarrow> if c = close then Inr ([v], r')
             else if c = CHR '','' then bindR (sep_by p close r') (\<lambda>(vs, r''). Inr (v # vs, r''))
             else Inl json_syntax))"
proof (cases "p s")
  case (Inr vr)
  obtain v r where vr: "vr = (v, r)" by (cases vr)
  then have l: "length r < length s" using assms Inr unfolding consumes_def by blast
  have "length r' < length s" if "skip_ws r = c # r'" for c r'
    using length_skip_ws [of r] that l by simp
  then show ?thesis
    by (subst sep_by.simps) (auto simp: Inr vr bindR_def split: list.splits sum.splits)
qed (simp add: sep_by.simps)

lemma sep_by_consumes: "consumes p \<Longrightarrow> sep_by p close s = Inr (vs, r) \<Longrightarrow> length r < length s"
proof (induction s arbitrary: vs rule: length_induct)
  case (1 s)
  obtain v r1 where p: "p s = Inr (v, r1)" using 1(3) by (auto simp: sep_by.simps [of p] split: sum.splits)
  then have l: "length r1 < length s" using 1(2) unfolding consumes_def by blast
  obtain c r2 where c: "skip_ws r1 = c # r2" using 1(3) p by (cases "skip_ws r1") (auto simp: sep_by.simps [of p])
  have l2: "length r2 < length s" using length_skip_ws [of r1] c l by simp
  show ?case
  proof (cases "c = close")
    case True
    then show ?thesis using 1(3) p c l2 by (simp add: sep_by.simps [of p])
  next
    case False
    then obtain vs' where "sep_by p close r2 = Inr (vs', r)"
      using 1(3) p c l2 by (auto simp: sep_by.simps [of p _ s] split: if_splits sum.splits)
    with 1(1,2) l2 show ?thesis by fastforce
  qed
qed

lemma bracketed_consumes: "consumes p \<Longrightarrow> bracketed p close s = Inr (vs, r) \<Longrightarrow> length r < length s"
  using length_skip_ws [of s] sep_by_consumes [of p close s vs r]
  by (auto simp: bracketed_def split: list.splits if_splits)

lemma consumes_scan_member:
  assumes "consumes p"
  shows "consumes (scan_member p)"
  unfolding consumes_def
proof (intro allI impI)
  fix s v r
  assume "scan_member p s = Inr (v, r)"
  note m = this [unfolded scan_member_def]
  from m obtain c t where c: "skip_ws s = c # t" by (cases "skip_ws s") auto
  from m c obtain k r1 where k: "str_body t = Inr (k, r1)" by (auto split: if_splits)
  from m c k obtain c1 r2 where c1: "skip_ws r1 = c1 # r2" by (cases "skip_ws r1") (auto split: if_splits)
  from m c k c1 obtain w where "p r2 = Inr (w, r)" by (auto split: if_splits)
  with c k c1 length_skip_ws [of s] length_skip_ws [of r1] str_body_consumes [of t k r1] assms
  show "length r < length s" unfolding consumes_def by fastforce
qed

lemma num_consumes:
  "num_digits s = Inr (x, r) \<Longrightarrow> length r < length s"
  "num_int s = Inr (x, r) \<Longrightarrow> length r < length s"
  "num_frac s = Inr (x, r) \<Longrightarrow> length r \<le> length s"
  "num_exp s = Inr (x, r) \<Longrightarrow> length r \<le> length s"
proof -
  have d: "num_digits s = Inr (x, r) \<Longrightarrow> length r < length s" for s x r
  proof -
    assume "num_digits s = Inr (x, r)"
    then have "takeWhile is_digit s = x" "x \<noteq> []" "r = dropWhile is_digit s"
      by (auto simp: num_digits_def split: list.splits if_splits)
    moreover have "length s = length (takeWhile is_digit s) + length (dropWhile is_digit s)"
      by (metis length_append takeWhile_dropWhile_id)
    ultimately show "length r < length s" by simp
  qed
  then show "num_digits s = Inr (x, r) \<Longrightarrow> length r < length s" .
  show "num_int s = Inr (x, r) \<Longrightarrow> length r < length s"
    using d [of s x r] by (auto simp: num_int_def split: list.splits if_splits)
  show "num_frac s = Inr (x, r) \<Longrightarrow> length r \<le> length s"
    by (auto simp: num_frac_def split: list.splits if_splits dest!: d)
  show "num_exp s = Inr (x, r) \<Longrightarrow> length r \<le> length s"
    by (auto simp: num_exp_def split: list.splits if_splits dest!: d)
qed

lemma scan_number_consumes: "scan_number s = Inr (x, r) \<Longrightarrow> length r < length s"
  by (auto simp: scan_number_def split: list.splits if_splits dest!: num_consumes(2-4))

lemma scan_literal_consumes: "w \<noteq> [] \<Longrightarrow> scan_literal w v s = Inr (x, r) \<Longrightarrow> length r < length s"
  using prefix_length_le [of w s] by (cases w) (auto simp: scan_literal_def split: if_splits)

lemma consumes_scan_value: "consumes (scan_value d)"
proof (induction d rule: less_induct)
  case (less d)
  show ?case unfolding consumes_def
  proof (intro allI impI)
    fix s0 v r
    assume v: "scan_value d s0 = Inr (v, r)"
    then obtain c s where s: "skip_ws s0 = c # s" by (cases "skip_ws s0") (simp_all add: scan_value.simps)
    have p: "consumes (scan_value (d - 1))" if "d \<noteq> 0" using less [of "d - 1"] that by simp
    note p' = p [unfolded One_nat_def]
    note v = v [unfolded scan_value.simps [of d s0] s list.case]
    consider "c = QUOTE" | "c = CHR ''{''" | "c = CHR ''[''" | "c = CHR ''t''" | "c = CHR ''f''" | "c = CHR ''n''"
      | "c \<notin> {QUOTE, CHR ''{'', CHR ''['', CHR ''t'', CHR ''f'', CHR ''n''}" by auto
    then have "length r < length (c # s)"
    proof cases
      case 1
      then show ?thesis using v by (auto dest!: str_body_consumes)
    next
      case 2
      then have "d \<noteq> 0" using v by (auto split: if_splits)
      note q = bracketed_consumes [OF consumes_scan_member [OF p' [OF this]]]
      from \<open>d \<noteq> 0\<close> 2 v show ?thesis by (auto dest!: q)
    next
      case 3
      then have "d \<noteq> 0" using v by (auto split: if_splits)
      note q = bracketed_consumes [OF p' [OF this]]
      from \<open>d \<noteq> 0\<close> 3 v show ?thesis by (auto dest!: q)
    next
      case 7
      then have ne: "c \<noteq> QUOTE" "c \<noteq> CHR ''{''" "c \<noteq> CHR ''[''" "c \<noteq> CHR ''t''" "c \<noteq> CHR ''f''" "c \<noteq> CHR ''n''"
        by simp_all
      note v7 = v [unfolded ne [THEN if_not_P]]
      then have "c = CHR ''-'' \<or> is_digit c" by (rule_tac ccontr) simp
      with v7 obtain n where "scan_number (c # s) = Inr (n, r)" by auto
      then show ?thesis by (rule scan_number_consumes)
    qed (use v scan_literal_consumes in force)+
    then show "length r < length s0" using length_skip_ws [of s0] s by simp
  qed
qed


text \<open>White space before a value or a member is skipped.\<close>

abbreviation all_ws :: "bytes \<Rightarrow> bool" where "all_ws w \<equiv> list_all is_ws w"

lemma skip_ws_append: "all_ws w \<Longrightarrow> skip_ws (w @ s) = skip_ws s"
  by (induction w) (simp_all add: skip_ws_def)

lemma skip_ws_Cons: "\<not> is_ws c \<Longrightarrow> skip_ws (c # s) = c # s"
  by (simp add: skip_ws_def)

lemma is_ws_simps [simp]: "\<not> is_ws QUOTE" "\<not> is_ws (CHR ''{'')" "\<not> is_ws (CHR ''}'')" "\<not> is_ws (CHR ''['')"
  "\<not> is_ws (CHR '']'')" "\<not> is_ws (CHR '','')" "\<not> is_ws (CHR '':'')" "\<not> is_ws (CHR ''t'')" "\<not> is_ws (CHR ''f'')"
  "\<not> is_ws (CHR ''n'')" "\<not> is_ws (CHR ''-'')" "is_ws (CHR '' '')" "is_ws (CHR 0x0A)"
  by (simp_all add: is_ws_def)

lemma digit_not_ws: "is_digit c \<Longrightarrow> \<not> is_ws c"
  by (auto simp: is_ws_def)

lemma scan_value_skip: "all_ws w \<Longrightarrow> scan_value d (w @ s) = scan_value d s"
  by (simp add: scan_value.simps skip_ws_append)

lemma scan_member_skip: "all_ws w \<Longrightarrow> scan_member p (w @ s) = scan_member p s"
  by (simp add: scan_member_def skip_ws_append)

lemma num_stop_ws: "all_ws w \<Longrightarrow> num_stop (w @ s) \<longleftrightarrow> w \<noteq> [] \<or> num_stop s"
  by (cases w) (auto simp: num_stop_def is_ws_def)

lemma num_stop_simps [simp]: "num_stop []" "num_stop (CHR '','' # s)" "num_stop (CHR ''}'' # s)" "num_stop (CHR '']'' # s)"
  by (simp_all add: num_stop_def)

text \<open>Elements that parse back one by one do so in sequence.\<close>

lemma sep_by_join:
  assumes "consumes p" "all_ws w" "all_ws w2" "close = CHR ''}'' \<or> close = CHR '']''"
    and "\<And>x rest. x \<in> set xs \<Longrightarrow> num_stop rest \<Longrightarrow> p (w @ pr x @ rest) = Inr (f x, rest)"
    and "xs \<noteq> []"
  shows "sep_by p close (w @ join_with (CHR '','' # w) (map pr xs) @ w2 @ close # rest) = Inr (map f xs, rest)"
  using assms(5,6)
proof (induction xs rule: induct_list012)
  case (2 x)
  have "num_stop (w2 @ close # rest)" using assms(3,4) by (auto simp: num_stop_ws)
  then have "p (w @ pr x @ w2 @ close # rest) = Inr (f x, w2 @ close # rest)" using 2 by simp
  then show ?case
    using assms(3,4) by (subst sep_by_unfold [OF assms(1)]) (auto simp: skip_ws_append skip_ws_Cons)
next
  case (3 x y xs)
  let ?tail = "w @ join_with (CHR '','' # w) (map pr (y # xs)) @ w2 @ close # rest"
  have "p (w @ pr x @ CHR '','' # ?tail) = Inr (f x, CHR '','' # ?tail)" using 3(3) by simp
  moreover have "sep_by p close ?tail = Inr (map f (y # xs), rest)" using 3 by simp
  ultimately show ?case
    using assms(4) by (subst sep_by_unfold [OF assms(1)]) (auto simp: skip_ws_Cons)
qed simp

text \<open>
  Values whose text can be read back: integer numbers, at most \<open>d\<close> levels. What is read is the
  value with its texts cleaned, which is the value itself when they are valid UTF-8.
\<close>

fun jshape :: "nat \<Rightarrow> json \<Rightarrow> bool" where
  "jshape d (JNum s) \<longleftrightarrow> (\<exists>i. s = itoa i)"
| "jshape d (JArr vs) \<longleftrightarrow> d \<noteq> 0 \<and> (\<forall>v\<in>set vs. jshape (d - 1) v)"
| "jshape d (JObj kvs) \<longleftrightarrow> d \<noteq> 0 \<and> (\<forall>kv\<in>set kvs. jshape (d - 1) (snd kv))"
| "jshape d v \<longleftrightarrow> True"

fun jclean :: "json \<Rightarrow> json" where
  "jclean (JStr s) = JStr (clean_text s)"
| "jclean (JArr vs) = JArr (map jclean vs)"
| "jclean (JObj kvs) = JObj (map (\<lambda>(k, v). (clean_text k, jclean v)) kvs)"
| "jclean v = v"

fun jok :: "nat \<Rightarrow> json \<Rightarrow> bool" where
  "jok d JNull \<longleftrightarrow> True"
| "jok d (JBool b) \<longleftrightarrow> True"
| "jok d (JNum s) \<longleftrightarrow> (\<exists>i. s = itoa i)"
| "jok d (JStr s) \<longleftrightarrow> ValidString s"
| "jok d (JArr vs) \<longleftrightarrow> d \<noteq> 0 \<and> (\<forall>v\<in>set vs. jok (d - 1) v)"
| "jok d (JObj kvs) \<longleftrightarrow> d \<noteq> 0 \<and> (\<forall>kv\<in>set kvs. ValidString (fst kv) \<and> jok (d - 1) (snd kv))"

lemma jok_clean: "jok d v \<Longrightarrow> jshape d v \<and> jclean v = v"
proof (induction v arbitrary: d)
  case (JArr vs)
  then show ?case by (auto intro: map_idI)
next
  case (JObj kvs)
  have "jshape (d - 1) (snd kv) \<and> jclean (snd kv) = snd kv" if "kv \<in> set kvs" for kv
    by (rule JObj.IH [of kv]) (use JObj.prems that in \<open>auto simp: snds.simps\<close>)
  then show ?case using JObj.prems by (auto intro!: map_idI)
qed auto

lemma jprint_head:
  assumes "jshape d v"
  shows "\<exists>c cs. jprint nl sp l v = c # cs \<and> \<not> is_ws c \<and> c \<noteq> CHR '']'' \<and> c \<noteq> CHR ''}''"
proof (cases v)
  case (JNum s)
  then obtain i where i: "s = itoa i" using assms by auto
  obtain c cs where c: "Itoa (nat i) = c # cs" "is_digit c" using Itoa_Cons [of "nat i"] by blast
  have "\<not> is_ws c" "c \<noteq> CHR '']''" "c \<noteq> CHR ''}''" using c(2) digit_not_ws by auto
  then show ?thesis using JNum i c by (simp add: itoa_def)
qed (auto simp: appendString_def)

text \<open>A printed sequence between brackets, its elements not starting with the closing one.\<close>

lemma bracketed_join:
  assumes "consumes p" "all_ws w" "all_ws w2" "close = CHR ''}'' \<or> close = CHR '']''"
    and "\<And>x rest. x \<in> set xs \<Longrightarrow> num_stop rest \<Longrightarrow> p (w @ pr x @ rest) = Inr (f x, rest)"
    and "\<And>x. x \<in> set xs \<Longrightarrow> \<exists>c cs. pr x = c # cs \<and> \<not> is_ws c \<and> c \<noteq> close" "xs \<noteq> []"
  shows "bracketed p close (w @ join_with (CHR '','' # w) (map pr xs) @ w2 @ close # rest) = Inr (map f xs, rest)"
    (is "bracketed p close ?s = _")
proof -
  obtain x xs' where xs: "xs = x # xs'" using assms(7) by (cases xs) auto
  then obtain c cs where c: "pr x = c # cs" "\<not> is_ws c" "c \<noteq> close" using assms(6) [of x] by auto
  then have "\<exists>t. skip_ws ?s = c # t" using xs assms(2) by (cases xs') (auto simp: skip_ws_append skip_ws_Cons)
  moreover have "sep_by p close ?s = Inr (map f xs, rest)" by (rule sep_by_join [OF assms(1-5,7)])
  ultimately show ?thesis using c(3) by (auto simp: bracketed_def)
qed

lemma scan_value_number:
  assumes "num_stop rest"
  shows "scan_value d (itoa i @ rest) = Inr (JNum (itoa i), rest)"
proof -
  obtain c0 cs0 where "Itoa (nat i) = c0 # cs0" "is_digit c0" using Itoa_Cons [of "nat i"] by blast
  then obtain c cs where c: "itoa i = c # cs" "c = CHR ''-'' \<or> is_digit c"
    by (cases "i < 0") (simp_all add: itoa_def)
  have "\<not> is_ws c" using c(2) digit_not_ws by auto
  moreover have "c \<notin> {QUOTE, CHR ''{'', CHR ''['', CHR ''t'', CHR ''f'', CHR ''n''}" using c(2) by auto
  moreover have "scan_number (c # cs @ rest) = Inr (c # cs, rest)"
    using scan_number_itoa [OF assms, of i] c(1) by simp
  ultimately show ?thesis using c by (simp add: scan_value.simps skip_ws_Cons)
qed

lemma scan_member_print:
  assumes "all_ws w" "all_ws sp" "p = scan_value d" "p (t @ rest) = Inr (v, rest)"
  shows "scan_member p (w @ (appendString k @ CHR '':'' # sp @ t) @ rest) = Inr ((clean_text k, v), rest)"
  using assms unfolding scan_member_skip [OF assms(1)]
  by (simp add: scan_member_def appendString_def skip_ws_Cons str_body_segs scan_value_skip)

theorem scan_value_jprint_clean:
  assumes "\<And>l. all_ws (nl l)" "all_ws sp"
  shows "jshape d v \<Longrightarrow> (\<exists>n. v = JNum n) \<longrightarrow> num_stop rest \<Longrightarrow> scan_value d (jprint nl sp l v @ rest) = Inr (jclean v, rest)"
proof (induction v arbitrary: d l rest)
  case (JNum s)
  then show ?case using scan_value_number by auto
next
  case (JStr s)
  then show ?case by (simp add: scan_value.simps appendString_def skip_ws_Cons str_body_segs)
next
  case (JArr vs)
  let ?w = "nl (Suc l)" and ?pr = "jprint nl sp (Suc l)"
  have "bracketed (scan_value (d - 1)) (CHR '']'') (?w @ join_with (CHR '','' # ?w) (map ?pr vs) @ nl l @ CHR '']'' # rest)
      = Inr (map jclean vs, rest)" if "vs \<noteq> []"
  proof (rule bracketed_join [OF consumes_scan_value assms(1) assms(1)])
    fix v assume "v \<in> set vs"
    then show "\<exists>c cs. ?pr v = c # cs \<and> \<not> is_ws c \<and> c \<noteq> CHR '']''" using JArr(2) jprint_head by fastforce
  qed (use JArr that in \<open>simp_all add: scan_value_skip assms\<close>)
  then show ?case using JArr(2) by (cases "vs = []") (simp_all add: scan_value.simps [of d] skip_ws_Cons bracketed_def)
next
  case (JObj kvs)
  let ?w = "nl (Suc l)" and ?pr = "\<lambda>(k, v). appendString k @ CHR '':'' # sp @ jprint nl sp (Suc l) v"
  let ?f = "\<lambda>(k, v). (clean_text k, jclean v)"
  have "bracketed (scan_member (scan_value (d - 1))) (CHR ''}'') (?w @ join_with (CHR '','' # ?w) (map ?pr kvs) @ nl l @ CHR ''}'' # rest)
      = Inr (map ?f kvs, rest)" if "kvs \<noteq> []"
  proof (rule bracketed_join [OF consumes_scan_member [OF consumes_scan_value] assms(1) assms(1)])
    fix kv r assume kv: "kv \<in> set kvs" and "num_stop r"
    then have "scan_value (d - 1) (jprint nl sp (Suc l) (snd kv) @ r) = Inr (jclean (snd kv), r)"
      using JObj(1) [of kv "snd kv" "d - 1" r "Suc l"] JObj(2) by (auto simp: snds.simps)
    then show "scan_member (scan_value (d - 1)) (?w @ ?pr kv @ r) = Inr (?f kv, r)"
      using scan_member_print [OF assms(1) assms(2) refl] by (cases kv) simp
  next
    fix kv
    show "\<exists>c cs. ?pr kv = c # cs \<and> \<not> is_ws c \<and> c \<noteq> CHR ''}''" by (cases kv) (simp add: appendString_def)
  qed (simp_all add: that)
  then show ?case using JObj(2) by (cases "kvs = []") (simp_all add: scan_value.simps [of d] skip_ws_Cons bracketed_def)
qed (simp_all add: scan_value.simps skip_ws_Cons scan_literal_def)

lemma scan_value_jprint:
  assumes "\<And>l. all_ws (nl l)" "all_ws sp" "jok d v" "(\<exists>n. v = JNum n) \<longrightarrow> num_stop rest"
  shows "scan_value d (jprint nl sp l v @ rest) = Inr (v, rest)"
proof -
  have v: "jshape d v" "jclean v = v" using jok_clean [OF assms(3)] by simp_all
  have "scan_value d (jprint nl sp l v @ rest) = Inr (jclean v, rest)"
    by (rule scan_value_jprint_clean) (use assms v in simp_all)
  then show ?thesis unfolding v(2) .
qed

end
