(* ===== verification/Go_Struct.thy ===== *)
theory Go_Struct
  imports Go_Json_Roundtrip
begin

text \<open>
  \<open>encoding/json\<close> between syntax trees and Go data: how the members of an object are matched with
  the fields of a struct and stored, for the types the repository's structs have, and the round
  trips from which those of the structs follow.
\<close>

section \<open>Values to Go data\<close>

definition json_type :: err where "json_type = Err ''json: cannot unmarshal''"

text \<open>
  \<open>foldName\<close>: the key a field is looked up under when no name matches exactly. Upper-casing
  reaches ASCII letters from two code points outside ASCII, the long s and the Kelvin sign;
  every other one folds to a code point outside ASCII, which no field name has, and stays as
  it is here.
\<close>

definition fold_rune :: "nat \<times> bytes \<Rightarrow> bytes" where
  "fold_rune = (\<lambda>(r, c). if 0x61 \<le> r \<and> r \<le> 0x7A then [char_of (r - 0x20)]
     else if r = 0x17F then ''S'' else if r = 0x212A then ''K'' else c)"

definition foldName :: "bytes \<Rightarrow> bytes" where
  "foldName k = concat (map fold_rune (segs k))"

text \<open>The fields of a struct: a name and how a value is stored.\<close>

type_synonym 's fields = "(string \<times> (json \<Rightarrow> 's \<Rightarrow> 's result)) list"

definition find_field :: "'s fields \<Rightarrow> string \<Rightarrow> (json \<Rightarrow> 's \<Rightarrow> 's result) option" where
  "find_field fs k = (case map_of fs k of Some f \<Rightarrow> Some f
     | None \<Rightarrow> map_of (map (\<lambda>(n, f). (foldName n, f)) fs) (foldName k))"

text \<open>The members of an object in order; \<open>strict\<close> is \<open>DisallowUnknownFields\<close>.\<close>

fun decode_fields :: "bool \<Rightarrow> 's fields \<Rightarrow> (string \<times> json) list \<Rightarrow> 's \<Rightarrow> 's result" where
  "decode_fields strict fs [] s = Inr s"
| "decode_fields strict fs ((k, v) # kvs) s = (case find_field fs k of
     None \<Rightarrow> if strict then Inl (ErrF ''json: unknown field %q'' [k]) else decode_fields strict fs kvs s
   | Some f \<Rightarrow> bindR (f v s) (\<lambda>s'. decode_fields strict fs kvs s'))"

definition decode_struct :: "bool \<Rightarrow> 's fields \<Rightarrow> json \<Rightarrow> 's \<Rightarrow> 's result" where
  "decode_struct strict fs v s = (case v of JNull \<Rightarrow> Inr s
     | JObj kvs \<Rightarrow> decode_fields strict fs kvs s | _ \<Rightarrow> Inl json_type)"

text \<open>A field that is read with \<open>get\<close> and set with \<open>upd\<close>, decoded by \<open>dec\<close> from its old value.\<close>

definition put_field :: "(json \<Rightarrow> 'a \<Rightarrow> 'a result) \<Rightarrow> ('s \<Rightarrow> 'a) \<Rightarrow> (('a \<Rightarrow> 'a) \<Rightarrow> 's \<Rightarrow> 's) \<Rightarrow> json \<Rightarrow> 's \<Rightarrow> 's result" where
  "put_field dec get upd v s = bindR (dec v (get s)) (\<lambda>x. Inr (upd (\<lambda>_. x) s))"

text \<open>The types: \<open>null\<close> leaves a string or number as it was and empties a slice.\<close>

definition dec_string :: "json \<Rightarrow> string \<Rightarrow> string result" where
  "dec_string v old = (case v of JNull \<Rightarrow> Inr old | JStr s \<Rightarrow> Inr s | _ \<Rightarrow> Inl json_type)"

definition dec_number :: "(string \<Rightarrow> 'a option) \<Rightarrow> json \<Rightarrow> 'a \<Rightarrow> 'a result" where
  "dec_number parse v old = (case v of JNull \<Rightarrow> Inr old
     | JNum n \<Rightarrow> (case parse n of None \<Rightarrow> Inl json_type | Some i \<Rightarrow> Inr i) | _ \<Rightarrow> Inl json_type)"

definition dec_bool :: "json \<Rightarrow> bool \<Rightarrow> bool result" where
  "dec_bool v old = (case v of JNull \<Rightarrow> Inr old | JBool b \<Rightarrow> Inr b | _ \<Rightarrow> Inl json_type)"

abbreviation dec_int64 :: "json \<Rightarrow> int \<Rightarrow> int result" where
  "dec_int64 \<equiv> dec_number ParseInt64"

abbreviation dec_uint64 :: "json \<Rightarrow> 64 word \<Rightarrow> (64 word) result" where
  "dec_uint64 \<equiv> dec_number (\<lambda>n. map_option of_nat (ParseUint 64 n))"

abbreviation dec_uint8 :: "json \<Rightarrow> char \<Rightarrow> char result" where
  "dec_uint8 \<equiv> dec_number (\<lambda>n. map_option char_of (ParseUint 8 n))"

text \<open>
  A slice is its elements and what the array behind it holds beyond them: an array element that
  is \<open>null\<close> keeps what an earlier value of the same field left there.
\<close>

fun dec_elems :: "(json \<Rightarrow> 'a \<Rightarrow> 'a result) \<Rightarrow> 'a \<Rightarrow> json list \<Rightarrow> 'a list \<Rightarrow> 'a list result" where
  "dec_elems dec z [] old = Inr []"
| "dec_elems dec z (v # vs) old = bindR (dec v (case old of [] \<Rightarrow> z | x # _ \<Rightarrow> x)) (\<lambda>x.
     bindR (dec_elems dec z vs (tl old)) (\<lambda>xs. Inr (x # xs)))"

definition dec_slice :: "(json \<Rightarrow> 'a \<Rightarrow> 'a result) \<Rightarrow> 'a \<Rightarrow> json \<Rightarrow> 'a list \<times> 'a list \<Rightarrow> ('a list \<times> 'a list) result" where
  "dec_slice dec z v = (\<lambda>(xs, hidden). case v of
     JNull \<Rightarrow> Inr ([], [])
   | JArr vs \<Rightarrow> if vs = [] then Inr ([], [])
       else bindR (dec_elems dec z vs (xs @ hidden)) (\<lambda>ys. Inr (ys, drop (length ys) (xs @ hidden)))
   | _ \<Rightarrow> Inl json_type)"

text \<open>\<open>[]byte\<close> is a base64 string, or an array of small numbers.\<close>

definition dec_bytes :: "json \<Rightarrow> bytes \<times> bytes \<Rightarrow> (bytes \<times> bytes) result" where
  "dec_bytes v old = (case v of
     JStr s \<Rightarrow> (case base64_DecodeString s of None \<Rightarrow> Inl ErrCorruptBase64 | Some b \<Rightarrow> Inr (b, []))
   | _ \<Rightarrow> dec_slice dec_uint8 (CHR 0x00) v old)"

text \<open>A field with \<open>omitempty\<close>.\<close>

definition omitempty :: "bool \<Rightarrow> string \<Rightarrow> json \<Rightarrow> (string \<times> json) list" where
  "omitempty em k v = (if em then [] else [(k, v)])"

abbreviation JInt :: "int \<Rightarrow> json" where "JInt i \<equiv> JNum (itoa i)"
abbreviation JBytes :: "bytes \<Rightarrow> json" where "JBytes b \<equiv> JStr (base64_EncodeToString b)"

abbreviation in_int64 :: "int \<Rightarrow> bool" where "in_int64 i \<equiv> - (2 ^ 63) \<le> i \<and> i < 2 ^ 63"

section \<open>Struct round trips\<close>

lemma decode_fields_append:
  "decode_fields st fs (xs @ ys) s = bindR (decode_fields st fs xs s) (\<lambda>s'. decode_fields st fs ys s')"
proof (induction xs arbitrary: s)
  case (Cons x xs)
  then show ?case by (cases x) (auto simp: bindR_def split: option.splits sum.splits)
qed simp

text \<open>One field of a struct: decoding what was written stores the value that was written.\<close>

lemma decode_omitempty:
  assumes "find_field fs k = Some (put_field dec get upd)" "\<not> em \<Longrightarrow> dec v (get s) = Inr x" "em \<Longrightarrow> upd (\<lambda>_. x) s = s"
  shows "decode_fields st fs (omitempty em k v @ kvs) s = decode_fields st fs kvs (upd (\<lambda>_. x) s)"
  using assms by (cases em) (simp_all add: omitempty_def put_field_def)

lemma decode_Cons:
  assumes "find_field fs k = Some (put_field dec get upd)" "dec v (get s) = Inr x"
  shows "decode_fields st fs ((k, v) # kvs) s = decode_fields st fs kvs (upd (\<lambda>_. x) s)"
  using assms by (simp add: put_field_def)

lemma find_field_exact: "map_of fs k = Some f \<Longrightarrow> find_field fs k = Some f"
  by (simp add: find_field_def)

lemma dec_string_JStr [simp]: "dec_string (JStr s) old = Inr s"
  by (simp add: dec_string_def)

lemma dec_int64_JInt [simp]: "in_int64 i \<Longrightarrow> dec_int64 (JInt i) old = Inr i"
  by (simp add: dec_number_def ParseInt64_itoa)

lemma dec_uint64_Itoa [simp]: "dec_uint64 (JNum (Itoa (unat w))) old = Inr w"
proof -
  have "unat w < 2 ^ 64" using unsigned_less [of w] by simp
  then have "ParseUint 64 (Itoa (unat w)) = Some (unat w)" by (rule ParseUint_Itoa)
  then show ?thesis by (simp add: dec_number_def)
qed

lemma dec_bytes_JBytes [simp]: "dec_bytes (JBytes b) old = Inr (b, [])"
  by (simp add: dec_bytes_def)

lemma dec_elems_strings: "dec_elems dec_string [] (map JStr xs) old = Inr xs"
  by (induction xs arbitrary: old) simp_all

lemma dec_slice_strings:
  "xs \<noteq> [] \<Longrightarrow> dec_slice dec_string [] (JArr (map JStr xs)) ([], []) = Inr (xs, [])"
  by (simp add: dec_slice_def dec_elems_strings)

section \<open>Whole documents\<close>

lemma skip_ws_jprint: "jshape d v \<Longrightarrow> skip_ws (jprint nl sp l v @ rest) = jprint nl sp l v @ rest"
  using jprint_head [of d v nl sp l] by (auto simp: skip_ws_Cons)

lemma decoder_value_Marshal: "jok maxNestingDepth v \<Longrightarrow> decoder_value (Marshal v) = Inr (v, [])"
proof -
  assume v: "jok maxNestingDepth v"
  then have sh: "jshape maxNestingDepth v" using jok_clean by blast
  have "scan_value maxNestingDepth (Marshal v) = Inr (v, [])"
    using scan_value_jprint [of "\<lambda>_. []" "[]" maxNestingDepth v "[]" 0] v by (simp add: Marshal_def)
  moreover have "skip_ws (Marshal v) \<noteq> []"
    using skip_ws_jprint [OF sh, of "\<lambda>_. []" "[]" 0 "[]"] jprint_head [OF sh, of "\<lambda>_. []" "[]" 0]
    by (auto simp: Marshal_def)
  ultimately show ?thesis by (simp add: decoder_value_def)
qed

lemma unmarshal_Marshal_clean: "jshape maxNestingDepth v \<Longrightarrow> unmarshal_value (Marshal v) = Inr (jclean v)"
  using scan_value_jprint_clean [of "\<lambda>_. []" "[]" maxNestingDepth v "[]" 0] by (simp add: Marshal_def unmarshal_value_def skip_ws_def)

lemma unmarshal_Marshal: "jok maxNestingDepth v \<Longrightarrow> unmarshal_value (Marshal v) = Inr v"
  using unmarshal_Marshal_clean [of v] jok_clean [of maxNestingDepth v] by simp

lemma unmarshal_MarshalIndent: "jok maxNestingDepth v \<Longrightarrow> unmarshal_value (MarshalIndent v) = Inr v"
  using scan_value_jprint [of "\<lambda>l. CHR 0x0A # replicate (2 * l) (CHR '' '')" "'' ''" maxNestingDepth v "[]" 0]
  by (simp add: MarshalIndent_def unmarshal_value_def skip_ws_def list_all_iff)

lemma scan_object: "jok d (JObj kvs) \<Longrightarrow> scan_value d (Marshal (JObj kvs) @ rest) = Inr (JObj kvs, rest)"
  using scan_value_jprint [of "\<lambda>_. []" "[]" d "JObj kvs" rest 0] by (simp add: Marshal_def)

lemma set_base64_ascii: "is_ascii (base64_EncodeToString bs)" "list_all plain_char (base64_EncodeToString bs)"
proof -
  have p: "plain_char (b64_char n)" for n
  proof -
    have "list_all plain_char ''ABCDEFGHIJKLMNOPQRSTUVWXYZabcdefghijklmnopqrstuvwxyz0123456789+/''"
      by (simp add: plain_char_def)
    then show ?thesis unfolding b64_char_def list_all_length by (elim allE [of _ "n mod 64"]) simp
  qed
  show 1: "list_all plain_char (base64_EncodeToString bs)"
    by (induction bs rule: base64_EncodeToString.induct) (simp_all add: Let_def p, simp_all add: plain_char_def)
  then show "is_ascii (base64_EncodeToString bs)" by (auto simp: list_all_iff plain_char_def Let_def)
qed

lemma ValidString_base64 [simp]: "ValidString (base64_EncodeToString bs)"
  by (rule ValidString_ascii) (rule set_base64_ascii)

section \<open>Length of the text\<close>

lemma jprint_compact: "jprint (\<lambda>_. []) [] l v = Marshal v"
proof -
  have "jprint (\<lambda>_. []) [] l v = jprint (\<lambda>_. []) [] l' v" for l'
  proof (induction v arbitrary: l l')
    case (JArr vs)
    have "map (jprint (\<lambda>_. []) [] (Suc l)) vs = map (jprint (\<lambda>_. []) [] (Suc l')) vs"
      by (rule map_cong [OF refl JArr])
    then show ?case by (simp only: jprint.simps)
  next
    case (JObj kvs)
    have "map (\<lambda>(k, v). appendString k @ CHR '':'' # [] @ jprint (\<lambda>_. []) [] (Suc l) v) kvs
        = map (\<lambda>(k, v). appendString k @ CHR '':'' # [] @ jprint (\<lambda>_. []) [] (Suc l') v) kvs"
      using JObj by (intro map_cong [OF refl]) (auto simp: snds.simps)
    then show ?case by (simp only: jprint.simps)
  qed simp_all
  then show ?thesis by (simp add: Marshal_def)
qed

lemma length_join: "xs \<noteq> [] \<Longrightarrow> Suc (length (join_with [c] xs)) = (\<Sum>x\<leftarrow>xs. Suc (length x))"
  by (induction xs rule: induct_list012) simp_all

lemma length_Marshal_JObj:
  assumes "kvs \<noteq> []"
  shows "length (Marshal (JObj kvs)) = 1 + (\<Sum>(k, v)\<leftarrow>kvs. length (appendString k) + length (Marshal v) + 2)"
proof -
  let ?pr = "\<lambda>(k, v). appendString k @ CHR '':'' # Marshal v"
  have "Marshal (JObj kvs) = CHR ''{'' # join_with [CHR '',''] (map ?pr kvs) @ [CHR ''}'']"
    using assms by (simp add: Marshal_def [of "JObj kvs"] jprint_compact)
  then have "length (Marshal (JObj kvs)) = 1 + Suc (length (join_with [CHR '',''] (map ?pr kvs)))" by simp
  also have "\<dots> = 1 + (\<Sum>x\<leftarrow>map ?pr kvs. Suc (length x))"
    by (subst length_join) (use assms in simp_all)
  also have "(\<Sum>x\<leftarrow>map ?pr kvs. Suc (length x)) = (\<Sum>(k, v)\<leftarrow>kvs. length (appendString k) + length (Marshal v) + 2)"
    by (simp add: case_prod_unfold comp_def)
  finally show ?thesis .
qed

lemma length_Marshal_strings: "length (Marshal (JArr (map JStr xs))) \<le> 2 + (\<Sum>x\<leftarrow>xs. 6 * length x + 3)"
proof (cases "xs = []")
  case False
  have "Marshal (JArr (map JStr xs)) = CHR ''['' # join_with [CHR '',''] (map appendString xs) @ [CHR '']'']"
    using False by (simp add: Marshal_def comp_def)
  then have "length (Marshal (JArr (map JStr xs))) = 1 + (\<Sum>x\<leftarrow>map appendString xs. Suc (length x))"
    using length_join [of "map appendString xs" "CHR '',''"] False by simp
  moreover have "(\<Sum>x\<leftarrow>map appendString xs. Suc (length x)) \<le> (\<Sum>x\<leftarrow>xs. 6 * length x + 3)"
    using length_appendString by (auto simp: comp_def intro!: sum_list_mono)
  ultimately show ?thesis by linarith
qed (simp add: Marshal_def)

lemma length_Marshal_JStr: "length (Marshal (JStr s)) \<le> 6 * length s + 2"
  using length_appendString [of s] by (simp add: Marshal_def)

lemma length_Marshal_JBytes: "length (Marshal (JBytes b)) = (length b + 2) div 3 * 4 + 2"
  by (simp add: Marshal_def appendString_plain set_base64_ascii length_base64)

lemma length_Itoa: "n < 10 ^ k \<Longrightarrow> 0 < k \<Longrightarrow> length (Itoa n) \<le> k"
proof (induction k arbitrary: n)
  case (Suc k)
  show ?case
  proof (cases "n < 10")
    case False
    with Suc.prems have "n div 10 < 10 ^ k" "0 < k" by (auto simp: less_mult_imp_div_less intro: ccontr)
    then have "length (Itoa (n div 10)) \<le> k" by (rule Suc.IH)
    with False show ?thesis by (simp add: Itoa.simps [of n])
  qed (simp add: Itoa.simps [of n])
qed simp

lemma length_Marshal_JInt: "in_int64 i \<Longrightarrow> length (Marshal (JInt i)) \<le> 20"
proof -
  assume "in_int64 i"
  then have "nat (- i) < 10 ^ 19" "nat i < 10 ^ 19" by auto
  then have "length (Itoa (nat (- i))) \<le> 19" "length (Itoa (nat i)) \<le> 19" by (simp_all only: length_Itoa)
  then show ?thesis by (simp add: Marshal_def itoa_def)
qed

lemma length_Marshal_word: "length (Marshal (JNum (Itoa (unat (w :: 64 word))))) \<le> 20"
proof -
  have "unat w < 2 ^ 64" using unsigned_less [of w] by simp
  then have "unat w < 10 ^ 20" by simp
  then have "length (Itoa (unat w)) \<le> 20" by (rule length_Itoa) simp
  then show ?thesis by (simp add: Marshal_def)
qed

lemma sum_omitempty: "(\<Sum>(k, v)\<leftarrow>omitempty em key x. f k v) = (if em then 0 else f key x :: nat)"
  by (simp add: omitempty_def)

end
