(* ===== verification/Proto.thy ===== *)
theory Proto
  imports Platform Go_Struct
begin

text \<open>
  Package \<open>internal/proto\<close>: the length-prefixed frame codec, the envelope and its validation,
  message ids, and the handshake's \<open>Hello\<close>.

  A reader is the byte sequence still to come and reading returns the rest of it; a writer is
  the bytes to append. An envelope travels as its JSON text, printed and parsed by the model of
  \<open>encoding/json\<close>.
\<close>

section \<open>Constants\<close>

definition Version :: int where "Version = 2"
definition MaxFrame :: nat where "MaxFrame = 65535"
definition MaxBody :: nat where "MaxBody = 4096"
definition MaxFileSize :: int where "MaxFileSize = 100 * 2 ^ 20"
definition IDLen :: nat where "IDLen = 16"
definition ChunkSize :: nat where "ChunkSize = 32 * 2 ^ 10"

abbreviation CapFiles :: string where "CapFiles \<equiv> ''files''"
abbreviation CapReactions :: string where "CapReactions \<equiv> ''reactions''"
abbreviation CapReceipts :: string where "CapReceipts \<equiv> ''receipts''"
abbreviation CapTyping :: string where "CapTyping \<equiv> ''typing''"
abbreviation CapRooms :: string where "CapRooms \<equiv> ''rooms''"
abbreviation CapResume :: string where "CapResume \<equiv> ''resume''"

abbreviation TypeMsg :: string where "TypeMsg \<equiv> ''msg''"
abbreviation TypeAck :: string where "TypeAck \<equiv> ''ack''"
abbreviation TypePing :: string where "TypePing \<equiv> ''ping''"
abbreviation TypeReact :: string where "TypeReact \<equiv> ''react''"
abbreviation TypeDel :: string where "TypeDel \<equiv> ''del''"
abbreviation TypeDelAll :: string where "TypeDelAll \<equiv> ''delall''"
abbreviation TypeTyping :: string where "TypeTyping \<equiv> ''typing''"
abbreviation TypeRead :: string where "TypeRead \<equiv> ''read''"
abbreviation TypeFile :: string where "TypeFile \<equiv> ''file''"
abbreviation TypeChunk :: string where "TypeChunk \<equiv> ''chunk''"
abbreviation TypeFileAck :: string where "TypeFileAck \<equiv> ''fileack''"
abbreviation TypeRoomMsg :: string where "TypeRoomMsg \<equiv> ''roommsg''"
abbreviation TypeRoomAck :: string where "TypeRoomAck \<equiv> ''roomack''"
abbreviation TypeRoomEvent :: string where "TypeRoomEvent \<equiv> ''roomevent''"

section \<open>Frames\<close>

definition WriteFrame :: "bytes \<Rightarrow> bytes result" where
  "WriteFrame payload =
     (if length payload = 0 then Inl ErrEmptyFrame
      else if length payload > MaxFrame then Inl ErrFrameTooLarge
      else Inr (be_bytes 2 (length payload) @ payload))"

text \<open>\<open>io.ReadFull\<close>: \<open>EOF\<close> when nothing is left, \<open>ErrUnexpectedEOF\<close> when too little is.\<close>

definition ReadFull :: "nat \<Rightarrow> bytes \<Rightarrow> (bytes \<times> bytes) result" where
  "ReadFull n r =
     (if n \<le> length r then Inr (take n r, drop n r)
      else if r = [] then Inl ErrEOF else Inl ErrUnexpectedEOF)"

definition ReadFrame :: "bytes \<Rightarrow> (bytes \<times> bytes) result" where
  "ReadFrame r = bindR (ReadFull 2 r) (\<lambda>(hdr, r1).
     let n = be_nat hdr in
     if n = 0 then Inl ErrEmptyFrame else ReadFull n r1)"

section \<open>Envelopes\<close>

record envelope =
  e_T :: string
  e_ID :: string
  e_TS :: int
  e_Body :: string
  e_ReplyTo :: string
  e_Emoji :: string
  e_Target :: string
  e_Src :: string
  e_Size :: int
  e_Hash :: string
  e_Offset :: int
  e_Chunk :: bytes
  e_Room :: string
  e_Seq :: "64 word"
  e_RoomEvent :: string
  e_RoomName :: string
  e_RoomActor :: string
  e_RoomMembers :: "string list"

text \<open>\<open>Envelope{}\<close>.\<close>

definition envelope0 :: envelope where
  "envelope0 = \<lparr>e_T = [], e_ID = [], e_TS = 0, e_Body = [], e_ReplyTo = [], e_Emoji = [],
     e_Target = [], e_Src = [], e_Size = 0, e_Hash = [], e_Offset = 0, e_Chunk = [],
     e_Room = [], e_Seq = 0, e_RoomEvent = [], e_RoomName = [], e_RoomActor = [],
     e_RoomMembers = []\<rparr>"

definition NewID :: "rnd \<Rightarrow> string result" where
  "NewID r = (case r of None \<Rightarrow> Inl ErrRand
     | Some b \<Rightarrow> bindR (ReadFull IDLen b) (\<lambda>(x, _). Inr (hex_EncodeToString x)))"

definition checkID :: "string \<Rightarrow> unit result" where
  "checkID ident = checks [
     require (length ident = IDLen * 2) (Err ''proto: bad id length''),
     require (hex_DecodeString ident \<noteq> None) (Err ''proto: id is not hex'')]"

definition optional :: "string \<Rightarrow> unit result \<Rightarrow> unit result" where
  "optional s r = (if s \<noteq> [] then r else Inr ())"

definition validate :: "envelope \<Rightarrow> unit result" where
  "validate e = bindR
    (if e_T e = TypeMsg then checks [
       checkID (e_ID e),
       require (e_Body e \<noteq> []) (Err ''proto: empty body''),
       require (\<not> length (e_Body e) > MaxBody) (Err ''proto: body too long''),
       require (ValidString (e_Body e)) (Err ''proto: body is not valid UTF-8''),
       optional (e_ReplyTo e) (wrap_err ''proto: bad replyTo'' (checkID (e_ReplyTo e)))]
     else if e_T e = TypeAck then checks [
       checkID (e_ID e),
       require (e_Body e = []) (Err ''proto: ack must not carry a body'')]
     else if e_T e = TypePing then
       require (\<not> (e_ID e \<noteq> [] \<or> e_Body e \<noteq> [])) (Err ''proto: ping must be empty'')
     else if e_T e = TypeReact then checks [
       wrap_err ''proto: bad react target'' (checkID (e_Target e)),
       require (e_Emoji e \<noteq> []) (Err ''proto: react must have emoji''),
       require (\<not> RuneCountInString (e_Emoji e) > 32) (Err ''proto: emoji too long''),
       require (ValidString (e_Emoji e)) (Err ''proto: emoji is not valid UTF-8''),
       optional (e_Room e) (wrap_err ''proto: bad react room'' (checkID (e_Room e)))]
     else if e_T e = TypeDel then
       wrap_err ''proto: bad del target'' (checkID (e_Target e))
     else if e_T e = TypeDelAll then
       wrap_err ''proto: bad delall target'' (checkID (e_Target e))
     else if e_T e = TypeTyping then Inr ()
     else if e_T e = TypeRead then checks [
       require (e_Target e \<noteq> []) (Err ''proto: read must have target''),
       wrap_err ''proto: bad read target'' (checkID (e_Target e))]
     else if e_T e = TypeFile then checks [
       checkID (e_ID e),
       require (e_Src e \<noteq> []) (Err ''proto: file must have src''),
       require (\<not> (e_Size e \<le> 0 \<or> e_Size e > MaxFileSize)) (Err ''proto: file size out of range''),
       require (\<not> (e_Hash e = [] \<or> length (e_Hash e) \<noteq> 64))
         (Err ''proto: file must have 64-char SHA-256 hash''),
       require (hex_DecodeString (e_Hash e) \<noteq> None) (Err ''proto: file hash is not hex'')]
     else if e_T e = TypeChunk then checks [
       checkID (e_ID e),
       require (\<not> (e_Offset e < 0 \<or> e_Offset e > MaxFileSize))
         (Err ''proto: chunk offset out of range''),
       require (\<not> (length (e_Chunk e) = 0 \<or> length (e_Chunk e) > ChunkSize + 1024))
         (Err ''proto: chunk size out of range'')]
     else if e_T e = TypeFileAck then checks [
       checkID (e_ID e),
       require (\<not> (e_Offset e < 0 \<or> e_Offset e > MaxFileSize))
         (Err ''proto: fileack offset out of range''),
       require (\<not> (length (e_Chunk e) \<noteq> 0 \<or> e_Body e \<noteq> []))
         (Err ''proto: fileack must carry no data'')]
     else if e_T e = TypeRoomMsg then checks [
       checkID (e_ID e),
       require (e_Room e \<noteq> []) (Err ''proto: roommsg must have room''),
       wrap_err ''proto: bad room id'' (checkID (e_Room e)),
       require (e_Body e \<noteq> []) (Err ''proto: roommsg must have body''),
       require (\<not> length (e_Body e) > MaxBody) (Err ''proto: body too long''),
       require (ValidString (e_Body e)) (Err ''proto: body is not valid UTF-8''),
       optional (e_ReplyTo e) (wrap_err ''proto: bad replyTo'' (checkID (e_ReplyTo e)))]
     else if e_T e = TypeRoomAck then checks [
       checkID (e_ID e),
       require (e_Room e \<noteq> []) (Err ''proto: roomack must have room''),
       wrap_err ''proto: bad room id'' (checkID (e_Room e))]
     else if e_T e = TypeRoomEvent then checks [
       require (e_Room e \<noteq> []) (Err ''proto: roomevent must have room''),
       wrap_err ''proto: bad room id'' (checkID (e_Room e)),
       require (e_RoomEvent e \<in> {''join'', ''leave'', ''remove'', ''rename'', ''create''})
         (ErrF ''proto: unknown room event %q'' [e_RoomEvent e]),
       require (e_RoomActor e \<noteq> []) (Err ''proto: roomevent must have roomActor'')]
     else Inl (ErrF ''proto: unknown type %q'' [e_T e]))
    (\<lambda>_. require (\<not> (e_Seq e \<noteq> 0 \<and> e_T e \<noteq> TypeRoomMsg))
       (ErrF ''proto: %s must not carry seq'' [e_T e]))"

text \<open>The members of an envelope's JSON object, in the order of the struct and with its tags.\<close>

definition envelope_json :: "envelope \<Rightarrow> json" where
  "envelope_json e = JObj ((''t'', JStr (e_T e))
     # omitempty (e_ID e = []) ''id'' (JStr (e_ID e))
     @ omitempty (e_TS e = 0) ''ts'' (JInt (e_TS e))
     @ omitempty (e_Body e = []) ''body'' (JStr (e_Body e))
     @ omitempty (e_ReplyTo e = []) ''replyTo'' (JStr (e_ReplyTo e))
     @ omitempty (e_Emoji e = []) ''emoji'' (JStr (e_Emoji e))
     @ omitempty (e_Target e = []) ''target'' (JStr (e_Target e))
     @ omitempty (e_Src e = []) ''src'' (JStr (e_Src e))
     @ omitempty (e_Size e = 0) ''size'' (JInt (e_Size e))
     @ omitempty (e_Hash e = []) ''hash'' (JStr (e_Hash e))
     @ omitempty (e_Offset e = 0) ''offset'' (JInt (e_Offset e))
     @ omitempty (e_Chunk e = []) ''chunk'' (JBytes (e_Chunk e))
     @ omitempty (e_Room e = []) ''room'' (JStr (e_Room e))
     @ omitempty (e_Seq e = 0) ''seq'' (JNum (Itoa (unat (e_Seq e))))
     @ omitempty (e_RoomEvent e = []) ''roomEvent'' (JStr (e_RoomEvent e))
     @ omitempty (e_RoomName e = []) ''roomName'' (JStr (e_RoomName e))
     @ omitempty (e_RoomActor e = []) ''roomActor'' (JStr (e_RoomActor e))
     @ omitempty (e_RoomMembers e = []) ''roomMembers'' (JArr (map JStr (e_RoomMembers e)))
     @ [])"

text \<open>
  The envelope while it is decoded, with what the arrays behind its two slices hold beyond their
  ends.
\<close>

type_synonym envelope_mem = "envelope \<times> bytes \<times> string list"

definition env_field :: "(json \<Rightarrow> 'a \<Rightarrow> 'a result) \<Rightarrow> (envelope \<Rightarrow> 'a) \<Rightarrow> (('a \<Rightarrow> 'a) \<Rightarrow> envelope \<Rightarrow> envelope)
    \<Rightarrow> json \<Rightarrow> envelope_mem \<Rightarrow> envelope_mem result" where
  "env_field dec get upd = put_field dec (\<lambda>(e, m). get e) (\<lambda>f (e, m). (upd f e, m))"

definition chunk_update :: "(bytes \<times> bytes \<Rightarrow> bytes \<times> bytes) \<Rightarrow> envelope_mem \<Rightarrow> envelope_mem" where
  "chunk_update f = (\<lambda>(e, hc, hm). case f (e_Chunk e, hc) of (c, h) \<Rightarrow> (e\<lparr>e_Chunk := c\<rparr>, h, hm))"

definition members_update :: "(string list \<times> string list \<Rightarrow> string list \<times> string list) \<Rightarrow> envelope_mem \<Rightarrow> envelope_mem" where
  "members_update f = (\<lambda>(e, hc, hm). case f (e_RoomMembers e, hm) of (c, h) \<Rightarrow> (e\<lparr>e_RoomMembers := c\<rparr>, hc, h))"

definition envelope_fields :: "envelope_mem fields" where
  "envelope_fields = [
     (''t'', env_field dec_string e_T e_T_update),
     (''id'', env_field dec_string e_ID e_ID_update),
     (''ts'', env_field dec_int64 e_TS e_TS_update),
     (''body'', env_field dec_string e_Body e_Body_update),
     (''replyTo'', env_field dec_string e_ReplyTo e_ReplyTo_update),
     (''emoji'', env_field dec_string e_Emoji e_Emoji_update),
     (''target'', env_field dec_string e_Target e_Target_update),
     (''src'', env_field dec_string e_Src e_Src_update),
     (''size'', env_field dec_int64 e_Size e_Size_update),
     (''hash'', env_field dec_string e_Hash e_Hash_update),
     (''offset'', env_field dec_int64 e_Offset e_Offset_update),
     (''chunk'', put_field dec_bytes (\<lambda>(e, hc, hm). (e_Chunk e, hc)) chunk_update),
     (''room'', env_field dec_string e_Room e_Room_update),
     (''seq'', env_field dec_uint64 e_Seq e_Seq_update),
     (''roomEvent'', env_field dec_string e_RoomEvent e_RoomEvent_update),
     (''roomName'', env_field dec_string e_RoomName e_RoomName_update),
     (''roomActor'', env_field dec_string e_RoomActor e_RoomActor_update),
     (''roomMembers'', put_field (dec_slice dec_string []) (\<lambda>(e, hc, hm). (e_RoomMembers e, hm)) members_update)]"

definition Encode :: "envelope \<Rightarrow> bytes result" where
  "Encode e = bindR (validate e) (\<lambda>_. Inr (Marshal (envelope_json e)))"

text \<open>
  \<open>Decode\<close>: one value, with unknown fields refused, then \<open>dec.More()\<close> on what follows it, then
  validation.
\<close>

definition Decode :: "bytes \<Rightarrow> envelope result" where
  "Decode b = bindR (wrap_err ''proto'' (bindR (decoder_value b) (\<lambda>(v, rest).
       bindR (decode_struct True envelope_fields v (envelope0, [], [])) (\<lambda>(e, _). Inr (e, rest)))))
     (\<lambda>(e, rest). if Decoder_More rest then Inl (Err ''proto: trailing data'')
       else bindR (validate e) (\<lambda>_. Inr e))"

section \<open>Hello\<close>

record hello =
  h_V :: int
  h_Name :: string
  h_Caps :: "string list"

definition hello_json :: "hello \<Rightarrow> json" where
  "hello_json h = JObj ((''v'', JInt (h_V h)) # (''name'', JStr (h_Name h))
     # omitempty (h_Caps h = []) ''caps'' (JArr (map JStr (h_Caps h))) @ [])"

text \<open>\<open>Hello{}\<close>, and a hello while it is decoded.\<close>

definition hello0 :: hello where
  "hello0 = \<lparr>h_V = 0, h_Name = [], h_Caps = []\<rparr>"

definition caps_update :: "(string list \<times> string list \<Rightarrow> string list \<times> string list) \<Rightarrow> hello \<times> string list \<Rightarrow> hello \<times> string list" where
  "caps_update f = (\<lambda>(h, m). case f (h_Caps h, m) of (c, m') \<Rightarrow> (h\<lparr>h_Caps := c\<rparr>, m'))"

definition hello_fields :: "(hello \<times> string list) fields" where
  "hello_fields = [
     (''v'', put_field dec_int64 (\<lambda>(h, m). h_V h) (\<lambda>f (h, m). (h_V_update f h, m))),
     (''name'', put_field dec_string (\<lambda>(h, m). h_Name h) (\<lambda>f (h, m). (h_Name_update f h, m))),
     (''caps'', put_field (dec_slice dec_string []) (\<lambda>(h, m). (h_Caps h, m)) caps_update)]"

definition hello_Marshal :: "hello \<Rightarrow> bytes" where
  "hello_Marshal h = Marshal (hello_json h)"

definition hello_Unmarshal :: "bytes \<Rightarrow> hello result" where
  "hello_Unmarshal b = bindR (unmarshal_value b) (\<lambda>v.
     bindR (decode_struct False hello_fields v (hello0, [])) (\<lambda>(h, _). Inr h))"

fun has_cap :: "string list \<Rightarrow> string \<Rightarrow> bool" where
  "has_cap [] cap = False"
| "has_cap (c # cs) cap = (if c = cap then True else has_cap cs cap)"

definition HasCap :: "hello \<Rightarrow> string \<Rightarrow> bool" where
  "HasCap h cap = has_cap (h_Caps h) cap"

definition RemoteVersion :: "int \<Rightarrow> int \<Rightarrow> int" where
  "RemoteVersion local remote = (if remote < local then remote else local)"

section \<open>Frames are uniquely decodable\<close>

lemma ReadFull_append: "length p = n \<Longrightarrow> ReadFull n (p @ rest) = Inr (p, rest)"
  by (simp add: ReadFull_def)

lemma ReadFull_eq_Inr: "ReadFull n r = Inr (p, rest) \<longleftrightarrow> r = p @ rest \<and> length p = n"
  by (auto simp: ReadFull_def split: if_splits)

lemma WriteFrame_eq_Inr: "WriteFrame p = Inr w \<longleftrightarrow>
    0 < length p \<and> length p \<le> MaxFrame \<and> w = be_bytes 2 (length p) @ p"
  by (auto simp: WriteFrame_def split: if_splits)

lemma ReadFrame_WriteFrame:
  assumes "WriteFrame p = Inr w"
  shows "ReadFrame (w @ rest) = Inr (p, rest)"
proof -
  from assms have w: "w = be_bytes 2 (length p) @ p" and l: "0 < length p" "length p < 65536"
    by (simp_all add: WriteFrame_eq_Inr MaxFrame_def)
  have "ReadFull 2 (w @ rest) = Inr (be_bytes 2 (length p), p @ rest)"
    unfolding w append_assoc by (rule ReadFull_append) (rule length_be_bytes)
  with l show ?thesis by (simp add: ReadFrame_def ReadFull_append)
qed

lemma ReadFrame_eq_Inr:
  "ReadFrame r = Inr (p, rest) \<longleftrightarrow> (\<exists>w. WriteFrame p = Inr w \<and> r = w @ rest)"
proof
  assume "ReadFrame r = Inr (p, rest)"
  then obtain hdr r1 where h: "ReadFull 2 r = Inr (hdr, r1)" and n: "be_nat hdr \<noteq> 0"
    and p: "ReadFull (be_nat hdr) r1 = Inr (p, rest)"
    by (auto simp: ReadFrame_def Let_def split: if_splits)
  from h have r: "r = hdr @ r1" and l2: "length hdr = 2" by (simp_all add: ReadFull_eq_Inr)
  from p have r1: "r1 = p @ rest" and lp: "length p = be_nat hdr" by (simp_all add: ReadFull_eq_Inr)
  have "be_nat hdr < 65536" using be_nat_less [of hdr] l2 by simp
  moreover have "be_bytes 2 (length p) = hdr" using be_bytes_be_nat [of hdr] l2 lp by simp
  ultimately show "\<exists>w. WriteFrame p = Inr w \<and> r = w @ rest"
    using n lp by (intro exI [of _ "hdr @ p"]) (simp add: WriteFrame_eq_Inr MaxFrame_def r r1)
qed (auto simp: ReadFrame_WriteFrame)

text \<open>A writer's and a reader's view of a stream of frames.\<close>

fun write_frames :: "bytes list \<Rightarrow> bytes result" where
  "write_frames [] = Inr []"
| "write_frames (p # ps) = bindR (WriteFrame p) (\<lambda>w. bindR (write_frames ps) (\<lambda>ws. Inr (w @ ws)))"

fun read_frames :: "nat \<Rightarrow> bytes \<Rightarrow> (bytes list \<times> bytes) result" where
  "read_frames 0 r = Inr ([], r)"
| "read_frames (Suc n) r = bindR (ReadFrame r) (\<lambda>(p, r1).
     bindR (read_frames n r1) (\<lambda>(ps, r2). Inr (p # ps, r2)))"

lemma read_frames_eq_Inr:
  "read_frames n r = Inr (ps, rest) \<longleftrightarrow>
     length ps = n \<and> (\<exists>w. write_frames ps = Inr w \<and> r = w @ rest)"
proof (induction n arbitrary: r ps)
  case 0
  then show ?case by auto
next
  case (Suc n)
  show ?case
  proof (cases ps)
    case Nil
    then show ?thesis by auto
  next
    case (Cons p ps')
    then show ?thesis by (auto simp: ReadFrame_eq_Inr Suc.IH)
  qed
qed

section \<open>What validation guarantees\<close>

lemma checkID_Inr: "checkID i = Inr () \<longleftrightarrow> length i = 32 \<and> hex_DecodeString i \<noteq> None"
  by (simp add: checkID_def IDLen_def)

lemma checkID_NewID: "NewID r = Inr i \<Longrightarrow> checkID i = Inr ()"
  by (auto simp: NewID_def checkID_Inr ReadFull_eq_Inr IDLen_def split: option.splits)

abbreviation envelope_types :: "string set" where
  "envelope_types \<equiv> {TypeMsg, TypeAck, TypePing, TypeReact, TypeDel, TypeDelAll, TypeTyping,
     TypeRead, TypeFile, TypeChunk, TypeFileAck, TypeRoomMsg, TypeRoomAck, TypeRoomEvent}"

lemma validate_Inr_type: "validate e = Inr () \<Longrightarrow> e_T e \<in> envelope_types"
  by (auto simp: validate_def split: if_splits)

lemma validate_Inr_seq: "validate e = Inr () \<Longrightarrow> e_Seq e \<noteq> 0 \<Longrightarrow> e_T e = TypeRoomMsg"
  by (simp add: validate_def)

end
