(* ===== verification/Go_Json_Clean.thy ===== *)
theory Go_Json_Clean
  imports Go_Struct
begin

text \<open>
  Whatever bytes come in, what the scanner hands over is clean: every string it returns is valid
  UTF-8, because a byte that is not part of a well-formed sequence, a lone surrogate and every
  escape are written out again by the encoder of code points.
\<close>

section \<open>Decoding inverts encoding\<close>

lemma DecodeRune_1: "r < 0x80 \<Longrightarrow> DecodeRune (map char_of [r] @ s) = (r, 1)"
  by (simp add: DecodeRune_def)

lemma DecodeRune_2: "2 \<le> a \<Longrightarrow> a < 32 \<Longrightarrow> x < 64 \<Longrightarrow> DecodeRune (map char_of [0xC0 + a, 0x80 + x] @ s) = (a * 64 + x, 2)"
  by (simp add: DecodeRune_def is_cont_def)

lemma DecodeRune_3:
  assumes "a < 16" "x < 64" "y < 64" "a = 0 \<Longrightarrow> 32 \<le> x" "a = 13 \<Longrightarrow> x < 32"
  shows "DecodeRune (map char_of [0xE0 + a, 0x80 + x, 0x80 + y] @ s) = (a * 4096 + x * 64 + y, 3)"
  using assms by (auto simp: DecodeRune_def is_cont_def)

lemma DecodeRune_4:
  assumes "a < 5" "x < 64" "y < 64" "z < 64" "a = 0 \<Longrightarrow> 16 \<le> x" "a = 4 \<Longrightarrow> x < 16"
  shows "DecodeRune (map char_of [0xF0 + a, 0x80 + x, 0x80 + y, 0x80 + z] @ s) = (a * 262144 + x * 4096 + y * 64 + z, 4)"
  using assms by (auto simp: DecodeRune_def is_cont_def)

text \<open>The code point that is encoded for \<open>r\<close>.\<close>

definition encodable :: "nat \<Rightarrow> nat" where
  "encodable r = (if 0x10FFFF < r \<or> (0xD800 \<le> r \<and> r \<le> 0xDFFF) then RuneError else r)"

lemma encodable_range: "encodable r \<le> 0x10FFFF" "\<not> (0xD800 \<le> encodable r \<and> encodable r \<le> 0xDFFF)"
  by (auto simp: encodable_def RuneError_def)

lemma DecodeRune_EncodeRune:
  "DecodeRune (EncodeRune r @ s) = (encodable r, length (EncodeRune r)) \<and> (length (EncodeRune r) = 1 \<longrightarrow> encodable r < 0x80)"
proof -
  define q where "q = encodable r"
  have q: "q \<le> 0x10FFFF" "\<not> (0xD800 \<le> q \<and> q \<le> 0xDFFF)" unfolding q_def by (rule encodable_range)+
  have e: "EncodeRune r = map char_of (if q < 0x80 then [q]
       else if q < 0x800 then [0xC0 + q div 64, 0x80 + q mod 64]
       else if q < 0x10000 then [0xE0 + q div 4096, 0x80 + q div 64 mod 64, 0x80 + q mod 64]
       else [0xF0 + q div 262144, 0x80 + q div 4096 mod 64, 0x80 + q div 64 mod 64, 0x80 + q mod 64])"
    by (simp add: EncodeRune_def q_def encodable_def Let_def)
  have d2: "q div 4096 * 64 + q div 64 mod 64 = q div 64"
    using div_mult_mod_eq [of "q div 64" 64] by (simp add: div_mult2_eq [symmetric])
  have d5: "q div 262144 * 64 + q div 4096 mod 64 = q div 4096"
    using div_mult_mod_eq [of "q div 4096" 64] by (simp add: div_mult2_eq [symmetric])
  have d3: "q div 4096 * 4096 + q div 64 mod 64 * 64 + q mod 64 = q"
  proof -
    from d2 have "(q div 4096 * 64 + q div 64 mod 64) * 64 + q mod 64 = q" by simp
    then show ?thesis by (simp add: distrib_right)
  qed
  have d4: "q div 262144 * 262144 + q div 4096 mod 64 * 4096 + q div 64 mod 64 * 64 + q mod 64 = q"
  proof -
    from d5 d3 have "(q div 262144 * 64 + q div 4096 mod 64) * 4096 + q div 64 mod 64 * 64 + q mod 64 = q" by simp
    then show ?thesis by (simp add: distrib_right)
  qed
  consider "q < 0x80" | "0x80 \<le> q" "q < 0x800" | "0x800 \<le> q" "q < 0x10000" | "0x10000 \<le> q" by linarith
  then show ?thesis
  proof cases
    case 1
    then show ?thesis using DecodeRune_1 [of q s] by (simp add: e flip: q_def)
  next
    case 2
    then show ?thesis using DecodeRune_2 [of "q div 64" "q mod 64" s] by (simp add: e less_mult_imp_div_less flip: q_def)
  next
    case 3
    have "DecodeRune (map char_of [0xE0 + q div 4096, 0x80 + q div 64 mod 64, 0x80 + q mod 64] @ s) = (q, 3)"
      using q(2) 3 d2 less_mult_imp_div_less [of q 864 64] by (subst DecodeRune_3) (auto simp: d3)
    with 3 show ?thesis by (simp add: e flip: q_def)
  next
    case 4
    have "DecodeRune (map char_of [0xF0 + q div 262144, 0x80 + q div 4096 mod 64, 0x80 + q div 64 mod 64, 0x80 + q mod 64] @ s) = (q, 4)"
      using q(1) 4 d5 less_mult_imp_div_less [of q 272 4096] by (subst DecodeRune_4) (auto simp: d4)
    with 4 show ?thesis by (simp add: e flip: q_def)
  qed
qed

lemma ValidString_Nil [simp]: "ValidString []"
  by (simp add: ValidString_def)

lemma ValidString_EncodeRune [simp]: "ValidString (EncodeRune r @ s) \<longleftrightarrow> ValidString s"
proof -
  have l: "EncodeRune r \<noteq> []" by (simp add: EncodeRune_def Let_def)
  have "segs (EncodeRune r @ s) = (encodable r, EncodeRune r) # segs s"
    using DecodeRune_EncodeRune [of r s] l by (simp add: segs.simps [of "EncodeRune r @ s"])
  moreover have "\<not> (encodable r = RuneError \<and> length (EncodeRune r) = 1)"
    using DecodeRune_EncodeRune [of r s] by (auto simp: RuneError_def)
  ultimately show ?thesis by (simp add: ValidString_def)
qed

section \<open>Scanned text is valid\<close>

lemma str_escape_rune: "str_escape s = Inr (d, k) \<Longrightarrow> \<exists>r. d = EncodeRune r"
proof (cases s)
  case (Cons e es)
  have a: "\<exists>r. [c] = EncodeRune r" if "(of_char c :: nat) < 0x80" for c :: char
    using EncodeRune_ascii [OF that] by (simp, metis)
  assume "str_escape s = Inr (d, k)"
  then consider "d = [e]" "e = QUOTE \<or> e = BSL \<or> e = CHR ''/''" | "d \<in> {[CHR 0x08], [CHR 0x0C], [CHR 0x0A], [CHR 0x0D], [CHR 0x09]}"
    | r where "d = EncodeRune r"
    by (auto simp: str_escape_def Cons bindR_def split: if_splits sum.splits option.splits)
  then show ?thesis by cases (auto intro: a)
qed (simp add: str_escape_def)

lemma str_unit_rune: "str_unit c cs = Inr (d, k) \<Longrightarrow> \<exists>r. d = EncodeRune r"
  using EncodeRune_ascii [of "of_char c", symmetric]
  by (auto simp: str_unit_def dest: str_escape_rune split: if_splits intro: exI [of _ "of_char c"])

lemma str_body_valid: "str_body s = Inr (t, r) \<Longrightarrow> ValidString t"
proof (induction s arbitrary: t r rule: str_body.induct)
  case (2 c cs)
  show ?case
  proof (cases "c = QUOTE")
    case False
    with 2(2) obtain d k t' r' where u: "str_unit c cs = Inr (d, k)" and b: "str_body (drop k cs) = Inr (t', r')" and t: "t = d @ t'"
      by (auto simp: then_string_def bindR_def split: sum.splits)
    from str_unit_rune [OF u] 2(1) [OF False u refl b] t show ?thesis by auto
  qed (use 2(2) in simp)
qed simp

text \<open>Every string value in a tree is valid UTF-8.\<close>

fun jtext :: "json \<Rightarrow> bool" where
  "jtext (JStr s) = ValidString s"
| "jtext (JArr vs) = list_all jtext vs"
| "jtext (JObj kvs) = list_all (\<lambda>(k, v). jtext v) kvs"
| "jtext v = True"

lemma sep_by_all:
  assumes "\<And>s v r. p s = Inr (v, r) \<Longrightarrow> P v"
  shows "sep_by p close s = Inr (vs, r) \<Longrightarrow> list_all P vs"
proof (induction "length s" arbitrary: s vs r rule: less_induct)
  case less
  then show ?case
    by (auto simp: sep_by.simps [of p close s] split: sum.splits list.splits if_splits prod.splits intro: assms)
qed

lemma bracketed_all:
  assumes "\<And>s v r. p s = Inr (v, r) \<Longrightarrow> P v" "bracketed p close s = Inr (vs, r)"
  shows "list_all P vs"
  using assms(2) sep_by_all [of p P, OF assms(1)]
  by (auto simp: bracketed_def split: list.splits if_splits)

lemma scan_member_value:
  assumes "\<And>s v r. p s = Inr (v, r) \<Longrightarrow> P v" "scan_member p s = Inr (kv, r)"
  shows "case kv of (k, v) \<Rightarrow> P v"
  using assms by (auto simp: scan_member_def bindR_def split: list.splits if_splits sum.splits)

text \<open>What a parser returns, if it returns.\<close>

definition returns :: "('a \<Rightarrow> bool) \<Rightarrow> ('a \<times> bytes) result \<Rightarrow> bool" where
  "returns P x \<longleftrightarrow> (\<forall>v r. x = Inr (v, r) \<longrightarrow> P v)"

lemma returns_intros:
  "returns P (Inl e)" "P v \<Longrightarrow> returns P (Inr (v, r))"
  "(b \<Longrightarrow> returns P x) \<Longrightarrow> (\<not> b \<Longrightarrow> returns P y) \<Longrightarrow> returns P (if b then x else y)"
  "(\<And>w t. z = Inr (w, t) \<Longrightarrow> returns P (f w t)) \<Longrightarrow> returns P (bindR z (\<lambda>(w, t). f w t))"
  by (auto simp: returns_def bindR_def split: sum.splits)

lemma returns_literal: "jtext v \<Longrightarrow> returns jtext (scan_literal w v s)"
  by (simp add: returns_def scan_literal_def)

lemma scan_value_step:
  assumes arr: "\<And>close t vs r'. 0 < d \<Longrightarrow> bracketed (scan_value (d - 1)) close t = Inr (vs, r') \<Longrightarrow> list_all jtext vs"
    and obj: "\<And>close t kvs r'. 0 < d \<Longrightarrow> bracketed (scan_member (scan_value (d - 1))) close t = Inr (kvs, r') \<Longrightarrow>
      list_all (\<lambda>(k, w). jtext w) kvs"
  shows "returns jtext (scan_value d s)"
proof (cases "skip_ws s")
  case (Cons c cs)
  show ?thesis
    unfolding scan_value.simps [of d s] Cons list.case
    by (intro returns_intros returns_literal; (simp only: jtext.simps)?)
      (erule str_body_valid, erule obj [rotated], simp only: neq0_conv, erule arr [rotated], simp only: neq0_conv)
qed (simp add: scan_value.simps [of d s] returns_intros)

lemma scan_value_jtext: "scan_value d s = Inr (v, r) \<Longrightarrow> jtext v"
proof (induction d arbitrary: s v r)
  case 0
  have "returns jtext (scan_value 0 s)" by (rule scan_value_step) simp_all
  with 0 show ?case by (simp add: returns_def)
next
  case (Suc d)
  have "returns jtext (scan_value (Suc d) s)"
  proof (rule scan_value_step)
    fix close t vs r'
    assume "bracketed (scan_value (Suc d - 1)) close t = Inr (vs, r')"
    then show "list_all jtext vs" by (rule bracketed_all [rotated]) (simp add: Suc.IH)
  next
    fix close t kvs r'
    assume "bracketed (scan_member (scan_value (Suc d - 1))) close t = Inr (kvs, r')"
    then show "list_all (\<lambda>(k, w). jtext w) kvs"
      by (rule bracketed_all [rotated]) (rule scan_member_value [rotated], assumption, simp add: Suc.IH)
  qed
  with Suc.prems show ?case by (simp add: returns_def)
qed

lemma decoder_value_jtext: "decoder_value b = Inr (v, r) \<Longrightarrow> jtext v"
  by (auto simp: decoder_value_def dest: scan_value_jtext split: if_splits)

lemma unmarshal_value_jtext: "unmarshal_value b = Inr v \<Longrightarrow> jtext v"
  by (auto simp: unmarshal_value_def dest: scan_value_jtext split: if_splits)

section \<open>Struct invariants\<close>

text \<open>What every field keeps when it is stored from such a tree, decoding a struct keeps.\<close>

lemma find_field_set: "find_field fs k = Some f \<Longrightarrow> f \<in> snd ` set fs"
  by (auto simp: find_field_def split: option.splits dest!: map_of_SomeD) (force+)

lemma decode_fields_inv:
  assumes "\<And>f v s s'. f \<in> snd ` set fs \<Longrightarrow> jtext v \<Longrightarrow> P s \<Longrightarrow> f v s = Inr s' \<Longrightarrow> P s'"
  shows "decode_fields st fs kvs s = Inr s' \<Longrightarrow> list_all (\<lambda>(k, v). jtext v) kvs \<Longrightarrow> P s \<Longrightarrow> P s'"
proof (induction kvs arbitrary: s)
  case (Cons kv kvs)
  obtain k v where "kv = (k, v)" by (cases kv)
  with Cons show ?case
    by (auto simp: bindR_def split: option.splits sum.splits if_splits intro: assms [OF find_field_set])
qed simp

lemma decode_struct_inv:
  assumes "\<And>f v s s'. f \<in> snd ` set fs \<Longrightarrow> jtext v \<Longrightarrow> P s \<Longrightarrow> f v s = Inr s' \<Longrightarrow> P s'"
    "decode_struct st fs v s = Inr s'" "jtext v" "P s"
  shows "P s'"
proof (cases v)
  case (JObj kvs)
  have kvs: "decode_fields st fs kvs s = Inr s'" "list_all (\<lambda>(k, v). jtext v) kvs"
    using assms(2,3) by (simp_all add: decode_struct_def JObj)
  show ?thesis by (rule decode_fields_inv [where P = P, OF _ kvs assms(4)]) (rule assms(1))
qed (use assms(2,4) in \<open>simp_all add: decode_struct_def\<close>)

lemma put_field_inv:
  assumes "put_field dec get upd v s = Inr s'" "\<And>x. dec v (get s) = Inr x \<Longrightarrow> P (upd (\<lambda>_. x) s)"
  shows "P s'"
  using assms by (auto simp: put_field_def bindR_def split: sum.splits)

lemma dec_string_valid: "dec_string v old = Inr x \<Longrightarrow> jtext v \<Longrightarrow> ValidString old \<Longrightarrow> ValidString x"
  by (auto simp: dec_string_def split: json.splits)

lemma ParseInt64_range: "ParseInt64 s = Some i \<Longrightarrow> in_int64 i"
  by (auto simp: ParseInt64_def Let_def split: option.splits if_splits prod.splits)

lemma dec_int64_range: "dec_int64 v old = Inr x \<Longrightarrow> in_int64 old \<Longrightarrow> in_int64 x"
  using ParseInt64_range by (auto simp: dec_number_def split: json.splits option.splits)

lemma dec_elems_valid:
  "dec_elems dec_string [] vs old = Inr xs \<Longrightarrow> list_all jtext vs \<Longrightarrow> list_all ValidString old \<Longrightarrow> list_all ValidString xs"
proof (induction vs arbitrary: old xs)
  case (Cons v vs)
  then show ?case by (cases old) (auto simp: bindR_def split: sum.splits intro: dec_string_valid [of _ "[]", simplified] dec_string_valid)
qed simp

lemma dec_slice_valid:
  assumes "dec_slice dec_string [] v (xs, hidden) = Inr (ys, hidden')" "jtext v"
    "list_all ValidString xs" "list_all ValidString hidden"
  shows "list_all ValidString ys \<and> list_all ValidString hidden'"
proof -
  have "list_all ValidString (drop n (xs @ hidden))" for n
    using assms(3,4) by (auto simp: list_all_iff dest: in_set_dropD)
  then show ?thesis
    using assms dec_elems_valid [of _ "xs @ hidden"]
    by (auto simp: dec_slice_def bindR_def split: json.splits if_splits sum.splits simp del: drop_append)
qed

end
