(* ===== verification/Proto_Json.thy ===== *)
theory Proto_Json
  imports Proto Go_Json_Clean
begin

text \<open>
  What the JSON text of an envelope and of a \<open>Hello\<close> guarantees: decoding restores what was
  encoded, how long the text can get, and which texts \<open>Decode\<close> accepts.
\<close>

section \<open>Envelopes survive their JSON text\<close>

text \<open>What JSON can carry: strings of valid UTF-8, and integers of 64 bits as Go's fields are.\<close>

definition json_clean :: "envelope \<Rightarrow> bool" where
  "json_clean e \<longleftrightarrow> list_all ValidString [e_T e, e_ID e, e_Body e, e_ReplyTo e, e_Emoji e, e_Target e, e_Src e, e_Hash e,
       e_Room e, e_RoomEvent e, e_RoomName e, e_RoomActor e] \<and> list_all ValidString (e_RoomMembers e)
     \<and> in_int64 (e_TS e) \<and> in_int64 (e_Size e) \<and> in_int64 (e_Offset e)"

lemma Itoa_itoa: "\<exists>i. Itoa n = itoa i" "\<exists>j. itoa i = itoa j"
  by (rule exI [of _ "int n"], simp add: itoa_def) blast

lemma set_omitempty: "x \<in> set (omitempty em k v) \<longleftrightarrow> \<not> em \<and> x = (k, v)"
  by (simp add: omitempty_def)

lemma jok_envelope: "json_clean e \<Longrightarrow> jok maxNestingDepth (envelope_json e)"
  by (auto simp: envelope_json_def json_clean_def maxNestingDepth_def set_omitempty list_all_iff ValidString_ascii Itoa_itoa)

text \<open>One field after another: what is written is stored, and a field left out was empty.\<close>

lemma decode_string:
  assumes "map_of envelope_fields k = Some (env_field dec_string get upd)" "s = [] \<Longrightarrow> upd (\<lambda>_. s) e = e"
  shows "decode_fields True envelope_fields (omitempty (s = []) k (JStr s) @ kvs) (e, m)
    = decode_fields True envelope_fields kvs (upd (\<lambda>_. s) e, m)"
  using decode_omitempty [OF find_field_exact [OF assms(1), unfolded env_field_def], of "s = []" "JStr s" "(e, m)" s] assms(2) by simp

lemma decode_int64:
  assumes "map_of envelope_fields k = Some (env_field dec_int64 get upd)" "i = 0 \<Longrightarrow> upd (\<lambda>_. i) e = e" "in_int64 i"
  shows "decode_fields True envelope_fields (omitempty (i = 0) k (JInt i) @ kvs) (e, m)
    = decode_fields True envelope_fields kvs (upd (\<lambda>_. i) e, m)"
  using decode_omitempty [OF find_field_exact [OF assms(1), unfolded env_field_def], of "i = 0" "JInt i" "(e, m)" i] assms(2,3) by simp

lemma envelope_fields_at:
  "map_of envelope_fields ''t'' = Some (env_field dec_string e_T e_T_update)"
  "map_of envelope_fields ''id'' = Some (env_field dec_string e_ID e_ID_update)"
  "map_of envelope_fields ''body'' = Some (env_field dec_string e_Body e_Body_update)"
  "map_of envelope_fields ''replyTo'' = Some (env_field dec_string e_ReplyTo e_ReplyTo_update)"
  "map_of envelope_fields ''emoji'' = Some (env_field dec_string e_Emoji e_Emoji_update)"
  "map_of envelope_fields ''target'' = Some (env_field dec_string e_Target e_Target_update)"
  "map_of envelope_fields ''src'' = Some (env_field dec_string e_Src e_Src_update)"
  "map_of envelope_fields ''hash'' = Some (env_field dec_string e_Hash e_Hash_update)"
  "map_of envelope_fields ''room'' = Some (env_field dec_string e_Room e_Room_update)"
  "map_of envelope_fields ''roomEvent'' = Some (env_field dec_string e_RoomEvent e_RoomEvent_update)"
  "map_of envelope_fields ''roomName'' = Some (env_field dec_string e_RoomName e_RoomName_update)"
  "map_of envelope_fields ''roomActor'' = Some (env_field dec_string e_RoomActor e_RoomActor_update)"
  "map_of envelope_fields ''ts'' = Some (env_field dec_int64 e_TS e_TS_update)"
  "map_of envelope_fields ''size'' = Some (env_field dec_int64 e_Size e_Size_update)"
  "map_of envelope_fields ''offset'' = Some (env_field dec_int64 e_Offset e_Offset_update)"
  "map_of envelope_fields ''seq'' = Some (env_field dec_uint64 e_Seq e_Seq_update)"
  "map_of envelope_fields ''chunk'' = Some (put_field dec_bytes (\<lambda>(e, hc, hm). (e_Chunk e, hc)) chunk_update)"
  "map_of envelope_fields ''roomMembers'' = Some (put_field (dec_slice dec_string []) (\<lambda>(e, hc, hm). (e_RoomMembers e, hm)) members_update)"
  by (simp_all add: envelope_fields_def)

lemma decode_seq:
  assumes "e_Seq e = 0"
  shows "decode_fields True envelope_fields (omitempty (w = 0) ''seq'' (JNum (Itoa (unat w))) @ kvs) (e, m)
    = decode_fields True envelope_fields kvs (e\<lparr>e_Seq := w\<rparr>, m)"
  using decode_omitempty [OF find_field_exact [OF envelope_fields_at(16), unfolded env_field_def], of "w = 0" _ "(e, m)" w] assms by simp

lemma decode_chunk:
  assumes "e_Chunk e = []"
  shows "decode_fields True envelope_fields (omitempty (b = []) ''chunk'' (JBytes b) @ kvs) (e, [], hm)
    = decode_fields True envelope_fields kvs (e\<lparr>e_Chunk := b\<rparr>, [], hm)"
  using decode_omitempty [OF find_field_exact [OF envelope_fields_at(17)], of "b = []" _ "(e, [], hm)" "(b, [])"] assms
  by (simp add: chunk_update_def)

lemma decode_members:
  assumes "e_RoomMembers e = []"
  shows "decode_fields True envelope_fields (omitempty (xs = []) ''roomMembers'' (JArr (map JStr xs)) @ kvs) (e, hc, [])
    = decode_fields True envelope_fields kvs (e\<lparr>e_RoomMembers := xs\<rparr>, hc, [])"
  using decode_omitempty [OF find_field_exact [OF envelope_fields_at(18)], of "xs = []" "JArr (map JStr xs)" "(e, hc, [])" "(xs, [])"] assms
  by (simp add: members_update_def dec_slice_strings)

lemma decode_T:
  "decode_fields True envelope_fields ((''t'', JStr s) # kvs) (e, m) = decode_fields True envelope_fields kvs (e\<lparr>e_T := s\<rparr>, m)"
  using decode_Cons [OF find_field_exact [OF envelope_fields_at(1), unfolded env_field_def], of "JStr s" "(e, m)" s] by simp

lemmas decode_steps = decode_T envelope_fields_at(2-12) [THEN decode_string] envelope_fields_at(13-15) [THEN decode_int64]
  decode_seq decode_chunk decode_members

lemma decode_envelope_json:
  assumes "json_clean e"
  shows "decode_struct True envelope_fields (envelope_json e) (envelope0, [], []) = Inr (e, [], [])"
proof -
  have i: "in_int64 (e_TS e)" "in_int64 (e_Size e)" "in_int64 (e_Offset e)" using assms by (simp_all add: json_clean_def)
  show ?thesis
    unfolding envelope_json_def decode_struct_def json.case envelope0_def
    by (simp add: decode_steps i [simplified] del: decode_fields.simps(2) append_Nil2)
qed

lemma Decode_Marshal:
  assumes "json_clean e" "validate e = Inr ()"
  shows "Decode (Marshal (envelope_json e)) = Inr e"
  using assms by (simp add: Decode_def decoder_value_Marshal jok_envelope decode_envelope_json wrap_err_def Decoder_More_def skip_ws_def)

text \<open>What follows the value decides: nothing, white space or a stray closing bracket are accepted.\<close>

lemma Decode_append:
  assumes "json_clean e" "validate e = Inr ()"
  shows "Decode (Marshal (envelope_json e) @ rest) =
    (if Decoder_More rest then Inl (Err ''proto: trailing data'') else Inr e)"
proof -
  obtain kvs where k: "envelope_json e = JObj kvs" by (simp add: envelope_json_def)
  note j = jok_envelope [OF assms(1), unfolded k]
  obtain cs where "Marshal (JObj kvs) = CHR ''{'' # cs" by (cases kvs) (simp_all add: Marshal_def)
  then have "decoder_value (Marshal (JObj kvs) @ rest) = Inr (JObj kvs, rest)"
    using scan_object [OF j, of rest] by (simp add: decoder_value_def skip_ws_Cons)
  then show ?thesis
    using decode_envelope_json [OF assms(1)] assms(2) by (simp add: Decode_def k wrap_err_def)
qed

section \<open>What decoding accepts is clean\<close>

text \<open>
  An envelope while it is decoded: besides the envelope, the arrays behind its slices, whose
  hidden elements a later \<open>null\<close> can bring back.
\<close>

definition mem_clean :: "envelope_mem \<Rightarrow> bool" where
  "mem_clean = (\<lambda>(e, hc, hm). json_clean e \<and> list_all ValidString hm)"

lemma mem_clean_string:
  assumes "env_field dec_string get upd v m = Inr m'" "mem_clean m" "jtext v"
    and get: "\<And>e. json_clean e \<Longrightarrow> ValidString (get e)"
    and upd: "\<And>e x. json_clean e \<Longrightarrow> ValidString x \<Longrightarrow> json_clean (upd (\<lambda>_. x) e)"
  shows "mem_clean m'"
  using assms(1) unfolding env_field_def
  by (rule put_field_inv) (use assms(2,3) in \<open>auto simp: mem_clean_def intro!: upd dec_string_valid [OF _ _ get] split: prod.splits\<close>)

lemma mem_clean_int64:
  assumes "env_field dec_int64 get upd v m = Inr m'" "mem_clean m"
    and get: "\<And>e. json_clean e \<Longrightarrow> in_int64 (get e)"
    and upd: "\<And>e x. json_clean e \<Longrightarrow> in_int64 x \<Longrightarrow> json_clean (upd (\<lambda>_. x) e)"
  shows "mem_clean m'"
  using assms(1) unfolding env_field_def
  by (rule put_field_inv) (use assms(2) in \<open>auto simp: mem_clean_def intro!: upd dec_int64_range [OF _ get] split: prod.splits\<close>)

lemma mem_clean_field:
  assumes "f \<in> snd ` set envelope_fields" "jtext v" "mem_clean m" "f v m = Inr m'"
  shows "mem_clean m'"
proof -
  note str = mem_clean_string [OF _ assms(3,2)] and int = mem_clean_int64 [OF _ assms(3)]
  have seq: "mem_clean m'" if "env_field dec_uint64 e_Seq e_Seq_update v m = Inr m'"
    using that unfolding env_field_def
    by (rule put_field_inv) (use assms(3) in \<open>auto simp: mem_clean_def json_clean_def split: prod.splits\<close>)
  have chunk: "mem_clean m'" if "put_field dec_bytes (\<lambda>(e, hc, hm). (e_Chunk e, hc)) chunk_update v m = Inr m'"
    using that by (rule put_field_inv) (use assms(3) in \<open>auto simp: mem_clean_def json_clean_def chunk_update_def split: prod.splits\<close>)
  have members: "mem_clean m'" if "put_field (dec_slice dec_string []) (\<lambda>(e, hc, hm). (e_RoomMembers e, hm)) members_update v m = Inr m'"
    using that by (rule put_field_inv)
      (use assms(2,3) dec_slice_valid in \<open>auto simp: mem_clean_def json_clean_def members_update_def split: prod.splits\<close>)
  have i: "json_clean e \<Longrightarrow> in_int64 (e_TS e)" "json_clean e \<Longrightarrow> in_int64 (e_Size e)" "json_clean e \<Longrightarrow> in_int64 (e_Offset e)" for e
    by (simp_all add: json_clean_def)
  from assms(1,4) show ?thesis
    unfolding envelope_fields_def
    by (simp, elim disjE; hypsubst)
      (erule seq chunk members | erule str, simp add: json_clean_def, simp add: json_clean_def
        | erule int, erule i, simp add: json_clean_def)+
qed

lemma Decode_clean: "Decode b = Inr e \<Longrightarrow> json_clean e \<and> validate e = Inr ()"
proof -
  assume d: "Decode b = Inr e"
  then obtain v rest m where v: "decoder_value b = Inr (v, rest)"
    and m: "decode_struct True envelope_fields v (envelope0, [], []) = Inr (e, m)" and val: "validate e = Inr ()"
    by (auto simp: Decode_def wrap_err_def bindR_def split: sum.splits if_splits prod.splits)
  have z: "mem_clean (envelope0, [], [])" by (simp add: mem_clean_def json_clean_def envelope0_def)
  have "mem_clean (e, m)"
    by (rule decode_struct_inv [where P = mem_clean, OF _ m decoder_value_jtext [OF v] z]) (rule mem_clean_field)
  with val show ?thesis by (auto simp: mem_clean_def)
qed

section \<open>Length of an envelope's text\<close>

abbreviation envelope_strings :: "envelope \<Rightarrow> string list" where
  "envelope_strings e \<equiv> [e_T e, e_ID e, e_Body e, e_ReplyTo e, e_Emoji e, e_Target e, e_Src e, e_Hash e,
     e_Room e, e_RoomEvent e, e_RoomName e, e_RoomActor e]"

lemma length_omitempty:
  assumes "length (Marshal v) \<le> b"
  shows "(\<Sum>(k, v)\<leftarrow>omitempty em k v. length (appendString k) + length (Marshal v) + 2) \<le> 6 * length k + 4 + b"
  using assms length_appendString [of k] by (simp add: sum_omitempty)

lemma length_envelope_json:
  assumes "in_int64 (e_TS e)" "in_int64 (e_Size e)" "in_int64 (e_Offset e)"
  shows "length (Marshal (envelope_json e)) \<le> 800 + 6 * (\<Sum>s\<leftarrow>envelope_strings e. length s)
    + (length (e_Chunk e) + 2) div 3 * 4 + (\<Sum>s\<leftarrow>e_RoomMembers e. 6 * length s + 3)"
proof -
  define f where "f kvs = (\<Sum>(k, v)\<leftarrow>kvs. length (appendString k) + length (Marshal v) + 2)" for kvs
  note bound = length_omitempty [folded f_def]
  have str: "f (omitempty em k (JStr s)) \<le> 6 * length k + 6 * length s + 6" for s em k
    using bound [OF length_Marshal_JStr, of em k s] by simp
  have num: "f (omitempty em k (JInt i)) \<le> 6 * length k + 24" if "in_int64 i" for i em k
    using bound [OF length_Marshal_JInt [OF that], of em k] by simp
  have rest: "f (omitempty em k (JBytes c)) \<le> 6 * length k + (length c + 2) div 3 * 4 + 6"
    "f (omitempty em k (JNum (Itoa (unat w)))) \<le> 6 * length k + 24"
    "f (omitempty em k (JArr (map JStr xs))) \<le> 6 * length k + 6 + (\<Sum>s\<leftarrow>xs. 6 * length s + 3)" for c em k xs and w :: "64 word"
    using bound [OF eq_refl [OF length_Marshal_JBytes], of em k c] bound [OF length_Marshal_word, of em k w]
      bound [OF length_Marshal_strings, of em k xs] by simp_all
  have app: "f (xs @ ys) = f xs + f ys" "f ((k, v) # ys) = length (appendString k) + length (Marshal v) + 2 + f ys" "f [] = 0"
    for xs ys k v by (simp_all add: f_def)
  have t: "length (appendString ''t'') + length (Marshal (JStr (e_T e))) + 2 \<le> 12 + 6 * length (e_T e)"
    using length_Marshal_JStr [of "e_T e"] length_appendString [of "''t''"] by simp
  note b = t
    str [of "e_ID e = []" "''id''" "e_ID e"] str [of "e_Body e = []" "''body''" "e_Body e"]
    str [of "e_ReplyTo e = []" "''replyTo''" "e_ReplyTo e"] str [of "e_Emoji e = []" "''emoji''" "e_Emoji e"]
    str [of "e_Target e = []" "''target''" "e_Target e"] str [of "e_Src e = []" "''src''" "e_Src e"]
    str [of "e_Hash e = []" "''hash''" "e_Hash e"] str [of "e_Room e = []" "''room''" "e_Room e"]
    str [of "e_RoomEvent e = []" "''roomEvent''" "e_RoomEvent e"] str [of "e_RoomName e = []" "''roomName''" "e_RoomName e"]
    str [of "e_RoomActor e = []" "''roomActor''" "e_RoomActor e"]
    num [OF assms(1), of "e_TS e = 0" "''ts''"] num [OF assms(2), of "e_Size e = 0" "''size''"]
    num [OF assms(3), of "e_Offset e = 0" "''offset''"]
    rest(1) [of "e_Chunk e = []" "''chunk''" "e_Chunk e"] rest(2) [of "e_Seq e = 0" "''seq''" "e_Seq e"]
    rest(3) [of "e_RoomMembers e = []" "''roomMembers''" "e_RoomMembers e"]
  have "length (Marshal (envelope_json e)) = 1 + f (case envelope_json e of JObj kvs \<Rightarrow> kvs)"
    unfolding envelope_json_def f_def by (simp only: length_Marshal_JObj list.distinct not_False_eq_True json.case)
  also have "\<dots> \<le> 800 + 6 * (\<Sum>s\<leftarrow>envelope_strings e. length s)
    + (length (e_Chunk e) + 2) div 3 * 4 + (\<Sum>s\<leftarrow>e_RoomMembers e. 6 * length s + 3)"
    unfolding envelope_json_def json.case app
    using b by simp
  finally show ?thesis .
qed

section \<open>Hello\<close>

lemma hello_fields_at:
  "map_of hello_fields ''v'' = Some (put_field dec_int64 (\<lambda>(h, m). h_V h) (\<lambda>f (h, m). (h_V_update f h, m)))"
  "map_of hello_fields ''name'' = Some (put_field dec_string (\<lambda>(h, m). h_Name h) (\<lambda>f (h, m). (h_Name_update f h, m)))"
  "map_of hello_fields ''caps'' = Some (put_field (dec_slice dec_string []) (\<lambda>(h, m). (h_Caps h, m)) caps_update)"
  by (simp_all add: hello_fields_def)

lemma hello_roundtrip:
  assumes "in_int64 (h_V h)" "ValidString (h_Name h)" "list_all ValidString (h_Caps h)"
  shows "hello_Unmarshal (hello_Marshal h) = Inr h"
proof -
  have "jok maxNestingDepth (hello_json h)"
    using assms(2,3) by (auto simp: hello_json_def maxNestingDepth_def set_omitempty list_all_iff ValidString_ascii Itoa_itoa)
  then have u: "unmarshal_value (hello_Marshal h) = Inr (hello_json h)"
    unfolding hello_Marshal_def by (rule unmarshal_Marshal)
  have "decode_struct False hello_fields (hello_json h) (hello0, []) = Inr (h, [])"
    unfolding hello_json_def decode_struct_def json.case hello0_def
      decode_Cons [OF find_field_exact [OF hello_fields_at(1)] dec_int64_JInt [OF assms(1)]]
      decode_Cons [OF find_field_exact [OF hello_fields_at(2)] dec_string_JStr]
    by (subst decode_omitempty [OF find_field_exact [OF hello_fields_at(3)], where x = "(h_Caps h, [])"])
      (auto simp: dec_slice_strings caps_update_def)
  with u show ?thesis by (simp add: hello_Unmarshal_def)
qed

lemma length_hello:
  assumes "in_int64 (h_V h)"
  shows "length (hello_Marshal h) \<le> 120 + 6 * length (h_Name h) + (\<Sum>c\<leftarrow>h_Caps h. 6 * length c + 3)"
proof -
  have "(\<Sum>(k, v)\<leftarrow>omitempty (h_Caps h = []) ''caps'' (JArr (map JStr (h_Caps h))). length (appendString k) + length (Marshal v) + 2)
      \<le> 30 + (\<Sum>c\<leftarrow>h_Caps h. 6 * length c + 3)"
    using length_omitempty [OF length_Marshal_strings, of "h_Caps h = []" "''caps''" "h_Caps h"] by simp
  moreover have "length (appendString ''v'') + length (Marshal (JInt (h_V h))) + 2 \<le> 30"
    using length_appendString [of "''v''"] length_Marshal_JInt [OF assms] by simp
  moreover have "length (appendString ''name'') + length (Marshal (JStr (h_Name h))) + 2 \<le> 30 + 6 * length (h_Name h)"
    using length_appendString [of "''name''"] length_Marshal_JStr [of "h_Name h"] by simp
  ultimately show ?thesis
    unfolding hello_Marshal_def hello_json_def
    by (simp add: length_Marshal_JObj)
qed

section \<open>Properties\<close>

text \<open>
  C11. What is encoded is decoded: the JSON that \<open>Encode\<close> produces, \<open>Decode\<close> reads back as the same
  envelope, whatever characters its texts contain and however large its numbers, as long as the
  texts are valid UTF-8 and the numbers 64-bit integers.
\<close>

theorem wire_roundtrip:
  assumes "Encode e = Inr b" "json_clean e"
  shows "Decode b = Inr e"
proof -
  have "validate e = Inr ()" "b = Marshal (envelope_json e)" using assms(1) by (simp_all add: Encode_def)
  with Decode_Marshal [OF assms(2)] show ?thesis by simp
qed

lemma hex_DecodeString_replicate: "hex_value c \<noteq> None \<Longrightarrow> hex_DecodeString (replicate (2 * n) c) \<noteq> None"
  by (induction n) (auto split: option.splits)

definition sample_text :: string where
  "sample_text = QUOTE # ''a<b>'' @ [CHR 0xC3, CHR 0xA9, BSL, CHR 0x0A, CHR 0x01]"

definition sample_envelope :: envelope where
  "sample_envelope = envelope0\<lparr>e_T := TypeMsg, e_ID := replicate 32 (CHR ''a''), e_TS := 1700000000000, e_Body := sample_text\<rparr>"

lemma ValidString_sample: "ValidString sample_text"
proof -
  have "segs (CHR 0xC3 # CHR 0xA9 # s) = (0xE9, [CHR 0xC3, CHR 0xA9]) # segs s" for s
    by (subst segs.simps) (simp add: DecodeRune_def is_cont_def)
  then show ?thesis by (simp add: ValidString_def sample_text_def RuneError_def)
qed

lemma sample_envelope_ok: "validate sample_envelope = Inr ()" "json_clean sample_envelope"
proof -
  have "checkID (replicate 32 (CHR ''a'')) = Inr ()"
    using hex_DecodeString_replicate [of "CHR ''a''" 16] by (simp add: checkID_Inr hex_value_def)
  then show "validate sample_envelope = Inr ()"
    by (simp add: validate_def sample_envelope_def envelope0_def ValidString_sample optional_def)
      (simp add: sample_text_def MaxBody_def)
  show "json_clean sample_envelope"
    by (simp add: json_clean_def sample_envelope_def envelope0_def ValidString_sample ValidString_ascii)
qed

theorem wire_roundtrip_witness:
  "\<exists>b. Encode sample_envelope = Inr b \<and> Decode b = Inr sample_envelope"
proof -
  obtain b where "Encode sample_envelope = Inr b" by (simp add: Encode_def sample_envelope_ok)
  with wire_roundtrip [OF this sample_envelope_ok(2)] show ?thesis by blast
qed

text \<open>
  C12. Whatever bytes a peer sends, decoding is stable: an envelope that \<open>Decode\<close> accepts has
  valid UTF-8 in every text, passes validation, can be encoded again, and decoding that encoding
  gives the same envelope. Duplicate members, other spellings of the names, escapes, lone
  surrogates and bytes that are not UTF-8 are all settled by the first decoding.
\<close>

theorem decode_is_stable:
  assumes "Decode b = Inr e"
  shows "json_clean e \<and> validate e = Inr () \<and> (\<exists>b'. Encode e = Inr b' \<and> Decode b' = Inr e)"
  using Decode_clean [OF assms] Decode_Marshal [of e] by (simp add: Encode_def)

theorem decode_is_stable_witness:
  "\<exists>b. Decode (b @ ''  }'') = Inr sample_envelope \<and> json_clean sample_envelope
     \<and> Encode sample_envelope = Inr b \<and> Decode b = Inr sample_envelope"
proof -
  let ?b = "Marshal (envelope_json sample_envelope)"
  have d: "Decode (?b @ ''  }'') = Inr sample_envelope"
    using Decode_append [OF sample_envelope_ok(2,1), of "''  }''"] by (simp add: Decoder_More_def skip_ws_def is_ws_def)
  from decode_is_stable [OF d] have "json_clean sample_envelope" "\<exists>b'. Encode sample_envelope = Inr b' \<and> Decode b' = Inr sample_envelope" by blast+
  moreover have "Encode sample_envelope = Inr ?b" by (simp add: Encode_def sample_envelope_ok)
  ultimately show ?thesis using d by auto
qed

text \<open>
  C40. The check for trailing data is not one: \<open>Decoder.More\<close> answers false before a closing bracket
  or brace, so an envelope followed by one, and then by anything, is accepted as if it stood
  alone, while the start of another object is refused.
\<close>

theorem trailing_data_accepted:
  assumes "Encode e = Inr b" "json_clean e"
  shows "Decode (b @ CHR ''}'' # junk) = Inr e \<and> Decode (b @ CHR '']'' # junk) = Inr e
    \<and> Decode (b @ CHR ''{'' # junk) = Inl (Err ''proto: trailing data'')"
proof -
  have "validate e = Inr ()" "b = Marshal (envelope_json e)" using assms(1) by (simp_all add: Encode_def)
  from Decode_append [OF assms(2) this(1), folded this(2)] show ?thesis
    by (simp add: Decoder_More_def skip_ws_Cons)
qed

theorem trailing_data_accepted_witness:
  "\<exists>b. Encode sample_envelope = Inr b \<and> Decode (b @ ''}{...'') = Inr sample_envelope
     \<and> Decode (b @ ''{...'') = Inl (Err ''proto: trailing data'')"
proof -
  obtain b where b: "Encode sample_envelope = Inr b" by (simp add: Encode_def sample_envelope_ok)
  from trailing_data_accepted [OF b sample_envelope_ok(2), of "''{...''"]
    trailing_data_accepted [OF b sample_envelope_ok(2), of "''...''"] b show ?thesis by auto
qed

end
