(* ===== verification/Identity.thy ===== *)
theory Identity
  imports Platform Go_Struct
begin

text \<open>
  Package \<open>internal/identity\<close>: display-name policy, key generation, the fingerprint and its
  human-readable forms, the passphrase meter and the encrypted key backup.

  An X25519 key pair is its private key and the public key the platform derives from it. The
  backup file, its associated data and its plaintext are JSON texts.
\<close>

unbundle bit_operations_syntax

section \<open>Identities\<close>

record dhkey =
  Private :: bytes
  Public :: bytes

record ident =
  i_Name :: string
  i_Key :: dhkey

definition MaxNameLen :: nat where "MaxNameLen = 32"

definition ValidateName :: "string \<Rightarrow> string result" where
  "ValidateName name0 = (let name = TrimSpace name0 in
     if name = [] then Inl (Err ''name is empty'')
     else if RuneCountInString name > MaxNameLen
       then Inl (ErrF ''name is longer than %d characters'' [''32''])
     else if list_ex (\<lambda>r. r < 0x20 \<or> r = 0x7f) (runes name)
       then Inl (Err ''name contains control characters'')
     else Inr name)"

text \<open>\<open>noise.DH25519.GenerateKeypair\<close>: 32 bytes from the random source.\<close>

definition GenerateKeypair :: "env \<Rightarrow> rnd \<Rightarrow> dhkey result" where
  "GenerateKeypair E r = (case r of None \<Rightarrow> Inl ErrRand
     | Some b \<Rightarrow> Inr \<lparr>Private = b, Public = x25519_public E b\<rparr>)"

definition Generate :: "env \<Rightarrow> rnd \<Rightarrow> string \<Rightarrow> ident result" where
  "Generate E r name0 = bindR (ValidateName name0) (\<lambda>name.
     bindR (GenerateKeypair E r) (\<lambda>kp. Inr \<lparr>i_Name = name, i_Key = kp\<rparr>))"

definition Fingerprint :: "env \<Rightarrow> bytes \<Rightarrow> string" where
  "Fingerprint E pub = hex_EncodeToString (sha256 E pub)"

function FingerprintGroups :: "string \<Rightarrow> string list" where
  "FingerprintGroups fp = (if 4 \<le> length fp then take 4 fp # FingerprintGroups (drop 4 fp) else [])"
  by pat_completeness auto
termination by (relation "measure length") auto

declare FingerprintGroups.simps [simp del]

definition wordList :: "string list" where
  "wordList = [
     ''acorn'', ''amber'', ''anchor'', ''apple'', ''arrow'', ''aspen'', ''atlas'', ''aurora'',
     ''badge'', ''bagel'', ''baker'', ''basalt'', ''beacon'', ''birch'', ''bison'', ''blaze'',
     ''bloom'', ''bolt'', ''bramble'', ''breeze'', ''bridge'', ''brook'', ''cabin'', ''cactus'',
     ''cairn'', ''candle'', ''canyon'', ''cedar'', ''chalk'', ''cherry'', ''cider'', ''cinder'',
     ''clover'', ''cobalt'', ''comet'', ''copper'', ''coral'', ''cotton'', ''crane'', ''creek'',
     ''crest'', ''crisp'', ''crown'', ''dagger'', ''daisy'', ''dapple'', ''dawn'', ''delta'',
     ''dune'', ''eagle'', ''ebony'', ''ember'', ''falcon'', ''fern'', ''ferry'', ''fjord'',
     ''flint'', ''forest'', ''fossil'', ''frost'', ''garnet'', ''ginger'', ''glacier'', ''granite'',
     ''grove'', ''harbor'', ''hazel'', ''heron'', ''hollow'', ''honey'', ''iris'', ''ivory'',
     ''jasper'', ''jungle'', ''kettle'', ''kite'', ''lagoon'', ''lantern'', ''larch'', ''laurel'',
     ''lemon'', ''lichen'', ''lilac'', ''linen'', ''lotus'', ''lumen'', ''maple'', ''marble'',
     ''meadow'', ''mesa'', ''mint'', ''mist'', ''moss'', ''mango'', ''nectar'', ''nickel'',
     ''nutmeg'', ''oasis'', ''olive'', ''onyx'', ''opal'', ''orchid'', ''otter'', ''oyster'',
     ''paddle'', ''pebble'', ''pepper'', ''pine'', ''plum'', ''pond'', ''poppy'', ''prairie'',
     ''quartz'', ''quill'', ''rabbit'', ''raven'', ''reed'', ''ridge'', ''river'', ''robin'',
     ''rocket'', ''saddle'', ''saffron'', ''sage'', ''sailor'', ''sand'', ''sequoia'', ''shadow'',
     ''silver'', ''sketch'', ''slate'', ''sparrow'', ''spruce'', ''stone'', ''summit'', ''sunset'',
     ''swift'', ''tanager'', ''thistle'', ''thunder'', ''tiger'', ''timber'', ''topaz'', ''tulip'',
     ''tundra'', ''umber'', ''valley'', ''velvet'', ''violet'', ''walnut'', ''willow'', ''winter'',
     ''yarrow'', ''zephyr'', ''zinc'', ''almond'', ''bamboo'', ''barley'', ''basil'', ''berry'',
     ''biscuit'', ''blossom'', ''bronze'', ''butter'', ''canvas'', ''caramel'', ''carrot'', ''cashew'',
     ''celery'', ''chestnut'', ''cinnamon'', ''citrus'', ''clay'', ''cocoa'', ''compass'', ''cricket'',
     ''cypress'', ''dolphin'', ''dragon'', ''drift'', ''echo'', ''elm'', ''engine'', ''feather'',
     ''fiddle'', ''finch'', ''flame'', ''flute'', ''galaxy'', ''garden'', ''gecko'', ''glow'',
     ''gravel'', ''guitar'', ''harvest'', ''hawk'', ''hickory'', ''island'', ''jade'', ''jelly'',
     ''juniper'', ''kayak'', ''koala'', ''ladder'', ''lark'', ''lemur'', ''lime'', ''lunar'',
     ''magnet'', ''marsh'', ''mirror'', ''mosaic'', ''mule'', ''nova'', ''orbit'', ''panda'',
     ''parrot'', ''pelican'', ''pilot'', ''pixel'', ''planet'', ''puffin'', ''pulse'', ''radar'',
     ''rain'', ''rhythm'', ''ripple'', ''rustic'', ''sable'', ''satin'', ''scarlet'', ''shell'',
     ''signal'', ''spark'', ''spice'', ''sprout'', ''stream'', ''sugar'', ''tango'', ''teal'',
     ''thyme'', ''trail'', ''tulle'', ''turtle'', ''vapor'', ''violin'', ''voyage'', ''wagon'',
     ''walrus'', ''wheat'', ''whisper'', ''yonder'', ''zebra'', ''pearl'', ''tempo'', ''lynx'']"

definition Words :: "env \<Rightarrow> bytes \<Rightarrow> string list" where
  "Words E pub = (let h = sha256 E (''chirp/words/v1'' @ pub) in
     map (\<lambda>i. wordList ! of_char (h ! i)) [0..<6])"

definition IdenticonSeed :: "env \<Rightarrow> bytes \<Rightarrow> bytes" where
  "IdenticonSeed E pub = take 8 (sha256 E (''chirp/identicon/v1'' @ pub))"

section \<open>Passphrases and backups\<close>

definition PassphraseStrength :: "string \<Rightarrow> int" where
  "PassphraseStrength pw = (let n = RuneCountInString pw in
     if n = 0 then 0
     else
       let len_score = (if n \<ge> 20 then 3 else if n \<ge> 16 then 2 else if n \<ge> 12 then 1 else 0 :: int);
           lower = (\<lambda>r. 0x61 \<le> r \<and> r \<le> 0x7A);
           upper = (\<lambda>r. 0x41 \<le> r \<and> r \<le> 0x5A);
           digit = (\<lambda>r. 0x30 \<le> r \<and> r \<le> 0x39);
           hasLower = list_ex lower (runes pw);
           hasUpper = list_ex upper (runes pw);
           hasDigit = list_ex digit (runes pw);
           hasSpecial = list_ex (\<lambda>r. \<not> lower r \<and> \<not> upper r \<and> \<not> digit r) (runes pw);
           classes = of_bool hasLower + of_bool hasUpper + of_bool hasDigit + of_bool hasSpecial;
           score = len_score + (classes - 1)
       in if score > 5 then 5 else score)"

definition backupVersion :: int where "backupVersion = 1"
definition scryptN :: int where "scryptN = 2 ^ 15"
definition scryptR :: int where "scryptR = 8"
definition scryptP :: int where "scryptP = 1"
definition MinPassphraseLen :: nat where "MinPassphraseLen = 12"

record backupFile =
  bf_V :: int
  bf_KDF :: string
  bf_N :: int
  bf_R :: int
  bf_P :: int
  bf_Salt :: bytes
  bf_Non :: bytes
  bf_Data :: bytes

record backupPlain =
  bp_Name :: string
  bp_Priv :: bytes
  bp_Pub :: bytes

text \<open>
  The JSON texts of a backup: the file, the identity sealed inside it, and the parameters the seal
  is bound to.
\<close>

definition ad_json :: "int \<Rightarrow> string \<Rightarrow> int \<Rightarrow> int \<Rightarrow> int \<Rightarrow> bytes \<Rightarrow> (string \<times> json) list" where
  "ad_json V KDF N R P Salt = [(''v'', JInt V), (''kdf'', JStr KDF), (''n'', JInt N), (''r'', JInt R), (''p'', JInt P),
     (''salt'', JBytes Salt)]"

definition file_json :: "backupFile \<Rightarrow> json" where
  "file_json f = JObj (ad_json (bf_V f) (bf_KDF f) (bf_N f) (bf_R f) (bf_P f) (bf_Salt f)
     @ [(''nonce'', JBytes (bf_Non f)), (''data'', JBytes (bf_Data f))])"

definition plain_json :: "backupPlain \<Rightarrow> json" where
  "plain_json p = JObj [(''name'', JStr (bp_Name p)), (''priv'', JBytes (bp_Priv p)), (''pub'', JBytes (bp_Pub p))]"

text \<open>
  While a struct with \<open>[]byte\<close> fields is decoded it comes with a map of what the arrays behind them
  hold beyond their ends, by the field's name.
\<close>

definition bytes_field :: "string \<Rightarrow> ('s \<Rightarrow> bytes) \<Rightarrow> ((bytes \<Rightarrow> bytes) \<Rightarrow> 's \<Rightarrow> 's)
    \<Rightarrow> json \<Rightarrow> 's \<times> (string \<Rightarrow> bytes) \<Rightarrow> ('s \<times> (string \<Rightarrow> bytes)) result" where
  "bytes_field k get upd = put_field dec_bytes (\<lambda>(s, h). (get s, h k))
     (\<lambda>f (s, h). case f (get s, h k) of (b, h') \<Rightarrow> (upd (\<lambda>_. b) s, h(k := h')))"

definition plain_field :: "(json \<Rightarrow> 'a \<Rightarrow> 'a result) \<Rightarrow> ('s \<Rightarrow> 'a) \<Rightarrow> (('a \<Rightarrow> 'a) \<Rightarrow> 's \<Rightarrow> 's)
    \<Rightarrow> json \<Rightarrow> 's \<times> (string \<Rightarrow> bytes) \<Rightarrow> ('s \<times> (string \<Rightarrow> bytes)) result" where
  "plain_field dec get upd = put_field dec (\<lambda>(s, h). get s) (\<lambda>f (s, h). (upd f s, h))"

definition file_fields :: "(backupFile \<times> (string \<Rightarrow> bytes)) fields" where
  "file_fields = [
     (''v'', plain_field dec_int64 bf_V bf_V_update),
     (''kdf'', plain_field dec_string bf_KDF bf_KDF_update),
     (''n'', plain_field dec_int64 bf_N bf_N_update),
     (''r'', plain_field dec_int64 bf_R bf_R_update),
     (''p'', plain_field dec_int64 bf_P bf_P_update),
     (''salt'', bytes_field ''salt'' bf_Salt bf_Salt_update),
     (''nonce'', bytes_field ''nonce'' bf_Non bf_Non_update),
     (''data'', bytes_field ''data'' bf_Data bf_Data_update)]"

definition plain_fields :: "(backupPlain \<times> (string \<Rightarrow> bytes)) fields" where
  "plain_fields = [
     (''name'', plain_field dec_string bp_Name bp_Name_update),
     (''priv'', bytes_field ''priv'' bp_Priv bp_Priv_update),
     (''pub'', bytes_field ''pub'' bp_Pub bp_Pub_update)]"

definition backupFile0 :: backupFile where
  "backupFile0 = \<lparr>bf_V = 0, bf_KDF = [], bf_N = 0, bf_R = 0, bf_P = 0, bf_Salt = [], bf_Non = [], bf_Data = []\<rparr>"

definition backupPlain0 :: backupPlain where
  "backupPlain0 = \<lparr>bp_Name = [], bp_Priv = [], bp_Pub = []\<rparr>"

definition unmarshal_struct :: "('s \<times> (string \<Rightarrow> bytes)) fields \<Rightarrow> 's \<Rightarrow> bytes \<Rightarrow> 's result" where
  "unmarshal_struct fs zero b = bindR (unmarshal_value b) (\<lambda>v.
     bindR (decode_struct False fs v (zero, \<lambda>_. [])) (\<lambda>(s, _). Inr s))"

definition scrypt_32 :: "env \<Rightarrow> string \<Rightarrow> bytes \<Rightarrow> int \<Rightarrow> int \<Rightarrow> int \<Rightarrow> bytes" where
  "scrypt_32 E pass salt N r p = scrypt_Key E pass salt (nat N) (nat r) (nat p) 32"

definition ad_Marshal :: "int \<Rightarrow> string \<Rightarrow> int \<Rightarrow> int \<Rightarrow> int \<Rightarrow> bytes \<Rightarrow> bytes" where
  "ad_Marshal V KDF N R P Salt = Marshal (JObj (ad_json V KDF N R P Salt))"

definition ExportBackup ::
    "env \<Rightarrow> rnd \<Rightarrow> rnd \<Rightarrow> ident \<Rightarrow> string \<Rightarrow> bytes result" where
  "ExportBackup E r1 r2 ide passphrase =
     (if RuneCountInString passphrase < MinPassphraseLen
      then Inl (ErrF ''passphrase must be at least %d characters'' [''12''])
      else case r1 of None \<Rightarrow> Inl ErrRand | Some salt \<Rightarrow>
        let key = scrypt_32 E passphrase salt scryptN scryptR scryptP in
        case r2 of None \<Rightarrow> Inl ErrRand | Some nonce \<Rightarrow>
          let plain = Marshal (plain_json \<lparr>bp_Name = i_Name ide, bp_Priv = Private (i_Key ide),
                bp_Pub = Public (i_Key ide)\<rparr>);
              ad = ad_Marshal backupVersion ''scrypt'' scryptN scryptR scryptP salt
          in Inr (MarshalIndent (file_json \<lparr>bf_V = backupVersion, bf_KDF = ''scrypt'', bf_N = scryptN,
               bf_R = scryptR, bf_P = scryptP, bf_Salt = salt, bf_Non = nonce,
               bf_Data = aead_Seal E key nonce plain ad\<rparr>)))"

definition ImportBackup :: "env \<Rightarrow> bytes \<Rightarrow> string \<Rightarrow> ident result" where
  "ImportBackup E data passphrase =
     (case unmarshal_struct file_fields backupFile0 data of
        Inl _ \<Rightarrow> Inl (Err ''not a chirp backup file'')
      | Inr f \<Rightarrow>
        if bf_V f \<noteq> backupVersion \<or> bf_KDF f \<noteq> ''scrypt''
        then Inl (Err ''unsupported backup version'')
        else if bf_N f < 2 ^ 14 \<or> bf_N f > 2 ^ 20 \<or> bf_N f AND (bf_N f - 1) \<noteq> 0 \<or> bf_R f \<noteq> scryptR
          \<or> bf_P f < 1 \<or> bf_P f > 4 \<or> length (bf_Salt f) \<noteq> 16
        then Inl (Err ''unsupported backup parameters'')
        else
          let key = scrypt_32 E passphrase (bf_Salt f) (bf_N f) (bf_R f) (bf_P f) in
          if length (bf_Non f) \<noteq> 12 then Inl (Err ''corrupted backup'')
          else
            let ad = ad_Marshal (bf_V f) (bf_KDF f) (bf_N f) (bf_R f) (bf_P f) (bf_Salt f) in
            case aead_Open E key (bf_Non f) (bf_Data f) ad of
              None \<Rightarrow> Inl ErrBadPassphrase
            | Some plain \<Rightarrow>
                (case unmarshal_struct plain_fields backupPlain0 plain of
                   Inl _ \<Rightarrow> Inl (Err ''corrupted backup'')
                 | Inr p \<Rightarrow>
                     if length (bp_Priv p) \<noteq> 32 \<or> length (bp_Pub p) \<noteq> 32
                     then Inl (Err ''corrupted backup'')
                     else bindR (GenerateKeypair E (Some (bp_Priv p))) (\<lambda>kp.
                       if Public kp \<noteq> bp_Pub p then Inl (Err ''backup key pair does not match'')
                       else bindR (ValidateName (bp_Name p)) (\<lambda>name.
                         Inr \<lparr>i_Name = name, i_Key = kp\<rparr>))))"

section \<open>Lemmas\<close>

lemma length_Fingerprint [simp]: "sha256_ok E \<Longrightarrow> length (Fingerprint E pub) = 64"
  by (simp add: Fingerprint_def sha256_ok_def)

lemma FingerprintGroups_concat:
  "4 dvd length fp \<Longrightarrow> concat (FingerprintGroups fp) = fp"
proof (induction fp rule: FingerprintGroups.induct)
  case (1 fp)
  show ?case
  proof (cases "4 \<le> length fp")
    case True
    then have "4 dvd length (drop 4 fp)" using 1(2) by (simp add: dvd_diff_nat)
    with 1 True show ?thesis by (simp add: FingerprintGroups.simps [of fp])
  next
    case False
    with 1(2) have "fp = []" by (auto dest!: dvd_imp_le)
    then show ?thesis by (simp add: FingerprintGroups.simps [of "[]"])
  qed
qed

lemma FingerprintGroups_length:
  "length (FingerprintGroups fp) = length fp div 4 \<and> (\<forall>g\<in>set (FingerprintGroups fp). length g = 4)"
proof (induction fp rule: FingerprintGroups.induct)
  case (1 fp)
  show ?case
  proof (cases "4 \<le> length fp")
    case True
    have e: "FingerprintGroups fp = take 4 fp # FingerprintGroups (drop 4 fp)"
      using True by (simp add: FingerprintGroups.simps [of fp])
    have "Suc (length (drop 4 fp) div 4) = length fp div 4" using True by (simp add: le_div_geq)
    with 1 [OF True] have "length (FingerprintGroups fp) = length fp div 4"
      unfolding e by (simp only: length_Cons)
    moreover have "length (take 4 fp) = 4" using True by simp
    then have "\<forall>g\<in>set (FingerprintGroups fp). length g = 4"
      using conjunct2 [OF 1 [OF True]] unfolding e list.set by blast
    ultimately show ?thesis ..
  next
    case False
    then show ?thesis by (simp add: FingerprintGroups.simps [of fp])
  qed
qed

lemma strength_sum:
  fixes l :: int
  assumes "a \<or> b \<or> c \<or> d" "0 \<le> l" "l \<le> 3"
  defines "s \<equiv> l + (of_bool a + of_bool b + of_bool c + of_bool d - 1)"
  shows "0 \<le> (if s > 5 then 5 else s) \<and> (if s > 5 then 5 else s) \<le> 5"
  using assms(1-3) unfolding s_def by (cases a; cases b; cases c; cases d) auto

lemma PassphraseStrength_bounds: "0 \<le> PassphraseStrength pw \<and> PassphraseStrength pw \<le> 5"
proof (cases "RuneCountInString pw = 0")
  case True
  then show ?thesis by (simp add: PassphraseStrength_def)
next
  case False
  then obtain r rs where "runes pw = r # rs"
    by (cases "runes pw") (auto simp: RuneCountInString_def runes_def)
  then have "list_ex (\<lambda>r. 0x61 \<le> r \<and> r \<le> 0x7A) (runes pw) \<or>
    list_ex (\<lambda>r. 0x41 \<le> r \<and> r \<le> 0x5A) (runes pw) \<or>
    list_ex (\<lambda>r. 0x30 \<le> r \<and> r \<le> 0x39) (runes pw) \<or>
    list_ex (\<lambda>r. \<not> (0x61 \<le> r \<and> r \<le> 0x7A) \<and> \<not> (0x41 \<le> r \<and> r \<le> 0x5A)
      \<and> \<not> (0x30 \<le> r \<and> r \<le> 0x39)) (runes pw)"
    unfolding list_ex_iff by (simp only: list.set) blast
  then show ?thesis
    unfolding PassphraseStrength_def Let_def if_not_P [OF False]
    by (rule strength_sum) simp_all
qed

lemma ValidateName_Inr: "ValidateName n = Inr m \<longleftrightarrow> m = TrimSpace n \<and> m \<noteq> []
    \<and> RuneCountInString m \<le> MaxNameLen \<and> (\<forall>r\<in>set (runes m). 0x20 \<le> r \<and> r \<noteq> 0x7f)"
  by (auto simp: ValidateName_def Let_def list_ex_iff not_le)

section \<open>The texts of a backup restore it\<close>

lemma decode_plain_field:
  assumes "map_of fs k = Some (plain_field dec get upd)" "\<And>old. dec v old = Inr x"
  shows "decode_fields st fs ((k, v) # kvs) (s, h) = decode_fields st fs kvs (upd (\<lambda>_. x) s, h)"
  using decode_Cons [OF find_field_exact [OF assms(1), unfolded plain_field_def], of v "(s, h)" x] assms(2) by simp

lemma decode_bytes_field:
  assumes "map_of fs k = Some (bytes_field k' get upd)"
  shows "decode_fields st fs ((k, JBytes b) # kvs) (s, h) = decode_fields st fs kvs (upd (\<lambda>_. b) s, h(k' := []))"
  using decode_Cons [OF find_field_exact [OF assms, unfolded bytes_field_def], of "JBytes b" "(s, h)" "(b, [])"] by simp

lemma file_fields_at:
  "map_of file_fields ''v'' = Some (plain_field dec_int64 bf_V bf_V_update)"
  "map_of file_fields ''n'' = Some (plain_field dec_int64 bf_N bf_N_update)"
  "map_of file_fields ''r'' = Some (plain_field dec_int64 bf_R bf_R_update)"
  "map_of file_fields ''p'' = Some (plain_field dec_int64 bf_P bf_P_update)"
  "map_of file_fields ''kdf'' = Some (plain_field dec_string bf_KDF bf_KDF_update)"
  "map_of file_fields ''salt'' = Some (bytes_field ''salt'' bf_Salt bf_Salt_update)"
  "map_of file_fields ''nonce'' = Some (bytes_field ''nonce'' bf_Non bf_Non_update)"
  "map_of file_fields ''data'' = Some (bytes_field ''data'' bf_Data bf_Data_update)"
  by (simp_all add: file_fields_def)

lemma file_roundtrip:
  assumes "in_int64 (bf_V f)" "in_int64 (bf_N f)" "in_int64 (bf_R f)" "in_int64 (bf_P f)" "ValidString (bf_KDF f)"
  shows "unmarshal_struct file_fields backupFile0 (MarshalIndent (file_json f)) = Inr f"
proof -
  have "jok maxNestingDepth (file_json f)"
    using assms(5) by (auto simp: file_json_def ad_json_def maxNestingDepth_def ValidString_ascii)
  then have "unmarshal_value (MarshalIndent (file_json f)) = Inr (file_json f)" by (rule unmarshal_MarshalIndent)
  moreover note i = assms(1-4) [THEN dec_int64_JInt]
  have "\<exists>h. decode_struct False file_fields (file_json f) (backupFile0, \<lambda>_. []) = Inr (f, h)"
    unfolding file_json_def ad_json_def decode_struct_def json.case append_Cons append_Nil backupFile0_def
    by (simp add: decode_plain_field [OF file_fields_at(1) i(1)] decode_plain_field [OF file_fields_at(2) i(2)]
        decode_plain_field [OF file_fields_at(3) i(3)] decode_plain_field [OF file_fields_at(4) i(4)]
        decode_plain_field [OF file_fields_at(5) dec_string_JStr] file_fields_at(6-8) [THEN decode_bytes_field]
        del: decode_fields.simps(2))
  ultimately show ?thesis by (auto simp: unmarshal_struct_def)
qed

lemma plain_roundtrip:
  assumes "ValidString (bp_Name p)"
  shows "unmarshal_struct plain_fields backupPlain0 (Marshal (plain_json p)) = Inr p"
proof -
  have at: "map_of plain_fields ''name'' = Some (plain_field dec_string bp_Name bp_Name_update)"
    "map_of plain_fields ''priv'' = Some (bytes_field ''priv'' bp_Priv bp_Priv_update)"
    "map_of plain_fields ''pub'' = Some (bytes_field ''pub'' bp_Pub bp_Pub_update)"
    by (simp_all add: plain_fields_def)
  have "jok maxNestingDepth (plain_json p)"
    using assms by (auto simp: plain_json_def maxNestingDepth_def ValidString_ascii)
  then have "unmarshal_value (Marshal (plain_json p)) = Inr (plain_json p)" by (rule unmarshal_Marshal)
  moreover have "\<exists>h. decode_struct False plain_fields (plain_json p) (backupPlain0, \<lambda>_. []) = Inr (p, h)"
    unfolding plain_json_def decode_struct_def json.case backupPlain0_def
    by (simp add: decode_plain_field [OF at(1) dec_string_JStr] at(2,3) [THEN decode_bytes_field] del: decode_fields.simps(2))
  ultimately show ?thesis by (auto simp: unmarshal_struct_def)
qed

end
