(* ===== verification/Session.thy ===== *)
theory Session
  imports Proto_Json Identity
begin

text \<open>
  Package \<open>internal/session\<close>: the Noise XX handshake over a framed stream and the encrypted
  channel of envelopes it leaves behind.

  The Noise library is a parameter (\<open>session_env\<close>). A connection is its
  two cipher states with the authenticated facts about the peer; reading consumes the bytes
  still to come, writing returns the bytes to append. \<open>Send\<close> returns the advanced cipher state
  next to its error, because the library counts a nonce before the frame is written.
\<close>

section \<open>Parameters\<close>

record ('h, 'c) session_env =
  noise_New :: "bool \<Rightarrow> dhkey \<Rightarrow> bytes \<Rightarrow> 'h result"    \<comment> \<open>initiator, static key pair, prologue\<close>
  noise_WriteMessage :: "'h \<Rightarrow> bytes \<Rightarrow> ('h \<times> bytes \<times> ('c \<times> 'c) option) result"
  noise_ReadMessage :: "'h \<Rightarrow> bytes \<Rightarrow> ('h \<times> bytes \<times> ('c \<times> 'c) option) result"
  noise_PeerStatic :: "'h \<Rightarrow> bytes"
  noise_Encrypt :: "'c \<Rightarrow> bytes \<Rightarrow> ('c \<times> bytes) result"
  noise_Decrypt :: "'c \<Rightarrow> bytes \<Rightarrow> ('c \<times> bytes) result"

record 'c conn =
  c_RemoteKey :: bytes
  c_RemoteName :: string
  c_RemoteVersion :: int
  c_RemoteCaps :: "string list"
  c_enc :: 'c
  c_dec :: 'c

section \<open>Handshake\<close>

definition prologue :: bytes where "prologue = ''chirp/2''"

definition LocalCaps :: "string list" where
  "LocalCaps = [CapFiles, CapReactions, CapReceipts, CapTyping, CapRooms, CapResume]"

definition local_hello :: "ident \<Rightarrow> hello" where
  "local_hello ident = \<lparr>h_V = Version, h_Name = i_Name ident, h_Caps = LocalCaps\<rparr>"

text \<open>The closures \<open>read\<close> and \<open>write\<close>.\<close>

definition hs_read :: "('h, 'c) session_env \<Rightarrow> 'h \<Rightarrow> bytes \<Rightarrow>
    ('h \<times> bytes \<times> ('c \<times> 'c) option \<times> bytes) result" where
  "hs_read S hs inp = bindR (ReadFrame inp) (\<lambda>(m, rest).
     bindR (wrap_err ''session: handshake'' (noise_ReadMessage S hs m)) (\<lambda>(hs', p, cs).
       Inr (hs', p, cs, rest)))"

definition hs_write :: "('h, 'c) session_env \<Rightarrow> 'h \<Rightarrow> bytes \<Rightarrow>
    ('h \<times> bytes \<times> ('c \<times> 'c) option) result" where
  "hs_write S hs payload = bindR (noise_WriteMessage S hs payload) (\<lambda>(hs', m, cs).
     bindR (WriteFrame m) (\<lambda>w. Inr (hs', w, cs)))"

text \<open>From the last message on; \<open>cs\<close> is the pair of cipher states to write and to read with.\<close>

definition hs_finish :: "('h, 'c) session_env \<Rightarrow> 'h \<Rightarrow> bytes \<Rightarrow> ('c \<times> 'c) option \<Rightarrow> 'c conn result" where
  "hs_finish S hs peerHello cs = (case cs of
     None \<Rightarrow> Inl (Err ''session: handshake incomplete'')
   | Some (csWrite, csRead) \<Rightarrow> (case hello_Unmarshal peerHello of
       Inl _ \<Rightarrow> Inl (Err ''session: bad hello'')
     | Inr h \<Rightarrow> bindR (wrap_err ''session: bad peer name'' (ValidateName (h_Name h))) (\<lambda>name.
         if length (noise_PeerStatic S hs) \<noteq> 32 then Inl (Err ''session: missing peer static key'')
         else Inr \<lparr>c_RemoteKey = noise_PeerStatic S hs, c_RemoteName = name,
           c_RemoteVersion = RemoteVersion Version (h_V h), c_RemoteCaps = h_Caps h,
           c_enc = csWrite, c_dec = csRead\<rparr>)))"

text \<open>\<open>handshake\<close>: what was written, and the connection with the bytes left to read.\<close>

definition handshake :: "('h, 'c) session_env \<Rightarrow> ident \<Rightarrow> bool \<Rightarrow> bytes \<Rightarrow> bytes \<Rightarrow>
    bytes \<times> ('c conn \<times> bytes) result" where
  "handshake S ident initiator prol inp = (case noise_New S initiator (i_Key ident) prol of
     Inl e \<Rightarrow> ([], Inl e)
   | Inr hs \<Rightarrow>
     let hello = hello_Marshal (local_hello ident) in
     if initiator then (case hs_write S hs [] of
         Inl e \<Rightarrow> ([], Inl e)
       | Inr (hs1, w1, _) \<Rightarrow> (case hs_read S hs1 inp of
           Inl e \<Rightarrow> (w1, Inl e)
         | Inr (hs2, peerHello, _, rest) \<Rightarrow> (case hs_write S hs2 hello of
             Inl e \<Rightarrow> (w1, Inl e)
           | Inr (hs3, w3, cs) \<Rightarrow>
               (w1 @ w3, bindR (hs_finish S hs3 peerHello cs) (\<lambda>c. Inr (c, rest))))))
     else (case hs_read S hs inp of
         Inl e \<Rightarrow> ([], Inl e)
       | Inr (hs1, _, _, rest1) \<Rightarrow> (case hs_write S hs1 hello of
           Inl e \<Rightarrow> ([], Inl e)
         | Inr (hs2, w2, _) \<Rightarrow> (case hs_read S hs2 rest1 of
             Inl e \<Rightarrow> (w2, Inl e)
           | Inr (hs3, peerHello, cs, rest) \<Rightarrow>
               (w2, bindR (hs_finish S hs3 peerHello (map_option prod.swap cs)) (\<lambda>c. Inr (c, rest)))))))"

definition Initiator :: "('h, 'c) session_env \<Rightarrow> ident \<Rightarrow> bytes \<Rightarrow> bytes \<times> ('c conn \<times> bytes) result" where
  "Initiator S ident inp = handshake S ident True prologue inp"

definition Responder :: "('h, 'c) session_env \<Rightarrow> ident \<Rightarrow> bytes \<Rightarrow> bytes \<times> ('c conn \<times> bytes) result" where
  "Responder S ident inp = handshake S ident False prologue inp"

section \<open>The channel\<close>

definition Send :: "('h, 'c) session_env \<Rightarrow> 'c conn \<Rightarrow> envelope \<Rightarrow> 'c conn \<times> bytes result" where
  "Send S c e = (case Encode e of
     Inl er \<Rightarrow> (c, Inl er)
   | Inr plain \<Rightarrow> (case noise_Encrypt S (c_enc c) plain of
       Inl er \<Rightarrow> (c, Inl er)
     | Inr (enc', ct) \<Rightarrow> (c\<lparr>c_enc := enc'\<rparr>, WriteFrame ct)))"

definition Recv :: "('h, 'c) session_env \<Rightarrow> 'c conn \<Rightarrow> bytes \<Rightarrow> ('c conn \<times> envelope \<times> bytes) result" where
  "Recv S c inp = bindR (ReadFrame inp) (\<lambda>(ct, rest).
     case noise_Decrypt S (c_dec c) ct of
       Inl _ \<Rightarrow> Inl (Err ''session: authentication failed'')
     | Inr (dec', plain) \<Rightarrow> bindR (Decode plain) (\<lambda>e. Inr (c\<lparr>c_dec := dec'\<rparr>, e, rest)))"

text \<open>A sequence of sends and the receives of the other side, each stopping at the first error.\<close>

fun send_all :: "('h, 'c) session_env \<Rightarrow> 'c conn \<Rightarrow> envelope list \<Rightarrow> ('c conn \<times> bytes) result" where
  "send_all S c [] = Inr (c, [])"
| "send_all S c (e # es) = (case Send S c e of
     (c', Inl er) \<Rightarrow> Inl er
   | (c', Inr w) \<Rightarrow> bindR (send_all S c' es) (\<lambda>(c'', ws). Inr (c'', w @ ws)))"

fun recv_all :: "('h, 'c) session_env \<Rightarrow> 'c conn \<Rightarrow> nat \<Rightarrow> bytes \<Rightarrow> ('c conn \<times> envelope list \<times> bytes) result" where
  "recv_all S c 0 inp = Inr (c, [], inp)"
| "recv_all S c (Suc k) inp = bindR (Recv S c inp) (\<lambda>(c', e, rest).
     bindR (recv_all S c' k rest) (\<lambda>(c'', es, r). Inr (c'', e # es, r)))"

section \<open>What is relied on\<close>

text \<open>
  The two ends of a cipher: \<open>R\<close> relates the writer's state with the reader's, and each message
  decrypts to what was encrypted, sixteen bytes longer, leaving related states.
\<close>

definition cipher_pair :: "('h, 'c) session_env \<Rightarrow> ('c \<Rightarrow> 'c \<Rightarrow> bool) \<Rightarrow> bool" where
  "cipher_pair S R \<longleftrightarrow> (\<forall>e d p. R e d \<longrightarrow> (\<exists>e' ct d'. noise_Encrypt S e p = Inr (e', ct)
     \<and> length ct = length p + 16 \<and> noise_Decrypt S d ct = Inr (d', p) \<and> R e' d'))"

text \<open>An envelope that can be put on the wire: valid, of texts JSON can carry, and fitting a frame.\<close>

definition sendable :: "envelope \<Rightarrow> bool" where
  "sendable e \<longleftrightarrow> validate e = Inr () \<and> json_clean e \<and> length (Marshal (envelope_json e)) + 16 \<le> MaxFrame"

section \<open>The channel delivers what was sent\<close>

lemma Send_Recv:
  assumes "cipher_pair S R" "sendable e" "R (c_enc c) (c_dec d)"
  shows "\<exists>e' w d'. Send S c e = (c\<lparr>c_enc := e'\<rparr>, Inr w)
    \<and> (\<forall>rest. Recv S d (w @ rest) = Inr (d\<lparr>c_dec := d'\<rparr>, e, rest)) \<and> R e' d'"
proof -
  let ?p = "Marshal (envelope_json e)"
  from assms(1,3) obtain e' ct d' where c: "noise_Encrypt S (c_enc c) ?p = Inr (e', ct)"
    "length ct = length ?p + 16" "noise_Decrypt S (c_dec d) ct = Inr (d', ?p)" "R e' d'"
    unfolding cipher_pair_def by blast
  have v: "validate e = Inr ()" and u: "json_clean e" and l: "length ?p + 16 \<le> MaxFrame"
    using assms(2) by (simp_all add: sendable_def)
  have dec: "Decode ?p = Inr e" by (rule Decode_Marshal [OF u v])
  obtain w where w: "WriteFrame ct = Inr w" using c(2) l by (simp add: WriteFrame_def)
  have "Send S c e = (c\<lparr>c_enc := e'\<rparr>, Inr w)" by (simp add: Send_def Encode_def v c(1) w)
  moreover have "\<forall>rest. Recv S d (w @ rest) = Inr (d\<lparr>c_dec := d'\<rparr>, e, rest)"
    by (simp add: Recv_def ReadFrame_WriteFrame [OF w] c(3) dec)
  ultimately show ?thesis using c(4) by blast
qed

lemma send_recv_all:
  assumes "cipher_pair S R" "\<forall>e\<in>set es. sendable e" "R (c_enc c) (c_dec d)"
  shows "\<exists>c' w d'. send_all S c es = Inr (c', w)
    \<and> recv_all S d (length es) (w @ rest) = Inr (d', es, rest) \<and> R (c_enc c') (c_dec d')"
  using assms(2,3)
proof (induction es arbitrary: c d)
  case Nil
  then show ?case by simp
next
  case (Cons e es)
  have e: "sendable e" "\<forall>e\<in>set es. sendable e" using Cons.prems(1) by simp_all
  from Send_Recv [OF assms(1) e(1) Cons.prems(2)] obtain e1 w1 d1 where
    s: "Send S c e = (c\<lparr>c_enc := e1\<rparr>, Inr w1)"
    and r: "\<And>rest. Recv S d (w1 @ rest) = Inr (d\<lparr>c_dec := d1\<rparr>, e, rest)" and R: "R e1 d1"
    by blast
  have "R (c_enc (c\<lparr>c_enc := e1\<rparr>)) (c_dec (d\<lparr>c_dec := d1\<rparr>))" using R by simp
  from Cons.IH [OF e(2) this] obtain c2 w2 d2 where
    "send_all S (c\<lparr>c_enc := e1\<rparr>) es = Inr (c2, w2)"
    "recv_all S (d\<lparr>c_dec := d1\<rparr>) (length es) (w2 @ rest) = Inr (d2, es, rest)" "R (c_enc c2) (c_dec d2)"
    by blast
  then show ?case by (simp add: s r)
qed

text \<open>
  The records of a session are numbered: one made a step ahead of what the reader expects does not
  authenticate under the reader's nonce.
\<close>

definition nonce_bound :: "('h, 'c) session_env \<Rightarrow> ('c \<Rightarrow> 'c \<Rightarrow> bool) \<Rightarrow> bool" where
  "nonce_bound S R \<longleftrightarrow> (\<forall>e d p q e1 c1 e2 c2. R e d \<longrightarrow> noise_Encrypt S e p = Inr (e1, c1) \<longrightarrow> noise_Encrypt S e1 q = Inr (e2, c2)
     \<longrightarrow> isl (noise_Decrypt S d c2))"

text \<open>
  A send refused for its size still uses up a nonce: nothing is written, and whatever is sent next
  on the connection is written and cannot be received.
\<close>

lemma oversized_desync:
  assumes "cipher_pair S R" "nonce_bound S R" "R (c_enc c) (c_dec d)" "validate e = Inr ()"
    and "length (Marshal (envelope_json e)) + 16 > MaxFrame"
  shows "\<exists>c'. Send S c e = (c', Inl ErrFrameTooLarge) \<and> (\<forall>f. sendable f \<longrightarrow> (\<exists>c'' w. Send S c' f = (c'', Inr w)))
    \<and> (\<forall>f c'' w rest. Send S c' f = (c'', Inr w) \<longrightarrow> Recv S d (w @ rest) = Inl (Err ''session: authentication failed''))"
proof -
  let ?p = "Marshal (envelope_json e)"
  obtain e' ct d' where ct: "noise_Encrypt S (c_enc c) ?p = Inr (e', ct)" "length ct = length ?p + 16" "R e' d'"
    using assms(1,3) unfolding cipher_pair_def by blast
  let ?c = "c\<lparr>c_enc := e'\<rparr>"
  have "WriteFrame ct = Inl ErrFrameTooLarge" using ct(2) assms(5) by (auto simp: WriteFrame_def)
  with ct(1) assms(4) have "Send S c e = (?c, Inl ErrFrameTooLarge)" by (simp add: Send_def Encode_def)
  moreover have "\<exists>c'' w. Send S ?c f = (c'', Inr w)" if "sendable f" for f
    using Send_Recv [OF assms(1) that, of ?c "d\<lparr>c_dec := d'\<rparr>"] ct(3) by auto
  moreover have "Recv S d (w @ rest) = Inl (Err ''session: authentication failed'')" if "Send S ?c f = (c'', Inr w)" for f c'' w rest
  proof -
    from that obtain q e2 c2 where "noise_Encrypt S e' q = Inr (e2, c2)" "WriteFrame c2 = Inr w"
      by (auto simp: Send_def split: sum.splits prod.splits)
    moreover have "isl (noise_Decrypt S (c_dec d) c2)"
      using assms(2,3) ct(1) calculation(1) unfolding nonce_bound_def by blast
    ultimately show ?thesis by (auto simp: Recv_def ReadFrame_WriteFrame isl_def)
  qed
  ultimately show ?thesis by blast
qed

section \<open>The handshake authenticates both sides\<close>

text \<open>
  What the handshake relies on for two key pairs: the three XX messages carry their payloads
  across, both sides split into ciphers that fit together after the third, each learns the
  other's static key, and a message is at most 96 bytes longer than its payload.
\<close>

definition noise_xx :: "('h, 'c) session_env \<Rightarrow> ('c \<Rightarrow> 'c \<Rightarrow> bool) \<Rightarrow> dhkey \<Rightarrow> dhkey \<Rightarrow> bool" where
  "noise_xx S R kI kR \<longleftrightarrow> (\<forall>prol p2 p3. \<exists>hI hR hI1 m1 hR1 hR2 m2 hI2 hI3 m3 a b hR3 a' b'.
     noise_New S True kI prol = Inr hI \<and> noise_New S False kR prol = Inr hR
   \<and> noise_WriteMessage S hI [] = Inr (hI1, m1, None) \<and> noise_ReadMessage S hR m1 = Inr (hR1, [], None)
   \<and> noise_WriteMessage S hR1 p2 = Inr (hR2, m2, None) \<and> noise_ReadMessage S hI1 m2 = Inr (hI2, p2, None)
   \<and> noise_WriteMessage S hI2 p3 = Inr (hI3, m3, Some (a, b))
   \<and> noise_ReadMessage S hR2 m3 = Inr (hR3, p3, Some (a', b')) \<and> R a a' \<and> R b' b
   \<and> noise_PeerStatic S hI3 = Public kR \<and> noise_PeerStatic S hR3 = Public kI
   \<and> m1 \<noteq> [] \<and> m2 \<noteq> [] \<and> m3 \<noteq> []
   \<and> length m1 \<le> 96 \<and> length m2 \<le> length p2 + 96 \<and> length m3 \<le> length p3 + 96)"

text \<open>A participant: an accepted name of valid UTF-8 and a 32-byte key.\<close>

definition participant :: "ident \<Rightarrow> bool" where
  "participant p \<longleftrightarrow> ValidateName (i_Name p) = Inr (i_Name p) \<and> ValidString (i_Name p) \<and> length (Public (i_Key p)) = 32"

definition knows :: "'c conn \<Rightarrow> ident \<Rightarrow> bool" where
  "knows c p \<longleftrightarrow> c_RemoteKey c = Public (i_Key p) \<and> c_RemoteName c = i_Name p
     \<and> c_RemoteVersion c = Version \<and> c_RemoteCaps c = LocalCaps"

text \<open>Its greeting is restored and fits a handshake message.\<close>

lemma participant_hello:
  assumes "participant p"
  shows "hello_Unmarshal (hello_Marshal (local_hello p)) = Inr (local_hello p)"
    "length (hello_Marshal (local_hello p)) + 96 \<le> MaxFrame"
proof -
  have c: "list_all ValidString (h_Caps (local_hello p))" "in_int64 (h_V (local_hello p))"
    by (simp_all add: local_hello_def LocalCaps_def Version_def ValidString_ascii)
  then show "hello_Unmarshal (hello_Marshal (local_hello p)) = Inr (local_hello p)"
    using assms by (intro hello_roundtrip) (simp_all add: participant_def local_hello_def)
  have "RuneCountInString (i_Name p) \<le> MaxNameLen" using assms by (simp add: participant_def ValidateName_Inr)
  then have "length (i_Name p) \<le> 4 * MaxNameLen" using length_le_RuneCount [of "i_Name p"] by simp
  then show "length (hello_Marshal (local_hello p)) + 96 \<le> MaxFrame"
    using length_hello [OF c(2)] by (simp add: local_hello_def LocalCaps_def MaxNameLen_def MaxFrame_def)
qed

lemma hs_finish_participant:
  assumes "participant p" "noise_PeerStatic S hs = Public (i_Key p)"
  shows "\<exists>c. hs_finish S hs (hello_Marshal (local_hello p)) (Some (x, y)) = Inr c
    \<and> knows c p \<and> c_enc c = x \<and> c_dec c = y"
  using assms participant_hello(1) [OF assms(1)]
  by (simp add: hs_finish_def participant_def local_hello_def knows_def RemoteVersion_def wrap_err_def)

lemma WriteFrame_fits: "m \<noteq> [] \<Longrightarrow> length m \<le> MaxFrame \<Longrightarrow> \<exists>w. WriteFrame m = Inr w"
  by (simp add: WriteFrame_def)

lemma hs_write_Inr:
  "noise_WriteMessage S hs p = Inr (hs', m, cs) \<Longrightarrow> WriteFrame m = Inr w \<Longrightarrow> hs_write S hs p = Inr (hs', w, cs)"
  by (simp add: hs_write_def)

lemma hs_read_Inr:
  "noise_ReadMessage S hs m = Inr (hs', p, cs) \<Longrightarrow> WriteFrame m = Inr w
   \<Longrightarrow> hs_read S hs (w @ rest) = Inr (hs', p, cs, rest)"
  by (simp add: hs_read_def ReadFrame_WriteFrame wrap_err_def)

text \<open>Every connection, whoever the peer: a policy-conforming name, a 32-byte key, a version we speak.\<close>

lemma hs_finish_Inr:
  "hs_finish S hs ph cs = Inr c \<Longrightarrow> length (c_RemoteKey c) = 32 \<and> c_RemoteVersion c \<le> Version
     \<and> c_RemoteName c \<noteq> [] \<and> RuneCountInString (c_RemoteName c) \<le> MaxNameLen
     \<and> (\<forall>r\<in>set (runes (c_RemoteName c)). 0x20 \<le> r \<and> r \<noteq> 0x7f)"
  by (fastforce simp: hs_finish_def RemoteVersion_def ValidateName_Inr split: option.splits sum.splits if_splits)

section \<open>A concrete library\<close>

text \<open>
  A stand-in for the Noise library that meets the hypotheses: messages carry the static key in
  the clear, cipher states are counters. It shows that the hypotheses can hold, nothing else.
\<close>

type_synonym toy_hs = "nat \<times> bytes \<times> bytes"   \<comment> \<open>messages so far, own key, peer's key\<close>

definition toy_tag :: "nat \<Rightarrow> bytes" where "toy_tag k = replicate 16 (char_of k)"

definition toy_split :: "nat \<Rightarrow> (nat \<times> nat) option" where
  "toy_split k = (if k = 2 then Some (0, 0) else None)"

definition toy_session :: "(toy_hs, nat) session_env" where
  "toy_session = \<lparr>
     noise_New = (\<lambda>i k prol. Inr (0, Public k, [])),
     noise_WriteMessage = (\<lambda>(k, pub, peer) p. Inr ((k + 1, pub, peer), pub @ p, toy_split k)),
     noise_ReadMessage = (\<lambda>(k, pub, peer) m. Inr ((k + 1, pub, take 32 m), drop 32 m, toy_split k)),
     noise_PeerStatic = (\<lambda>(k, pub, peer). peer),
     noise_Encrypt = (\<lambda>k p. Inr (k + 1, p @ toy_tag k)),
     noise_Decrypt = (\<lambda>k ct. if 16 \<le> length ct \<and> drop (length ct - 16) ct = toy_tag k
        then Inr (k + 1, take (length ct - 16) ct) else Inl (Err ''tag''))\<rparr>"

lemma toy_cipher: "cipher_pair toy_session (=)"
  by (simp add: cipher_pair_def toy_session_def toy_tag_def)

lemma sendable_ping: "sendable (envelope0\<lparr>e_T := TypePing\<rparr>)"
  using length_envelope_json [of "envelope0\<lparr>e_T := TypePing\<rparr>"]
  by (simp add: sendable_def json_clean_def envelope0_def validate_def MaxFrame_def ValidString_ascii)

lemma toy_nonce: "nonce_bound toy_session (=)"
proof -
  have "char_of (Suc k) \<noteq> (char_of k :: char)" for k :: nat
  proof
    assume "char_of (Suc k) = (char_of k :: char)"
    then have "Suc k mod 256 = k mod 256" by simp
    then show False by (simp add: mod_Suc split: if_splits)
  qed
  then show ?thesis by (auto simp: nonce_bound_def toy_session_def toy_tag_def)
qed

lemma toy_xx: "length (Public kI) = 32 \<Longrightarrow> length (Public kR) = 32 \<Longrightarrow> noise_xx toy_session (=) kI kR"
  unfolding noise_xx_def by (auto simp: toy_session_def toy_split_def)

definition toy_ident :: "char \<Rightarrow> ident" where
  "toy_ident c = \<lparr>i_Name = [c], i_Key = \<lparr>Private = replicate 32 c, Public = replicate 32 c\<rparr>\<rparr>"

lemma toy_participant: "participant (toy_ident (CHR ''a''))" "participant (toy_ident (CHR ''b''))"
  by (simp_all add: participant_def toy_ident_def ValidateName_def ValidString_ascii TrimSpace_def IsSpace_def RuneCountInString_def runes_ascii MaxNameLen_def)

section \<open>Properties\<close>

text \<open>
  C10. A session is a faithful channel: over ciphers that fit together, any sequence of sendable
  envelopes is accepted by \<open>Send\<close>, and \<open>Recv\<close> on the other side returns exactly that sequence,
  in that order, leaving the bytes that follow untouched.
\<close>

theorem session_delivers_in_order:
  assumes "cipher_pair S R" "\<forall>e\<in>set es. sendable e" "R (c_enc c) (c_dec d)"
  shows "\<exists>c' w d'. send_all S c es = Inr (c', w)
    \<and> recv_all S d (length es) (w @ rest) = Inr (d', es, rest) \<and> R (c_enc c') (c_dec d')"
  by (rule send_recv_all [OF assms])

abbreviation toy_conn :: "nat conn" where
  "toy_conn \<equiv> \<lparr>c_RemoteKey = [], c_RemoteName = [], c_RemoteVersion = 2, c_RemoteCaps = [], c_enc = 0, c_dec = 0\<rparr>"

theorem session_delivers_in_order_witness:
  "\<exists>c' w d'. send_all toy_session toy_conn [envelope0\<lparr>e_T := TypePing\<rparr>, envelope0\<lparr>e_T := TypePing\<rparr>] = Inr (c', w)
    \<and> recv_all toy_session toy_conn 2 (w @ ''xyz'') = Inr (d', [envelope0\<lparr>e_T := TypePing\<rparr>, envelope0\<lparr>e_T := TypePing\<rparr>], ''xyz'')"
proof -
  have "\<forall>e\<in>set [envelope0\<lparr>e_T := TypePing\<rparr>, envelope0\<lparr>e_T := TypePing\<rparr>]. sendable e" using sendable_ping by simp
  from session_delivers_in_order [OF toy_cipher this, of toy_conn toy_conn "''xyz''"] show ?thesis
    by (auto simp: numeral_2_eq_2)
qed

text \<open>
  Mutual authentication: an initiator and a responder that speak the same version and run
  against each other's bytes both finish; each holds the other's static key, validated name and
  capabilities, and their ciphers fit together in both directions.
\<close>

theorem handshake_mutual:
  assumes xx: "noise_xx S R (i_Key a) (i_Key b)" and "participant a" "participant b"
  shows "\<exists>wI wR cI cR. Initiator S a (wR @ xs) = (wI, Inr (cI, xs)) \<and> Responder S b (wI @ ys) = (wR, Inr (cR, ys))
    \<and> knows cI b \<and> knows cR a \<and> R (c_enc cI) (c_dec cR) \<and> R (c_enc cR) (c_dec cI)"
proof -
  let ?p2 = "hello_Marshal (local_hello b)" and ?p3 = "hello_Marshal (local_hello a)"
  obtain hI hR hI1 m1 hR1 hR2 m2 hI2 hI3 m3 a1 b1 hR3 a' b' where h:
    "noise_New S True (i_Key a) prologue = Inr hI" "noise_New S False (i_Key b) prologue = Inr hR"
    "noise_WriteMessage S hI [] = Inr (hI1, m1, None)" "noise_ReadMessage S hR m1 = Inr (hR1, [], None)"
    "noise_WriteMessage S hR1 ?p2 = Inr (hR2, m2, None)" "noise_ReadMessage S hI1 m2 = Inr (hI2, ?p2, None)"
    "noise_WriteMessage S hI2 ?p3 = Inr (hI3, m3, Some (a1, b1))"
    "noise_ReadMessage S hR2 m3 = Inr (hR3, ?p3, Some (a', b'))" "R a1 a'" "R b' b1"
    "noise_PeerStatic S hI3 = Public (i_Key b)" "noise_PeerStatic S hR3 = Public (i_Key a)"
    and m: "m1 \<noteq> []" "m2 \<noteq> []" "m3 \<noteq> []" "length m1 \<le> 96" "length m2 \<le> length ?p2 + 96" "length m3 \<le> length ?p3 + 96"
    using xx unfolding noise_xx_def by (elim allE [of _ prologue] allE [of _ ?p2] allE [of _ ?p3]) blast
  have l: "length m1 \<le> MaxFrame" "length m2 \<le> MaxFrame" "length m3 \<le> MaxFrame"
    using m(4-6) participant_hello(2) [OF assms(2)] participant_hello(2) [OF assms(3)] by (simp_all add: MaxFrame_def)
  obtain w1 w2 w3 where w: "WriteFrame m1 = Inr w1" "WriteFrame m2 = Inr w2" "WriteFrame m3 = Inr w3"
    using WriteFrame_fits [OF m(1) l(1)] WriteFrame_fits [OF m(2) l(2)] WriteFrame_fits [OF m(3) l(3)] by blast
  obtain cI where cI: "hs_finish S hI3 ?p2 (Some (a1, b1)) = Inr cI" "knows cI b" "c_enc cI = a1" "c_dec cI = b1"
    using hs_finish_participant [OF assms(3) h(11), of a1 b1] by blast
  obtain cR where cR: "hs_finish S hR3 ?p3 (Some (b', a')) = Inr cR" "knows cR a" "c_enc cR = b'" "c_dec cR = a'"
    using hs_finish_participant [OF assms(2) h(12), of b' a'] by blast
  have "Initiator S a (w2 @ xs) = (w1 @ w3, Inr (cI, xs))"
    by (simp add: Initiator_def handshake_def Let_def h(1) hs_write_Inr [OF h(3) w(1)] hs_read_Inr [OF h(6) w(2)]
        hs_write_Inr [OF h(7) w(3)] cI(1))
  moreover have "Responder S b ((w1 @ w3) @ ys) = (w2, Inr (cR, ys))"
    by (simp add: Responder_def handshake_def Let_def h(2) hs_read_Inr [OF h(4) w(1)] hs_write_Inr [OF h(5) w(2)]
        hs_read_Inr [OF h(8) w(3)] cR(1))
  ultimately show ?thesis using cI(2-4) cR(2-4) h(9,10) by blast
qed

theorem handshake_mutual_witness:
  "\<exists>wI wR cI cR. Initiator toy_session (toy_ident (CHR ''a'')) (wR @ []) = (wI, Inr (cI, []))
     \<and> Responder toy_session (toy_ident (CHR ''b'')) (wI @ []) = (wR, Inr (cR, []))
     \<and> knows cI (toy_ident (CHR ''b'')) \<and> knows cR (toy_ident (CHR ''a''))"
proof -
  have "noise_xx toy_session (=) (i_Key (toy_ident (CHR ''a''))) (i_Key (toy_ident (CHR ''b'')))"
    by (rule toy_xx) (simp_all add: toy_ident_def)
  from handshake_mutual [OF this toy_participant, of "[]" "[]"] show ?thesis by blast
qed

end
