(* ===== verification/Bolt.thy ===== *)
theory Bolt
  imports Chirp_Prelude
begin

text \<open>
  The key/value buckets of the embedded database (\<open>go.etcd.io/bbolt\<close>) as the repository uses
  them: an ordered map from byte keys to values with a per-bucket \<open>uint64\<close> counter.

  The locale \<open>ordered_kv\<close> is the contract the store relies on (what \<open>Get\<close> returns after a
  \<open>Put\<close> or a \<open>Delete\<close>, and that \<open>ForEach\<close> and a cursor visit the keys in byte order); the
  client lemmas (prefix scans forwards and backwards, bulk deletion) are proved in it, once.
  A bucket is represented as a key-ordered association list, and the locale is interpreted on
  it. Values are what the code stores: structs, whose JSON text is not part of the state, except
  for the identity, which is kept as its text. \<open>bPut\<close> always succeeds: the library's refusal of an
  empty key, of a key over 32 KB and of a value over 2 GB is not modelled.
\<close>

section \<open>The contract\<close>

locale ordered_kv =
  fixes get :: "'b \<Rightarrow> bytes \<Rightarrow> 'v option"
    and put :: "bytes \<Rightarrow> 'v \<Rightarrow> 'b \<Rightarrow> 'b"
    and del :: "bytes \<Rightarrow> 'b \<Rightarrow> 'b"
    and items :: "'b \<Rightarrow> (bytes \<times> 'v) list"
    and wf :: "'b \<Rightarrow> bool"
  assumes get_put: "get (put k v b) = (get b)(k \<mapsto> v)"
    and get_del: "get (del k b) = (get b)(k := None)"
    and items_sorted: "wf b \<Longrightarrow> sorted_wrt (<) (map fst (items b))"
    and get_items: "get b = map_of (items b)"
    and wf_put: "wf b \<Longrightarrow> wf (put k v b)"
    and wf_del: "wf b \<Longrightarrow> wf (del k b)"
begin

lemma items_distinct: "wf b \<Longrightarrow> distinct (map fst (items b))"
  using items_sorted by (simp add: strict_sorted_iff)

lemma items_iff: "wf b \<Longrightarrow> (k, v) \<in> set (items b) \<longleftrightarrow> get b k = Some v"
  by (simp add: get_items items_distinct)

lemma set_items_put: "wf b \<Longrightarrow>
    set (items (put k v b)) = insert (k, v) {e \<in> set (items b). fst e \<noteq> k}"
  by (auto simp: items_iff wf_put get_put split: if_splits)

lemma set_items_del: "wf b \<Longrightarrow> set (items (del k b)) = {e \<in> set (items b). fst e \<noteq> k}"
  by (auto simp: items_iff wf_del get_del split: if_splits)

lemma get_del_all: "get (fold del ks b) k = (if k \<in> set ks then None else get b k)"
  by (induction ks arbitrary: b) (auto simp: get_del)

lemma wf_del_all: "wf b \<Longrightarrow> wf (fold del ks b)"
  by (induction ks arbitrary: b) (auto simp: wf_del)

lemma set_items_del_all: "wf b \<Longrightarrow>
    set (items (fold del ks b)) = {e \<in> set (items b). fst e \<notin> set ks}"
  by (auto simp: items_iff wf_del_all get_del_all split: if_splits)

end

section \<open>Prefixes and byte order\<close>

lemma prefix_le: "prefix p k \<Longrightarrow> p \<le> k" for k :: bytes
proof (induction p arbitrary: k)
  case Nil
  then show ?case by simp
next
  case (Cons x p)
  then show ?case by (cases k) simp_all
qed

lemma less_not_prefix: "k < p \<Longrightarrow> \<not> prefix p k" for k :: bytes
  using prefix_le [of p k] by auto

text \<open>The keys with a given prefix are an interval of the byte order.\<close>

lemma prefix_interval:
  fixes k :: bytes
  shows "\<lbrakk>prefix p a; a \<le> k; k \<le> b; prefix p b\<rbrakk> \<Longrightarrow> prefix p k"
proof (induction p arbitrary: a k b)
  case Nil
  then show ?case by simp
next
  case (Cons x p)
  from Cons.prems(1) obtain a' where a: "a = x # a'" "prefix p a'" by (auto elim!: prefixE)
  from Cons.prems(4) obtain b' where b: "b = x # b'" "prefix p b'" by (auto elim!: prefixE)
  from Cons.prems(2) obtain y k' where k: "k = y # k'" by (cases k) (auto simp: a)
  have 1: "x < y \<or> x = y \<and> a' \<le> k'" using Cons.prems(2) by (simp add: a(1) k)
  have 2: "y < x \<or> y = x \<and> k' \<le> b'" using Cons.prems(3) by (simp add: b(1) k)
  have "y = x" using 1 2 less_asym by blast
  moreover have "prefix p k'" using 1 2 calculation a(2) b(2) by (intro Cons.IH [of a' k' b']) simp_all
  ultimately show ?case by (simp add: k)
qed

lemma prefix_downward: "\<lbrakk>\<not> a < p; a < b; prefix p b\<rbrakk> \<Longrightarrow> prefix p a" for a :: bytes
  by (rule prefix_interval [of p p a b]) simp_all

lemma prefix_upward: "\<lbrakk>prefix p a; a < b; b < u; prefix p u\<rbrakk> \<Longrightarrow> prefix p b" for a :: bytes
  by (rule prefix_interval [of p a b u]) simp_all

lemma append_less_append [simp]: "p @ a < p @ b \<longleftrightarrow> a < b" for a b p :: bytes
  by (induction p) simp_all

section \<open>Scans of an ordered item list\<close>

text \<open>
  A forward scan is a cursor's \<open>Seek(p)\<close> followed by \<open>Next\<close> while the prefix holds; a backward
  scan is \<open>Seek(upper)\<close> (or \<open>Last\<close> when nothing is at or after it), \<open>Prev\<close>, and so on while the
  prefix holds.
\<close>

definition scan_prefix :: "bytes \<Rightarrow> (bytes \<times> 'v) list \<Rightarrow> (bytes \<times> 'v) list" where
  "scan_prefix p es = takeWhile (\<lambda>e. prefix p (fst e)) (dropWhile (\<lambda>e. fst e < p) es)"

definition scan_back :: "bytes \<Rightarrow> bytes \<Rightarrow> (bytes \<times> 'v) list \<Rightarrow> (bytes \<times> 'v) list" where
  "scan_back p upper es =
     takeWhile (\<lambda>e. prefix p (fst e)) (rev (takeWhile (\<lambda>e. fst e < upper) es))"

lemma takeWhile_less_filter:
  fixes es :: "(bytes \<times> 'v) list"
  shows "sorted_wrt (<) (map fst es) \<Longrightarrow>
    takeWhile (\<lambda>e. fst e < u) es = filter (\<lambda>e. fst e < u) es"
proof (induction es)
  case Nil
  then show ?case by simp
next
  case (Cons e es)
  then have "\<not> fst e < u \<Longrightarrow> filter (\<lambda>e. fst e < u) es = []"
    by (fastforce simp: filter_empty_conv)
  with Cons show ?case by simp
qed

lemma dropWhile_less_filter:
  fixes es :: "(bytes \<times> 'v) list"
  shows "sorted_wrt (<) (map fst es) \<Longrightarrow>
    dropWhile (\<lambda>e. fst e < u) es = filter (\<lambda>e. \<not> fst e < u) es"
proof (induction es)
  case Nil
  then show ?case by simp
next
  case (Cons e es)
  then have "\<not> fst e < u \<Longrightarrow> filter (\<lambda>e. \<not> fst e < u) es = es"
    by (fastforce simp: filter_id_conv)
  with Cons show ?case by simp
qed

text \<open>On a list where a predicate holds on an initial interval, \<open>takeWhile\<close> is \<open>filter\<close>.\<close>

lemma takeWhile_eq_filter:
  "sorted_wrt (\<lambda>x y. Q y \<longrightarrow> Q x) xs \<Longrightarrow> takeWhile Q xs = filter Q xs"
proof (induction xs)
  case Nil
  then show ?case by simp
next
  case (Cons x xs)
  then have "\<not> Q x \<Longrightarrow> filter Q xs = []"
    by (auto simp: filter_empty_conv)
  with Cons show ?case by simp
qed

lemma scan_prefix_eq:
  assumes "sorted_wrt (<) (map fst es)"
  shows "scan_prefix p es = filter (\<lambda>e. prefix p (fst e)) es"
proof -
  let ?xs = "filter (\<lambda>e. \<not> fst e < p) es"
  have "sorted_wrt (<) (map fst ?xs)"
    using assms by (simp add: sorted_wrt_map sorted_wrt_filter)
  then have "sorted_wrt (\<lambda>x y. prefix p (fst y) \<longrightarrow> prefix p (fst x)) ?xs"
    unfolding sorted_wrt_map
    by (rule sorted_wrt_mono_rel [rotated])
      (auto intro: prefix_downward)
  then show ?thesis
    unfolding scan_prefix_def dropWhile_less_filter [OF assms]
    by (subst takeWhile_eq_filter) (auto intro: filter_cong dest: less_not_prefix)
qed

lemma scan_back_eq:
  assumes "sorted_wrt (<) (map fst es)" "prefix p u"
  shows "scan_back p u es = rev (filter (\<lambda>e. prefix p (fst e) \<and> fst e < u) es)"
proof -
  let ?xs = "filter (\<lambda>e. fst e < u) es"
  have "sorted_wrt (\<lambda>x y. fst x < fst y) ?xs"
    using assms by (simp add: sorted_wrt_map sorted_wrt_filter)
  then have "sorted_wrt (\<lambda>x y. prefix p (fst x) \<longrightarrow> prefix p (fst y)) ?xs"
    by (rule sorted_wrt_mono_rel [rotated])
      (use assms(2) in \<open>auto intro: prefix_upward\<close>)
  then have "sorted_wrt (\<lambda>x y. prefix p (fst y) \<longrightarrow> prefix p (fst x)) (rev ?xs)"
    by (simp add: sorted_wrt_rev)
  then show ?thesis
    unfolding scan_back_def takeWhile_less_filter [OF assms(1)]
    by (subst takeWhile_eq_filter) (simp_all add: rev_filter conj_commute)
qed

section \<open>Buckets\<close>

record 'v bucket =
  entries :: "(bytes \<times> 'v) list"
  bseq :: "64 word"   \<comment> \<open>the counter \<open>NextSequence\<close> increments\<close>

definition empty_bucket :: "'v bucket" where
  "empty_bucket = \<lparr>entries = [], bseq = 0\<rparr>"

fun put_entry :: "bytes \<Rightarrow> 'v \<Rightarrow> (bytes \<times> 'v) list \<Rightarrow> (bytes \<times> 'v) list" where
  "put_entry k v [] = [(k, v)]"
| "put_entry k v (e # es) =
     (if k < fst e then (k, v) # e # es
      else if k = fst e then (k, v) # es
      else e # put_entry k v es)"

definition bGet :: "'v bucket \<Rightarrow> bytes \<Rightarrow> 'v option" where
  "bGet b k = map_of (entries b) k"

definition bPut :: "bytes \<Rightarrow> 'v \<Rightarrow> 'v bucket \<Rightarrow> 'v bucket" where
  "bPut k v b = b\<lparr>entries := put_entry k v (entries b)\<rparr>"

definition bDelete :: "bytes \<Rightarrow> 'v bucket \<Rightarrow> 'v bucket" where
  "bDelete k b = b\<lparr>entries := filter (\<lambda>e. fst e \<noteq> k) (entries b)\<rparr>"

definition NextSequence :: "'v bucket \<Rightarrow> 64 word \<times> 'v bucket" where
  "NextSequence b = (bseq b + 1, b\<lparr>bseq := bseq b + 1\<rparr>)"

definition wf_bucket :: "'v bucket \<Rightarrow> bool" where
  "wf_bucket b \<longleftrightarrow> sorted_wrt (<) (map fst (entries b))"

lemma map_of_put_entry: "map_of (put_entry k v es) = (map_of es)(k \<mapsto> v)"
  by (induction es) auto

lemma map_of_del_entry: "map_of (filter (\<lambda>e. fst e \<noteq> k) es) = (map_of es)(k := None)"
  by (induction es) auto

lemma fst_put_entry: "fst ` set (put_entry k v es) = insert k (fst ` set es)"
  by (induction es) auto

lemma sorted_put_entry:
  "sorted_wrt (<) (map fst es) \<Longrightarrow> sorted_wrt (<) (map fst (put_entry k v es))"
  by (induction es) (auto simp: fst_put_entry image_iff sorted_wrt_map dest!: equalityD1
      [OF fst_put_entry, THEN subsetD, OF imageI])

interpretation bolt: ordered_kv bGet bPut bDelete entries wf_bucket
proof
  fix k :: bytes and v :: 'a and b :: "'a bucket"
  show "bGet (bPut k v b) = (bGet b)(k \<mapsto> v)"
    by (simp add: bGet_def bPut_def map_of_put_entry fun_eq_iff)
  show "bGet (bDelete k b) = (bGet b)(k := None)"
    by (simp add: bGet_def bDelete_def map_of_del_entry fun_eq_iff)
  show "bGet b = map_of (entries b)"
    by (simp add: bGet_def fun_eq_iff)
  show "wf_bucket b \<Longrightarrow> sorted_wrt (<) (map fst (entries b))"
    by (simp add: wf_bucket_def)
  show "wf_bucket b \<Longrightarrow> wf_bucket (bPut k v b)"
    by (simp add: wf_bucket_def bPut_def sorted_put_entry)
  show "wf_bucket b \<Longrightarrow> wf_bucket (bDelete k b)"
    by (simp add: wf_bucket_def bDelete_def sorted_wrt_map sorted_wrt_filter)
qed

lemma bGet_empty [simp]: "bGet empty_bucket k = None"
  by (simp add: bGet_def empty_bucket_def)

lemma wf_empty_bucket [simp, inv_intros]: "wf_bucket empty_bucket"
  by (simp add: wf_bucket_def empty_bucket_def)

lemma bGet_seq [simp]: "bGet (b\<lparr>bseq := n\<rparr>) = bGet b"
  by (simp add: bGet_def fun_eq_iff)

lemma bseq_bPut [simp]: "bseq (bPut k v b) = bseq b"
  by (simp add: bPut_def)

lemma bseq_bDelete [simp]: "bseq (bDelete k b) = bseq b"
  by (simp add: bDelete_def)

lemma bseq_del_all [simp]: "bseq (fold bDelete ks b) = bseq b"
  by (induction ks arbitrary: b) simp_all

lemma wf_bucket_seq [simp, inv_intros]: "wf_bucket (b\<lparr>bseq := n\<rparr>) = wf_bucket b"
  by (simp add: wf_bucket_def)

lemmas bolt_get [simp, bolt_simps] = bolt.get_put bolt.get_del bolt.get_del_all
lemmas bolt_wf [simp, inv_intros] = bolt.wf_put bolt.wf_del bolt.wf_del_all

end
