(* ===== verification/Crypto_Envelope.thy ===== *)
theory Crypto_Envelope
  imports Platform
begin

text \<open>
  Package \<open>internal/crypto\<close>: the at-rest envelope (magic, version, nonce, ciphertext), the key
  derivations and the key combination. The locale \<open>sealed_box\<close> is what the store relies on:
  sealed values are recognisable and open under the key that sealed them.
\<close>

unbundle bit_operations_syntax

definition magic :: bytes where "magic = ''CHIRPENC''"
definition version :: nat where "version = 1"
definition keyLen :: nat where "keyLen = 32"
definition nonceLen :: nat where "nonceLen = 12"

definition DeriveKeyFromIdentity :: "env \<Rightarrow> bytes \<Rightarrow> bytes" where
  "DeriveKeyFromIdentity E privKey = hkdf_sha256 E privKey ''chirp/at-rest/v1'' keyLen"

definition DeriveKeyFromPassphraseSalt :: "env \<Rightarrow> string \<Rightarrow> bytes \<Rightarrow> bytes" where
  "DeriveKeyFromPassphraseSalt E passphrase salt = argon2id E passphrase salt 3 (64 * 1024) 4 keyLen"

text \<open>A failing random source panics: \<open>None\<close>.\<close>

definition DeriveKeyFromPassphrase :: "env \<Rightarrow> rnd \<Rightarrow> string \<Rightarrow> (bytes \<times> bytes) option" where
  "DeriveKeyFromPassphrase E r passphrase =
     map_option (\<lambda>salt. (argon2id E passphrase salt 3 (64 * 1024) 4 keyLen, salt)) r"

text \<open>Indexing past the end of either key panics: \<open>None\<close>.\<close>

definition CombineKeys :: "bytes \<Rightarrow> bytes \<Rightarrow> bytes option" where
  "CombineKeys a b =
     (if keyLen \<le> length a \<and> keyLen \<le> length b
      then Some (map (\<lambda>i. char_of ((of_char (a ! i) :: nat) XOR of_char (b ! i))) [0..<keyLen])
      else None)"

text \<open>\<open>chacha20poly1305.New\<close> refuses a key that is not 32 bytes long.\<close>

definition chacha20poly1305_New :: "bytes \<Rightarrow> unit result" where
  "chacha20poly1305_New key = require (length key = 32) ErrKeyLength"

definition Encrypt :: "env \<Rightarrow> rnd \<Rightarrow> bytes \<Rightarrow> bytes \<Rightarrow> bytes result" where
  "Encrypt E r key plaintext =
     bindR (wrap_err ''crypto: aead'' (chacha20poly1305_New key)) (\<lambda>_.
     bindR (case r of None \<Rightarrow> Inl (ErrWrap ''crypto: rand'' ErrRand) | Some n \<Rightarrow> Inr n) (\<lambda>nonce.
     Inr (magic @ [char_of version] @ nonce @ aead_Seal E key nonce plaintext [])))"

definition Decrypt :: "env \<Rightarrow> bytes \<Rightarrow> bytes \<Rightarrow> bytes result" where
  "Decrypt E key data =
     (if length data = 0 then Inr []
      else if \<not> prefix magic data then Inl (Err ''crypto: not an encrypted envelope'')
      else if length data < length magic + 1 + nonceLen + 16 then Inl (Err ''crypto: envelope too short'')
      else if of_char (data ! length magic) \<noteq> version then Inl (ErrF ''crypto: unknown version %d'' [[data ! length magic]])
      else
        let nonce = take nonceLen (drop (length magic + 1) data);
            ct = drop (length magic + 1 + nonceLen) data
        in bindR (wrap_err ''crypto: aead'' (chacha20poly1305_New key)) (\<lambda>_.
           case aead_Open E key nonce ct [] of
             None \<Rightarrow> Inl (Err ''crypto: decryption failed'')
           | Some pt \<Rightarrow> Inr pt))"

definition IsEncrypted :: "bytes \<Rightarrow> bool" where
  "IsEncrypted data = prefix magic data"

section \<open>The contract the store relies on\<close>

locale sealed_box =
  fixes ok :: "'e \<Rightarrow> bool"
    and enc :: "'e \<Rightarrow> rnd \<Rightarrow> bytes \<Rightarrow> bytes \<Rightarrow> bytes result"
    and dec :: "'e \<Rightarrow> bytes \<Rightarrow> bytes \<Rightarrow> bytes result"
    and tagged :: "bytes \<Rightarrow> bool"
    and good_rnd :: "rnd \<Rightarrow> bool"
  assumes dec_enc: "\<lbrakk>ok E; good_rnd r; enc E r k p = Inr c\<rbrakk> \<Longrightarrow> dec E k c = Inr p"
    and enc_tagged: "enc E r k p = Inr c \<Longrightarrow> tagged c"
    and enc_total: "\<lbrakk>length k = 32; good_rnd r\<rbrakk> \<Longrightarrow> \<exists>c. enc E r k p = Inr c"
    and tagged_nonempty: "tagged c \<Longrightarrow> c \<noteq> []"
begin

lemma enc_nonempty: "enc E r k p = Inr c \<Longrightarrow> c \<noteq> []"
  using enc_tagged tagged_nonempty by blast

lemma sealed_opens: "\<lbrakk>ok E; length k = 32; good_rnd r\<rbrakk> \<Longrightarrow>
    \<exists>c. enc E r k p = Inr c \<and> tagged c \<and> dec E k c = Inr p"
  using enc_total dec_enc enc_tagged by meson

end

definition nonce_ok :: "rnd \<Rightarrow> bool" where
  "nonce_ok r \<longleftrightarrow> (\<exists>n. r = Some n \<and> length n = nonceLen)"

lemma Encrypt_eq_Inr: "Encrypt E r key p = Inr c \<longleftrightarrow>
    length key = 32 \<and> (\<exists>n. r = Some n \<and> c = magic @ [char_of version] @ n @ aead_Seal E key n p [])"
  by (auto simp: Encrypt_def chacha20poly1305_New_def split: option.splits)

lemma Decrypt_eq_Inr: "Decrypt E key d = Inr p \<longleftrightarrow>
    d = [] \<and> p = [] \<or>
    (\<exists>n ct. length n = nonceLen \<and> 16 \<le> length ct \<and> d = magic @ [char_of version] @ n @ ct
       \<and> length key = 32 \<and> aead_Open E key n ct [] = Some p)"
proof
  assume a: "Decrypt E key d = Inr p"
  show "d = [] \<and> p = [] \<or>
    (\<exists>n ct. length n = nonceLen \<and> 16 \<le> length ct \<and> d = magic @ [char_of version] @ n @ ct
       \<and> length key = 32 \<and> aead_Open E key n ct [] = Some p)"
  proof (cases "d = []")
    case True
    with a show ?thesis by (simp add: Decrypt_def)
  next
    case False
    from a False obtain rest where d: "d = magic @ rest"
      by (auto simp: Decrypt_def prefix_def split: if_splits)
    from a False have l: "length magic + 1 + nonceLen + 16 \<le> length d"
      by (auto simp: Decrypt_def split: if_splits)
    with d obtain v rest' where rest: "rest = v # rest'" by (cases rest) auto
    from a False l have v: "of_char v = version"
      by (auto simp: Decrypt_def d rest nth_append split: if_splits)
    then have v': "v = char_of version" by (metis char_of_char)
    let ?n = "take nonceLen rest'" and ?ct = "drop nonceLen rest'"
    from a False l have o: "length key = 32" "aead_Open E key ?n ?ct [] = Some p"
      by (auto simp: Decrypt_def d rest Let_def chacha20poly1305_New_def split: if_splits option.splits)
    have "d = magic @ [char_of version] @ ?n @ ?ct" by (simp add: d rest v')
    moreover have "length ?n = nonceLen" "16 \<le> length ?ct" using l by (simp_all add: d rest)
    ultimately show ?thesis using o by blast
  qed
next
  assume "d = [] \<and> p = [] \<or>
    (\<exists>n ct. length n = nonceLen \<and> 16 \<le> length ct \<and> d = magic @ [char_of version] @ n @ ct
       \<and> length key = 32 \<and> aead_Open E key n ct [] = Some p)"
  then show "Decrypt E key d = Inr p"
    by (auto simp: Decrypt_def nth_append chacha20poly1305_New_def version_def require_def)
qed

lemma IsEncrypted_magic [simp]: "IsEncrypted (magic @ x)"
  by (simp add: IsEncrypted_def)

interpretation box: sealed_box aead_ok Encrypt Decrypt IsEncrypted nonce_ok
proof
  fix E :: env and r k p c
  show "aead_ok E \<Longrightarrow> nonce_ok r \<Longrightarrow> Encrypt E r k p = Inr c \<Longrightarrow> Decrypt E k c = Inr p"
    by (auto simp: Encrypt_eq_Inr Decrypt_eq_Inr nonce_ok_def nonceLen_def aead_okD)
  show "Encrypt E r k p = Inr c \<Longrightarrow> IsEncrypted c"
    by (auto simp: Encrypt_eq_Inr)
  show "length k = 32 \<Longrightarrow> nonce_ok r \<Longrightarrow> \<exists>c. Encrypt E r k p = Inr c"
    by (auto simp: Encrypt_eq_Inr nonce_ok_def)
  show "IsEncrypted c \<Longrightarrow> c \<noteq> []"
    by (auto simp: IsEncrypted_def magic_def)
qed

lemma CombineKeys_commute: "CombineKeys a b = CombineKeys b a"
  by (simp add: CombineKeys_def xor.commute conj_commute)

lemma xor_byte_lt: "(of_char (x :: char) :: nat) XOR of_char (y :: char) < 256"
proof -
  have "take_bit 8 ((of_char x :: nat) XOR of_char y) = of_char x XOR of_char y"
    unfolding take_bit_xor by (simp add: take_bit_eq_mod [of 8 "of_char z" for z])
  then show ?thesis using take_bit_nat_less_exp [of 8 "(of_char x :: nat) XOR of_char y"] by simp
qed

text \<open>XOR with the same key twice gives the key back.\<close>

lemma CombineKeys_involutive:
  assumes "length a = keyLen" "length b = keyLen"
  shows "\<exists>c. CombineKeys a b = Some c \<and> CombineKeys c b = Some a"
proof -
  define c :: bytes where
    "c = map (\<lambda>i. char_of ((of_char (a ! i) :: nat) XOR of_char (b ! i))) [0..<keyLen]"
  have c: "CombineKeys a b = Some c" using assms by (simp add: CombineKeys_def c_def)
  have "char_of ((of_char (c ! i) :: nat) XOR of_char (b ! i)) = a ! i" if "i < keyLen" for i
    using that xor_byte_lt [of "a ! i" "b ! i"] by (simp add: c_def xor.assoc)
  then have "CombineKeys c b = Some a"
    using assms by (auto simp: CombineKeys_def c_def list_eq_iff_nth_eq)
  with c show ?thesis by blast
qed

end
