(* ===== verification/Store_Core.thy ===== *)
theory Store_Core
  imports Bolt Crypto_Envelope Identity Go_Json_Clean
begin

text \<open>
  Package \<open>internal/store\<close>, part 1: the database and the \<open>Store\<close> struct, encryption at rest of
  its values, the identity record, the passphrase mode, settings, and the pinned peers with
  trust on first use.

  \<open>db\<close> holds the buckets (the meta bucket's four keys are fields), \<open>store\<close> adds the two keys
  held in memory and the file directory. \<open>dbUpdate\<close> is \<open>db.Update\<close>: the transaction is rolled
  back when the function returns an error. A failing disk is not modelled.
\<close>

section \<open>State\<close>

abbreviation DirIn :: string where "DirIn \<equiv> ''in''"
abbreviation DirOut :: string where "DirOut \<equiv> ''out''"
abbreviation StatusQueued :: string where "StatusQueued \<equiv> ''queued''"
abbreviation StatusDelivered :: string where "StatusDelivered \<equiv> ''delivered''"
abbreviation StatusReceived :: string where "StatusReceived \<equiv> ''received''"

record peer =
  p_Name :: string
  p_Key :: bytes
  p_FP :: string
  p_FirstSeen :: gotime
  p_LastSeen :: gotime
  p_Verified :: bool
  p_PendingKey :: "bytes option"
  p_PendingAt :: gotime

record message =
  m_ID :: string
  m_Peer :: string
  m_Dir :: string
  m_Body :: string
  m_TS :: gotime
  m_Status :: string
  m_Attempts :: int
  m_LastTry :: gotime
  m_Seq :: "64 word"
  m_ReplyTo :: string

record settings =
  RetentionDays :: int
  Notify :: bool
  Previews :: bool
  Typing :: bool
  Receipts :: bool

record roomReaction =
  rr_Sender :: string
  rr_Emoji :: string

record room =
  r_ID :: string
  r_Name :: string
  r_Members :: "string list"
  r_CreatedBy :: string
  r_CreatedAt :: gotime
  r_State :: string

record roomMessage =
  rm_ID :: string
  rm_Room :: string
  rm_Sender :: string
  rm_Dir :: string
  rm_Body :: string
  rm_TS :: gotime
  rm_Status :: string
  rm_Attempts :: int
  rm_LastTry :: gotime
  rm_Seq :: "64 word"
  rm_ReplyTo :: string
  rm_SenderSeq :: "64 word"
  rm_Reactions :: "roomReaction list"

record fileRec =
  f_ID :: string
  f_Peer :: string
  f_Dir :: string
  f_Name :: string
  f_Size :: int
  f_Hash :: string
  f_Status :: string
  f_Received :: int
  f_Sent :: int
  f_TS :: gotime

record idRecord =
  id_Name :: string
  id_Priv :: bytes
  id_Pub :: bytes

text \<open>The JSON text of the identity record; a key that is \<open>nil\<close> would be \<open>null\<close>, but none is written.\<close>

definition idRecord_json :: "idRecord \<Rightarrow> json" where
  "idRecord_json rec = JObj [(''name'', JStr (id_Name rec)), (''priv'', JBytes (id_Priv rec)), (''pub'', JBytes (id_Pub rec))]"

definition idRecord_Marshal :: "idRecord \<Rightarrow> bytes" where
  "idRecord_Marshal rec = Marshal (idRecord_json rec)"

definition idRecord_fields :: "(idRecord \<times> (string \<Rightarrow> bytes)) fields" where
  "idRecord_fields = [
     (''name'', plain_field dec_string id_Name id_Name_update),
     (''priv'', bytes_field ''priv'' id_Priv id_Priv_update),
     (''pub'', bytes_field ''pub'' id_Pub id_Pub_update)]"

definition idRecord_Unmarshal :: "bytes \<Rightarrow> idRecord result" where
  "idRecord_Unmarshal v = unmarshal_struct idRecord_fields \<lparr>id_Name = [], id_Priv = [], id_Pub = []\<rparr> v"

record db =
  meta_identity :: "bytes option"         \<comment> \<open>the JSON text of an \<open>idRecord\<close>\<close>
  meta_settings :: "settings option"
  meta_kdf :: "bytes option"
  meta_kdSalt :: "bytes option"
  bPeers :: "peer bucket"
  bMsgs :: "message bucket"
  bIdx :: "bytes bucket"
  bOutbox :: "bytes bucket"
  bRooms :: "room bucket"
  bRoomMsgs :: "roomMessage bucket"
  bRoomIdx :: "bytes bucket"
  bRoomOutbox :: "bytes bucket"
  bRoomSeq :: "bytes bucket"
  bFiles :: "fileRec bucket"
  bFileOutbox :: "bytes bucket"

text \<open>The directory of one transfer: \<open>data.tmp\<close> and \<open>data.enc\<close>, where present.\<close>

record filedir =
  data_tmp :: "bytes option"
  data_enc :: "bytes option"

record store =
  db :: db
  encKey :: "bytes option"
  idKey :: "bytes option"
  filesDir :: "string \<Rightarrow> filedir option"

definition dbUpdate :: "store \<Rightarrow> (db \<Rightarrow> (db \<times> 'a) result) \<Rightarrow> store \<times> 'a result" where
  "dbUpdate s f = (case f (db s) of
     Inl e \<Rightarrow> (s, Inl e) | Inr (d, x) \<Rightarrow> (s\<lparr>db := d\<rparr>, Inr x))"

lemma dbUpdate_Inr: "dbUpdate s f = (s', Inr x) \<longleftrightarrow>
    (\<exists>d. f (db s) = Inr (d, x) \<and> s' = s\<lparr>db := d\<rparr>)"
  by (auto simp: dbUpdate_def split: sum.splits prod.splits)

lemma dbUpdate_Inl: "dbUpdate s f = (s', Inl e) \<longleftrightarrow> f (db s) = Inl e \<and> s' = s"
  by (auto simp: dbUpdate_def split: sum.splits prod.splits)

lemma fst_dbUpdate: "fst (dbUpdate s f) =
    (case f (db s) of Inl e \<Rightarrow> s | Inr (d, x) \<Rightarrow> s\<lparr>db := d\<rparr>)"
  by (auto simp: dbUpdate_def split: sum.splits prod.splits)

lemma dbUpdate_keys [simp]:
  "encKey (fst (dbUpdate s f)) = encKey s" "idKey (fst (dbUpdate s f)) = idKey s"
  "filesDir (fst (dbUpdate s f)) = filesDir s"
  by (auto simp: dbUpdate_def split: sum.splits prod.splits)

section \<open>Encryption at rest\<close>

definition encryptWith :: "env \<Rightarrow> rnd \<Rightarrow> bytes option \<Rightarrow> bytes \<Rightarrow> bytes result" where
  "encryptWith E r key plaintext = (case key of
     None \<Rightarrow> Inr plaintext
   | Some k \<Rightarrow> if length plaintext = 0 then Inr plaintext else Encrypt E r k plaintext)"

definition encrypt :: "env \<Rightarrow> rnd \<Rightarrow> store \<Rightarrow> bytes \<Rightarrow> bytes result" where
  "encrypt E r s plaintext = encryptWith E r (encKey s) plaintext"

fun try_keys :: "env \<Rightarrow> bytes option list \<Rightarrow> bytes \<Rightarrow> bytes option" where
  "try_keys E [] data = None"
| "try_keys E (None # ks) data = try_keys E ks data"
| "try_keys E (Some k # ks) data =
     (case Decrypt E k data of Inr pt \<Rightarrow> Some pt | Inl _ \<Rightarrow> try_keys E ks data)"

definition decrypt :: "env \<Rightarrow> store \<Rightarrow> bytes \<Rightarrow> bytes result" where
  "decrypt E s data =
     (if \<not> IsEncrypted data then Inr data
      else case try_keys E [encKey s, idKey s] data of
        Some pt \<Rightarrow> Inr pt
      | None \<Rightarrow>
          if encKey s = None \<and> idKey s = None then Inl (Err ''store: encrypted data but no key'')
          else Decrypt E (case encKey s of None \<Rightarrow> [] | Some k \<Rightarrow> k) data)"

definition encryptString :: "env \<Rightarrow> rnd \<Rightarrow> store \<Rightarrow> string \<Rightarrow> string result" where
  "encryptString E r s s2 = (case encKey s of
     None \<Rightarrow> Inr s2
   | Some k \<Rightarrow> if s2 = [] then Inr s2
       else bindR (Encrypt E r k s2) (\<lambda>ct. Inr (base64_EncodeToString ct)))"

definition decryptString :: "env \<Rightarrow> store \<Rightarrow> string \<Rightarrow> string result" where
  "decryptString E s s2 =
     (if s2 = [] then Inr s2
      else if encKey s = None \<and> idKey s = None then Inr s2
      else case base64_DecodeString s2 of
        None \<Rightarrow> Inl (ErrWrap ''store: base64 decode'' ErrCorruptBase64)
      | Some raw \<Rightarrow> if \<not> IsEncrypted raw then Inr s2 else decrypt E s raw)"

text \<open>The keys in memory: 32 bytes, and an identity key only next to a data key.\<close>

definition keys_ok :: "store \<Rightarrow> bool" where
  "keys_ok s \<longleftrightarrow> (\<forall>k. encKey s = Some k \<longrightarrow> length k = 32) \<and> (encKey s = None \<longrightarrow> idKey s = None)"

lemma keys_ok_dbUpdate [simp]: "keys_ok (fst (dbUpdate s f)) = keys_ok s"
  by (simp add: keys_ok_def)

lemma keys_ok_db [simp]: "keys_ok (s\<lparr>db := d\<rparr>) = keys_ok s"
  by (simp add: keys_ok_def)

lemma decrypt_db [simp]: "decrypt E (s\<lparr>db := d\<rparr>) = decrypt E s"
  by (simp add: decrypt_def fun_eq_iff cong: option.case_cong)

lemma decryptString_db [simp]: "decryptString E (s\<lparr>db := d\<rparr>) = decryptString E s"
  by (auto simp: decryptString_def fun_eq_iff split: option.splits)

lemma not_IsEncrypted_Nil [simp]: "\<not> IsEncrypted []"
  using box.tagged_nonempty by blast

lemma decrypt_encrypt:
  assumes "aead_ok E" "nonce_ok r" "encrypt E r s p = Inr c"
    and "encKey s = None \<Longrightarrow> \<not> IsEncrypted p"
  shows "decrypt E s c = Inr p"
proof (cases "encKey s = None \<or> p = []")
  case True
  with assms(3,4) show ?thesis
    by (auto simp: encrypt_def encryptWith_def decrypt_def split: option.splits)
next
  case False
  then obtain k where k: "encKey s = Some k" and "Encrypt E r k p = Inr c"
    using assms(3) by (auto simp: encrypt_def encryptWith_def)
  then have "Decrypt E k c = Inr p" "IsEncrypted c"
    using box.dec_enc [OF assms(1,2)] box.enc_tagged by blast+
  with k show ?thesis by (simp add: decrypt_def)
qed

lemma decryptString_encryptString:
  assumes "aead_ok E" "nonce_ok r" "keys_ok s" "encryptString E r s p = Inr c"
  shows "decryptString E s c = Inr p"
proof (cases "encKey s")
  case None
  with assms(3,4) show ?thesis
    by (auto simp: encryptString_def decryptString_def keys_ok_def)
next
  case (Some k)
  show ?thesis
  proof (cases "p = []")
    case True
    with Some assms(4) show ?thesis by (simp add: encryptString_def decryptString_def)
  next
    case False
    with Some assms(4) obtain ct where ct: "Encrypt E r k p = Inr ct"
      and c: "c = base64_EncodeToString ct"
      by (auto simp: encryptString_def)
    have d: "Decrypt E k ct = Inr p" "IsEncrypted ct"
      using box.dec_enc [OF assms(1,2) ct] box.enc_tagged [OF ct] by simp_all
    moreover have "c \<noteq> []"
      using box.tagged_nonempty [OF d(2)] by (cases ct rule: base64_EncodeToString.cases)
        (simp_all add: c Let_def)
    ultimately show ?thesis
      using Some by (simp add: decryptString_def decrypt_def c)
  qed
qed

lemma encryptString_total:
  "keys_ok s \<Longrightarrow> nonce_ok r \<Longrightarrow> \<exists>c. encryptString E r s p = Inr c"
  using box.enc_total [of _ r E p]
  by (cases "encKey s") (fastforce simp: encryptString_def keys_ok_def)+

definition peerKey :: "env \<Rightarrow> string \<Rightarrow> bytes" where
  "peerKey E name = ToLower E (TrimSpace name)"

section \<open>Opening, identity, settings\<close>

definition PassphraseSet :: "db \<Rightarrow> bool" where
  "PassphraseSet d \<longleftrightarrow> meta_kdf d = Some ''argon2id''"

text \<open>\<open>openStore\<close> creates the missing buckets; a fresh database has them all empty.\<close>

definition empty_db :: db where
  "empty_db = \<lparr>meta_identity = None, meta_settings = None, meta_kdf = None, meta_kdSalt = None,
     bPeers = empty_bucket, bMsgs = empty_bucket, bIdx = empty_bucket, bOutbox = empty_bucket,
     bRooms = empty_bucket, bRoomMsgs = empty_bucket, bRoomIdx = empty_bucket,
     bRoomOutbox = empty_bucket, bRoomSeq = empty_bucket, bFiles = empty_bucket,
     bFileOutbox = empty_bucket\<rparr>"

definition openStore :: "db \<Rightarrow> (string \<Rightarrow> filedir option) \<Rightarrow> bytes option \<Rightarrow> bytes option \<Rightarrow> store" where
  "openStore d fs ek ik = \<lparr>db = d, encKey = ek, idKey = ik, filesDir = fs\<rparr>"

definition Open :: "db \<Rightarrow> (string \<Rightarrow> filedir option) \<Rightarrow> store result" where
  "Open d fs = (if PassphraseSet d then Inl ErrPassphraseRequired else Inr (openStore d fs None None))"

definition OpenWithKey :: "db \<Rightarrow> (string \<Rightarrow> filedir option) \<Rightarrow> bytes \<Rightarrow> store result" where
  "OpenWithKey d fs key =
     (if length key \<noteq> 32 then Inl (Err ''store: encryption key must be 32 bytes'')
      else if PassphraseSet d then Inl ErrPassphraseRequired
      else Inr (openStore d fs (Some key) None))"

definition LoadIdentity :: "env \<Rightarrow> store \<Rightarrow> ident option result" where
  "LoadIdentity E s = (case meta_identity (db s) of
     None \<Rightarrow> Inr None
   | Some v \<Rightarrow> bindR (idRecord_Unmarshal v) (\<lambda>rec.
       bindR (wrap_err ''store: decrypt identity key'' (decrypt E s (id_Priv rec))) (\<lambda>priv.
       Inr (Some \<lparr>i_Name = id_Name rec, i_Key = \<lparr>Private = priv, Public = id_Pub rec\<rparr>\<rparr>))))"

text \<open>\<open>err.Error()\<close>, as far as the package looks into it: a wrapping text comes first.\<close>

fun err_text :: "err \<Rightarrow> string" where
  "err_text (ErrWrap msg e) = msg @ '': '' @ err_text e"
| "err_text (Err msg) = msg"
| "err_text (ErrF fmt _) = fmt"
| "err_text ErrKeyLength = ''chacha20poly1305: bad key length''"
| "err_text _ = []"

definition OpenWithPassphrase ::
    "env \<Rightarrow> db \<Rightarrow> (string \<Rightarrow> filedir option) \<Rightarrow> string \<Rightarrow> store result" where
  "OpenWithPassphrase E d fs passphrase = (let s = openStore d fs None None in
     if meta_kdf d \<noteq> Some ''argon2id'' then Inr s
     else if passphrase = [] then Inl ErrPassphraseRequired
     else
       let salt = (case meta_kdSalt d of None \<Rightarrow> [] | Some x \<Rightarrow> x);
           s1 = s\<lparr>idKey := Some (DeriveKeyFromPassphraseSalt E passphrase salt)\<rparr>
       in case LoadIdentity E s1 of
            Inl e \<Rightarrow> if strings_Contains (ToLower E (err_text e)) ''decrypt''
                    then Inl (Err ''store: wrong database passphrase'') else Inl e
          | Inr None \<Rightarrow> Inr s1
          | Inr (Some ide) \<Rightarrow> Inr (s1\<lparr>encKey := Some (DeriveKeyFromIdentity E (Private (i_Key ide)))\<rparr>))"

definition SaveIdentity :: "env \<Rightarrow> rnd \<Rightarrow> store \<Rightarrow> ident \<Rightarrow> store \<times> unit result" where
  "SaveIdentity E r s ide =
     (case wrap_err ''store: encrypt identity key'' (encryptWith E r (idKey s) (Private (i_Key ide))) of
        Inl e \<Rightarrow> (s, Inl e)
      | Inr priv \<Rightarrow> dbUpdate s (\<lambda>d.
          if meta_identity d \<noteq> None then Inl (Err ''store: identity already exists'')
          else Inr (d\<lparr>meta_identity := Some (idRecord_Marshal \<lparr>id_Name = i_Name ide, id_Priv = priv,
            id_Pub = Public (i_Key ide)\<rparr>)\<rparr>, ())))"

definition RenameIdentity :: "store \<Rightarrow> string \<Rightarrow> store \<times> unit result" where
  "RenameIdentity s name = dbUpdate s (\<lambda>d. case meta_identity d of
     None \<Rightarrow> Inl ErrNotFound
   | Some v \<Rightarrow> bindR (idRecord_Unmarshal v) (\<lambda>rec.
       Inr (d\<lparr>meta_identity := Some (idRecord_Marshal (rec\<lparr>id_Name := name\<rparr>))\<rparr>, ())))"

definition EnablePassphrase :: "env \<Rightarrow> rnd \<Rightarrow> rnd \<Rightarrow> store \<Rightarrow> string \<Rightarrow> store \<times> unit result" where
  "EnablePassphrase E r_salt r_nonce s passphrase =
     (if RuneCountInString passphrase < 12
      then (s, Inl (Err ''store: passphrase must be at least 12 characters''))
      else if PassphraseSet (db s) then (s, Inl (Err ''store: a passphrase is already set''))
      else case wrap_err ''store: enable passphrase'' (LoadIdentity E s) of
        Inl e \<Rightarrow> (s, Inl e)
      | Inr None \<Rightarrow> (s, Inl (Err ''store: no identity to protect''))
      | Inr (Some ide) \<Rightarrow>
        (case DeriveKeyFromPassphrase E r_salt passphrase of
           None \<Rightarrow> (s, Inl (Panic ''crypto: rand''))
         | Some (_, salt) \<Rightarrow>
           let ik = DeriveKeyFromPassphraseSalt E passphrase salt;
               (s1, res) = dbUpdate (s\<lparr>idKey := Some ik\<rparr>) (\<lambda>d.
                 case meta_identity d of
                   None \<Rightarrow> Inl ErrNotFound
                 | Some v \<Rightarrow> bindR (idRecord_Unmarshal v) (\<lambda>rec.
                     bindR (encryptWith E r_nonce (Some ik) (id_Priv rec)) (\<lambda>enc.
                     Inr (d\<lparr>meta_kdf := Some ''argon2id'', meta_kdSalt := Some salt,
                       meta_identity := Some (idRecord_Marshal (rec\<lparr>id_Priv := enc\<rparr>))\<rparr>, ()))))
           in case res of
                Inl e \<Rightarrow> (s1\<lparr>idKey := None\<rparr>, Inl e)
              | Inr _ \<Rightarrow> ((if encKey s1 = None
                  then s1\<lparr>encKey := Some (DeriveKeyFromIdentity E (Private (i_Key ide)))\<rparr> else s1),
                  Inr ())))"

definition DefaultSettings :: settings where
  "DefaultSettings = \<lparr>RetentionDays = 0, Notify = True, Previews = False, Typing = False,
     Receipts = False\<rparr>"

definition Settings :: "store \<Rightarrow> settings result" where
  "Settings s = Inr (case meta_settings (db s) of None \<Rightarrow> DefaultSettings | Some st \<Rightarrow> st)"

definition SaveSettings :: "store \<Rightarrow> settings \<Rightarrow> store \<times> unit result" where
  "SaveSettings s st =
     (if RetentionDays st < 0 \<or> RetentionDays st > 3650 then (s, Inl (Err ''store: retention out of range''))
      else dbUpdate s (\<lambda>d. Inr (d\<lparr>meta_settings := Some st\<rparr>, ())))"

section \<open>The identity record on disk\<close>

text \<open>What is read back is what was written, with the name made valid UTF-8.\<close>

lemma idRecord_reread: "idRecord_Unmarshal (idRecord_Marshal rec) = Inr (rec\<lparr>id_Name := clean_text (id_Name rec)\<rparr>)"
proof -
  have at: "map_of idRecord_fields ''name'' = Some (plain_field dec_string id_Name id_Name_update)"
    "map_of idRecord_fields ''priv'' = Some (bytes_field ''priv'' id_Priv id_Priv_update)"
    "map_of idRecord_fields ''pub'' = Some (bytes_field ''pub'' id_Pub id_Pub_update)"
    by (simp_all add: idRecord_fields_def)
  have "unmarshal_value (idRecord_Marshal rec) = Inr (idRecord_json (rec\<lparr>id_Name := clean_text (id_Name rec)\<rparr>))"
    unfolding idRecord_Marshal_def
    by (subst unmarshal_Marshal_clean) (simp_all add: idRecord_json_def maxNestingDepth_def ValidString_ascii)
  moreover have "\<exists>h. decode_struct False idRecord_fields (idRecord_json r) (\<lparr>id_Name = [], id_Priv = [], id_Pub = []\<rparr>, \<lambda>_. []) = Inr (r, h)" for r
    unfolding idRecord_json_def decode_struct_def json.case
    by (simp add: decode_plain_field [OF at(1) dec_string_JStr] at(2,3) [THEN decode_bytes_field] del: decode_fields.simps(2))
  ultimately show ?thesis unfolding idRecord_Unmarshal_def unmarshal_struct_def by fastforce
qed

lemma idRecord_name_valid:
  assumes "idRecord_Unmarshal v = Inr rec"
  shows "ValidString (id_Name rec)"
proof -
  let ?z = "\<lparr>id_Name = [], id_Priv = [], id_Pub = []\<rparr>" and ?P = "\<lambda>(r, h :: string \<Rightarrow> bytes). ValidString (id_Name r)"
  obtain j h where j: "unmarshal_value v = Inr j" "decode_struct False idRecord_fields j (?z, \<lambda>_. []) = Inr (rec, h)"
    using assms by (auto simp: idRecord_Unmarshal_def unmarshal_struct_def)
  have "?P (rec, h)"
  proof (rule decode_struct_inv [where P = ?P, OF _ j(2) unmarshal_value_jtext [OF j(1)]])
    fix f w and s s' :: "idRecord \<times> (string \<Rightarrow> bytes)"
    assume "f \<in> snd ` set idRecord_fields" and s: "jtext w" "?P s" and f: "f w s = Inr s'"
    then consider "f = plain_field dec_string id_Name id_Name_update" | "f = bytes_field ''priv'' id_Priv id_Priv_update"
      | "f = bytes_field ''pub'' id_Pub id_Pub_update"
      by (auto simp: idRecord_fields_def)
    then show "?P s'"
    proof cases
      case 1
      show ?thesis using f s unfolding 1 plain_field_def
        by (auto elim!: put_field_inv dest: dec_string_valid split: prod.splits)
    qed (use f s in \<open>auto simp: bytes_field_def elim!: put_field_inv split: prod.splits\<close>)
  qed simp
  then show ?thesis by simp
qed

text \<open>The record that a database holds.\<close>

definition stored_identity :: "db \<Rightarrow> idRecord option" where
  "stored_identity d = (case meta_identity d of None \<Rightarrow> None
     | Some v \<Rightarrow> (case idRecord_Unmarshal v of Inl _ \<Rightarrow> None | Inr rec \<Rightarrow> Some rec))"

lemma stored_identity_row:
  assumes "stored_identity d = Some rec"
  obtains v where "meta_identity d = Some v" "idRecord_Unmarshal v = Inr rec" "clean_text (id_Name rec) = id_Name rec"
  using assms clean_text_valid [OF idRecord_name_valid] by (auto simp: stored_identity_def split: option.splits sum.splits)

lemma stored_identity_Marshal:
  "meta_identity d = Some (idRecord_Marshal rec) \<Longrightarrow> stored_identity d = Some (rec\<lparr>id_Name := clean_text (id_Name rec)\<rparr>)"
  by (simp add: stored_identity_def idRecord_reread)

lemma idRecord_text: "\<exists>u w. idRecord_Marshal rec = u @ base64_EncodeToString (id_Priv rec) @ w"
proof -
  have "idRecord_Marshal rec = (''{'' @ appendString ''name'' @ '':'' @ appendString (id_Name rec) @ '','' @ appendString ''priv'' @ CHR '':'' # [QUOTE])
      @ base64_EncodeToString (id_Priv rec) @ QUOTE # '','' @ appendString ''pub'' @ '':'' @ appendString (base64_EncodeToString (id_Pub rec)) @ ''}''"
    by (simp add: idRecord_Marshal_def idRecord_json_def Marshal_def appendString_plain [OF set_base64_ascii(2)])
  then show ?thesis by blast
qed

lemma LoadIdentity_stored:
  assumes "stored_identity (db s) = Some rec"
  shows "LoadIdentity E s = bindR (wrap_err ''store: decrypt identity key'' (decrypt E s (id_Priv rec))) (\<lambda>priv.
     Inr (Some \<lparr>i_Name = id_Name rec, i_Key = \<lparr>Private = priv, Public = id_Pub rec\<rparr>\<rparr>))"
  by (rule stored_identity_row [OF assms]) (simp add: LoadIdentity_def)

end
