(* ===== verification/Store_Peers.thy ===== *)
theory Store_Peers
  imports Store_Core
begin

text \<open>
  Package \<open>internal/store\<close>, part 2: pinned peers and trust on first use (\<open>Observe\<close>,
  \<open>SetVerified\<close>, \<open>AcceptPendingKey\<close>).

  The abstract specification is the three-state trust automaton \<open>tofu_observe\<close>,
  \<open>tofu_verify\<close>, \<open>tofu_accept\<close> on plaintext keys; the encrypted peer rows refine it. The
  locale \<open>tofu\<close> is what the engine may assume of any store that refines the automaton: in it,
  no sequence of observations ever replaces a pinned key.
\<close>

section \<open>Operations\<close>

definition getPeer :: "env \<Rightarrow> db \<Rightarrow> string \<Rightarrow> peer result" where
  "getPeer E d name = (case bGet (bPeers d) (peerKey E name) of
     None \<Rightarrow> Inl ErrNotFound | Some p \<Rightarrow> Inr p)"

definition putPeer :: "env \<Rightarrow> db \<Rightarrow> peer \<Rightarrow> db" where
  "putPeer E d p = d\<lparr>bPeers := bPut (peerKey E (p_Name p)) p (bPeers d)\<rparr>"

definition GetPeer :: "env \<Rightarrow> store \<Rightarrow> string \<Rightarrow> peer result" where
  "GetPeer E s name = bindR (getPeer E (db s) name) (\<lambda>p.
     bindR (wrap_err ''store: decrypt peer key'' (decrypt E s (p_Key p))) (\<lambda>plain.
     Inr (p\<lparr>p_Key := plain\<rparr>)))"

definition ListPeers :: "env \<Rightarrow> store \<Rightarrow> peer list result" where
  "ListPeers E s = mapR (\<lambda>(_, p).
     bindR (wrap_err ''store: decrypt peer key'' (decrypt E s (p_Key p))) (\<lambda>plain.
     case p_PendingKey p of
       Some pk \<Rightarrow> if length pk > 0
         then bindR (wrap_err ''store: decrypt pending key'' (decrypt E s pk)) (\<lambda>pk'.
           Inr (p\<lparr>p_Key := plain, p_PendingKey := Some pk'\<rparr>))
         else Inr (p\<lparr>p_Key := plain\<rparr>)
     | None \<Rightarrow> Inr (p\<lparr>p_Key := plain\<rparr>)))
     (entries (bPeers (db s)))"

definition Observe :: "env \<Rightarrow> rnd \<Rightarrow> store \<Rightarrow> string \<Rightarrow> bytes \<Rightarrow> gotime \<Rightarrow> store \<times> (peer \<times> bool) result" where
  "Observe E r s name key now =
     (case wrap_err ''store: encrypt peer key'' (encrypt E r s key) of
        Inl e \<Rightarrow> (s, Inl e)
      | Inr ek \<Rightarrow> dbUpdate s (\<lambda>d.
          case getPeer E d name of
            Inl e \<Rightarrow>
              if errors_Is e ErrNotFound then
                let p = \<lparr>p_Name = name, p_Key = ek, p_FP = Fingerprint E key, p_FirstSeen = now,
                         p_LastSeen = now, p_Verified = False, p_PendingKey = None,
                         p_PendingAt = time_zero\<rparr>
                in Inr (putPeer E d p, (p, True))
              else Inl e
          | Inr p \<Rightarrow>
              bindR (wrap_err ''store: decrypt peer key'' (decrypt E s (p_Key p))) (\<lambda>storedKey.
                if storedKey = key then
                  let p' = p\<lparr>p_LastSeen := now, p_PendingKey := None, p_PendingAt := time_zero\<rparr>
                  in Inr (putPeer E d p', (p', True))
                else
                  let p' = p\<lparr>p_PendingKey := Some ek, p_PendingAt := now\<rparr>
                  in Inr (putPeer E d p', (p', False)))))"

definition SetVerified :: "env \<Rightarrow> store \<Rightarrow> string \<Rightarrow> bool \<Rightarrow> store \<times> unit result" where
  "SetVerified E s name v = dbUpdate s (\<lambda>d. bindR (getPeer E d name) (\<lambda>p.
     Inr (putPeer E d (p\<lparr>p_Verified := v\<rparr>), ())))"

definition AcceptPendingKey :: "env \<Rightarrow> store \<Rightarrow> string \<Rightarrow> store \<times> unit result" where
  "AcceptPendingKey E s name = dbUpdate s (\<lambda>d. bindR (getPeer E d name) (\<lambda>p.
     case p_PendingKey p of
       None \<Rightarrow> Inl (Err ''store: no pending key'')
     | Some pk \<Rightarrow>
         bindR (wrap_err ''store: decrypt pending key'' (decrypt E s pk)) (\<lambda>plainKey.
         Inr (putPeer E d (p\<lparr>p_Key := pk, p_FP := Fingerprint E plainKey, p_PendingKey := None,
           p_PendingAt := time_zero, p_Verified := False\<rparr>), ()))))"

section \<open>The trust automaton\<close>

text \<open>What is pinned under a name: nothing, or a key, its verified mark and a pending key.\<close>

datatype trust = Unknown | Pinned bytes bool "bytes option"

fun tofu_observe :: "bytes \<Rightarrow> trust \<Rightarrow> trust \<times> bool" where
  "tofu_observe key Unknown = (Pinned key False None, True)"
| "tofu_observe key (Pinned k v pend) =
     (if k = key then (Pinned k v None, True) else (Pinned k v (Some key), False))"

fun tofu_verify :: "bool \<Rightarrow> trust \<Rightarrow> trust" where
  "tofu_verify v Unknown = Unknown"
| "tofu_verify v (Pinned k _ pend) = Pinned k v pend"

fun tofu_accept :: "trust \<Rightarrow> trust" where
  "tofu_accept (Pinned k v (Some k')) = Pinned k' False None"
| "tofu_accept t = t"

fun pinned_key :: "trust \<Rightarrow> bytes option" where
  "pinned_key Unknown = None"
| "pinned_key (Pinned k _ _) = Some k"

lemma tofu_observe_keeps: "pinned_key t = Some k \<Longrightarrow> pinned_key (fst (tofu_observe key t)) = Some k"
  by (cases t) auto

lemma tofu_observe_accepts: "snd (tofu_observe key t) \<Longrightarrow> pinned_key (fst (tofu_observe key t)) = Some key"
  by (cases t) (auto split: if_splits)

lemma tofu_observe_unverified:
  "tofu_observe key t = (Pinned k True pend, b) \<Longrightarrow> \<exists>pend'. t = Pinned k True pend'"
  by (cases t) (auto split: if_splits)

section \<open>The contract of a trust store\<close>

locale tofu =
  fixes observe :: "'s \<Rightarrow> 'n \<Rightarrow> 'o \<Rightarrow> 's \<times> bool"
    and key_of :: "'o \<Rightarrow> bytes"
    and trust :: "'s \<Rightarrow> 'n \<Rightarrow> trust"
    and same :: "'n \<Rightarrow> 'n \<Rightarrow> bool"
    and inv :: "'s \<Rightarrow> bool"
    and good :: "'o \<Rightarrow> bool"
  assumes observe_spec: "\<lbrakk>inv s; good x\<rbrakk> \<Longrightarrow>
      (trust (fst (observe s n x)) n, snd (observe s n x)) = tofu_observe (key_of x) (trust s n)"
    and same_trust: "same m n \<Longrightarrow> trust s m = trust s n"
    and observe_frame: "\<lbrakk>inv s; good x; \<not> same m n\<rbrakk> \<Longrightarrow> trust (fst (observe s n x)) m = trust s m"
    and observe_inv: "\<lbrakk>inv s; good x\<rbrakk> \<Longrightarrow> inv (fst (observe s n x))"
begin

lemma trust_observe: "\<lbrakk>inv s; good x\<rbrakk> \<Longrightarrow> trust (fst (observe s n x)) m =
    (if same m n then fst (tofu_observe (key_of x) (trust s m)) else trust s m)"
  using observe_spec [of s x n] same_trust [of m n] observe_frame [of s x m n]
  by (metis fst_conv)

lemma observe_keeps_pin:
  "\<lbrakk>inv s; good x; pinned_key (trust s m) = Some k\<rbrakk> \<Longrightarrow>
     pinned_key (trust (fst (observe s n x)) m) = Some k"
  by (simp add: trust_observe tofu_observe_keeps)

lemma observations_keep_pin:
  "\<lbrakk>inv s; \<forall>(n, x) \<in> set obs. good x; pinned_key (trust s m) = Some k\<rbrakk> \<Longrightarrow>
     inv (foldl (\<lambda>s (n, x). fst (observe s n x)) s obs)
     \<and> pinned_key (trust (foldl (\<lambda>s (n, x). fst (observe s n x)) s obs) m) = Some k"
proof (induction obs arbitrary: s)
  case Nil
  then show ?case by simp
next
  case (Cons o1 obs)
  then show ?case by (cases o1) (simp add: observe_inv observe_keeps_pin)
qed

text \<open>An observation is accepted exactly when the pin afterwards is the key presented.\<close>

lemma observe_accepts_iff:
  "\<lbrakk>inv s; good x\<rbrakk> \<Longrightarrow>
     snd (observe s n x) \<longleftrightarrow> pinned_key (trust (fst (observe s n x)) n) = Some (key_of x)"
  using observe_spec [of s x n] by (cases "trust s n") (auto split: if_splits)

end

section \<open>Refinement\<close>

definition plain :: "env \<Rightarrow> store \<Rightarrow> bytes \<Rightarrow> bytes" where
  "plain E s c = (case decrypt E s c of Inr p \<Rightarrow> p | Inl _ \<Rightarrow> [])"

definition peer_trust :: "env \<Rightarrow> store \<Rightarrow> peer \<Rightarrow> trust" where
  "peer_trust E s p =
     Pinned (plain E s (p_Key p)) (p_Verified p) (map_option (plain E s) (p_PendingKey p))"

definition trust_of :: "env \<Rightarrow> store \<Rightarrow> string \<Rightarrow> trust" where
  "trust_of E s name = (case bGet (bPeers (db s)) (peerKey E name) of
     None \<Rightarrow> Unknown | Some p \<Rightarrow> peer_trust E s p)"

text \<open>A well-formed row decrypts, and its fingerprint is that of its key.\<close>

definition peer_ok :: "env \<Rightarrow> store \<Rightarrow> peer \<Rightarrow> bool" where
  "peer_ok E s p \<longleftrightarrow>
     (\<exists>key. decrypt E s (p_Key p) = Inr key \<and> p_FP p = Fingerprint E key)
     \<and> (\<forall>pk. p_PendingKey p = Some pk \<longrightarrow> (\<exists>key. decrypt E s pk = Inr key))"

definition peers_inv :: "env \<Rightarrow> store \<Rightarrow> bool" where
  "peers_inv E s \<longleftrightarrow> wf_bucket (bPeers (db s)) \<and>
     (\<forall>k p. bGet (bPeers (db s)) k = Some p \<longrightarrow> k = peerKey E (p_Name p) \<and> peer_ok E s p)"

lemma plain_db [simp]: "plain E (s\<lparr>db := d\<rparr>) = plain E s"
  by (simp add: plain_def fun_eq_iff)

lemma peer_ok_db [simp]: "peer_ok E (s\<lparr>db := d\<rparr>) = peer_ok E s"
  by (simp add: peer_ok_def fun_eq_iff)

lemma peer_trust_db [simp]: "peer_trust E (s\<lparr>db := d\<rparr>) = peer_trust E s"
  by (simp add: peer_trust_def fun_eq_iff)

lemma peers_inv_empty: "db s = empty_db \<Longrightarrow> peers_inv E s"
  by (simp add: peers_inv_def empty_db_def)

text \<open>Every operation ends in one \<open>putPeer\<close>: what that does to the invariant and the automaton.\<close>

lemma peers_inv_put:
  "\<lbrakk>peers_inv E s; peer_ok E s p\<rbrakk> \<Longrightarrow> peers_inv E (s\<lparr>db := putPeer E (db s) p\<rparr>)"
  by (auto simp: peers_inv_def putPeer_def)

lemma trust_of_put:
  "trust_of E (s\<lparr>db := putPeer E (db s) p\<rparr>) m =
     (if peerKey E m = peerKey E (p_Name p) then peer_trust E s p else trust_of E s m)"
  by (auto simp: trust_of_def putPeer_def split: option.split)

lemma getPeer_cases [consumes 1, case_names none some]:
  assumes "peers_inv E s"
  obtains "getPeer E (db s) name = Inl ErrNotFound" "trust_of E s name = Unknown"
  | p where "getPeer E (db s) name = Inr p" "trust_of E s name = peer_trust E s p"
      "peerKey E (p_Name p) = peerKey E name" "peer_ok E s p"
  using assms by (cases "bGet (bPeers (db s)) (peerKey E name)")
    (auto simp: getPeer_def trust_of_def peers_inv_def)

definition key_good :: "store \<Rightarrow> bytes \<Rightarrow> bool" where
  "key_good s key \<longleftrightarrow> (encKey s = None \<longrightarrow> \<not> IsEncrypted key)"

lemma encrypt_total: "\<lbrakk>keys_ok s; nonce_ok r\<rbrakk> \<Longrightarrow> \<exists>c. encrypt E r s p = Inr c"
  using box.enc_total [of _ r E p]
  by (cases "encKey s") (auto simp: encrypt_def encryptWith_def keys_ok_def)

text \<open>One observation is the \<open>putPeer\<close> of a well-formed row whose trust is the automaton's.\<close>

lemma Observe_put:
  assumes "peers_inv E s" "aead_ok E" "nonce_ok r" "keys_ok s" "key_good s key"
  obtains p b where "Observe E r s name key now = (s\<lparr>db := putPeer E (db s) p\<rparr>, Inr (p, b))"
    "peer_ok E s p" "peerKey E (p_Name p) = peerKey E name"
    "tofu_observe key (trust_of E s name) = (peer_trust E s p, b)"
proof -
  obtain ek where ek: "encrypt E r s key = Inr ek"
    using encrypt_total [OF assms(4,3)] by blast
  have dk: "decrypt E s ek = Inr key"
    using decrypt_encrypt [OF assms(2,3) ek] assms(5) by (simp add: key_good_def)
  from assms(1) show thesis
  proof (cases rule: getPeer_cases [where name = name])
    case none
    let ?p = "\<lparr>p_Name = name, p_Key = ek, p_FP = Fingerprint E key, p_FirstSeen = now,
      p_LastSeen = now, p_Verified = False, p_PendingKey = None, p_PendingAt = time_zero\<rparr>"
    show ?thesis
      by (rule that [of ?p True])
        (simp_all add: none dk Observe_def Let_def wrap_err_def ek dbUpdate_def peer_ok_def peer_trust_def
          plain_def)
  next
    case (some p)
    then obtain k0 where k0: "decrypt E s (p_Key p) = Inr k0" by (auto simp: peer_ok_def)
    let ?p = "if k0 = key then p\<lparr>p_LastSeen := now, p_PendingKey := None, p_PendingAt := time_zero\<rparr>
      else p\<lparr>p_PendingKey := Some ek, p_PendingAt := now\<rparr>"
    show ?thesis
      by (rule that [of ?p "k0 = key"])
        (use some in \<open>simp_all add: dk k0 Observe_def Let_def wrap_err_def ek dbUpdate_def peer_ok_def
          peer_trust_def plain_def\<close>)
  qed
qed

text \<open>
  The instance: an observation is a nonce, the key presented and the time; names are the same
  when they have the same peer key.
\<close>

definition observe_step :: "env \<Rightarrow> store \<Rightarrow> string \<Rightarrow> rnd \<times> bytes \<times> gotime \<Rightarrow> store \<times> bool" where
  "observe_step E s name x = (case x of (r, key, now) \<Rightarrow> case Observe E r s name key now of
     (s', Inr (_, b)) \<Rightarrow> (s', b) | (s', Inl _) \<Rightarrow> (s', False))"

definition observation_ok :: "rnd \<times> bytes \<times> gotime \<Rightarrow> bool" where
  "observation_ok x \<longleftrightarrow> nonce_ok (fst x) \<and> \<not> IsEncrypted (fst (snd x))"

definition trust_inv :: "env \<Rightarrow> store \<Rightarrow> bool" where
  "trust_inv E s \<longleftrightarrow> aead_ok E \<and> keys_ok s \<and> peers_inv E s"

lemma observe_step_put:
  assumes "trust_inv E s" "observation_ok x"
  obtains p b where "observe_step E s name x = (s\<lparr>db := putPeer E (db s) p\<rparr>, b)"
    "peer_ok E s p" "peerKey E (p_Name p) = peerKey E name"
    "tofu_observe (fst (snd x)) (trust_of E s name) = (peer_trust E s p, b)"
proof -
  obtain r key now where x: "x = (r, key, now)" by (cases x)
  have "peers_inv E s" "aead_ok E" "nonce_ok r" "keys_ok s" "key_good s key"
    using assms by (simp_all add: trust_inv_def observation_ok_def x key_good_def)
  then obtain p b where "Observe E r s name key now = (s\<lparr>db := putPeer E (db s) p\<rparr>, Inr (p, b))"
    "peer_ok E s p" "peerKey E (p_Name p) = peerKey E name"
    "tofu_observe key (trust_of E s name) = (peer_trust E s p, b)"
    by (rule Observe_put)
  then show thesis using that by (simp add: observe_step_def x)
qed

interpretation pins: tofu "observe_step E" "\<lambda>x. fst (snd x)" "trust_of E"
    "\<lambda>m n. peerKey E m = peerKey E n" "trust_inv E" observation_ok for E
proof
  fix s x n m
  show "peerKey E m = peerKey E n \<Longrightarrow> trust_of E s m = trust_of E s n"
    by (simp add: trust_of_def)
  assume a: "trust_inv E s" "observation_ok x"
  then obtain p b where p: "observe_step E s n x = (s\<lparr>db := putPeer E (db s) p\<rparr>, b)"
    "peer_ok E s p" "peerKey E (p_Name p) = peerKey E n"
    "tofu_observe (fst (snd x)) (trust_of E s n) = (peer_trust E s p, b)"
    by (rule observe_step_put)
  show "(trust_of E (fst (observe_step E s n x)) n, snd (observe_step E s n x)) =
      tofu_observe (fst (snd x)) (trust_of E s n)"
    using p by (simp add: trust_of_put)
  show "trust_inv E (fst (observe_step E s n x))"
    using a p by (simp add: trust_inv_def peers_inv_put)
  show "peerKey E m \<noteq> peerKey E n \<Longrightarrow> trust_of E (fst (observe_step E s n x)) m = trust_of E s m"
    using p by (simp add: trust_of_put)
qed

section \<open>The user's decisions\<close>

lemma SetVerified_refines:
  assumes "peers_inv E s"
  shows "trust_of E (fst (SetVerified E s name v)) name = tofu_verify v (trust_of E s name)"
    and "peers_inv E (fst (SetVerified E s name v))"
  using assms
  by (cases rule: getPeer_cases [where name = name];
      auto simp: SetVerified_def dbUpdate_def trust_of_put peer_trust_def
        intro!: peers_inv_put; simp add: peer_ok_def)+

lemma AcceptPendingKey_refines:
  assumes "peers_inv E s"
  shows "trust_of E (fst (AcceptPendingKey E s name)) name = tofu_accept (trust_of E s name)"
    and "peers_inv E (fst (AcceptPendingKey E s name))"
proof -
  have "trust_of E (fst (AcceptPendingKey E s name)) name = tofu_accept (trust_of E s name)
    \<and> peers_inv E (fst (AcceptPendingKey E s name))"
    using assms
  proof (cases rule: getPeer_cases [where name = name])
    case none
    then show ?thesis using assms by (simp add: AcceptPendingKey_def dbUpdate_def)
  next
    case (some p)
    show ?thesis
    proof (cases "p_PendingKey p")
      case None
      with some assms show ?thesis by (simp add: AcceptPendingKey_def dbUpdate_def peer_trust_def)
    next
      case (Some pk)
      with some obtain k where k: "decrypt E s pk = Inr k" by (auto simp: peer_ok_def)
      have "peer_ok E s (p\<lparr>p_Key := pk, p_FP := Fingerprint E k, p_PendingKey := None,
           p_PendingAt := time_zero, p_Verified := False\<rparr>)"
        using k by (simp add: peer_ok_def)
      with some Some k assms show ?thesis
        by (simp add: AcceptPendingKey_def dbUpdate_def wrap_err_def trust_of_put peers_inv_put
            peer_trust_def)
    qed
  qed
  then show "trust_of E (fst (AcceptPendingKey E s name)) name = tofu_accept (trust_of E s name)"
    and "peers_inv E (fst (AcceptPendingKey E s name))" by blast+
qed

section \<open>Properties\<close>

text \<open>
  C3. Pins are permanent under observation: once a key is pinned for a name, no sequence of
  observations of any names and keys, in any order, replaces it; the attacker can only leave a
  pending key. The store keeps its invariant throughout.
\<close>

theorem observations_never_repin:
  assumes "trust_inv E s" "\<forall>(n, x) \<in> set obs. observation_ok x"
    and "pinned_key (trust_of E s name) = Some k"
  shows "pinned_key (trust_of E (foldl (\<lambda>s (n, x). fst (observe_step E s n x)) s obs) name) = Some k
    \<and> trust_inv E (foldl (\<lambda>s (n, x). fst (observe_step E s n x)) s obs)"
  using pins.observations_keep_pin [OF assms] by blast

definition sample_store :: store where
  "sample_store = \<lparr>db = empty_db, encKey = Some (replicate 32 CHR ''k''), idKey = None,
     filesDir = Map.empty\<rparr>"

lemma sample_store_ok: "trust_inv sample_env sample_store" "keys_ok sample_store"
  by (simp_all add: trust_inv_def sample_store_def keys_ok_def peers_inv_empty)

definition sample_nonce :: rnd where "sample_nonce = Some (replicate 12 CHR ''n'')"

lemma sample_nonce_ok [simp]: "nonce_ok sample_nonce"
  by (simp add: nonce_ok_def sample_nonce_def nonceLen_def)

lemma sample_observation: "\<not> IsEncrypted key \<Longrightarrow> observation_ok (sample_nonce, key, now)"
  by (simp add: observation_ok_def)

theorem observations_never_repin_witness:
  "pinned_key (trust_of sample_env
     (foldl (\<lambda>s (n, x). fst (observe_step sample_env s n x))
       (fst (observe_step sample_env sample_store ''Ann'' (sample_nonce, ''key-A'', 1)))
       [(''ann'', sample_nonce, ''key-B'', 2), (''Bob'', sample_nonce, ''key-C'', 3)]) ''Ann'')
   = Some ''key-A''"
proof -
  have e: "\<not> IsEncrypted ''key-A''" "\<not> IsEncrypted ''key-B''" "\<not> IsEncrypted ''key-C''"
    by (simp_all add: IsEncrypted_def magic_def)
  note o1 = sample_observation [OF e(1), of 1]
  have "trust_of sample_env sample_store ''Ann'' = Unknown"
    by (simp add: trust_of_def sample_store_def empty_db_def)
  then have p: "pinned_key (trust_of sample_env
      (fst (observe_step sample_env sample_store ''Ann'' (sample_nonce, ''key-A'', 1))) ''Ann'')
      = Some ''key-A''"
    using pins.trust_observe [OF sample_store_ok(1) o1] by simp
  show ?thesis
    by (rule observations_never_repin [THEN conjunct1,
          OF pins.observe_inv [OF sample_store_ok(1) o1] _ p])
      (simp add: sample_observation e)
qed

end
