(* ===== verification/Indexed_Log.thy ===== *)
theory Indexed_Log
  imports Bolt
begin

text \<open>
  The layout the store uses twice, for one-to-one messages and for room messages: a bucket of
  rows under keys that end in the row's sequence number, and a second bucket that maps a row's
  id to its key. The locale \<open>indexed_log\<close> states what ties the two together and proves, once,
  what appending, changing and removing rows do to it.
\<close>

lemma word_less_inc: "w < - 1 \<Longrightarrow> w < w + 1" for w :: "64 word"
  by (metis inc_less_eq_self_iff_eq linorder_not_le order_less_irrefl)

locale indexed_log =
  fixes idf :: "'v \<Rightarrow> string"
    and seqf :: "'v \<Rightarrow> 64 word"
    and keyf :: "'v \<Rightarrow> bytes"
  assumes keyf_seq: "keyf a = keyf b \<Longrightarrow> seqf a = seqf b"
begin

definition log_inv :: "'v bucket \<Rightarrow> bytes bucket \<Rightarrow> bool" where
  "log_inv rows ix \<longleftrightarrow> wf_bucket rows \<and> wf_bucket ix
     \<and> (\<forall>k v. bGet rows k = Some v \<longrightarrow> k = keyf v \<and> seqf v \<le> bseq rows \<and> bGet ix (idf v) = Some k)
     \<and> (\<forall>i k. bGet ix i = Some k \<longrightarrow> (\<exists>v. bGet rows k = Some v \<and> idf v = i))
     \<and> (\<forall>k k' v v'. bGet rows k = Some v \<longrightarrow> bGet rows k' = Some v' \<longrightarrow> seqf v = seqf v' \<longrightarrow> k = k')"

definition lookup :: "'v bucket \<Rightarrow> bytes bucket \<Rightarrow> string \<Rightarrow> 'v option" where
  "lookup rows ix i = (case bGet ix i of None \<Rightarrow> None | Some k \<Rightarrow> bGet rows k)"

lemma log_invI:
  assumes "wf_bucket rows" "wf_bucket ix"
    and "\<And>k v. bGet rows k = Some v \<Longrightarrow> k = keyf v \<and> seqf v \<le> bseq rows \<and> bGet ix (idf v) = Some k"
    and "\<And>i k. bGet ix i = Some k \<Longrightarrow> \<exists>v. bGet rows k = Some v \<and> idf v = i"
    and "\<And>k k' v v'. \<lbrakk>bGet rows k = Some v; bGet rows k' = Some v'; seqf v = seqf v'\<rbrakk> \<Longrightarrow> k = k'"
  shows "log_inv rows ix"
  unfolding log_inv_def using assms by blast

lemma log_inv_empty: "log_inv empty_bucket empty_bucket"
  by (simp add: log_inv_def)

lemma lookup_empty: "lookup empty_bucket empty_bucket i = None"
  by (simp add: lookup_def)

lemma rows:
  assumes "log_inv rows ix" "bGet rows k = Some v"
  shows "k = keyf v" "seqf v \<le> bseq rows" "bGet ix (idf v) = Some k"
  using assms unfolding log_inv_def by blast+

lemma index: "\<lbrakk>log_inv rows ix; bGet ix i = Some k\<rbrakk> \<Longrightarrow> \<exists>v. bGet rows k = Some v \<and> idf v = i"
  unfolding log_inv_def by blast

lemma seqs: "\<lbrakk>log_inv rows ix; bGet rows k = Some v; bGet rows k' = Some v'; seqf v = seqf v'\<rbrakk> \<Longrightarrow> k = k'"
  unfolding log_inv_def by blast

lemma wf: "log_inv rows ix \<Longrightarrow> wf_bucket rows \<and> wf_bucket ix"
  by (simp add: log_inv_def)

lemma lookup_None: "log_inv rows ix \<Longrightarrow> lookup rows ix i = None \<longleftrightarrow> bGet ix i = None"
  using index by (fastforce simp: lookup_def split: option.splits)

lemma lookup_Some: "log_inv rows ix \<Longrightarrow>
    lookup rows ix i = Some v \<longleftrightarrow> idf v = i \<and> bGet rows (keyf v) = Some v"
proof
  assume inv: "log_inv rows ix" and "lookup rows ix i = Some v"
  then obtain k where k: "bGet ix i = Some k" "bGet rows k = Some v"
    by (auto simp: lookup_def split: option.splits)
  then show "idf v = i \<and> bGet rows (keyf v) = Some v"
    using index [OF inv k(1)] rows(1) [OF inv k(2)] by auto
next
  assume inv: "log_inv rows ix" and "idf v = i \<and> bGet rows (keyf v) = Some v"
  then show "lookup rows ix i = Some v" using rows(3) [OF inv] by (auto simp: lookup_def)
qed

lemma lookup_index:
  assumes "log_inv rows ix" "lookup rows ix i = Some v"
  shows "bGet ix i = Some (keyf v)" "bGet rows (keyf v) = Some v" "idf v = i"
  using assms(2) rows(3) [OF assms(1)] unfolding lookup_Some [OF assms(1)] by auto

lemma entries_iff:
  assumes "log_inv rows ix"
  shows "(k, v) \<in> set (entries rows) \<longleftrightarrow> k = keyf v \<and> lookup rows ix (idf v) = Some v"
  using wf [OF assms] bolt.items_iff [of rows k v] rows(1) [OF assms, of k v] lookup_Some [OF assms]
  by auto

lemma entries_lookup:
  "\<lbrakk>log_inv rows ix; e \<in> set (entries rows)\<rbrakk> \<Longrightarrow> lookup rows ix (idf (snd e)) = Some (snd e)"
  using entries_iff [of rows ix "fst e" "snd e"] by simp

text \<open>Appending a row under a fresh id and the next sequence number.\<close>

lemma log_insert:
  assumes inv: "log_inv rows ix" and new: "bGet ix (idf v) = None"
    and seq: "bseq rows < - 1" "seqf v = bseq rows + 1"
    and rows': "rows' = bPut (keyf v) v (rows\<lparr>bseq := bseq rows + 1\<rparr>)"
    and ix': "ix' = bPut (idf v) (keyf v) ix"
  shows "log_inv rows' ix'" "lookup rows' ix' = (lookup rows ix)(idf v \<mapsto> v)"
proof -
  have lt: "bseq rows < seqf v" using seq by (simp add: word_less_inc)
  have fresh: "bGet rows k \<noteq> Some w" if "seqf w = seqf v" for k w
    using rows(2) [OF inv, of k w] that lt by (auto simp: not_le)
  have kn: "bGet rows (keyf v) = None"
    using fresh rows(1) [OF inv] keyf_seq by (metis not_None_eq)
  have ik: "bGet ix j \<noteq> Some (keyf v)" for j using index [OF inv, of j "keyf v"] kn by auto
  show "lookup rows' ix' = (lookup rows ix)(idf v \<mapsto> v)"
    using ik by (auto simp: fun_eq_iff lookup_def rows' ix' split: option.splits)
  have row: "k = keyf w \<and> seqf w \<le> bseq rows' \<and> bGet ix' (idf w) = Some k" if "bGet rows' k = Some w" for k w
  proof -
    have "k = keyf v \<and> w = v \<or> bGet rows k = Some w" using that by (simp add: rows' split: if_splits)
    then consider "k = keyf v" "w = v" | "bGet rows k = Some w" by blast
    then show ?thesis
    proof cases
      case 1
      then show ?thesis by (simp add: rows' ix' seq(2))
    next
      case 2
      from rows [OF inv 2] lt new show ?thesis by (auto simp: rows' ix' seq(2))
    qed
  qed
  have sq: "k1 = k2" if a: "bGet rows' k1 = Some v1" "bGet rows' k2 = Some v2" "seqf v1 = seqf v2" for k1 k2 v1 v2
  proof -
    have "k1 = keyf v \<and> v1 = v \<or> bGet rows k1 = Some v1" "k2 = keyf v \<and> v2 = v \<or> bGet rows k2 = Some v2"
      using a(1,2) by (simp_all add: rows' split: if_splits)
    then show ?thesis using a(3) fresh [of v1 k1] fresh [of v2 k2] seqs [OF inv, of k1 v1 k2 v2] by metis
  qed
  have ixs: "\<exists>w. bGet rows' k = Some w \<and> idf w = i" if "bGet ix' i = Some k" for i k
    using that index [OF inv, of i k] ik [of i] by (auto simp: rows' ix' split: if_splits)
  show "log_inv rows' ix'"
  proof (rule log_invI)
    show "wf_bucket rows'" "wf_bucket ix'" using wf [OF inv] by (simp_all add: rows' ix')
  qed (erule row, erule ixs, erule (2) sq)
qed

text \<open>Changing a row in place.\<close>

lemma log_modify:
  assumes inv: "log_inv rows ix" and v: "lookup rows ix i = Some v"
    and same: "idf v' = idf v" "keyf v' = keyf v"
  shows "log_inv (bPut (keyf v) v' rows) ix" "lookup (bPut (keyf v) v' rows) ix = (lookup rows ix)(i \<mapsto> v')"
proof -
  note l = lookup_index [OF inv v]
  have uniq: "bGet ix j \<noteq> Some (keyf v)" if "j \<noteq> i" for j
    using index [OF inv, of j "keyf v"] l that by auto
  have sq: "seqf v' = seqf v" by (rule keyf_seq [OF same(2)])
  have "lookup (bPut (keyf v) v' rows) ix j = ((lookup rows ix)(i \<mapsto> v')) j" for j
    using l(1) uniq [of j] by (cases "j = i"; cases "bGet ix j") (simp_all add: lookup_def)
  then show "lookup (bPut (keyf v) v' rows) ix = (lookup rows ix)(i \<mapsto> v')" ..
  have old: "k = keyf v \<and> w = v' \<or> bGet rows k = Some w" if "bGet (bPut (keyf v) v' rows) k = Some w" for k w
    using that by (simp split: if_splits)
  have row: "k = keyf w \<and> seqf w \<le> bseq (bPut (keyf v) v' rows) \<and> bGet ix (idf w) = Some k"
    if "bGet (bPut (keyf v) v' rows) k = Some w" for k w
  proof -
    from old [OF that] consider "k = keyf v" "w = v'" | "bGet rows k = Some w" by blast
    then show ?thesis
    proof cases
      case 1
      with rows(2) [OF inv l(2)] l sq show ?thesis by (simp add: same)
    next
      case 2
      from rows [OF inv 2] show ?thesis by simp
    qed
  qed
  have ixs: "\<exists>w. bGet (bPut (keyf v) v' rows) k = Some w \<and> idf w = j" if "bGet ix j = Some k" for j k
    using index [OF inv that] l same by (cases "k = keyf v") auto
  have sqs: "k = k'" if a: "bGet (bPut (keyf v) v' rows) k = Some w" "bGet (bPut (keyf v) v' rows) k' = Some w'"
    "seqf w = seqf w'" for k k' w w'
  proof -
    have "\<exists>u. bGet rows k = Some u \<and> seqf u = seqf w" "\<exists>u. bGet rows k' = Some u \<and> seqf u = seqf w'"
      using old [OF a(1)] old [OF a(2)] l(2) sq by auto
    with a(3) show ?thesis using seqs [OF inv] by metis
  qed
  show "log_inv (bPut (keyf v) v' rows) ix"
  proof (rule log_invI)
    show "wf_bucket (bPut (keyf v) v' rows)" "wf_bucket ix" using wf [OF inv] by simp_all
  qed (erule row, erule ixs, erule (2) sqs)
qed

text \<open>Removing the rows whose ids are in a set.\<close>

lemma log_remove:
  assumes inv: "log_inv rows ix"
    and rows': "\<And>k. bGet rows' k = (case bGet rows k of None \<Rightarrow> None | Some v \<Rightarrow> if idf v \<in> S then None else Some v)"
    and ix': "\<And>i. bGet ix' i = (if i \<in> S then None else bGet ix i)"
    and wf': "wf_bucket rows'" "wf_bucket ix'" "bseq rows' = bseq rows"
  shows "log_inv rows' ix'" "lookup rows' ix' = lookup rows ix |` (- S)"
proof -
  show "lookup rows' ix' = lookup rows ix |` (- S)"
  proof
    fix i
    show "lookup rows' ix' i = (lookup rows ix |` (- S)) i"
      using index [OF inv, of i] by (auto simp: lookup_def rows' ix' restrict_map_def split: option.splits)
  qed
  have old: "bGet rows k = Some v \<and> idf v \<notin> S" if "bGet rows' k = Some v" for k v
    using that by (auto simp: rows' split: option.splits if_splits)
  have ixs: "\<exists>v. bGet rows' k = Some v \<and> idf v = i" if "bGet ix' i = Some k" for i k
    using that index [OF inv, of i k] by (auto simp: rows' ix' split: if_splits)
  have row: "k = keyf v \<and> seqf v \<le> bseq rows' \<and> bGet ix' (idf v) = Some k" if "bGet rows' k = Some v" for k v
    using old [OF that] rows [OF inv, of k v] by (simp add: ix' wf')
  have sqs: "k = k'" if "bGet rows' k = Some v" "bGet rows' k' = Some v'" "seqf v = seqf v'" for k k' v v'
    using old [OF that(1)] old [OF that(2)] seqs [OF inv _ _ that(3)] by blast
  show "log_inv rows' ix'" by (rule log_invI [OF wf'(1,2)]) (erule row, erule ixs, erule (2) sqs)
qed

end

section \<open>Rows grouped by a key prefix\<close>

lemma PutUint64_max: "replicate 8 (CHR 0xFF) = PutUint64 (- 1)"
proof -
  have "replicate 8 (CHR 0xFF) = [CHR 0xFF, CHR 0xFF, CHR 0xFF, CHR 0xFF, CHR 0xFF, CHR 0xFF, CHR 0xFF, CHR 0xFF]"
    by (simp add: numeral_eq_Suc)
  then have "be_nat (replicate 8 (CHR 0xFF)) = 2 ^ 64 - 1" by (simp add: be_nat_def)
  moreover have "unat (- 1 :: 64 word) = 2 ^ 64 - 1"
    by (simp add: unsigned_minus_1_eq_mask mask_eq_exp_minus_1)
  ultimately show ?thesis
    using be_bytes_be_nat [of "replicate 8 (CHR 0xFF)"] by (simp add: PutUint64_def)
qed

lemma nul_prefix:
  "\<lbrakk>CHR 0x00 \<notin> set a; CHR 0x00 \<notin> set b\<rbrakk> \<Longrightarrow> prefix (a @ [CHR 0x00]) (b @ [CHR 0x00] @ c) \<longleftrightarrow> a = b"
proof (induction a arbitrary: b)
  case Nil
  then show ?case by (cases b) auto
next
  case (Cons x a)
  then show ?case by (cases b) auto
qed

text \<open>
  The key of a row is its group, a NUL byte and the sequence number, so the rows of a group are
  adjacent and in sequence order.
\<close>

definition seq_key :: "bytes \<Rightarrow> 64 word \<Rightarrow> bytes" where
  "seq_key g n = g @ [CHR 0x00] @ PutUint64 n"

lemma seq_key_inject: "seq_key g v = seq_key h w \<longleftrightarrow> g = h \<and> v = w"
  by (simp add: seq_key_def append_eq_append_conv)

locale grouped_log =
  fixes idf :: "'v \<Rightarrow> string"
    and seqf :: "'v \<Rightarrow> 64 word"
    and group :: "'v \<Rightarrow> bytes"

sublocale grouped_log \<subseteq> indexed_log idf seqf "\<lambda>v. seq_key (group v) (seqf v)"
  by unfold_locales (simp add: seq_key_inject)

context grouped_log
begin

definition members :: "'v bucket \<Rightarrow> bytes \<Rightarrow> 'v list" where
  "members rows g = map snd (filter (\<lambda>e. group (snd e) = g) (entries rows))"

lemma set_members:
  assumes "log_inv rows ix"
  shows "set (members rows g) = {v. group v = g \<and> lookup rows ix (idf v) = Some v}"
proof (rule set_eqI)
  fix v
  show "v \<in> set (members rows g) \<longleftrightarrow> v \<in> {v. group v = g \<and> lookup rows ix (idf v) = Some v}"
    unfolding members_def set_map set_filter image_iff Bex_def mem_Collect_eq split_paired_Ex
    by (simp add: entries_iff [OF assms] conj_commute)
qed

lemma sorted_members:
  assumes "log_inv rows ix"
  shows "sorted_wrt (<) (map seqf (members rows g))"
proof -
  let ?es = "filter (\<lambda>e. group (snd e) = g) (entries rows)"
  have "sorted_wrt (\<lambda>e f. fst e < fst f) ?es"
    using bolt.items_sorted [of rows] wf [OF assms] by (simp add: sorted_wrt_map sorted_wrt_filter)
  then have "sorted_wrt (\<lambda>e f. seqf (snd e) < seqf (snd f)) ?es"
    by (rule sorted_wrt_mono_rel [rotated]) (auto simp: entries_iff [OF assms] seq_key_def)
  then show ?thesis by (simp add: members_def sorted_wrt_map)
qed

text \<open>
  The cursor walk of \<open>Messages\<close> and \<open>RoomMessages\<close>, from the end of the group's key range
  backwards, visits exactly the group's rows, newest first.
\<close>

lemma scan_group:
  assumes inv: "log_inv rows ix" and seq: "bseq rows < - 1" and g: "CHR 0x00 \<notin> set g"
    and nf: "\<And>v. lookup rows ix (idf v) = Some v \<Longrightarrow> CHR 0x00 \<notin> set (group v)"
  shows "scan_back (g @ [CHR 0x00]) ((g @ [CHR 0x00]) @ replicate 8 (CHR 0xFF)) (entries rows)
    = rev (filter (\<lambda>e. group (snd e) = g) (entries rows))"
proof -
  let ?p = "g @ [CHR 0x00]"
  have "(prefix ?p (fst e) \<and> fst e < ?p @ PutUint64 (- 1)) \<longleftrightarrow> group (snd e) = g"
    if e: "e \<in> set (entries rows)" for e
  proof -
    obtain k v where kv: "e = (k, v)" by (cases e)
    have k: "k = seq_key (group v) (seqf v)" and l: "lookup rows ix (idf v) = Some v"
      using entries_iff [OF inv, of k v] e kv by simp_all
    have "prefix ?p k \<longleftrightarrow> group v = g"
      using nul_prefix [OF g nf [OF l], of "PutUint64 (seqf v)"] by (auto simp: k seq_key_def)
    moreover have "seqf v < - 1"
      using rows(2) [OF inv lookup_index(2) [OF inv l]] seq by (rule le_less_trans)
    ultimately show ?thesis by (auto simp: kv k seq_key_def)
  qed
  then have "filter (\<lambda>e. prefix ?p (fst e) \<and> fst e < ?p @ PutUint64 (- 1)) (entries rows)
    = filter (\<lambda>e. group (snd e) = g) (entries rows)" by (rule filter_cong [OF refl])
  then show ?thesis
    using wf [OF inv] unfolding PutUint64_max by (subst scan_back_eq) (simp_all add: bolt.items_sorted)
qed

text \<open>Taking at most \<open>n\<close> rows of the walk, decoding each and reversing gives the newest \<open>n\<close>.\<close>

lemma window:
  assumes inv: "log_inv rows ix" and seq: "bseq rows < - 1" and g: "CHR 0x00 \<notin> set g"
    and nf: "\<And>v. lookup rows ix (idf v) = Some v \<Longrightarrow> CHR 0x00 \<notin> set (group v)"
    and dec: "\<And>v. lookup rows ix (idf v) = Some v \<Longrightarrow> f v = Inr (h v)"
  shows "bindR (mapR (\<lambda>(k, v). f v) (take n (scan_back (g @ [CHR 0x00])
      ((g @ [CHR 0x00]) @ replicate 8 (CHR 0xFF)) (entries rows)))) (\<lambda>out. Inr (slice_reverse out))
    = Inr (drop (length (members rows g) - n) (map h (members rows g)))"
proof -
  let ?es = "rev (filter (\<lambda>e. group (snd e) = g) (entries rows))"
  have "mapR (\<lambda>(k, v). f v) (take n ?es) = Inr (map (\<lambda>e. h (snd e)) (take n ?es))"
  proof (rule mapR_all_Inr, goal_cases)
    case (1 e)
    then have "e \<in> set (entries rows)" by (auto dest: in_set_takeD)
    then show ?case using dec [OF entries_lookup [OF inv]] by (simp add: case_prod_beta)
  qed
  moreover have "rev (map (\<lambda>e. h (snd e)) (take n ?es))
      = drop (length (members rows g) - n) (map h (members rows g))"
    by (simp add: members_def take_rev rev_map [symmetric] drop_map comp_def)
  moreover have "scan_back (g @ [CHR 0x00]) ((g @ [CHR 0x00]) @ replicate 8 (CHR 0xFF)) (entries rows) = ?es"
    by (rule scan_group [OF inv seq g nf])
  ultimately show ?thesis by (simp add: slice_reverse_eq_rev)
qed

end

end
