(* ===== verification/Store_Messages.thy ===== *)
theory Store_Messages
  imports Store_Peers Indexed_Log
begin

text \<open>
  Package \<open>internal/store\<close>, part 3: one-to-one messages. The rows live in \<open>bMsgs\<close> under
  \<open>peer NUL seq\<close>, \<open>bIdx\<close> maps a message id to its row key, and \<open>bOutbox\<close> lists the ids still
  to be delivered.

  The abstract view is \<open>mailbox\<close>, a finite map from message id to message; the invariant
  \<open>msgs_inv\<close> ties the three buckets together (the outbox is exactly the undelivered outbound
  messages), every operation keeps it, and each operation's effect is stated on the mailbox.
\<close>

section \<open>Operations\<close>

definition msgKey :: "env \<Rightarrow> string \<Rightarrow> 64 word \<Rightarrow> bytes" where
  "msgKey E peer seq = peerKey E peer @ [CHR 0x00] @ PutUint64 seq"

text \<open>\<open>Message{}\<close>.\<close>

definition message0 :: message where
  "message0 = \<lparr>m_ID = [], m_Peer = [], m_Dir = [], m_Body = [], m_TS = time_zero, m_Status = [],
     m_Attempts = 0, m_LastTry = time_zero, m_Seq = 0, m_ReplyTo = []\<rparr>"

definition decryptMessage :: "env \<Rightarrow> store \<Rightarrow> message \<Rightarrow> message result" where
  "decryptMessage E s m =
     bindR (wrap_err ''store: decrypt body'' (decryptString E s (m_Body m))) (\<lambda>body.
     Inr (m\<lparr>m_Body := body\<rparr>))"

definition AddMessage :: "env \<Rightarrow> rnd \<Rightarrow> store \<Rightarrow> message \<Rightarrow> store \<times> (message \<times> bool) result" where
  "AddMessage E r s m0 =
     (case wrap_err ''store: encrypt body'' (encryptString E r s (m_Body m0)) of
        Inl e \<Rightarrow> (s, Inl e)
      | Inr encBody \<Rightarrow>
        let (s1, res) = dbUpdate s (\<lambda>d.
              if bGet (bIdx d) (m_ID m0) \<noteq> None then Inr (d, (message0, True))
              else
                let (seq, b) = NextSequence (bMsgs d);
                    m = m0\<lparr>m_Body := encBody, m_Seq := seq\<rparr>;
                    k = msgKey E (m_Peer m) seq
                in Inr (d\<lparr>bMsgs := bPut k m b,
                          bIdx := bPut (m_ID m) k (bIdx d),
                          bOutbox := (if m_Dir m = DirOut \<and> m_Status m \<noteq> StatusDelivered
                            then bPut (m_ID m) k (bOutbox d) else bOutbox d)\<rparr>, (m, False)))
        in (s1, bindR res (\<lambda>(stored, dup).
              bindR (decryptMessage E s1 stored) (\<lambda>m. Inr (m, dup)))))"

definition loadByID :: "db \<Rightarrow> string \<Rightarrow> (message \<times> bytes) result" where
  "loadByID d i = (case bGet (bIdx d) i of
     None \<Rightarrow> Inl ErrNotFound
   | Some k \<Rightarrow> (case bGet (bMsgs d) k of
       None \<Rightarrow> Inl ErrNotFound
     | Some m \<Rightarrow> Inr (m, k)))"

definition MarkDelivered ::
    "env \<Rightarrow> store \<Rightarrow> string \<Rightarrow> string \<Rightarrow> store \<times> (message \<times> bool) result" where
  "MarkDelivered E s peer i =
     (let (s1, res) = dbUpdate s (\<lambda>d. bindR (loadByID d i) (\<lambda>(m, k).
            if m_Dir m \<noteq> DirOut \<or> \<not> EqualFold E (m_Peer m) peer then Inl ErrNotFound
            else if m_Status m = StatusDelivered then Inr (d, (m, False))
            else let m' = m\<lparr>m_Status := StatusDelivered\<rparr>
              in Inr (d\<lparr>bMsgs := bPut k m' (bMsgs d), bOutbox := bDelete i (bOutbox d)\<rparr>, (m', True))))
      in (s1, bindR res (\<lambda>(out, changed).
            bindR (decryptMessage E s1 out) (\<lambda>m. Inr (m, changed)))))"

definition RecordAttempt :: "env \<Rightarrow> store \<Rightarrow> string \<Rightarrow> gotime \<Rightarrow> store \<times> message result" where
  "RecordAttempt E s i now =
     (let (s1, res) = dbUpdate s (\<lambda>d. bindR (loadByID d i) (\<lambda>(m, k).
            let m' = m\<lparr>m_Attempts := m_Attempts m + 1, m_LastTry := now\<rparr>
            in Inr (d\<lparr>bMsgs := bPut k m' (bMsgs d)\<rparr>, m')))
      in (s1, bindR res (decryptMessage E s1)))"

definition Messages :: "env \<Rightarrow> store \<Rightarrow> string \<Rightarrow> int \<Rightarrow> message list result" where
  "Messages E s peer limit0 =
     (let limit = (if limit0 \<le> 0 \<or> limit0 > 1000 then 200 else limit0);
          p = peerKey E peer @ [CHR 0x00];
          upper = p @ replicate 8 (CHR 0xFF)
      in bindR (mapR (\<lambda>(k, m). decryptMessage E s m)
             (take (nat limit) (scan_back p upper (entries (bMsgs (db s)))))) (\<lambda>out.
         Inr (slice_reverse out)))"

definition sortBySeq :: "message list \<Rightarrow> message list" where
  "sortBySeq m = slice_sort (\<lambda>a b. m_Seq a < m_Seq b) m"

definition Pending :: "env \<Rightarrow> store \<Rightarrow> string \<Rightarrow> message list result" where
  "Pending E s peer =
     bindR (mapR (\<lambda>(_, k). case bGet (bMsgs (db s)) k of
         None \<Rightarrow> Inr []
       | Some m \<Rightarrow> bindR (decryptMessage E s m) (\<lambda>m.
           Inr (if peer = [] \<or> EqualFold E (m_Peer m) peer then [m] else [])))
       (entries (bOutbox (db s)))) (\<lambda>out.
     Inr (sortBySeq (concat out)))"

definition DeleteFromOutbox :: "store \<Rightarrow> string \<Rightarrow> store \<times> unit result" where
  "DeleteFromOutbox s i = dbUpdate s (\<lambda>d. bindR (loadByID d i) (\<lambda>(m, k).
     if m_Dir m \<noteq> DirOut \<or> m_Status m = StatusDelivered then Inl ErrNotFound
     else Inr (d\<lparr>bOutbox := bDelete i (bOutbox d), bIdx := bDelete i (bIdx d),
                 bMsgs := bDelete k (bMsgs d)\<rparr>, ())))"

definition deleteMessages :: "db \<Rightarrow> (message \<Rightarrow> bool) \<Rightarrow> db" where
  "deleteMessages d pred = fold (\<lambda>(k, i) d. d\<lparr>bMsgs := bDelete k (bMsgs d),
       bIdx := bDelete i (bIdx d), bOutbox := bDelete i (bOutbox d)\<rparr>)
     (map (\<lambda>(k, m). (k, m_ID m)) (filter (\<lambda>(_, m). pred m) (entries (bMsgs d)))) d"

definition ForgetPeer :: "env \<Rightarrow> store \<Rightarrow> string \<Rightarrow> store \<times> unit result" where
  "ForgetPeer E s name = dbUpdate s (\<lambda>d. bindR (getPeer E d name) (\<lambda>_.
     let d1 = deleteMessages d (\<lambda>m. EqualFold E (m_Peer m) name)
     in Inr (d1\<lparr>bPeers := bDelete (peerKey E name) (bPeers d1)\<rparr>, ())))"

definition DeleteAllMessages :: "store \<Rightarrow> store \<times> unit result" where
  "DeleteAllMessages s = dbUpdate s (\<lambda>d. Inr (deleteMessages d (\<lambda>_. True), ()))"

definition prunable :: "gotime \<Rightarrow> message \<Rightarrow> bool" where
  "prunable cutoff m =
     (if m_Dir m = DirOut \<and> m_Status m \<noteq> StatusDelivered then False else m_TS m < cutoff)"

definition Prune :: "store \<Rightarrow> gotime \<Rightarrow> store \<times> int result" where
  "Prune s cutoff = dbUpdate s (\<lambda>d. Inr (deleteMessages d (prunable cutoff),
     int (length (filter (\<lambda>(_, m). prunable cutoff m) (entries (bMsgs d))))))"

definition DeleteMessage :: "store \<Rightarrow> string \<Rightarrow> store \<times> unit result" where
  "DeleteMessage s i = dbUpdate s (\<lambda>d. bindR (loadByID d i) (\<lambda>(m, k).
     Inr (d\<lparr>bIdx := bDelete (m_ID m) (bIdx d), bOutbox := bDelete (m_ID m) (bOutbox d),
            bMsgs := bDelete k (bMsgs d)\<rparr>, ())))"

text \<open>A slice expression \<open>s[a:b]\<close> out of range panics.\<close>

definition go_slice :: "bytes \<Rightarrow> int \<Rightarrow> int \<Rightarrow> bytes result" where
  "go_slice s a b =
     (if 0 \<le> a \<and> a \<le> b \<and> b \<le> int (length s) then Inr (take (nat b - nat a) (drop (nat a) s))
      else Inl (Panic ''slice bounds out of range''))"

record searchResult =
  sr_Message :: message
  sr_Snippet :: string

definition search_snippet :: "env \<Rightarrow> string \<Rightarrow> string \<Rightarrow> string result" where
  "search_snippet E body query = (case strings_Index (ToLower E body) query of
     None \<Rightarrow> Inr body
   | Some ix \<Rightarrow>
       let start = (if int ix - 20 < 0 then 0 else int ix - 20);
           end0 = int ix + int (length query) + 40;
           end1 = (if end0 > int (length body) then int (length body) else end0)
       in bindR (go_slice body start end1) (\<lambda>sn.
          let sn1 = (if start > 0 then ''...'' @ sn else sn)
          in Inr (if end1 < int (length body) then sn1 @ ''...'' else sn1)))"

fun search_rows ::
    "env \<Rightarrow> store \<Rightarrow> string \<Rightarrow> nat \<Rightarrow> message list \<Rightarrow> searchResult list \<Rightarrow> searchResult list result" where
  "search_rows E s query limit [] out = Inr out"
| "search_rows E s query limit (m # ms) out =
     (if length out \<ge> limit then search_rows E s query limit ms out
      else bindR (decryptMessage E s m) (\<lambda>m'.
        if strings_Contains (ToLower E (m_Body m')) query
        then bindR (search_snippet E (m_Body m') query) (\<lambda>sn.
          search_rows E s query limit ms (out @ [\<lparr>sr_Message = m', sr_Snippet = sn\<rparr>]))
        else search_rows E s query limit ms out))"

definition Search :: "env \<Rightarrow> store \<Rightarrow> string \<Rightarrow> int \<Rightarrow> searchResult list result" where
  "Search E s query0 limit0 =
     (let limit = (if limit0 \<le> 0 \<or> limit0 > 100 then 20 else limit0);
          query = ToLower E query0
      in if query = [] then Inr []
         else search_rows E s query (nat limit) (map snd (entries (bMsgs (db s)))) [])"

section \<open>The mailbox and its invariant\<close>

abbreviation undelivered :: "message \<Rightarrow> bool" where
  "undelivered m \<equiv> m_Dir m = DirOut \<and> m_Status m \<noteq> StatusDelivered"

definition mailbox :: "db \<Rightarrow> string \<Rightarrow> message option" where
  "mailbox d i = (case loadByID d i of Inr (m, _) \<Rightarrow> Some m | Inl _ \<Rightarrow> None)"

interpretation mlog: grouped_log m_ID m_Seq "\<lambda>m. peerKey E (m_Peer m)"
  rewrites "\<And>p n. seq_key (peerKey E p) n = msgKey E p n" for E
  by (simp_all add: seq_key_def msgKey_def)

definition outbox_ok :: "db \<Rightarrow> bool" where
  "outbox_ok d \<longleftrightarrow> (\<forall>i. bGet (bOutbox d) i =
     (case mailbox d i of None \<Rightarrow> None
      | Some m \<Rightarrow> if undelivered m then bGet (bIdx d) i else None))"

definition msgs_inv :: "env \<Rightarrow> db \<Rightarrow> bool" where
  "msgs_inv E d \<longleftrightarrow> mlog.log_inv E (bMsgs d) (bIdx d) \<and> wf_bucket (bOutbox d) \<and> outbox_ok d"

lemma mailbox_lookup: "mailbox d = mlog.lookup (bMsgs d) (bIdx d)"
  by (auto simp: fun_eq_iff mailbox_def mlog.lookup_def loadByID_def split: option.splits)

lemma mailbox_empty: "mailbox empty_db i = None"
  by (simp add: mailbox_def loadByID_def empty_db_def)

lemma msgs_inv_empty: "msgs_inv E empty_db"
  by (simp add: msgs_inv_def outbox_ok_def mailbox_empty) (simp add: empty_db_def mlog.log_inv_empty)

lemma msgs_invD:
  assumes "msgs_inv E d"
  shows "mlog.log_inv E (bMsgs d) (bIdx d)" "wf_bucket (bMsgs d)" "wf_bucket (bIdx d)"
    "wf_bucket (bOutbox d)"
  using assms mlog.wf by (auto simp: msgs_inv_def)

lemma rowsD:
  assumes "msgs_inv E d" "bGet (bMsgs d) k = Some m"
  shows "k = msgKey E (m_Peer m) (m_Seq m)" "m_Seq m \<le> bseq (bMsgs d)" "bGet (bIdx d) (m_ID m) = Some k"
  using mlog.rows [OF msgs_invD(1) [OF assms(1)] assms(2)] .

lemma seqsD: "\<lbrakk>msgs_inv E d; bGet (bMsgs d) k = Some m; bGet (bMsgs d) k' = Some m'; m_Seq m = m_Seq m'\<rbrakk>
    \<Longrightarrow> k = k'"
  by (rule mlog.seqs [OF msgs_invD(1)])

lemma outboxD: "msgs_inv E d \<Longrightarrow> bGet (bOutbox d) i =
    (case mailbox d i of None \<Rightarrow> None | Some m \<Rightarrow> if undelivered m then bGet (bIdx d) i else None)"
  unfolding msgs_inv_def outbox_ok_def by blast

lemma loadByID_Inr: "loadByID d i = Inr (m, k) \<longleftrightarrow> bGet (bIdx d) i = Some k \<and> bGet (bMsgs d) k = Some m"
  by (auto simp: loadByID_def split: option.splits)

lemma mailbox_Some: "mailbox d i = Some m \<longleftrightarrow> (\<exists>k. bGet (bIdx d) i = Some k \<and> bGet (bMsgs d) k = Some m)"
  by (auto simp: mailbox_def loadByID_def split: option.splits)

lemma mailbox_None: "msgs_inv E d \<Longrightarrow> mailbox d i = None \<longleftrightarrow> bGet (bIdx d) i = None"
  unfolding mailbox_lookup by (rule mlog.lookup_None [OF msgs_invD(1)])

lemma mailbox_row: "msgs_inv E d \<Longrightarrow>
    mailbox d i = Some m \<longleftrightarrow> m_ID m = i \<and> bGet (bMsgs d) (msgKey E (m_Peer m) (m_Seq m)) = Some m"
  unfolding mailbox_lookup by (rule mlog.lookup_Some [OF msgs_invD(1)])

lemma loadByID_mailbox:
  assumes "msgs_inv E d" "mailbox d i = Some m"
  shows "loadByID d i = Inr (m, msgKey E (m_Peer m) (m_Seq m))" "m_ID m = i"
  using mlog.lookup_index [OF msgs_invD(1) [OF assms(1)]] assms(2)
  by (simp_all add: mailbox_lookup loadByID_Inr)

lemma loadByID_None: "mailbox d i = None \<Longrightarrow> loadByID d i = Inl ErrNotFound"
  by (auto simp: mailbox_def loadByID_def split: option.splits)

lemma entries_row: "msgs_inv E d \<Longrightarrow> (k, m) \<in> set (entries (bMsgs d)) \<longleftrightarrow>
    k = msgKey E (m_Peer m) (m_Seq m) \<and> mailbox d (m_ID m) = Some m"
  unfolding mailbox_lookup by (rule mlog.entries_iff [OF msgs_invD(1)])

lemma entries_mailbox:
  "\<lbrakk>msgs_inv E d; e \<in> set (entries (bMsgs d))\<rbrakk> \<Longrightarrow> mailbox d (m_ID (snd e)) = Some (snd e)"
  unfolding mailbox_lookup by (rule mlog.entries_lookup [OF msgs_invD(1)])

text \<open>The three ways an operation changes the buckets: a new row, a changed row, removed rows.\<close>

lemma msgs_inv_insert:
  assumes inv: "msgs_inv E d" and new: "bGet (bIdx d) (m_ID m) = None"
    and seq: "bseq (bMsgs d) < - 1" "m_Seq m = bseq (bMsgs d) + 1"
    and k: "k = msgKey E (m_Peer m) (m_Seq m)"
    and d': "d' = d\<lparr>bMsgs := bPut k m ((bMsgs d)\<lparr>bseq := bseq (bMsgs d) + 1\<rparr>),
      bIdx := bPut (m_ID m) k (bIdx d),
      bOutbox := (if undelivered m then bPut (m_ID m) k (bOutbox d) else bOutbox d)\<rparr>"
  shows "msgs_inv E d'" "mailbox d' = (mailbox d)(m_ID m \<mapsto> m)"
proof -
  note ins = mlog.log_insert [OF msgs_invD(1) [OF inv] new seq refl refl]
  show mb: "mailbox d' = (mailbox d)(m_ID m \<mapsto> m)" using ins(2) by (simp add: mailbox_lookup d' k)
  have "outbox_ok d'"
    using inv new unfolding msgs_inv_def outbox_ok_def mb
    by (auto simp: d' mailbox_None [OF inv] split: option.splits)
  with ins(1) msgs_invD [OF inv] show "msgs_inv E d'" by (simp add: msgs_inv_def d' k)
qed

lemma msgs_inv_modify:
  assumes inv: "msgs_inv E d" and m: "mailbox d i = Some m"
    and same: "m_ID m' = m_ID m" "m_Peer m' = m_Peer m" "m_Seq m' = m_Seq m"
    and ob: "wf_bucket ob" "bGet ob = (bGet (bOutbox d))(i := if undelivered m' then bGet (bIdx d) i else None)"
    and d': "d' = d\<lparr>bMsgs := bPut (msgKey E (m_Peer m) (m_Seq m)) m' (bMsgs d), bOutbox := ob\<rparr>"
  shows "msgs_inv E d'" "mailbox d' = (mailbox d)(i \<mapsto> m')"
proof -
  note mod = mlog.log_modify [OF msgs_invD(1) [OF inv] m [unfolded mailbox_lookup] same(1)]
  show mb: "mailbox d' = (mailbox d)(i \<mapsto> m')" using mod(2) same by (simp add: mailbox_lookup d')
  have "outbox_ok d'"
    using inv unfolding msgs_inv_def outbox_ok_def mb by (auto simp: d' ob split: option.splits)
  with mod(1) same ob(1) show "msgs_inv E d'" by (simp add: msgs_inv_def d')
qed

lemma msgs_inv_remove:
  assumes inv: "msgs_inv E d"
    and rows: "\<And>k. bGet (bMsgs d') k =
      (case bGet (bMsgs d) k of None \<Rightarrow> None | Some m \<Rightarrow> if m_ID m \<in> S then None else Some m)"
    and idx: "\<And>i. bGet (bIdx d') i = (if i \<in> S then None else bGet (bIdx d) i)"
    and ob: "\<And>i. bGet (bOutbox d') i = (if i \<in> S then None else bGet (bOutbox d) i)"
    and wf: "wf_bucket (bMsgs d')" "wf_bucket (bIdx d')" "wf_bucket (bOutbox d')"
    and seq: "bseq (bMsgs d') = bseq (bMsgs d)"
  shows "msgs_inv E d'" "mailbox d' = mailbox d |` (- S)"
proof -
  note rem = mlog.log_remove [OF msgs_invD(1) [OF inv] rows idx wf(1,2) seq]
  show mb: "mailbox d' = mailbox d |` (- S)" using rem(2) by (simp add: mailbox_lookup)
  have "outbox_ok d'"
    using inv unfolding msgs_inv_def outbox_ok_def mb
    by (auto simp: ob idx restrict_map_def split: option.splits)
  with rem(1) wf(3) show "msgs_inv E d'" by (simp add: msgs_inv_def)
qed

section \<open>The operations on the mailbox\<close>

text \<open>\<open>inbox\<close> is the mailbox with its bodies decrypted: what the rest of the program sees.\<close>

definition plain_msg :: "env \<Rightarrow> store \<Rightarrow> message \<Rightarrow> message" where
  "plain_msg E s m = (case decryptString E s (m_Body m) of Inl _ \<Rightarrow> m | Inr b \<Rightarrow> m\<lparr>m_Body := b\<rparr>)"

definition inbox :: "env \<Rightarrow> store \<Rightarrow> string \<Rightarrow> message option" where
  "inbox E s i = map_option (plain_msg E s) (mailbox (db s) i)"

definition readable :: "env \<Rightarrow> store \<Rightarrow> message \<Rightarrow> bool" where
  "readable E s m \<longleftrightarrow> (\<exists>b. decryptString E s (m_Body m) = Inr b)"

definition box_inv :: "env \<Rightarrow> store \<Rightarrow> bool" where
  "box_inv E s \<longleftrightarrow> aead_ok E \<and> keys_ok s \<and> msgs_inv E (db s)
     \<and> (\<forall>i m. mailbox (db s) i = Some m \<longrightarrow> readable E s m)"

lemma plain_msg_db [simp]: "plain_msg E (s\<lparr>db := d\<rparr>) = plain_msg E s"
  by (simp add: plain_msg_def fun_eq_iff)

lemma readable_db [simp]: "readable E (s\<lparr>db := d\<rparr>) = readable E s"
  by (simp add: readable_def fun_eq_iff)

lemma plain_msg_fields [simp]:
  "m_ID (plain_msg E s m) = m_ID m" "m_Peer (plain_msg E s m) = m_Peer m"
  "m_Dir (plain_msg E s m) = m_Dir m" "m_Status (plain_msg E s m) = m_Status m"
  "m_Seq (plain_msg E s m) = m_Seq m" "m_TS (plain_msg E s m) = m_TS m"
  by (simp_all add: plain_msg_def split: sum.split)

lemma plain_msg_upd [simp]:
  "plain_msg E s (m\<lparr>m_Status := st\<rparr>) = (plain_msg E s m)\<lparr>m_Status := st\<rparr>"
  "plain_msg E s (m\<lparr>m_Attempts := n, m_LastTry := t\<rparr>) = (plain_msg E s m)\<lparr>m_Attempts := n, m_LastTry := t\<rparr>"
  by (simp_all add: plain_msg_def split: sum.split)

lemma readable_upd [simp]:
  "readable E s (m\<lparr>m_Status := st\<rparr>) = readable E s m"
  "readable E s (m\<lparr>m_Attempts := n, m_LastTry := t\<rparr>) = readable E s m"
  by (simp_all add: readable_def)

lemma decryptMessage_readable: "readable E s m \<Longrightarrow> decryptMessage E s m = Inr (plain_msg E s m)"
  by (auto simp: readable_def decryptMessage_def plain_msg_def wrap_err_def)

lemma decryptMessage_db [simp]: "decryptMessage E (s\<lparr>db := d\<rparr>) = decryptMessage E s"
  by (simp add: decryptMessage_def fun_eq_iff)

lemma decryptMessage0: "decryptMessage E s message0 = Inr message0"
  by (simp add: decryptMessage_def message0_def decryptString_def wrap_err_def)

lemma box_inv_empty: "\<lbrakk>aead_ok E; keys_ok s; db s = empty_db\<rbrakk> \<Longrightarrow> box_inv E s"
  by (simp add: box_inv_def msgs_inv_empty mailbox_empty)

lemma inbox_SomeD: "inbox E s i = Some m \<Longrightarrow> \<exists>m0. mailbox (db s) i = Some m0 \<and> m = plain_msg E s m0"
  by (auto simp: inbox_def)

lemma inbox_ID: "\<lbrakk>box_inv E s; inbox E s i = Some m\<rbrakk> \<Longrightarrow> m_ID m = i"
  by (auto simp: inbox_def box_inv_def dest: loadByID_mailbox)

lemma AddMessage_dup:
  assumes "box_inv E s" "nonce_ok r" "inbox E s (m_ID m) = Some m'"
  shows "AddMessage E r s m = (s, Inr (message0, True))"
proof -
  obtain b where "encryptString E r s (m_Body m) = Inr b"
    using encryptString_total [of s r E "m_Body m"] assms by (auto simp: box_inv_def)
  moreover have "bGet (bIdx (db s)) (m_ID m) \<noteq> None"
    using assms(3) by (auto simp: inbox_def mailbox_def loadByID_def split: option.splits)
  ultimately show ?thesis
    by (simp add: AddMessage_def wrap_err_def dbUpdate_def decryptMessage0)
qed

lemma AddMessage_new:
  assumes "box_inv E s" "nonce_ok r" "inbox E s (m_ID m) = None" "bseq (bMsgs (db s)) < - 1"
  defines "m' \<equiv> m\<lparr>m_Seq := bseq (bMsgs (db s)) + 1\<rparr>"
  obtains s' where "AddMessage E r s m = (s', Inr (m', False))" "box_inv E s'"
    "inbox E s' = (inbox E s)(m_ID m \<mapsto> m')" "bseq (bMsgs (db s')) = bseq (bMsgs (db s)) + 1"
proof -
  have inv: "msgs_inv E (db s)" "aead_ok E" "keys_ok s" using assms(1) by (simp_all add: box_inv_def)
  obtain b where b: "encryptString E r s (m_Body m) = Inr b"
    using encryptString_total inv assms(2) by blast
  have dec: "decryptString E s b = Inr (m_Body m)"
    using decryptString_encryptString [OF inv(2) assms(2) inv(3) b] .
  let ?m = "m\<lparr>m_Body := b, m_Seq := bseq (bMsgs (db s)) + 1\<rparr>"
  let ?k = "msgKey E (m_Peer ?m) (m_Seq ?m)"
  define d' where "d' = (db s)\<lparr>bMsgs := bPut ?k ?m ((bMsgs (db s))\<lparr>bseq := bseq (bMsgs (db s)) + 1\<rparr>),
      bIdx := bPut (m_ID ?m) ?k (bIdx (db s)),
      bOutbox := (if undelivered ?m then bPut (m_ID ?m) ?k (bOutbox (db s)) else bOutbox (db s))\<rparr>"
  have new: "bGet (bIdx (db s)) (m_ID ?m) = None"
    using assms(3) inv(1) by (simp add: inbox_def mailbox_None [OF inv(1)])
  have ins: "msgs_inv E d'" "mailbox d' = (mailbox (db s))(m_ID ?m \<mapsto> ?m)"
    by (rule msgs_inv_insert [OF inv(1) new assms(4) _ refl d'_def], simp)+
  have pm: "plain_msg E s ?m = m'" and rd: "readable E s ?m"
    using dec by (simp_all add: plain_msg_def readable_def m'_def)
  show thesis
  proof (rule that [of "s\<lparr>db := d'\<rparr>"])
    show "AddMessage E r s m = (s\<lparr>db := d'\<rparr>, Inr (m', False))"
      using new decryptMessage_readable [OF rd] pm
      by (simp add: AddMessage_def wrap_err_def b dbUpdate_def NextSequence_def d'_def Let_def)
    show "box_inv E (s\<lparr>db := d'\<rparr>)"
      using assms(1) ins rd by (auto simp: box_inv_def split: if_splits)
    show "inbox E (s\<lparr>db := d'\<rparr>) = (inbox E s)(m_ID m \<mapsto> m')"
      using pm by (auto simp: inbox_def ins)
    show "bseq (bMsgs (db (s\<lparr>db := d'\<rparr>))) = bseq (bMsgs (db s)) + 1"
      by (simp add: d'_def)
  qed
qed

lemma AddMessage_cases [consumes 3, case_names dup new]:
  assumes "box_inv E s" "nonce_ok r" "bseq (bMsgs (db s)) < - 1"
  obtains m' where "inbox E s (m_ID m) = Some m'" "AddMessage E r s m = (s, Inr (message0, True))"
  | s' where "inbox E s (m_ID m) = None"
      "AddMessage E r s m = (s', Inr (m\<lparr>m_Seq := bseq (bMsgs (db s)) + 1\<rparr>, False))" "box_inv E s'"
      "inbox E s' = (inbox E s)(m_ID m \<mapsto> m\<lparr>m_Seq := bseq (bMsgs (db s)) + 1\<rparr>)"
      "bseq (bMsgs (db s')) = bseq (bMsgs (db s)) + 1"
proof (cases "inbox E s (m_ID m)")
  case None
  show ?thesis by (rule AddMessage_new [OF assms(1,2) None assms(3)]) (rule that(2) [OF None])
next
  case (Some m')
  show ?thesis by (rule that(1) [OF Some AddMessage_dup [OF assms(1,2) Some]])
qed

text \<open>Acknowledgements: only the peer the message was sent to can have it marked.\<close>

lemma MarkDelivered_none: "inbox E s i = None \<Longrightarrow> MarkDelivered E s peer i = (s, Inl ErrNotFound)"
  by (simp add: inbox_def MarkDelivered_def loadByID_None dbUpdate_def)

lemma MarkDelivered_foreign:
  assumes "box_inv E s" "inbox E s i = Some m" "m_Dir m \<noteq> DirOut \<or> \<not> EqualFold E (m_Peer m) peer"
  shows "MarkDelivered E s peer i = (s, Inl ErrNotFound)"
  using assms by (auto simp: MarkDelivered_def dbUpdate_def box_inv_def
      dest!: inbox_SomeD loadByID_mailbox(1))

lemma MarkDelivered_again:
  assumes "box_inv E s" "inbox E s i = Some m" "m_Dir m = DirOut" "EqualFold E (m_Peer m) peer"
    "m_Status m = StatusDelivered"
  shows "MarkDelivered E s peer i = (s, Inr (m, False))"
proof -
  obtain m0 where m0: "mailbox (db s) i = Some m0" "m = plain_msg E s m0" using inbox_SomeD assms(2) by blast
  have inv: "msgs_inv E (db s)" and rd: "readable E s m0"
    using assms(1) m0 by (simp_all add: box_inv_def)
  from m0 assms show ?thesis
    by (simp add: MarkDelivered_def dbUpdate_def loadByID_mailbox(1) [OF inv m0(1)]
        decryptMessage_readable [OF rd])
qed

lemma MarkDelivered_first:
  assumes "box_inv E s" "inbox E s i = Some m" "undelivered m" "EqualFold E (m_Peer m) peer"
  obtains s' where "MarkDelivered E s peer i = (s', Inr (m\<lparr>m_Status := StatusDelivered\<rparr>, True))"
    "box_inv E s'" "inbox E s' = (inbox E s)(i \<mapsto> m\<lparr>m_Status := StatusDelivered\<rparr>)"
    "bseq (bMsgs (db s')) = bseq (bMsgs (db s))"
proof -
  obtain m0 where m0: "mailbox (db s) i = Some m0" "m = plain_msg E s m0"
    using inbox_SomeD assms(2) by blast
  have inv: "msgs_inv E (db s)" and rd: "readable E s m0"
    using assms(1) m0 by (simp_all add: box_inv_def)
  let ?m = "m0\<lparr>m_Status := StatusDelivered\<rparr>"
  define d' where "d' = (db s)\<lparr>bMsgs := bPut (msgKey E (m_Peer m0) (m_Seq m0)) ?m (bMsgs (db s)),
    bOutbox := bDelete i (bOutbox (db s))\<rparr>"
  have ob: "bGet (bDelete i (bOutbox (db s))) =
      (bGet (bOutbox (db s)))(i := if undelivered ?m then bGet (bIdx (db s)) i else None)" by simp
  have wf: "wf_bucket (bDelete i (bOutbox (db s)))" using msgs_invD [OF inv] by simp
  have mod: "msgs_inv E d'" "mailbox d' = (mailbox (db s))(i \<mapsto> ?m)"
    by (rule msgs_inv_modify [OF inv m0(1) _ _ _ wf ob d'_def]; simp)+
  show thesis
  proof (rule that [of "s\<lparr>db := d'\<rparr>"])
    show "MarkDelivered E s peer i = (s\<lparr>db := d'\<rparr>, Inr (m\<lparr>m_Status := StatusDelivered\<rparr>, True))"
      using assms(3,4) m0 rd
      by (simp add: MarkDelivered_def dbUpdate_def loadByID_mailbox(1) [OF inv m0(1)] d'_def
          decryptMessage_readable Let_def)
    show "box_inv E (s\<lparr>db := d'\<rparr>)"
      using assms(1) mod rd by (auto simp: box_inv_def split: if_splits)
    show "inbox E (s\<lparr>db := d'\<rparr>) = (inbox E s)(i \<mapsto> m\<lparr>m_Status := StatusDelivered\<rparr>)"
      by (auto simp: inbox_def mod m0(2))
    show "bseq (bMsgs (db (s\<lparr>db := d'\<rparr>))) = bseq (bMsgs (db s))" by (simp add: d'_def)
  qed
qed

lemma RecordAttempt_some:
  assumes "box_inv E s" "inbox E s i = Some m"
    and m'_def: "m' = m\<lparr>m_Attempts := m_Attempts m + 1, m_LastTry := now\<rparr>"
  obtains s' where "RecordAttempt E s i now = (s', Inr m')" "box_inv E s'"
    "inbox E s' = (inbox E s)(i \<mapsto> m')" "bseq (bMsgs (db s')) = bseq (bMsgs (db s))"
proof -
  obtain m0 where m0: "mailbox (db s) i = Some m0" "m = plain_msg E s m0"
    using inbox_SomeD assms(2) by blast
  have inv: "msgs_inv E (db s)" and rd: "readable E s m0"
    using assms(1) m0 by (simp_all add: box_inv_def)
  have at: "m_Attempts m = m_Attempts m0" by (simp add: m0(2) plain_msg_def split: sum.split)
  let ?m = "m0\<lparr>m_Attempts := m_Attempts m0 + 1, m_LastTry := now\<rparr>"
  define d' where "d' = (db s)\<lparr>bMsgs := bPut (msgKey E (m_Peer m0) (m_Seq m0)) ?m (bMsgs (db s))\<rparr>"
  have d2: "d' = (db s)\<lparr>bMsgs := bPut (msgKey E (m_Peer m0) (m_Seq m0)) ?m (bMsgs (db s)),
    bOutbox := bOutbox (db s)\<rparr>" by (simp add: d'_def)
  have ob: "bGet (bOutbox (db s)) = (bGet (bOutbox (db s)))(i := if undelivered ?m then bGet (bIdx (db s)) i else None)"
    using outboxD [OF inv, of i] m0 by auto
  have wf: "wf_bucket (bOutbox (db s))" using msgs_invD [OF inv] by simp
  have mod: "msgs_inv E d'" "mailbox d' = (mailbox (db s))(i \<mapsto> ?m)"
    by (rule msgs_inv_modify [OF inv m0(1) _ _ _ wf ob d2]; simp)+
  show thesis
  proof (rule that [of "s\<lparr>db := d'\<rparr>"])
    show "RecordAttempt E s i now = (s\<lparr>db := d'\<rparr>, Inr m')"
      using m0 rd at
      by (simp add: RecordAttempt_def dbUpdate_def loadByID_mailbox(1) [OF inv m0(1)] d'_def
          decryptMessage_readable m'_def Let_def)
    show "box_inv E (s\<lparr>db := d'\<rparr>)"
      using assms(1) mod rd by (auto simp: box_inv_def split: if_splits)
    show "inbox E (s\<lparr>db := d'\<rparr>) = (inbox E s)(i \<mapsto> m')"
      using at by (auto simp: inbox_def mod m0(2) m'_def)
    show "bseq (bMsgs (db (s\<lparr>db := d'\<rparr>))) = bseq (bMsgs (db s))" by (simp add: d'_def)
  qed
qed

lemma RecordAttempt_none: "inbox E s i = None \<Longrightarrow> RecordAttempt E s i now = (s, Inl ErrNotFound)"
  by (simp add: inbox_def RecordAttempt_def loadByID_None dbUpdate_def)

section \<open>Deletion\<close>

lemma deleteMessages_buckets:
  fixes d pred
  defines "rs \<equiv> filter (\<lambda>(_, m). pred m) (entries (bMsgs d))"
  shows "deleteMessages d pred = d\<lparr>bMsgs := fold bDelete (map fst rs) (bMsgs d),
    bIdx := fold bDelete (map (\<lambda>e. m_ID (snd e)) rs) (bIdx d),
    bOutbox := fold bDelete (map (\<lambda>e. m_ID (snd e)) rs) (bOutbox d)\<rparr>"
proof -
  have "fold (\<lambda>(k, i) d. d\<lparr>bMsgs := bDelete k (bMsgs d), bIdx := bDelete i (bIdx d),
      bOutbox := bDelete i (bOutbox d)\<rparr>) (map (\<lambda>(k, m). (k, m_ID m)) rs) d
    = d\<lparr>bMsgs := fold bDelete (map fst rs) (bMsgs d),
      bIdx := fold bDelete (map (\<lambda>e. m_ID (snd e)) rs) (bIdx d),
      bOutbox := fold bDelete (map (\<lambda>e. m_ID (snd e)) rs) (bOutbox d)\<rparr>" for rs
    by (induction rs arbitrary: d) auto
  then show ?thesis by (simp add: deleteMessages_def rs_def)
qed

lemma deleteMessages_other [simp]:
  "bPeers (deleteMessages d pred) = bPeers d" "bseq (bMsgs (deleteMessages d pred)) = bseq (bMsgs d)"
  by (simp_all add: deleteMessages_buckets)

lemma deleteMessages_inv:
  assumes "msgs_inv E d"
  shows "msgs_inv E (deleteMessages d pred)"
    and "mailbox (deleteMessages d pred) i =
      (case mailbox d i of None \<Rightarrow> None | Some m \<Rightarrow> if pred m then None else Some m)"
proof -
  define rs where "rs = filter (\<lambda>(_, m). pred m) (entries (bMsgs d))"
  let ?S = "(\<lambda>e. m_ID (snd e)) ` set rs"
  have wf: "wf_bucket (bMsgs d)" "wf_bucket (bIdx d)" "wf_bucket (bOutbox d)"
    using msgs_invD [OF assms] by simp_all
  have mem: "(k, m) \<in> set rs \<longleftrightarrow> bGet (bMsgs d) k = Some m \<and> pred m" for k m
    using bolt.items_iff [OF wf(1)] by (simp add: rs_def)
  have S: "m_ID m \<in> ?S \<longleftrightarrow> pred m" if m: "bGet (bMsgs d) k = Some m" for k m
  proof
    assume "m_ID m \<in> ?S"
    then obtain k2 m2 where 2: "bGet (bMsgs d) k2 = Some m2" "pred m2" "m_ID m = m_ID m2"
      using mem by auto
    then have "k2 = k" using rowsD(3) [OF assms 2(1)] rowsD(3) [OF assms m] by simp
    with 2 m show "pred m" by simp
  next
    assume "pred m"
    with m show "m_ID m \<in> ?S" using mem by force
  qed
  have keys: "k \<in> fst ` set rs \<longleftrightarrow> (\<exists>m. bGet (bMsgs d) k = Some m \<and> pred m)" for k
    using mem by force
  have rows: "bGet (bMsgs (deleteMessages d pred)) k =
      (case bGet (bMsgs d) k of None \<Rightarrow> None | Some m \<Rightarrow> if m_ID m \<in> ?S then None else Some m)" for k
    using keys [of k] S [of k]
    by (cases "bGet (bMsgs d) k") (simp_all add: deleteMessages_buckets [of d pred, folded rs_def])
  have rem: "msgs_inv E (deleteMessages d pred)"
    "mailbox (deleteMessages d pred) = mailbox d |` (- ?S)"
    by (rule msgs_inv_remove [OF assms rows];
        use wf in \<open>simp add: deleteMessages_buckets [of d pred, folded rs_def]\<close>)+
  show "msgs_inv E (deleteMessages d pred)" by (fact rem)
  show "mailbox (deleteMessages d pred) i =
      (case mailbox d i of None \<Rightarrow> None | Some m \<Rightarrow> if pred m then None else Some m)"
  proof (cases "mailbox d i")
    case None
    then show ?thesis by (simp add: rem(2) restrict_map_def)
  next
    case (Some m)
    then have "bGet (bMsgs d) (msgKey E (m_Peer m) (m_Seq m)) = Some m" "m_ID m = i"
      by (simp_all add: mailbox_row [OF assms])
    then have "i \<in> ?S \<longleftrightarrow> pred m" using S by blast
    with Some show ?thesis by (simp add: rem(2) restrict_map_def)
  qed
qed

text \<open>Deletion by a predicate that does not look at the body.\<close>

lemma box_inv_delete:
  assumes "box_inv E s" "\<And>m. pred (plain_msg E s m) = pred m"
  shows "box_inv E (s\<lparr>db := deleteMessages (db s) pred\<rparr>)"
    and "inbox E (s\<lparr>db := deleteMessages (db s) pred\<rparr>) i =
      (case inbox E s i of None \<Rightarrow> None | Some m \<Rightarrow> if pred m then None else Some m)"
  using assms by (auto simp: box_inv_def inbox_def deleteMessages_inv split: option.splits if_splits)

lemma box_inv_bPeers [simp]:
  "box_inv E (s\<lparr>db := d\<lparr>bPeers := b\<rparr>\<rparr>) = box_inv E (s\<lparr>db := d\<rparr>)"
  "inbox E (s\<lparr>db := d\<lparr>bPeers := b\<rparr>\<rparr>) = inbox E (s\<lparr>db := d\<rparr>)"
proof -
  have [simp]: "mailbox (d\<lparr>bPeers := b\<rparr>) = mailbox d" for d
    by (simp add: mailbox_def loadByID_def fun_eq_iff cong: option.case_cong)
  have "msgs_inv E (d\<lparr>bPeers := b\<rparr>) = msgs_inv E d" for d
    by (simp add: msgs_inv_def outbox_ok_def
        cong: option.case_cong if_cong)
  then show "box_inv E (s\<lparr>db := d\<lparr>bPeers := b\<rparr>\<rparr>) = box_inv E (s\<lparr>db := d\<rparr>)"
    "inbox E (s\<lparr>db := d\<lparr>bPeers := b\<rparr>\<rparr>) = inbox E (s\<lparr>db := d\<rparr>)"
    by (simp_all add: box_inv_def inbox_def fun_eq_iff)
qed

lemma Prune_inbox:
  assumes "box_inv E s"
  shows "box_inv E (fst (Prune s cutoff))"
    and "inbox E (fst (Prune s cutoff)) i =
      (case inbox E s i of None \<Rightarrow> None | Some m \<Rightarrow> if prunable cutoff m then None else Some m)"
  using box_inv_delete [OF assms, of "prunable cutoff"]
  by (simp_all add: Prune_def dbUpdate_def prunable_def)

lemma DeleteAllMessages_inbox:
  assumes "box_inv E s"
  shows "box_inv E (fst (DeleteAllMessages s))" "inbox E (fst (DeleteAllMessages s)) i = None"
  using box_inv_delete [OF assms, of "\<lambda>_. True"]
  by (simp_all add: DeleteAllMessages_def dbUpdate_def split: option.split)

lemma ForgetPeer_inbox:
  assumes "box_inv E s" "getPeer E (db s) name = Inr p"
  shows "box_inv E (fst (ForgetPeer E s name))"
    and "inbox E (fst (ForgetPeer E s name)) i =
      (case inbox E s i of None \<Rightarrow> None | Some m \<Rightarrow> if EqualFold E (m_Peer m) name then None else Some m)"
    and "trust_of E (fst (ForgetPeer E s name)) name = Unknown"
  using box_inv_delete [OF assms(1), of "\<lambda>m. EqualFold E (m_Peer m) name"] assms(2)
  by (simp_all add: ForgetPeer_def dbUpdate_def Let_def trust_of_def)

lemma DeleteMessage_some:
  assumes "box_inv E s" "inbox E s i = Some m"
  obtains s' where "DeleteMessage s i = (s', Inr ())" "box_inv E s'" "inbox E s' = (inbox E s)(i := None)"
proof -
  obtain m0 where m0: "mailbox (db s) i = Some m0" "m = plain_msg E s m0"
    using inbox_SomeD assms(2) by blast
  have inv: "msgs_inv E (db s)" using assms(1) by (simp add: box_inv_def)
  note load = loadByID_mailbox [OF inv m0(1)]
  let ?k = "msgKey E (m_Peer m0) (m_Seq m0)"
  have row: "bGet (bMsgs (db s)) ?k = Some m0" using load(1) by (simp add: loadByID_Inr)
  have ids: "m_ID n = i \<longleftrightarrow> k = ?k" if n: "bGet (bMsgs (db s)) k = Some n" for k n
    using rowsD(3) [OF inv n] rowsD(3) [OF inv row] load(2) n row by auto
  define d' where "d' = (db s)\<lparr>bIdx := bDelete i (bIdx (db s)), bOutbox := bDelete i (bOutbox (db s)),
    bMsgs := bDelete ?k (bMsgs (db s))\<rparr>"
  have rem: "msgs_inv E d'" "mailbox d' = mailbox (db s) |` (- {i})"
    by (rule msgs_inv_remove [OF inv, of _ "{i}"];
        use msgs_invD [OF inv] in \<open>simp add: d'_def ids split: option.split\<close>)+
  show thesis
    by (rule that [of "s\<lparr>db := d'\<rparr>"])
      (use assms(1) in \<open>auto simp: DeleteMessage_def dbUpdate_def load d'_def [symmetric] rem box_inv_def
        inbox_def restrict_map_def split: if_splits\<close>)
qed

lemma DeleteFromOutbox_spec:
  "DeleteFromOutbox s i = (case mailbox (db s) i of
     None \<Rightarrow> (s, Inl ErrNotFound)
   | Some m \<Rightarrow> if undelivered m then DeleteMessage s i else (s, Inl ErrNotFound))"
  if "msgs_inv E (db s)"
proof (cases "mailbox (db s) i")
  case None
  then show ?thesis by (simp add: DeleteFromOutbox_def dbUpdate_def loadByID_None)
next
  case (Some m)
  with loadByID_mailbox [OF that Some] show ?thesis
    by (simp add: DeleteFromOutbox_def DeleteMessage_def dbUpdate_def)
qed

section \<open>Queries\<close>

text \<open>Peer keys without a NUL byte: \<open>ValidateName\<close> refuses control characters.\<close>

definition nul_free :: "env \<Rightarrow> string \<Rightarrow> bool" where
  "nul_free E name \<longleftrightarrow> CHR 0x00 \<notin> set (peerKey E name)"

definition conversation :: "env \<Rightarrow> store \<Rightarrow> string \<Rightarrow> message list" where
  "conversation E s peer = map (plain_msg E s) (mlog.members E (bMsgs (db s)) (peerKey E peer))"

lemma set_conversation:
  assumes "box_inv E s"
  shows "set (conversation E s peer) =
    {m. peerKey E (m_Peer m) = peerKey E peer \<and> inbox E s (m_ID m) = Some m}"
proof -
  have inv: "msgs_inv E (db s)" using assms by (simp add: box_inv_def)
  have "m \<in> set (conversation E s peer) \<longleftrightarrow> (\<exists>n. mailbox (db s) (m_ID n) = Some n
      \<and> m = plain_msg E s n \<and> peerKey E (m_Peer n) = peerKey E peer)" for m
    unfolding conversation_def set_map mlog.set_members [OF msgs_invD(1) [OF inv]] mailbox_lookup by auto
  moreover have "inbox E s (m_ID m) = Some m \<longleftrightarrow> (\<exists>n. mailbox (db s) (m_ID n) = Some n \<and> m = plain_msg E s n)" for m
    by (auto simp: inbox_def)
  ultimately show ?thesis by auto
qed

lemma sorted_conversation:
  assumes "box_inv E s"
  shows "sorted_wrt (<) (map m_Seq (conversation E s peer))"
proof -
  have inv: "msgs_inv E (db s)" using assms by (simp add: box_inv_def)
  from mlog.sorted_members [OF msgs_invD(1) [OF inv], of "peerKey E peer"] show ?thesis
    by (simp add: conversation_def comp_def)
qed

text \<open>The cursor walk returns the end of the conversation, oldest first.\<close>

lemma Messages_eq:
  assumes "box_inv E s" "bseq (bMsgs (db s)) < - 1" "nul_free E peer"
    and "\<And>i m. inbox E s i = Some m \<Longrightarrow> nul_free E (m_Peer m)"
  shows "Messages E s peer limit = Inr (let c = conversation E s peer;
      n = nat (if limit \<le> 0 \<or> limit > 1000 then 200 else limit) in drop (length c - n) c)"
proof -
  have inv: "mlog.log_inv E (bMsgs (db s)) (bIdx (db s))"
    using assms(1) msgs_invD(1) by (simp add: box_inv_def)
  have nf: "CHR 0x00 \<notin> set (peerKey E (m_Peer v))" if "mlog.lookup (bMsgs (db s)) (bIdx (db s)) (m_ID v) = Some v" for v
    using assms(4) [of "m_ID v"] that by (simp add: inbox_def mailbox_lookup nul_free_def)
  have dec: "decryptMessage E s v = Inr (plain_msg E s v)"
    if "mlog.lookup (bMsgs (db s)) (bIdx (db s)) (m_ID v) = Some v" for v
    using that assms(1) by (intro decryptMessage_readable) (auto simp: box_inv_def mailbox_lookup)
  let ?g = "mlog.members E (bMsgs (db s)) (peerKey E peer)"
  have "Messages E s peer limit = Inr (drop (length ?g - nat (if limit \<le> 0 \<or> limit > 1000 then 200 else limit))
      (map (plain_msg E s) ?g))"
    unfolding Messages_def Let_def
    by (rule mlog.window [OF inv assms(2) assms(3) [unfolded nul_free_def]]) (erule nf, erule dec)
  then show ?thesis by (simp add: conversation_def Let_def)
qed

lemma sortBySeq_eq: "sortBySeq ms = sort_key m_Seq ms"
  by (simp add: sortBySeq_def slice_sort_eq_sort_key)

text \<open>The pending list: the undelivered outbound messages, in sequence order.\<close>

definition wanted :: "env \<Rightarrow> string \<Rightarrow> message \<Rightarrow> bool" where
  "wanted E peer m \<longleftrightarrow> undelivered m \<and> (peer = [] \<or> EqualFold E (m_Peer m) peer)"

definition out_row :: "db \<Rightarrow> bytes \<times> bytes \<Rightarrow> message" where
  "out_row d e = (case bGet (bMsgs d) (snd e) of None \<Rightarrow> message0 | Some m \<Rightarrow> m)"

lemma out_entry:
  assumes "msgs_inv E d" "e \<in> set (entries (bOutbox d))"
  shows "mailbox d (fst e) = Some (out_row d e)" "undelivered (out_row d e)"
    "bGet (bMsgs d) (snd e) = Some (out_row d e)" "fst e = m_ID (out_row d e)"
proof -
  have "bGet (bOutbox d) (fst e) = Some (snd e)"
    using assms(2) msgs_invD [OF assms(1)] bolt.items_iff [of "bOutbox d" "fst e" "snd e"] by simp
  then obtain m where m: "mailbox d (fst e) = Some m" "undelivered m" "bGet (bIdx d) (fst e) = Some (snd e)"
    using outboxD [OF assms(1), of "fst e"] by (auto split: option.splits if_splits)
  then have "bGet (bMsgs d) (snd e) = Some m" by (auto simp: mailbox_Some)
  with m loadByID_mailbox(2) [OF assms(1) m(1)] show
    "mailbox d (fst e) = Some (out_row d e)" "undelivered (out_row d e)"
    "bGet (bMsgs d) (snd e) = Some (out_row d e)" "fst e = m_ID (out_row d e)"
    by (simp_all add: out_row_def)
qed

lemma out_row_set:
  assumes "msgs_inv E d"
  shows "out_row d ` set (entries (bOutbox d)) = {m. mailbox d (m_ID m) = Some m \<and> undelivered m}"
proof (intro set_eqI iffI)
  fix m
  assume "m \<in> out_row d ` set (entries (bOutbox d))"
  then obtain e where e: "e \<in> set (entries (bOutbox d))" "m = out_row d e" by blast
  with out_entry [OF assms e(1)] show "m \<in> {m. mailbox d (m_ID m) = Some m \<and> undelivered m}" by simp
next
  fix m
  assume "m \<in> {m. mailbox d (m_ID m) = Some m \<and> undelivered m}"
  then have m: "mailbox d (m_ID m) = Some m" "undelivered m" by simp_all
  let ?e = "(m_ID m, msgKey E (m_Peer m) (m_Seq m))"
  have k: "bGet (bIdx d) (m_ID m) = Some (snd ?e)" "bGet (bMsgs d) (snd ?e) = Some m"
    using loadByID_mailbox(1) [OF assms m(1)] by (simp_all add: loadByID_Inr)
  then have "?e \<in> set (entries (bOutbox d))"
    using m outboxD [OF assms, of "m_ID m"] msgs_invD [OF assms] by (simp add: bolt.items_iff)
  moreover have "out_row d ?e = m" using k by (simp add: out_row_def)
  ultimately show "m \<in> out_row d ` set (entries (bOutbox d))" by force
qed

lemma out_row_seqs:
  assumes "msgs_inv E d"
  shows "distinct (map (\<lambda>e. m_Seq (out_row d e)) (entries (bOutbox d)))"
proof -
  have "inj_on (\<lambda>e. m_Seq (out_row d e)) (set (entries (bOutbox d)))"
  proof (rule inj_onI)
    fix e f
    assume a: "e \<in> set (entries (bOutbox d))" "f \<in> set (entries (bOutbox d))"
      "m_Seq (out_row d e) = m_Seq (out_row d f)"
    have "snd e = snd f" by (rule seqsD [OF assms out_entry(3) [OF assms a(1)] out_entry(3) [OF assms a(2)] a(3)])
    moreover from this have "out_row d e = out_row d f" by (simp add: out_row_def)
    then have "fst e = fst f" using out_entry(4) [OF assms] a by simp
    ultimately show "e = f" by (simp add: prod_eq_iff)
  qed
  moreover have "distinct (entries (bOutbox d))"
    using bolt.items_distinct [of "bOutbox d"] msgs_invD [OF assms] by (simp add: distinct_map)
  ultimately show ?thesis by (simp add: distinct_map)
qed

lemma Pending_rows:
  assumes "box_inv E s"
  shows "Pending E s peer = Inr (sort_key m_Seq (map (\<lambda>e. plain_msg E s (out_row (db s) e))
    (filter (\<lambda>e. peer = [] \<or> EqualFold E (m_Peer (out_row (db s) e)) peer) (entries (bOutbox (db s))))))"
proof -
  have inv: "msgs_inv E (db s)" using assms by (simp add: box_inv_def)
  let ?r = "out_row (db s)"
  let ?f = "\<lambda>e. if peer = [] \<or> EqualFold E (m_Peer (?r e)) peer then [plain_msg E s (?r e)] else []"
  have "mapR (\<lambda>(_, k). case bGet (bMsgs (db s)) k of
         None \<Rightarrow> Inr []
       | Some m \<Rightarrow> bindR (decryptMessage E s m) (\<lambda>m.
           Inr (if peer = [] \<or> EqualFold E (m_Peer m) peer then [m] else []))) (entries (bOutbox (db s)))
    = Inr (map ?f (entries (bOutbox (db s))))"
  proof (rule mapR_all_Inr, goal_cases)
    case (1 e)
    note e = out_entry [OF inv 1]
    have "readable E s (?r e)" using assms e(1) unfolding box_inv_def by blast
    with e(3) show ?case by (simp add: case_prod_beta decryptMessage_readable)
  qed
  moreover have "concat (map ?f es) = map (\<lambda>e. plain_msg E s (?r e))
      (filter (\<lambda>e. peer = [] \<or> EqualFold E (m_Peer (?r e)) peer) es)" for es
    by (induction es) auto
  ultimately show ?thesis by (simp add: Pending_def sortBySeq_eq)
qed

lemma Pending_eq:
  assumes "box_inv E s"
  obtains ps where "Pending E s peer = Inr ps" "sorted_wrt (<) (map m_Seq ps)"
    "set ps = {m. inbox E s (m_ID m) = Some m \<and> wanted E peer m}"
proof -
  have inv: "msgs_inv E (db s)" using assms by (simp add: box_inv_def)
  let ?r = "out_row (db s)" and ?es = "entries (bOutbox (db s))"
  let ?fs = "filter (\<lambda>e. peer = [] \<or> EqualFold E (m_Peer (?r e)) peer) ?es"
  let ?ps = "map (\<lambda>e. plain_msg E s (?r e)) ?fs"
  have "distinct (map m_Seq ?ps)"
    using distinct_map_filter [OF out_row_seqs [OF inv]] by (simp add: comp_def)
  then have "sorted_wrt (<) (map m_Seq (sort_key m_Seq ?ps))" by (rule sort_key_strict)
  moreover have "m \<in> set ?ps \<longleftrightarrow> inbox E s (m_ID m) = Some m \<and> wanted E peer m" for m
  proof -
    have "m \<in> set ?ps \<longleftrightarrow> (\<exists>n. n \<in> ?r ` set ?es \<and> (peer = [] \<or> EqualFold E (m_Peer n) peer)
        \<and> m = plain_msg E s n)" by auto
    also have "\<dots> \<longleftrightarrow> inbox E s (m_ID m) = Some m \<and> wanted E peer m"
      unfolding out_row_set [OF inv] mem_Collect_eq
    proof
      assume "\<exists>n. (mailbox (db s) (m_ID n) = Some n \<and> undelivered n)
        \<and> (peer = [] \<or> EqualFold E (m_Peer n) peer) \<and> m = plain_msg E s n"
      then show "inbox E s (m_ID m) = Some m \<and> wanted E peer m"
        by (elim exE conjE) (simp add: inbox_def wanted_def)
    next
      assume a: "inbox E s (m_ID m) = Some m \<and> wanted E peer m"
      then obtain n where n: "mailbox (db s) (m_ID m) = Some n" "m = plain_msg E s n"
        using inbox_SomeD by blast
      with a show "\<exists>n. (mailbox (db s) (m_ID n) = Some n \<and> undelivered n)
        \<and> (peer = [] \<or> EqualFold E (m_Peer n) peer) \<and> m = plain_msg E s n"
        by (intro exI [of _ n]) (simp add: wanted_def)
    qed
    finally show ?thesis .
  qed
  ultimately show thesis using that [OF Pending_rows [OF assms]] by auto
qed

end
