(* ===== verification/Store_Mail.thy ===== *)
theory Store_Mail
  imports Store_Messages
begin

text \<open>
  Package \<open>internal/store\<close>, part 4: what the message store promises. Arbitrary sequences of the
  writing operations keep its invariant and never lose a queued message; and the functional
  properties of each operation.
\<close>

section \<open>Sequences of operations\<close>

text \<open>
  Every writing operation on messages as one step, in any order: from the handlers of incoming
  frames (\<open>Add\<close>, \<open>Ack\<close>), the flush loop (\<open>Attempt\<close>), the janitor (\<open>PruneOld\<close>) and the user.
\<close>

datatype mail_op =
    Add rnd message
  | Ack string string        \<comment> \<open>peer, message id\<close>
  | Attempt string gotime
  | PruneOld gotime
  | Cancel string
  | Remove string
  | Forget string
  | RemoveAll

fun mail_apply :: "env \<Rightarrow> mail_op \<Rightarrow> store \<Rightarrow> store" where
  "mail_apply E (Add r m) s = fst (AddMessage E r s m)"
| "mail_apply E (Ack peer i) s = fst (MarkDelivered E s peer i)"
| "mail_apply E (Attempt i now) s = fst (RecordAttempt E s i now)"
| "mail_apply E (PruneOld cutoff) s = fst (Prune s cutoff)"
| "mail_apply E (Cancel i) s = fst (DeleteFromOutbox s i)"
| "mail_apply E (Remove i) s = fst (DeleteMessage s i)"
| "mail_apply E (Forget name) s = fst (ForgetPeer E s name)"
| "mail_apply E RemoveAll s = fst (DeleteAllMessages s)"

fun op_ok :: "mail_op \<Rightarrow> bool" where
  "op_ok (Add r m) = nonce_ok r"
| "op_ok _ = True"

text \<open>The steps that may take message \<open>i\<close>, sent to \<open>peer\<close>, out of the outbox.\<close>

fun releases :: "env \<Rightarrow> string \<Rightarrow> string \<Rightarrow> mail_op \<Rightarrow> bool" where
  "releases E i peer (Ack p j) \<longleftrightarrow> j = i \<and> EqualFold E peer p"
| "releases E i peer (Cancel j) \<longleftrightarrow> j = i"
| "releases E i peer (Remove j) \<longleftrightarrow> j = i"
| "releases E i peer (Forget name) \<longleftrightarrow> EqualFold E peer name"
| "releases E i peer RemoveAll \<longleftrightarrow> True"
| "releases E i peer _ \<longleftrightarrow> False"

abbreviation mail_seq :: "store \<Rightarrow> 64 word" where
  "mail_seq s \<equiv> bseq (bMsgs (db s))"

lemma DeleteMessage_cases:
  assumes "box_inv E s"
  obtains "inbox E s i = None" "DeleteMessage s i = (s, Inl ErrNotFound)"
  | m s' where "inbox E s i = Some m" "DeleteMessage s i = (s', Inr ())" "box_inv E s'"
      "inbox E s' = (inbox E s)(i := None)" "mail_seq s' = mail_seq s"
proof (cases "inbox E s i")
  case None
  have "DeleteMessage s i = (s, Inl ErrNotFound)"
    using None by (simp add: inbox_def DeleteMessage_def dbUpdate_def loadByID_None)
  with None show ?thesis by (rule that(1))
next
  case (Some m)
  have "mail_seq (fst (DeleteMessage s i)) = mail_seq s"
    by (auto simp: DeleteMessage_def dbUpdate_def split: sum.split)
  moreover obtain s' where "DeleteMessage s i = (s', Inr ())" "box_inv E s'"
    "inbox E s' = (inbox E s)(i := None)" by (rule DeleteMessage_some [OF assms Some])
  ultimately show ?thesis using Some by (intro that(2) [of m s']) simp_all
qed

lemma MarkDelivered_cases:
  assumes "box_inv E s"
  obtains "fst (MarkDelivered E s peer i) = s" "\<nexists>m. inbox E s i = Some m \<and> undelivered m \<and> EqualFold E (m_Peer m) peer"
  | m s' where "inbox E s i = Some m" "undelivered m" "EqualFold E (m_Peer m) peer"
      "fst (MarkDelivered E s peer i) = s'" "box_inv E s'"
      "inbox E s' = (inbox E s)(i \<mapsto> m\<lparr>m_Status := StatusDelivered\<rparr>)" "mail_seq s' = mail_seq s"
proof (cases "inbox E s i")
  case None
  then show ?thesis using that(1) by (simp add: MarkDelivered_none)
next
  case (Some m)
  show ?thesis
  proof (cases "undelivered m \<and> EqualFold E (m_Peer m) peer")
    case True
    then have u: "undelivered m" "EqualFold E (m_Peer m) peer" by simp_all
    obtain s' where "MarkDelivered E s peer i = (s', Inr (m\<lparr>m_Status := StatusDelivered\<rparr>, True))"
      "box_inv E s'" "inbox E s' = (inbox E s)(i \<mapsto> m\<lparr>m_Status := StatusDelivered\<rparr>)"
      "mail_seq s' = mail_seq s" by (rule MarkDelivered_first [OF assms Some u])
    then show ?thesis using u Some by (intro that(2) [of m s']) simp_all
  next
    case False
    then show ?thesis
      using MarkDelivered_foreign [OF assms Some, of peer] MarkDelivered_again [OF assms Some, of peer]
        Some by (intro that(1)) (auto, fastforce)
  qed
qed

text \<open>One step keeps the invariant, moves the counter by at most one, and keeps a queued message.\<close>

lemma mail_apply_step:
  assumes "box_inv E s" "op_ok x" "mail_seq s < - 1"
  shows "box_inv E (mail_apply E x s)"
    and "mail_seq (mail_apply E x s) \<le> mail_seq s + 1"
    and "\<lbrakk>inbox E s i = Some m; undelivered m; \<not> releases E i (m_Peer m) x\<rbrakk> \<Longrightarrow>
      \<exists>m'. inbox E (mail_apply E x s) i = Some m' \<and> undelivered m' \<and> m_Peer m' = m_Peer m
        \<and> m_Body m' = m_Body m \<and> m_Seq m' = m_Seq m"
proof -
  have le: "mail_seq s \<le> mail_seq s + 1" using word_less_inc [OF assms(3)] by simp
  have "box_inv E (mail_apply E x s) \<and> mail_seq (mail_apply E x s) \<le> mail_seq s + 1
    \<and> (inbox E s i = Some m \<longrightarrow> undelivered m \<longrightarrow> \<not> releases E i (m_Peer m) x \<longrightarrow>
      (\<exists>m'. inbox E (mail_apply E x s) i = Some m' \<and> undelivered m' \<and> m_Peer m' = m_Peer m
        \<and> m_Body m' = m_Body m \<and> m_Seq m' = m_Seq m))"
  proof (cases x)
    case (Add r n)
    then have "nonce_ok r" using assms(2) by simp
    from assms(1) this assms(3) show ?thesis
      by (cases rule: AddMessage_cases [where m = n]) (use assms(1) Add le in auto)
  next
    case (Ack p j)
    from assms(1) show ?thesis
      by (cases rule: MarkDelivered_cases [where peer = p and i = j]) (use assms(1) Ack le in auto)
  next
    case (Attempt j t)
    show ?thesis
    proof (cases "inbox E s j")
      case None
      then show ?thesis using Attempt assms le by (simp add: RecordAttempt_none)
    next
      case (Some n)
      obtain s' where "RecordAttempt E s j t = (s', Inr (n\<lparr>m_Attempts := m_Attempts n + 1, m_LastTry := t\<rparr>))"
        "box_inv E s'" "inbox E s' = (inbox E s)(j \<mapsto> n\<lparr>m_Attempts := m_Attempts n + 1, m_LastTry := t\<rparr>)"
        "mail_seq s' = mail_seq s"
        by (rule RecordAttempt_some [OF assms(1) Some refl])
      with Attempt Some le show ?thesis by auto
    qed
  next
    case (PruneOld t)
    have "mail_seq (mail_apply E x s) = mail_seq s" by (simp add: PruneOld Prune_def dbUpdate_def)
    with PruneOld Prune_inbox [OF assms(1)] le show ?thesis by (simp add: prunable_def)
  next
    case (Cancel j)
    have sp: "DeleteFromOutbox s j = (case mailbox (db s) j of None \<Rightarrow> (s, Inl ErrNotFound)
       | Some m \<Rightarrow> if undelivered m then DeleteMessage s j else (s, Inl ErrNotFound))"
      using DeleteFromOutbox_spec assms(1) unfolding box_inv_def by blast
    from assms(1) show ?thesis
      by (cases rule: DeleteMessage_cases [where i = j])
        (use assms(1) Cancel le sp in \<open>auto split: option.splits if_splits\<close>)
  next
    case (Remove j)
    from assms(1) show ?thesis
      by (cases rule: DeleteMessage_cases [where i = j]) (use assms(1) Remove le in auto)
  next
    case (Forget p)
    show ?thesis
    proof (cases "getPeer E (db s) p")
      case (Inl e)
      then show ?thesis using Forget assms(1) le by (simp add: ForgetPeer_def dbUpdate_def)
    next
      case (Inr q)
      have "mail_seq (mail_apply E x s) = mail_seq s"
        using Inr by (simp add: Forget ForgetPeer_def dbUpdate_def Let_def)
      with Forget ForgetPeer_inbox [OF assms(1) Inr] le show ?thesis by simp
    qed
  next
    case RemoveAll
    have "mail_seq (mail_apply E x s) = mail_seq s" by (simp add: RemoveAll DeleteAllMessages_def dbUpdate_def)
    with RemoveAll DeleteAllMessages_inbox [OF assms(1)] le show ?thesis by simp
  qed
  then show "box_inv E (mail_apply E x s)" "mail_seq (mail_apply E x s) \<le> mail_seq s + 1"
    "\<lbrakk>inbox E s i = Some m; undelivered m; \<not> releases E i (m_Peer m) x\<rbrakk> \<Longrightarrow>
      \<exists>m'. inbox E (mail_apply E x s) i = Some m' \<and> undelivered m' \<and> m_Peer m' = m_Peer m
        \<and> m_Body m' = m_Body m \<and> m_Seq m' = m_Seq m" by blast+
qed

lemma unat_inc_le: "\<lbrakk>w \<le> v + 1; unat (v :: 64 word) + Suc n < 2 ^ 64\<rbrakk> \<Longrightarrow> unat w + n < 2 ^ 64"
proof -
  assume a: "w \<le> v + 1" "unat v + Suc n < 2 ^ 64"
  then have "unat (v + 1) = unat v + 1" by (simp add: unat_word_ariths(1))
  with a(1) have "unat w \<le> unat v + 1" by (simp add: word_le_nat_alt)
  with a(2) show ?thesis by simp
qed

lemma less_max_unat: "unat (v :: 64 word) + 1 < 2 ^ 64 \<Longrightarrow> v < - 1"
  by (simp add: word_less_nat_alt unsigned_minus_1_eq_mask mask_eq_exp_minus_1)

lemma mail_run:
  assumes "box_inv E s" "\<forall>x \<in> set xs. op_ok x" "unat (mail_seq s) + length xs < 2 ^ 64 - 1"
    "inbox E s i = Some m" "undelivered m" "\<forall>x \<in> set xs. \<not> releases E i (m_Peer m) x"
  shows "box_inv E (fold (mail_apply E) xs s) \<and>
    (\<exists>m'. inbox E (fold (mail_apply E) xs s) i = Some m' \<and> undelivered m' \<and> m_Peer m' = m_Peer m
      \<and> m_Body m' = m_Body m \<and> m_Seq m' = m_Seq m)"
  using assms
proof (induction xs arbitrary: s m)
  case Nil
  then show ?case by auto
next
  case (Cons x xs)
  have lt: "mail_seq s < - 1" using Cons.prems(3) by (intro less_max_unat) simp
  have x: "op_ok x" "\<not> releases E i (m_Peer m) x" using Cons.prems by simp_all
  note step = mail_apply_step [OF Cons.prems(1) x(1) lt]
  obtain m1 where m1: "inbox E (mail_apply E x s) i = Some m1" "undelivered m1" "m_Peer m1 = m_Peer m"
      "m_Body m1 = m_Body m" "m_Seq m1 = m_Seq m"
    using step(3) [OF Cons.prems(4,5) x(2)] by blast
  have "unat (mail_seq (mail_apply E x s)) + (length xs + 1) < 2 ^ 64"
    by (rule unat_inc_le [OF step(2)]) (use Cons.prems(3) in simp)
  then have "unat (mail_seq (mail_apply E x s)) + length xs < 2 ^ 64 - 1" by simp
  with Cons.IH [OF step(1) _ _ m1(1,2)] Cons.prems(2,6) m1 show ?case by simp
qed

section \<open>Counting what is pruned\<close>

lemma card_rows:
  assumes "box_inv E s" "\<And>m. pred (plain_msg E s m) = pred m"
  shows "length (filter (\<lambda>(_, m). pred m) (entries (bMsgs (db s))))
    = card {i. \<exists>m. inbox E s i = Some m \<and> pred m}"
proof -
  have inv: "msgs_inv E (db s)" using assms by (simp add: box_inv_def)
  let ?rs = "filter (\<lambda>(_, m). pred m) (entries (bMsgs (db s)))"
  have mb: "mailbox (db s) (m_ID (snd e)) = Some (snd e)" "fst e = msgKey E (m_Peer (snd e)) (m_Seq (snd e))"
    if "e \<in> set ?rs" for e
    using that entries_row [OF inv, of "fst e" "snd e"] by auto
  have "inj_on (\<lambda>e. m_ID (snd e)) (set ?rs)"
  proof (rule inj_onI)
    fix e f
    assume a: "e \<in> set ?rs" "f \<in> set ?rs" "m_ID (snd e) = m_ID (snd f)"
    then have "snd e = snd f" using mb(1) [OF a(1)] mb(1) [OF a(2)] by (metis option.inject)
    with mb(2) [OF a(1)] mb(2) [OF a(2)] show "e = f" by (simp add: prod_eq_iff)
  qed
  moreover have "distinct (entries (bMsgs (db s)))"
    using bolt.items_distinct [of "bMsgs (db s)"] msgs_invD [OF inv] by (simp add: distinct_map)
  ultimately have "length ?rs = card ((\<lambda>e. m_ID (snd e)) ` set ?rs)"
    by (metis card_image distinct_card distinct_filter)
  also have "(\<lambda>e. m_ID (snd e)) ` set ?rs = {i. \<exists>m. inbox E s i = Some m \<and> pred m}"
  proof (intro set_eqI iffI)
    fix i
    assume "i \<in> (\<lambda>e. m_ID (snd e)) ` set ?rs"
    then obtain e where e: "e \<in> set ?rs" "i = m_ID (snd e)" by blast
    moreover have "pred (snd e)" using e by auto
    ultimately show "i \<in> {i. \<exists>m. inbox E s i = Some m \<and> pred m}"
      using mb(1) [OF e(1)] assms(2) by (simp add: inbox_def)
  next
    fix i
    assume "i \<in> {i. \<exists>m. inbox E s i = Some m \<and> pred m}"
    then obtain m where m: "mailbox (db s) i = Some m" "pred m" using assms(2) by (auto simp: inbox_def)
    moreover have i: "m_ID m = i" using loadByID_mailbox(2) [OF inv m(1)] .
    ultimately have "(msgKey E (m_Peer m) (m_Seq m), m) \<in> set ?rs" using entries_row [OF inv] by auto
    with i show "i \<in> (\<lambda>e. m_ID (snd e)) ` set ?rs" by force
  qed
  finally show ?thesis .
qed

section \<open>A concrete store\<close>

definition sample_msg :: message where
  "sample_msg = \<lparr>m_ID = ''id1'', m_Peer = ''Bob'', m_Dir = DirOut, m_Body = ''hello'', m_TS = 5,
     m_Status = StatusQueued, m_Attempts = 0, m_LastTry = time_zero, m_Seq = 0, m_ReplyTo = []\<rparr>"

definition sample_box :: store where
  "sample_box = fst (AddMessage sample_env sample_nonce sample_store sample_msg)"

lemma sample_store_box: "box_inv sample_env sample_store" "mail_seq sample_store = 0"
  "inbox sample_env sample_store i = None"
proof -
  have d: "db sample_store = empty_db" by (simp add: sample_store_def)
  show "box_inv sample_env sample_store" by (rule box_inv_empty [OF sample_env_ok(1) sample_store_ok(2) d])
  show "mail_seq sample_store = 0" by (simp add: d) (simp add: empty_db_def empty_bucket_def)
  show "inbox sample_env sample_store i = None" by (simp add: d inbox_def mailbox_empty)
qed

lemma sample_box:
  "box_inv sample_env sample_box" "mail_seq sample_box = 1"
  "inbox sample_env sample_box = [''id1'' \<mapsto> sample_msg\<lparr>m_Seq := 1\<rparr>]"
proof -
  have lt: "mail_seq sample_store < - 1" by (intro less_max_unat) (simp add: sample_store_box)
  have none: "inbox sample_env sample_store = Map.empty" by (simp add: fun_eq_iff sample_store_box)
  from sample_store_box(1) sample_nonce_ok lt
  have "box_inv sample_env sample_box \<and> mail_seq sample_box = 1
    \<and> inbox sample_env sample_box = [''id1'' \<mapsto> sample_msg\<lparr>m_Seq := 1\<rparr>]"
  proof (cases rule: AddMessage_cases [where m = sample_msg])
    case (dup m')
    then show ?thesis by (simp add: sample_store_box)
  next
    case (new s')
    then show ?thesis by (simp add: sample_box_def sample_store_box(2) none) (simp add: sample_msg_def)
  qed
  then show "box_inv sample_env sample_box" "mail_seq sample_box = 1"
    "inbox sample_env sample_box = [''id1'' \<mapsto> sample_msg\<lparr>m_Seq := 1\<rparr>]" by blast+
qed

lemma peerKey_Bob: "peerKey sample_env ''Bob'' = ''bob''"
  by (simp add: peerKey_def TrimSpace_def IsSpace_def ToLower_def ascii_lower_def char_of_eq_of_char)

section \<open>Properties\<close>

text \<open>
  Storing a message either recognises its id, stores nothing and reports a duplicate, or
  appends it under the next sequence number; the mailbox changes at that id only and the
  encrypted body reads back as the body given.
\<close>

theorem AddMessage_effect:
  assumes "box_inv E s" "nonce_ok r" "mail_seq s < - 1"
  shows "case inbox E s (m_ID m) of
      Some _ \<Rightarrow> AddMessage E r s m = (s, Inr (message0, True))
    | None \<Rightarrow> snd (AddMessage E r s m) = Inr (m\<lparr>m_Seq := mail_seq s + 1\<rparr>, False)
        \<and> inbox E (fst (AddMessage E r s m)) = (inbox E s)(m_ID m \<mapsto> m\<lparr>m_Seq := mail_seq s + 1\<rparr>)
        \<and> box_inv E (fst (AddMessage E r s m))"
  using assms by (cases rule: AddMessage_cases [where m = m]) simp_all

theorem AddMessage_effect_witness:
  "AddMessage sample_env sample_nonce sample_box (sample_msg\<lparr>m_Body := ''again''\<rparr>)
     = (sample_box, Inr (message0, True))"
proof -
  have "mail_seq sample_box < - 1" by (intro less_max_unat) (simp add: sample_box)
  from AddMessage_effect [OF sample_box(1) sample_nonce_ok this, of "sample_msg\<lparr>m_Body := ''again''\<rparr>"]
  show ?thesis by (simp add: sample_box(3)) (simp add: sample_msg_def)
qed

text \<open>
  Exactly-once display: whatever happened on the first delivery, a second message with the
  same id (any body, any nonce) is reported as a duplicate and leaves the store unchanged.
\<close>

theorem redelivery_is_noop:
  assumes "box_inv E s" "nonce_ok r" "nonce_ok r'" "mail_seq s < - 1" "m_ID m' = m_ID m"
  shows "AddMessage E r' (fst (AddMessage E r s m)) m' = (fst (AddMessage E r s m), Inr (message0, True))"
  using assms(1,2,4)
proof (cases rule: AddMessage_cases [where m = m])
  case (dup m1)
  then show ?thesis using AddMessage_dup [OF assms(1,3), of m'] assms(5) by simp
next
  case (new s')
  then show ?thesis using AddMessage_dup [OF new(3) assms(3), of m'] assms(5) by simp
qed

theorem redelivery_is_noop_witness:
  "AddMessage sample_env sample_nonce (fst (AddMessage sample_env sample_nonce sample_store sample_msg))
     (sample_msg\<lparr>m_Body := ''x''\<rparr>)
   = (fst (AddMessage sample_env sample_nonce sample_store sample_msg), Inr (message0, True))"
  by (rule redelivery_is_noop [OF sample_store_box(1) sample_nonce_ok sample_nonce_ok])
    (intro less_max_unat, simp_all add: sample_store_box)

text \<open>
  An acknowledgement changes a message to delivered exactly when it is a queued outbound
  message to the acknowledging peer; from anyone else, for an unknown id or for an inbound
  message it is refused, and a repeated one changes nothing.
\<close>

theorem MarkDelivered_effect:
  assumes "box_inv E s"
  shows "case inbox E s i of
      None \<Rightarrow> MarkDelivered E s peer i = (s, Inl ErrNotFound)
    | Some m \<Rightarrow>
        if m_Dir m \<noteq> DirOut \<or> \<not> EqualFold E (m_Peer m) peer
        then MarkDelivered E s peer i = (s, Inl ErrNotFound)
        else if m_Status m = StatusDelivered then MarkDelivered E s peer i = (s, Inr (m, False))
        else snd (MarkDelivered E s peer i) = Inr (m\<lparr>m_Status := StatusDelivered\<rparr>, True)
          \<and> inbox E (fst (MarkDelivered E s peer i)) = (inbox E s)(i \<mapsto> m\<lparr>m_Status := StatusDelivered\<rparr>)
          \<and> box_inv E (fst (MarkDelivered E s peer i))"
proof (cases "inbox E s i")
  case None
  then show ?thesis by (simp add: MarkDelivered_none)
next
  case (Some m)
  show ?thesis
  proof (cases "undelivered m \<and> EqualFold E (m_Peer m) peer")
    case True
    then have u: "undelivered m" "EqualFold E (m_Peer m) peer" by simp_all
    obtain s' where "MarkDelivered E s peer i = (s', Inr (m\<lparr>m_Status := StatusDelivered\<rparr>, True))"
      "box_inv E s'" "inbox E s' = (inbox E s)(i \<mapsto> m\<lparr>m_Status := StatusDelivered\<rparr>)"
      by (rule MarkDelivered_first [OF assms Some u])
    with u Some show ?thesis by simp
  next
    case False
    with MarkDelivered_foreign [OF assms Some, of peer] MarkDelivered_again [OF assms Some, of peer] Some
    show ?thesis by auto
  qed
qed

theorem MarkDelivered_effect_witness:
  "MarkDelivered sample_env sample_box ''Eve'' ''id1'' = (sample_box, Inl ErrNotFound)"
proof -
  have "\<not> EqualFold sample_env ''Bob'' ''Eve''"
    by (simp add: EqualFold_def runes_ascii rune_EqualFold_def ascii_lower_def)
  then show ?thesis
    using MarkDelivered_effect [OF sample_box(1), where i = "''id1''" and peer = "''Eve''"]
    by (simp add: sample_box(3)) (simp add: sample_msg_def)
qed

text \<open>
  C1. A queued message is never lost: after any sequence of store operations in which it is
  neither acknowledged by its peer nor deleted by the user, it is still queued, with its body,
  peer and position unchanged; pruning and re-deliveries in particular never remove it.
\<close>

theorem queued_message_never_lost:
  assumes "box_inv E s" "\<forall>x \<in> set xs. op_ok x" "unat (mail_seq s) + length xs < 2 ^ 64 - 1"
    "inbox E s i = Some m" "undelivered m" "\<forall>x \<in> set xs. \<not> releases E i (m_Peer m) x"
  shows "box_inv E (fold (mail_apply E) xs s) \<and>
    (\<exists>m'. inbox E (fold (mail_apply E) xs s) i = Some m' \<and> undelivered m' \<and> m_Peer m' = m_Peer m
      \<and> m_Body m' = m_Body m \<and> m_Seq m' = m_Seq m)"
  by (rule mail_run [OF assms])

theorem queued_message_never_lost_witness:
  "\<exists>m'. inbox sample_env (fold (mail_apply sample_env)
      [PruneOld 1000, Attempt ''id1'' 7, Remove ''id2'', Add sample_nonce sample_msg] sample_box) ''id1''
     = Some m' \<and> m_Body m' = ''hello''"
proof -
  let ?xs = "[PruneOld 1000, Attempt ''id1'' 7, Remove ''id2'', Add sample_nonce sample_msg]"
  have "box_inv sample_env (fold (mail_apply sample_env) ?xs sample_box) \<and>
    (\<exists>m'. inbox sample_env (fold (mail_apply sample_env) ?xs sample_box) ''id1'' = Some m' \<and> undelivered m'
      \<and> m_Peer m' = m_Peer (sample_msg\<lparr>m_Seq := 1\<rparr>) \<and> m_Body m' = m_Body (sample_msg\<lparr>m_Seq := 1\<rparr>)
      \<and> m_Seq m' = m_Seq (sample_msg\<lparr>m_Seq := 1\<rparr>))"
    by (rule queued_message_never_lost [OF sample_box(1)])
      (simp_all add: sample_box, simp_all add: sample_msg_def)
  then show ?thesis by (auto simp: sample_msg_def)
qed

text \<open>
  The pending list for a peer is exactly its undelivered outbound messages, each once,
  strictly in the order they were written.
\<close>

theorem Pending_exact:
  assumes "box_inv E s"
  shows "\<exists>ps. Pending E s peer = Inr ps \<and> sorted_wrt (<) (map m_Seq ps)
    \<and> set ps = {m. inbox E s (m_ID m) = Some m \<and> wanted E peer m}"
  by (rule Pending_eq [OF assms]) blast

theorem Pending_exact_witness:
  "\<exists>ps. Pending sample_env sample_box [] = Inr ps \<and> set ps = {sample_msg\<lparr>m_Seq := 1\<rparr>}"
proof -
  obtain ps where ps: "Pending sample_env sample_box [] = Inr ps"
    "set ps = {m. inbox sample_env sample_box (m_ID m) = Some m \<and> wanted sample_env [] m}"
    using Pending_exact [OF sample_box(1), of "[]"] by blast
  have "m \<in> set ps \<longleftrightarrow> m = sample_msg\<lparr>m_Seq := 1\<rparr>" for m
    unfolding ps(2) by (auto simp: sample_box(3) wanted_def split: if_splits) (simp_all add: sample_msg_def)
  with ps(1) show ?thesis by blast
qed

text \<open>
  C34. The message window of a peer: the cursor walk from the end of the peer's key range returns
  the last \<open>limit\<close> messages (200 when the limit is out of 1..1000) of that peer's conversation,
  oldest first, all bodies decrypted.
\<close>

theorem Messages_window:
  assumes "box_inv E s" "mail_seq s < - 1" "nul_free E peer"
    and "\<forall>i m. inbox E s i = Some m \<longrightarrow> nul_free E (m_Peer m)"
  shows "\<exists>c. sorted_wrt (<) (map m_Seq c)
    \<and> set c = {m. peerKey E (m_Peer m) = peerKey E peer \<and> inbox E s (m_ID m) = Some m}
    \<and> Messages E s peer limit
        = Inr (drop (length c - nat (if limit \<le> 0 \<or> limit > 1000 then 200 else limit)) c)"
  using Messages_eq [OF assms(1,2,3)] assms(4) sorted_conversation [OF assms(1)]
    set_conversation [OF assms(1)] by (metis (no_types, lifting))

theorem Messages_window_witness:
  "Messages sample_env sample_box ''bob'' 1 = Inr [sample_msg\<lparr>m_Seq := 1\<rparr>]"
proof -
  let ?m = "sample_msg\<lparr>m_Seq := 1\<rparr>"
  have k: "peerKey sample_env ''bob'' = ''bob''"
    by (simp add: peerKey_def TrimSpace_def IsSpace_def ToLower_def ascii_lower_def char_of_eq_of_char)
  have p: "m_Peer ?m = ''Bob''" "m_ID ?m = ''id1''" by (simp_all add: sample_msg_def)
  have lt: "mail_seq sample_box < - 1" by (intro less_max_unat) (simp add: sample_box)
  have nf: "nul_free sample_env ''bob''" by (simp add: nul_free_def k)
  have "\<forall>i m. inbox sample_env sample_box i = Some m \<longrightarrow> nul_free sample_env (m_Peer m)"
    using p by (auto simp: sample_box(3) nul_free_def peerKey_Bob split: if_splits)
  from Messages_window [OF sample_box(1) lt nf this, of 1]
  obtain c where c: "sorted_wrt (<) (map m_Seq c)"
    "set c = {m. peerKey sample_env (m_Peer m) = peerKey sample_env ''bob'' \<and> inbox sample_env sample_box (m_ID m) = Some m}"
    "Messages sample_env sample_box ''bob'' 1 = Inr (drop (length c - 1) c)"
    by auto
  have "set c = {?m}" unfolding c(2) using p by (auto simp: sample_box(3) k peerKey_Bob split: if_splits)
  moreover have "distinct c" using c(1) by (simp add: strict_sorted_iff distinct_map)
  ultimately have "c = [?m]" by (cases c) (auto dest: subset_singletonD)
  with c(3) show ?thesis by simp
qed

text \<open>
  Pruning removes exactly the messages older than the cutoff that are not waiting for
  delivery, returns how many it removed, and keeps every other message.
\<close>

theorem Prune_effect:
  assumes "box_inv E s"
  shows "snd (Prune s cutoff) = Inr (int (card {i. \<exists>m. inbox E s i = Some m \<and> prunable cutoff m}))
    \<and> box_inv E (fst (Prune s cutoff))
    \<and> (\<forall>i. inbox E (fst (Prune s cutoff)) i = (case inbox E s i of None \<Rightarrow> None
        | Some m \<Rightarrow> if \<not> undelivered m \<and> m_TS m < cutoff then None else Some m))"
  using Prune_inbox [OF assms] card_rows [OF assms, of "prunable cutoff"]
  by (auto simp: Prune_def dbUpdate_def prunable_def split: option.split)

theorem Prune_effect_witness:
  "inbox sample_env (fst (Prune sample_box 1000)) ''id1'' = Some (sample_msg\<lparr>m_Seq := 1\<rparr>)"
  using Prune_effect [OF sample_box(1), of 1000] by (simp add: sample_box(3)) (simp add: sample_msg_def)

text \<open>
  Forgetting a pinned peer removes the pin and exactly the messages whose peer name folds to
  the name given.
\<close>

theorem ForgetPeer_effect:
  assumes "box_inv E s" "getPeer E (db s) name = Inr p"
  shows "trust_of E (fst (ForgetPeer E s name)) name = Unknown \<and> box_inv E (fst (ForgetPeer E s name))
    \<and> (\<forall>i. inbox E (fst (ForgetPeer E s name)) i = (case inbox E s i of None \<Rightarrow> None
        | Some m \<Rightarrow> if EqualFold E (m_Peer m) name then None else Some m))"
  using ForgetPeer_inbox [OF assms] by simp

lemma getPeer_observed:
  assumes "trust_inv E s" "observation_ok x"
  shows "\<exists>p. getPeer E (db (fst (observe_step E s name x))) name = Inr p"
  using assms by (rule observe_step_put [where name = name]) (auto simp: getPeer_def putPeer_def)

lemma box_inv_observed:
  assumes "box_inv E s" "trust_inv E s" "observation_ok x"
  shows "box_inv E (fst (observe_step E s name x))"
  using assms(2,3)
proof (rule observe_step_put [where name = name])
  fix p b
  assume "observe_step E s name x = (s\<lparr>db := putPeer E (db s) p\<rparr>, b)"
  with assms(1) box_inv_bPeers(1) [where s = s and d = "db s"] show ?thesis by (simp add: putPeer_def)
qed

theorem ForgetPeer_effect_witness:
  "trust_of sample_env (fst (ForgetPeer sample_env
     (fst (observe_step sample_env sample_store ''Bob'' (sample_nonce, ''key'', 1))) ''Bob'')) ''Bob'' = Unknown"
proof -
  have ok: "observation_ok (sample_nonce, ''key'', 1)"
    by (rule sample_observation) (simp add: IsEncrypted_def magic_def)
  obtain p where "getPeer sample_env (db (fst (observe_step sample_env sample_store ''Bob''
      (sample_nonce, ''key'', 1)))) ''Bob'' = Inr p"
    using getPeer_observed [OF sample_store_ok(1) ok] by blast
  from ForgetPeer_effect [OF box_inv_observed [OF sample_store_box(1) sample_store_ok(1) ok] this]
  show ?thesis by simp
qed

section \<open>Search\<close>

text \<open>
  The snippet bounds are computed in the lower-cased body and used on the body itself. As long
  as lower-casing keeps the length (every ASCII body) the slice is in range.
\<close>

lemma length_ToLower_ascii: "is_ascii s \<Longrightarrow> length (ToLower E s) = length s"
  by (simp add: ToLower_def list_all_iff)

lemma search_snippet_total:
  assumes "length (ToLower E body) = length body"
  shows "\<exists>sn. search_snippet E body query = Inr sn"
proof (cases "strings_Index (ToLower E body) query")
  case None
  then show ?thesis by (simp add: search_snippet_def)
next
  case (Some ix)
  then have "ix + length query \<le> length body"
    using strings_Index_Some [OF Some] assms by (auto simp: prefix_def dest!: arg_cong [where f = length])
  then show ?thesis by (simp add: search_snippet_def Some go_slice_def Let_def)
qed

text \<open>
  Searching never panics on messages whose bodies lower-case to the same length.
\<close>

theorem search_rows_no_panic:
  assumes "\<forall>m \<in> set ms. \<exists>b. decryptString E s (m_Body m) = Inr b \<and> length (ToLower E b) = length b"
  shows "\<exists>rs. search_rows E s query limit ms out = Inr rs"
  using assms
proof (induction ms arbitrary: out)
  case Nil
  then show ?case by simp
next
  case (Cons m ms)
  then obtain b where b: "decryptString E s (m_Body m) = Inr b" "length (ToLower E b) = length b"
    by auto
  obtain sn where "search_snippet E b query = Inr sn" using search_snippet_total [OF b(2)] by blast
  with b Cons show ?case by (simp add: decryptMessage_def wrap_err_def)
qed

theorem search_rows_no_panic_witness:
  "\<exists>rs. search_rows sample_env (sample_store\<lparr>encKey := None\<rparr>) ''ell'' 20 [sample_msg] [] = Inr rs"
  by (rule search_rows_no_panic)
    (simp add: sample_msg_def decryptString_def sample_store_def length_ToLower_ascii)

text \<open>
  The hypothesis is needed: U+023A takes two bytes and lower-cases to U+2C65, which takes three,
  so the index found in the lower-cased text can lie beyond the text itself.
\<close>

definition grow_env :: env where
  "grow_env = sample_env\<lparr>u_lower := (\<lambda>r. if r = 0x23A then 0x2C65 else r)\<rparr>"

lemma segs_23A: "segs (CHR 0xC8 # CHR 0xBA # s) = (0x23A, [CHR 0xC8, CHR 0xBA]) # segs s"
proof -
  have "DecodeRune (CHR 0xC8 # CHR 0xBA # s) = (0x23A, 2)"
    by (simp add: DecodeRune_def is_cont_def take_Cons' split: list.split)
  then show ?thesis by (simp add: segs.simps [of "CHR 0xC8 # CHR 0xBA # s"])
qed

lemma strings_Index_last: "c \<notin> set xs \<Longrightarrow> strings_Index (xs @ [c]) [c] = Some (length xs)"
proof (induction xs)
  case Nil
  then show ?case by (simp add: strings_Index.simps [of "[c]"])
next
  case (Cons x xs)
  then show ?case by (simp add: strings_Index.simps [of "x # _"])
qed

lemma ToLower_23A:
  "ToLower grow_env (concat (replicate (Suc n) [CHR 0xC8, CHR 0xBA]) @ ''q'')
     = concat (replicate (Suc n) [CHR 0xE2, CHR 0xB1, CHR 0xA5]) @ ''q''"
proof -
  have "runes (concat (replicate k [CHR 0xC8, CHR 0xBA]) @ ''q'') = replicate k 0x23A @ [0x71]" for k
    by (induction k) (simp_all add: runes_def segs_23A)
  note r = this [of "Suc n"]
  have e: "EncodeRune (unicode_ToLower grow_env 0x23A) = [CHR 0xE2, CHR 0xB1, CHR 0xA5]"
    "EncodeRune (unicode_ToLower grow_env 0x71) = ''q''"
    by (simp_all add: unicode_ToLower_def grow_env_def EncodeRune_def ascii_lower_def char_of_eq_of_char)
  have "\<not> list_all (\<lambda>c. (of_char c :: nat) < 0x80) (concat (replicate (Suc n) [CHR 0xC8, CHR 0xBA]) @ ''q'')"
    by simp
  then show ?thesis unfolding ToLower_def r by (simp only: if_False) (simp add: e map_replicate_const)
qed

text \<open>
  The search panics (slice bounds out of range) on a stored message of thirty U+023A followed
  by the letter searched for.
\<close>

theorem search_snippet_can_panic:
  "search_snippet grow_env (concat (replicate 30 [CHR 0xC8, CHR 0xBA]) @ ''q'') ''q''
     = Inl (Panic ''slice bounds out of range'')"
proof -
  have l: "ToLower grow_env (concat (replicate 30 [CHR 0xC8, CHR 0xBA]) @ ''q'')
      = concat (replicate 30 [CHR 0xE2, CHR 0xB1, CHR 0xA5]) @ ''q''"
    using ToLower_23A [of 29] by simp
  have "strings_Index (concat (replicate 30 [CHR 0xE2, CHR 0xB1, CHR 0xA5]) @ ''q'') ''q'' = Some 90"
    by (subst strings_Index_last) (simp_all add: length_concat sum_list_replicate)
  then show ?thesis unfolding search_snippet_def l by (simp add: go_slice_def length_concat sum_list_replicate)
qed

end
