(* ===== verification/Store_Rooms.thy ===== *)
theory Store_Rooms
  imports Store_Mail
begin

text \<open>
  Package \<open>internal/store\<close>, part 5: rooms. Room records live in \<open>bRooms\<close> under the raw room id;
  room messages, their index and their per-sender counters use the lower-cased id; the room
  outbox has one entry per message and member, under \<open>room:member:message\<close>.

  The rows are an instance of \<open>grouped_log\<close>, so the laws proved for one-to-one messages hold
  for room messages as well.
\<close>

section \<open>Operations\<close>

definition MaxRoomMembers :: nat where "MaxRoomMembers = 32"
definition MaxRoomReactions :: nat where "MaxRoomReactions = 128"

abbreviation RoomJoined :: string where "RoomJoined \<equiv> ''joined''"
abbreviation RoomPending_state :: string where "RoomPending_state \<equiv> ''pending''"

definition Room_Pending :: "room \<Rightarrow> bool" where
  "Room_Pending r \<longleftrightarrow> r_State r = RoomPending_state"

definition roomMsgKey :: "env \<Rightarrow> string \<Rightarrow> 64 word \<Rightarrow> bytes" where
  "roomMsgKey E roomID seq = ToLower E roomID @ [CHR 0x00] @ PutUint64 seq"

definition roomOutboxPrefix :: "env \<Rightarrow> string \<Rightarrow> string \<Rightarrow> bytes" where
  "roomOutboxPrefix E roomID member = ToLower E roomID @ '':'' @ ToLower E member @ '':''"

definition roomOutboxKey :: "env \<Rightarrow> string \<Rightarrow> string \<Rightarrow> string \<Rightarrow> bytes" where
  "roomOutboxKey E roomID member msgID =
     ToLower E roomID @ '':'' @ ToLower E member @ '':'' @ ToLower E msgID"

definition encryptRoom :: "env \<Rightarrow> rnd \<Rightarrow> store \<Rightarrow> room \<Rightarrow> room result" where
  "encryptRoom E r s rm = bindR (encryptString E r s (r_Name rm)) (\<lambda>name. Inr (rm\<lparr>r_Name := name\<rparr>))"

definition decryptRoom :: "env \<Rightarrow> store \<Rightarrow> room \<Rightarrow> room result" where
  "decryptRoom E s rm = (let rm1 = (if r_State rm = [] then rm\<lparr>r_State := RoomJoined\<rparr> else rm)
     in bindR (decryptString E s (r_Name rm1)) (\<lambda>name. Inr (rm1\<lparr>r_Name := name\<rparr>)))"

definition decryptRoomMessage :: "env \<Rightarrow> store \<Rightarrow> roomMessage \<Rightarrow> roomMessage result" where
  "decryptRoomMessage E s m =
     bindR (decryptString E s (rm_Body m)) (\<lambda>body. Inr (m\<lparr>rm_Body := body\<rparr>))"

definition CreateRoom :: "env \<Rightarrow> rnd \<Rightarrow> store \<Rightarrow> room \<Rightarrow> store \<times> unit result" where
  "CreateRoom E r s rm =
     (if length (r_Members rm) > MaxRoomMembers
      then (s, Inl (ErrF ''store: room has %d members, max is %d''
        [Itoa (length (r_Members rm)), Itoa MaxRoomMembers]))
      else case encryptRoom E r s rm of
        Inl e \<Rightarrow> (s, Inl e)
      | Inr enc \<Rightarrow> dbUpdate s (\<lambda>d. Inr (d\<lparr>bRooms := bPut (r_ID rm) enc (bRooms d)\<rparr>, ())))"

definition GetRoom :: "env \<Rightarrow> store \<Rightarrow> string \<Rightarrow> room result" where
  "GetRoom E s i = (case bGet (bRooms (db s)) i of
     None \<Rightarrow> Inl ErrNotFound | Some rm \<Rightarrow> decryptRoom E s rm)"

definition ListRooms :: "env \<Rightarrow> store \<Rightarrow> room list result" where
  "ListRooms E s = mapR (\<lambda>(_, rm). decryptRoom E s rm) (entries (bRooms (db s)))"

definition UpdateRoom :: "env \<Rightarrow> rnd \<Rightarrow> store \<Rightarrow> room \<Rightarrow> store \<times> unit result" where
  "UpdateRoom E r s rm = (case encryptRoom E r s rm of
     Inl e \<Rightarrow> (s, Inl e)
   | Inr enc \<Rightarrow> dbUpdate s (\<lambda>d. Inr (d\<lparr>bRooms := bPut (r_ID rm) enc (bRooms d)\<rparr>, ())))"

definition DeleteRoom :: "env \<Rightarrow> store \<Rightarrow> string \<Rightarrow> store \<times> unit result" where
  "DeleteRoom E s i = dbUpdate s (\<lambda>d.
     let rows = scan_prefix (ToLower E i @ [CHR 0x00]) (entries (bRoomMsgs d));
         d1 = fold (\<lambda>(k, m) d. d\<lparr>bRoomIdx := bDelete (rm_ID m) (bRoomIdx d),
                bRoomMsgs := bDelete k (bRoomMsgs d)\<rparr>) rows d;
         obs = scan_prefix (ToLower E i @ '':'') (entries (bRoomOutbox d1));
         d2 = fold (\<lambda>(k, _) d. d\<lparr>bRoomOutbox := bDelete k (bRoomOutbox d)\<rparr>) obs d1
     in Inr (d2\<lparr>bRooms := bDelete i (bRooms d2)\<rparr>, ()))"

text \<open>\<open>RoomMessage{}\<close>.\<close>

definition roomMessage0 :: roomMessage where
  "roomMessage0 = \<lparr>rm_ID = [], rm_Room = [], rm_Sender = [], rm_Dir = [], rm_Body = [],
     rm_TS = time_zero, rm_Status = [], rm_Attempts = 0, rm_LastTry = time_zero, rm_Seq = 0,
     rm_ReplyTo = [], rm_SenderSeq = 0, rm_Reactions = []\<rparr>"

definition AddRoomMessage ::
    "env \<Rightarrow> rnd \<Rightarrow> store \<Rightarrow> roomMessage \<Rightarrow> store \<times> (roomMessage \<times> bool) result" where
  "AddRoomMessage E r s m0 =
     (case wrap_err ''store: encrypt body'' (encryptString E r s (rm_Body m0)) of
        Inl e \<Rightarrow> (s, Inl e)
      | Inr encBody \<Rightarrow>
        let (s1, res) = dbUpdate s (\<lambda>d.
              if bGet (bRoomIdx d) (rm_ID m0) \<noteq> None then Inr (d, (roomMessage0, True))
              else
                let (seq, b) = NextSequence (bRoomMsgs d);
                    m = m0\<lparr>rm_Body := encBody, rm_Seq := seq\<rparr>;
                    k = roomMsgKey E (rm_Room m) seq
                in Inr (d\<lparr>bRoomMsgs := bPut k m b, bRoomIdx := bPut (rm_ID m) k (bRoomIdx d)\<rparr>, (m, False)))
        in (s1, bindR res (\<lambda>(stored, dup).
              bindR (decryptRoomMessage E s1 stored) (\<lambda>m. Inr (m, dup)))))"

definition RoomMessages :: "env \<Rightarrow> store \<Rightarrow> string \<Rightarrow> int \<Rightarrow> roomMessage list result" where
  "RoomMessages E s roomID limit0 =
     (let limit = (if limit0 \<le> 0 \<or> limit0 > 1000 then 200 else limit0);
          p = ToLower E roomID @ [CHR 0x00];
          upper = p @ replicate 8 (CHR 0xFF)
      in bindR (mapR (\<lambda>(k, m). decryptRoomMessage E s m)
             (take (nat limit) (scan_back p upper (entries (bRoomMsgs (db s)))))) (\<lambda>out.
         Inr (slice_reverse out)))"

definition sortByRoomSeq :: "roomMessage list \<Rightarrow> roomMessage list" where
  "sortByRoomSeq m = slice_sort (\<lambda>a b. rm_Seq a < rm_Seq b) m"

definition RoomPending :: "env \<Rightarrow> store \<Rightarrow> string \<Rightarrow> string \<Rightarrow> roomMessage list result" where
  "RoomPending E s roomID member =
     bindR (mapR (\<lambda>(k, msgID).
         if \<not> prefix (roomOutboxPrefix E roomID member) k then Inr []
         else case bGet (bRoomIdx (db s)) msgID of
           None \<Rightarrow> Inr []
         | Some ik \<Rightarrow> (case bGet (bRoomMsgs (db s)) ik of
             None \<Rightarrow> Inr []
           | Some m \<Rightarrow> bindR (decryptRoomMessage E s m) (\<lambda>m. Inr [m])))
       (entries (bRoomOutbox (db s)))) (\<lambda>out.
     Inr (sortByRoomSeq (concat out)))"

definition getRoom :: "db \<Rightarrow> string \<Rightarrow> room result" where
  "getRoom d i = (case bGet (bRooms d) i of None \<Rightarrow> Inl ErrNotFound | Some rm \<Rightarrow> Inr rm)"

text \<open>The index lookup at the head of the three operations that change one room message.\<close>

definition loadRoomMsg :: "db \<Rightarrow> string \<Rightarrow> (roomMessage \<times> bytes) result" where
  "loadRoomMsg d msgID = (case bGet (bRoomIdx d) msgID of
     None \<Rightarrow> Inl ErrNotFound
   | Some k \<Rightarrow> (case bGet (bRoomMsgs d) k of None \<Rightarrow> Inl ErrNotFound | Some m \<Rightarrow> Inr (m, k)))"

text \<open>A cursor's \<open>Seek(pfx)\<close> finding a key with that prefix.\<close>

definition seek_has_prefix :: "bytes \<Rightarrow> 'v bucket \<Rightarrow> bool" where
  "seek_has_prefix pfx b = (case dropWhile (\<lambda>e. fst e < pfx) (entries b) of
     [] \<Rightarrow> False | e # _ \<Rightarrow> prefix pfx (fst e))"

fun all_delivered :: "env \<Rightarrow> string \<Rightarrow> string \<Rightarrow> bytes bucket \<Rightarrow> string list \<Rightarrow> bool" where
  "all_delivered E roomID sender ob [] = True"
| "all_delivered E roomID sender ob (mb # mbs) =
     (if mb = sender then all_delivered E roomID sender ob mbs
      else if seek_has_prefix (roomOutboxPrefix E roomID mb) ob then False
      else all_delivered E roomID sender ob mbs)"

definition MarkRoomDelivered ::
    "env \<Rightarrow> store \<Rightarrow> string \<Rightarrow> string \<Rightarrow> string \<Rightarrow> store \<times> (roomMessage \<times> bool) result" where
  "MarkRoomDelivered E s roomID member msgID =
     (let (s1, res) = dbUpdate s (\<lambda>d. bindR (loadRoomMsg d msgID) (\<lambda>(m, k).
            if rm_Status m = StatusDelivered then Inr (d, (m, False))
            else
              let ob = bDelete (roomOutboxKey E roomID member msgID) (bRoomOutbox d);
                  d1 = d\<lparr>bRoomOutbox := ob\<rparr>
              in bindR (getRoom d1 roomID) (\<lambda>r.
                if all_delivered E roomID (rm_Sender m) ob (r_Members r)
                then let m' = m\<lparr>rm_Status := StatusDelivered\<rparr>
                  in Inr (d1\<lparr>bRoomMsgs := bPut k m' (bRoomMsgs d1)\<rparr>, (m', True))
                else Inr (d1, (m, False)))))
      in (s1, bindR res (\<lambda>(out, changed).
            bindR (decryptRoomMessage E s1 out) (\<lambda>m. Inr (m, changed)))))"

definition RoomRecordAttempt :: "store \<Rightarrow> string \<Rightarrow> gotime \<Rightarrow> store \<times> unit result" where
  "RoomRecordAttempt s msgID now = dbUpdate s (\<lambda>d. bindR (loadRoomMsg d msgID) (\<lambda>(m, k).
     Inr (d\<lparr>bRoomMsgs := bPut k (m\<lparr>rm_Attempts := rm_Attempts m + 1, rm_LastTry := now\<rparr>) (bRoomMsgs d)\<rparr>, ())))"

text \<open>The loop over the reactions: the list without the first match, if there is one.\<close>

fun remove_reaction ::
    "env \<Rightarrow> string \<Rightarrow> string \<Rightarrow> roomReaction list \<Rightarrow> roomReaction list option" where
  "remove_reaction E sender emoji [] = None"
| "remove_reaction E sender emoji (r # rs) =
     (if EqualFold E (rr_Sender r) sender \<and> rr_Emoji r = emoji then Some rs
      else map_option (\<lambda>rs'. r # rs') (remove_reaction E sender emoji rs))"

definition ToggleRoomReaction ::
    "env \<Rightarrow> store \<Rightarrow> string \<Rightarrow> string \<Rightarrow> string \<Rightarrow> string \<Rightarrow> store \<times> (roomMessage \<times> bool) result" where
  "ToggleRoomReaction E s roomID msgID sender emoji =
     (let (s1, res) = dbUpdate s (\<lambda>d. bindR (loadRoomMsg d msgID) (\<lambda>(m, k).
            if \<not> EqualFold E (rm_Room m) roomID then Inl ErrNotFound
            else case remove_reaction E sender emoji (rm_Reactions m) of
              Some rs \<Rightarrow> let m' = m\<lparr>rm_Reactions := rs\<rparr>
                in Inr (d\<lparr>bRoomMsgs := bPut k m' (bRoomMsgs d)\<rparr>, (m', True))
            | None \<Rightarrow>
                if length (rm_Reactions m) \<ge> MaxRoomReactions
                then Inl (Err ''store: too many reactions on this message'')
                else let m' = m\<lparr>rm_Reactions := rm_Reactions m @ [\<lparr>rr_Sender = sender, rr_Emoji = emoji\<rparr>]\<rparr>
                  in Inr (d\<lparr>bRoomMsgs := bPut k m' (bRoomMsgs d)\<rparr>, (m', True))))
      in (s1, bindR res (\<lambda>(out, changed).
            bindR (decryptRoomMessage E s1 out) (\<lambda>m. Inr (m, changed)))))"

definition roomSeqKey :: "env \<Rightarrow> string \<Rightarrow> string \<Rightarrow> bytes" where
  "roomSeqKey E roomID sender = ToLower E roomID @ [CHR 0x00] @ ToLower E sender"

definition NextRoomSenderSeq :: "env \<Rightarrow> store \<Rightarrow> string \<Rightarrow> string \<Rightarrow> store \<times> 64 word result" where
  "NextRoomSenderSeq E s roomID sender = dbUpdate s (\<lambda>d.
     let k = roomSeqKey E roomID sender;
         next0 = (case bGet (bRoomSeq d) k of
             Some v \<Rightarrow> if length v = 8 then Uint64 v else 0 | None \<Rightarrow> 0);
         nxt = next0 + 1
     in Inr (d\<lparr>bRoomSeq := bPut k (PutUint64 nxt) (bRoomSeq d)\<rparr>, nxt))"

definition AddRoomMemberToOutbox :: "env \<Rightarrow> store \<Rightarrow> string \<Rightarrow> string \<Rightarrow> string \<Rightarrow> store \<times> unit result" where
  "AddRoomMemberToOutbox E s roomID member msgID = dbUpdate s (\<lambda>d.
     Inr (d\<lparr>bRoomOutbox := bPut (roomOutboxKey E roomID member msgID) msgID (bRoomOutbox d)\<rparr>, ()))"

section \<open>Invariant\<close>

interpretation rlog: grouped_log rm_ID rm_Seq "\<lambda>m. ToLower E (rm_Room m)"
  rewrites "\<And>p n. seq_key (ToLower E p) n = roomMsgKey E p n" for E :: env
  by (simp_all add: seq_key_def roomMsgKey_def)

definition roombox :: "db \<Rightarrow> string \<Rightarrow> roomMessage option" where
  "roombox d i = rlog.lookup (bRoomMsgs d) (bRoomIdx d) i"

lemma roombox_eq: "roombox d = rlog.lookup (bRoomMsgs d) (bRoomIdx d)"
  by (simp add: fun_eq_iff roombox_def)

definition rooms_inv :: "env \<Rightarrow> db \<Rightarrow> bool" where
  "rooms_inv E d \<longleftrightarrow> rlog.log_inv E (bRoomMsgs d) (bRoomIdx d)
     \<and> wf_bucket (bRooms d) \<and> wf_bucket (bRoomOutbox d) \<and> wf_bucket (bRoomSeq d)"

text \<open>A room message as the store keeps it: readable, and with a bounded number of reactions.\<close>

definition room_msg_ok :: "env \<Rightarrow> store \<Rightarrow> roomMessage \<Rightarrow> bool" where
  "room_msg_ok E s m \<longleftrightarrow> (\<exists>b. decryptString E s (rm_Body m) = Inr b)
     \<and> length (rm_Reactions m) \<le> MaxRoomReactions"

definition rbox_inv :: "env \<Rightarrow> store \<Rightarrow> bool" where
  "rbox_inv E s \<longleftrightarrow> aead_ok E \<and> keys_ok s \<and> rooms_inv E (db s)
     \<and> (\<forall>i m. roombox (db s) i = Some m \<longrightarrow> room_msg_ok E s m)"

definition plain_room_msg :: "env \<Rightarrow> store \<Rightarrow> roomMessage \<Rightarrow> roomMessage" where
  "plain_room_msg E s m = (case decryptString E s (rm_Body m) of Inl _ \<Rightarrow> m | Inr b \<Rightarrow> m\<lparr>rm_Body := b\<rparr>)"

definition room_inbox :: "env \<Rightarrow> store \<Rightarrow> string \<Rightarrow> roomMessage option" where
  "room_inbox E s i = map_option (plain_room_msg E s) (roombox (db s) i)"

abbreviation room_seq :: "store \<Rightarrow> 64 word" where
  "room_seq s \<equiv> bseq (bRoomMsgs (db s))"

lemma room_db [simp]:
  "room_msg_ok E (s\<lparr>db := d\<rparr>) = room_msg_ok E s" "plain_room_msg E (s\<lparr>db := d\<rparr>) = plain_room_msg E s"
  "decryptRoomMessage E (s\<lparr>db := d\<rparr>) = decryptRoomMessage E s"
  by (simp_all add: room_msg_ok_def plain_room_msg_def decryptRoomMessage_def fun_eq_iff)

lemma plain_room_fields [simp]:
  "rm_ID (plain_room_msg E s m) = rm_ID m" "rm_Room (plain_room_msg E s m) = rm_Room m"
  "rm_Sender (plain_room_msg E s m) = rm_Sender m" "rm_Status (plain_room_msg E s m) = rm_Status m"
  "rm_Seq (plain_room_msg E s m) = rm_Seq m" "rm_Reactions (plain_room_msg E s m) = rm_Reactions m"
  "rm_Attempts (plain_room_msg E s m) = rm_Attempts m"
  by (simp_all add: plain_room_msg_def split: sum.split)

lemma plain_room_upd [simp]:
  "plain_room_msg E s (m\<lparr>rm_Status := x\<rparr>) = (plain_room_msg E s m)\<lparr>rm_Status := x\<rparr>"
  "plain_room_msg E s (m\<lparr>rm_Reactions := rs\<rparr>) = (plain_room_msg E s m)\<lparr>rm_Reactions := rs\<rparr>"
  "plain_room_msg E s (m\<lparr>rm_Attempts := n, rm_LastTry := t\<rparr>) =
     (plain_room_msg E s m)\<lparr>rm_Attempts := n, rm_LastTry := t\<rparr>"
  by (simp_all add: plain_room_msg_def split: sum.split)

lemma decryptRoomMessage_ok: "room_msg_ok E s m \<Longrightarrow> decryptRoomMessage E s m = Inr (plain_room_msg E s m)"
  by (auto simp: room_msg_ok_def decryptRoomMessage_def plain_room_msg_def)

lemma decryptRoomMessage0: "decryptRoomMessage E s roomMessage0 = Inr roomMessage0"
  by (simp add: decryptRoomMessage_def roomMessage0_def decryptString_def)

lemma rooms_invD:
  assumes "rooms_inv E d"
  shows "rlog.log_inv E (bRoomMsgs d) (bRoomIdx d)" "wf_bucket (bRoomMsgs d)" "wf_bucket (bRoomIdx d)"
    "wf_bucket (bRooms d)" "wf_bucket (bRoomOutbox d)" "wf_bucket (bRoomSeq d)"
  using assms rlog.wf by (auto simp: rooms_inv_def)

lemma rbox_inv_empty: "\<lbrakk>aead_ok E; keys_ok s; db s = empty_db\<rbrakk> \<Longrightarrow> rbox_inv E s"
proof -
  assume a: "aead_ok E" "keys_ok s" "db s = empty_db"
  have "rooms_inv E empty_db" by (simp add: rooms_inv_def empty_db_def rlog.log_inv_empty)
  moreover have "roombox empty_db i = None" for i
    by (simp add: roombox_def empty_db_def rlog.lookup_empty)
  ultimately show ?thesis using a by (simp add: rbox_inv_def)
qed

lemma loadRoomMsg_roombox:
  assumes "rooms_inv E d" "roombox d i = Some m"
  shows "loadRoomMsg d i = Inr (m, roomMsgKey E (rm_Room m) (rm_Seq m))" "rm_ID m = i"
  using rlog.lookup_index [OF rooms_invD(1) [OF assms(1)]] assms(2)
  by (simp_all add: roombox_def loadRoomMsg_def)

lemma loadRoomMsg_None: "roombox d i = None \<Longrightarrow> loadRoomMsg d i = Inl ErrNotFound"
  by (auto simp: roombox_def rlog.lookup_def loadRoomMsg_def split: option.splits)

lemma room_inbox_SomeD: "room_inbox E s i = Some m \<Longrightarrow> \<exists>n. roombox (db s) i = Some n \<and> m = plain_room_msg E s n"
  by (auto simp: room_inbox_def)

text \<open>A changed row, with or without changes to the other room buckets.\<close>

lemma rbox_modify:
  assumes inv: "rbox_inv E s" and m: "roombox (db s) i = Some m"
    and same: "rm_ID m' = rm_ID m" "rm_Room m' = rm_Room m" "rm_Seq m' = rm_Seq m" "room_msg_ok E s m'"
    and d': "bRoomMsgs d' = bPut (roomMsgKey E (rm_Room m) (rm_Seq m)) m' (bRoomMsgs (db s))"
      "bRoomIdx d' = bRoomIdx (db s)" "bRooms d' = bRooms (db s)" "bRoomSeq d' = bRoomSeq (db s)"
      "wf_bucket (bRoomOutbox d')"
  shows "rbox_inv E (s\<lparr>db := d'\<rparr>)"
    "room_inbox E (s\<lparr>db := d'\<rparr>) = (room_inbox E s)(i \<mapsto> plain_room_msg E s m')"
    "bseq (bRoomMsgs d') = room_seq s"
proof -
  have ri: "rooms_inv E (db s)" using inv by (simp add: rbox_inv_def)
  note mod = rlog.log_modify [OF rooms_invD(1) [OF ri] m [unfolded roombox_def] same(1)]
  have rb: "roombox d' = (roombox (db s))(i \<mapsto> m')"
    using mod(2) same by (simp add: fun_eq_iff roombox_def d')
  have "rooms_inv E d'" using mod(1) same rooms_invD [OF ri] d' by (simp add: rooms_inv_def)
  with inv rb same(4) show "rbox_inv E (s\<lparr>db := d'\<rparr>)" by (auto simp: rbox_inv_def split: if_splits)
  show "room_inbox E (s\<lparr>db := d'\<rparr>) = (room_inbox E s)(i \<mapsto> plain_room_msg E s m')"
    by (auto simp: room_inbox_def rb)
  show "bseq (bRoomMsgs d') = room_seq s" by (simp add: d')
qed

lemma rbox_same:
  assumes "rbox_inv E s" "bRoomMsgs d' = bRoomMsgs (db s)" "bRoomIdx d' = bRoomIdx (db s)"
    "wf_bucket (bRooms d')" "wf_bucket (bRoomSeq d')" "wf_bucket (bRoomOutbox d')"
  shows "rbox_inv E (s\<lparr>db := d'\<rparr>)" "room_inbox E (s\<lparr>db := d'\<rparr>) = room_inbox E s"
  using assms by (simp_all add: rbox_inv_def rooms_inv_def roombox_def room_inbox_def fun_eq_iff)

section \<open>Messages of a room\<close>

lemma AddRoomMessage_cases [consumes 3, case_names dup new]:
  assumes inv: "rbox_inv E s" and r: "nonce_ok r" and lt: "room_seq s < - 1"
    and re: "length (rm_Reactions m) \<le> MaxRoomReactions"
  obtains m' where "room_inbox E s (rm_ID m) = Some m'" "AddRoomMessage E r s m = (s, Inr (roomMessage0, True))"
  | s' where "room_inbox E s (rm_ID m) = None"
      "AddRoomMessage E r s m = (s', Inr (m\<lparr>rm_Seq := room_seq s + 1\<rparr>, False))" "rbox_inv E s'"
      "room_inbox E s' = (room_inbox E s)(rm_ID m \<mapsto> m\<lparr>rm_Seq := room_seq s + 1\<rparr>)"
      "room_seq s' = room_seq s + 1" "bRooms (db s') = bRooms (db s)"
      "bRoomOutbox (db s') = bRoomOutbox (db s)"
proof -
  have ri: "rooms_inv E (db s)" "aead_ok E" "keys_ok s" using inv by (simp_all add: rbox_inv_def)
  obtain b where b: "encryptString E r s (rm_Body m) = Inr b" using encryptString_total ri(3) r by blast
  have dec: "decryptString E s b = Inr (rm_Body m)"
    using decryptString_encryptString [OF ri(2) r ri(3) b] .
  show thesis
  proof (cases "bGet (bRoomIdx (db s)) (rm_ID m)")
    case (Some k)
    then have "roombox (db s) (rm_ID m) \<noteq> None"
      using rlog.lookup_None [OF rooms_invD(1) [OF ri(1)]] by (simp add: roombox_def)
    then obtain m' where "room_inbox E s (rm_ID m) = Some m'" by (auto simp: room_inbox_def)
    moreover have "AddRoomMessage E r s m = (s, Inr (roomMessage0, True))"
      using Some b by (simp add: AddRoomMessage_def wrap_err_def dbUpdate_def decryptRoomMessage0)
    ultimately show ?thesis by (rule that(1))
  next
    case None
    let ?m = "m\<lparr>rm_Body := b, rm_Seq := room_seq s + 1\<rparr>"
    let ?k = "roomMsgKey E (rm_Room ?m) (rm_Seq ?m)"
    define d' where "d' = (db s)\<lparr>bRoomMsgs := bPut ?k ?m ((bRoomMsgs (db s))\<lparr>bseq := room_seq s + 1\<rparr>),
      bRoomIdx := bPut (rm_ID ?m) ?k (bRoomIdx (db s))\<rparr>"
    have new: "bGet (bRoomIdx (db s)) (rm_ID ?m) = None" using None by simp
    note ins = rlog.log_insert [OF rooms_invD(1) [OF ri(1)] new lt _ refl refl]
    have rb: "roombox d' = (roombox (db s))(rm_ID m \<mapsto> ?m)"
      using ins(2) by (simp add: fun_eq_iff roombox_def d'_def)
    have rd: "rooms_inv E d'" using ins(1) rooms_invD [OF ri(1)] by (simp add: rooms_inv_def d'_def)
    have ok: "room_msg_ok E s ?m" "plain_room_msg E s ?m = m\<lparr>rm_Seq := room_seq s + 1\<rparr>"
      using dec re by (simp_all add: room_msg_ok_def plain_room_msg_def)
    show ?thesis
    proof (rule that(2) [of "s\<lparr>db := d'\<rparr>"])
      show "room_inbox E s (rm_ID m) = None"
        using None rlog.lookup_None [OF rooms_invD(1) [OF ri(1)]] by (simp add: room_inbox_def roombox_def)
      show "AddRoomMessage E r s m = (s\<lparr>db := d'\<rparr>, Inr (m\<lparr>rm_Seq := room_seq s + 1\<rparr>, False))"
        using None b ok
        by (simp add: AddRoomMessage_def wrap_err_def dbUpdate_def NextSequence_def d'_def Let_def
            decryptRoomMessage_ok)
      show "rbox_inv E (s\<lparr>db := d'\<rparr>)"
        using inv rd rb ok(1) by (auto simp: rbox_inv_def split: if_splits)
      show "room_inbox E (s\<lparr>db := d'\<rparr>) = (room_inbox E s)(rm_ID m \<mapsto> m\<lparr>rm_Seq := room_seq s + 1\<rparr>)"
        using ok(2) by (auto simp: room_inbox_def rb)
    qed (simp_all add: d'_def)
  qed
qed

lemma rooms_window:
  assumes "rbox_inv E s" "room_seq s < - 1" "CHR 0x00 \<notin> set (ToLower E roomID)"
    and "\<And>i m. room_inbox E s i = Some m \<Longrightarrow> CHR 0x00 \<notin> set (ToLower E (rm_Room m))"
  shows "\<exists>c. sorted_wrt (<) (map rm_Seq c)
    \<and> set c = {m. ToLower E (rm_Room m) = ToLower E roomID \<and> room_inbox E s (rm_ID m) = Some m}
    \<and> RoomMessages E s roomID limit
        = Inr (drop (length c - nat (if limit \<le> 0 \<or> limit > 1000 then 200 else limit)) c)"
proof -
  have ri: "rooms_inv E (db s)" using assms(1) by (simp add: rbox_inv_def)
  note inv = rooms_invD(1) [OF ri]
  let ?g = "rlog.members E (bRoomMsgs (db s)) (ToLower E roomID)"
  have nf: "CHR 0x00 \<notin> set (ToLower E (rm_Room v))"
    if "rlog.lookup (bRoomMsgs (db s)) (bRoomIdx (db s)) (rm_ID v) = Some v" for v
    using assms(4) [of "rm_ID v"] that by (simp add: room_inbox_def roombox_def)
  have dec: "decryptRoomMessage E s v = Inr (plain_room_msg E s v)"
    if "rlog.lookup (bRoomMsgs (db s)) (bRoomIdx (db s)) (rm_ID v) = Some v" for v
    using that assms(1) by (intro decryptRoomMessage_ok) (auto simp: rbox_inv_def roombox_def)
  have "RoomMessages E s roomID limit =
      Inr (drop (length ?g - nat (if limit \<le> 0 \<or> limit > 1000 then 200 else limit)) (map (plain_room_msg E s) ?g))"
    unfolding RoomMessages_def Let_def by (rule rlog.window [OF inv assms(2,3)]) (erule nf, erule dec)
  moreover have "sorted_wrt (<) (map rm_Seq (map (plain_room_msg E s) ?g))"
    using rlog.sorted_members [OF inv, of "ToLower E roomID"] by (simp add: comp_def)
  moreover have "m \<in> set (map (plain_room_msg E s) ?g) \<longleftrightarrow>
      ToLower E (rm_Room m) = ToLower E roomID \<and> room_inbox E s (rm_ID m) = Some m" for m
  proof -
    have "m \<in> set (map (plain_room_msg E s) ?g) \<longleftrightarrow> (\<exists>n. ToLower E (rm_Room n) = ToLower E roomID
        \<and> roombox (db s) (rm_ID n) = Some n \<and> m = plain_room_msg E s n)"
      unfolding set_map rlog.set_members [OF inv] roombox_def by auto
    then show ?thesis by (auto simp: room_inbox_def)
  qed
  ultimately show ?thesis by (intro exI [of _ "map (plain_room_msg E s) ?g"]) auto
qed

section \<open>Reactions\<close>

lemma remove_reaction_None: "remove_reaction E sender emoji rs = None \<longleftrightarrow>
    (\<forall>r\<in>set rs. \<not> (EqualFold E (rr_Sender r) sender \<and> rr_Emoji r = emoji))"
  by (induction rs) auto

lemma remove_reaction_length: "remove_reaction E sender emoji rs = Some rs' \<Longrightarrow> length rs = Suc (length rs')"
  by (induction rs arbitrary: rs') (auto split: if_splits)

lemma remove_reaction_snoc:
  "remove_reaction E sender emoji rs = None \<Longrightarrow>
     remove_reaction E sender emoji (rs @ [\<lparr>rr_Sender = sender, rr_Emoji = emoji\<rparr>]) = Some rs"
  by (induction rs) (auto split: if_splits)

text \<open>What toggling does to the list of reactions; \<open>None\<close> when the message is full.\<close>

definition toggled :: "env \<Rightarrow> string \<Rightarrow> string \<Rightarrow> roomReaction list \<Rightarrow> roomReaction list option" where
  "toggled E sender emoji rs = (case remove_reaction E sender emoji rs of
     Some rs' \<Rightarrow> Some rs'
   | None \<Rightarrow> if length rs \<ge> MaxRoomReactions then None
       else Some (rs @ [\<lparr>rr_Sender = sender, rr_Emoji = emoji\<rparr>]))"

lemma toggled_length: "\<lbrakk>toggled E sender emoji rs = Some rs'; length rs \<le> MaxRoomReactions\<rbrakk> \<Longrightarrow>
    length rs' \<le> MaxRoomReactions"
  by (auto simp: toggled_def dest: remove_reaction_length split: option.splits if_splits)

lemma toggled_twice:
  "\<lbrakk>remove_reaction E sender emoji rs = None; toggled E sender emoji rs = Some rs'\<rbrakk> \<Longrightarrow>
     toggled E sender emoji rs' = Some rs"
  by (auto simp: toggled_def remove_reaction_snoc split: if_splits)

lemma ToggleRoomReaction_spec:
  assumes "rbox_inv E s" "room_inbox E s i = Some m" "EqualFold E (rm_Room m) roomID"
  shows "case toggled E sender emoji (rm_Reactions m) of
      None \<Rightarrow> ToggleRoomReaction E s roomID i sender emoji
          = (s, Inl (Err ''store: too many reactions on this message''))
    | Some rs \<Rightarrow> \<exists>s'. ToggleRoomReaction E s roomID i sender emoji = (s', Inr (m\<lparr>rm_Reactions := rs\<rparr>, True))
        \<and> rbox_inv E s' \<and> room_inbox E s' = (room_inbox E s)(i \<mapsto> m\<lparr>rm_Reactions := rs\<rparr>)"
proof -
  obtain n where n: "roombox (db s) i = Some n" "m = plain_room_msg E s n"
    using room_inbox_SomeD assms(2) by blast
  have ri: "rooms_inv E (db s)" and ok: "room_msg_ok E s n" using assms(1) n(1) by (auto simp: rbox_inv_def)
  note load = loadRoomMsg_roombox [OF ri n(1)]
  show ?thesis
  proof (cases "toggled E sender emoji (rm_Reactions m)")
    case None
    then have "remove_reaction E sender emoji (rm_Reactions n) = None"
      "length (rm_Reactions n) \<ge> MaxRoomReactions"
      by (auto simp: n(2) toggled_def split: option.splits if_splits)
    then have "ToggleRoomReaction E s roomID i sender emoji
        = (s, Inl (Err ''store: too many reactions on this message''))"
      using assms(3) by (simp add: ToggleRoomReaction_def dbUpdate_def load n(2))
    with None show ?thesis by simp
  next
    case (Some rs)
    let ?m = "n\<lparr>rm_Reactions := rs\<rparr>"
    let ?d = "(db s)\<lparr>bRoomMsgs := bPut (roomMsgKey E (rm_Room n) (rm_Seq n)) ?m (bRoomMsgs (db s))\<rparr>"
    have "length rs \<le> MaxRoomReactions"
      using toggled_length [OF Some] ok by (simp add: n(2) room_msg_ok_def)
    then have ok': "room_msg_ok E s ?m" using ok by (simp add: room_msg_ok_def)
    have "ToggleRoomReaction E s roomID i sender emoji = (s\<lparr>db := ?d\<rparr>, Inr (plain_room_msg E s ?m, True))"
      using assms(3) Some
      by (auto simp: ToggleRoomReaction_def dbUpdate_def load n(2) Let_def toggled_def
          decryptRoomMessage_ok [OF ok', simplified] split: option.splits if_splits)
    moreover have "rbox_inv E (s\<lparr>db := ?d\<rparr>)"
      "room_inbox E (s\<lparr>db := ?d\<rparr>) = (room_inbox E s)(i \<mapsto> plain_room_msg E s ?m)"
      by (rule rbox_modify [OF assms(1) n(1) _ _ _ ok']; simp add: rooms_invD [OF ri])+
    ultimately show ?thesis using Some n(2) by auto
  qed
qed

section \<open>Delivery to members\<close>

lemma seek_has_prefix_iff:
  assumes "wf_bucket b"
  shows "seek_has_prefix p b \<longleftrightarrow> (\<exists>k v. bGet b k = Some v \<and> prefix p k)"
proof -
  have "seek_has_prefix p b \<longleftrightarrow> scan_prefix p (entries b) \<noteq> []"
    by (cases "dropWhile (\<lambda>e. fst e < p) (entries b)") (simp_all add: seek_has_prefix_def scan_prefix_def
        del: dropWhile_eq_Nil_conv)
  also have "\<dots> \<longleftrightarrow> (\<exists>e\<in>set (entries b). prefix p (fst e))"
    using scan_prefix_eq [of "entries b" p] assms by (auto simp: wf_bucket_def filter_empty_conv)
  also have "\<dots> \<longleftrightarrow> (\<exists>k v. bGet b k = Some v \<and> prefix p k)"
    using bolt.items_iff [OF assms] by force
  finally show ?thesis .
qed

lemma all_delivered_iff: "all_delivered E roomID sender ob mbs \<longleftrightarrow>
    (\<forall>mb\<in>set mbs. mb \<noteq> sender \<longrightarrow> \<not> seek_has_prefix (roomOutboxPrefix E roomID mb) ob)"
  by (induction mbs) auto

lemma MarkRoomDelivered_True:
  assumes "rbox_inv E s" "MarkRoomDelivered E s roomID member i = (s', Inr (m, True))"
  obtains r n where "bGet (bRooms (db s)) roomID = Some r" "roombox (db s) i = Some n" "rm_Status n \<noteq> StatusDelivered"
    "m = (plain_room_msg E s n)\<lparr>rm_Status := StatusDelivered\<rparr>" "rbox_inv E s'"
    "room_inbox E s' = (room_inbox E s)(i \<mapsto> m)"
    "bRoomOutbox (db s') = bDelete (roomOutboxKey E roomID member i) (bRoomOutbox (db s))"
    "all_delivered E roomID (rm_Sender n) (bRoomOutbox (db s')) (r_Members r)"
proof -
  have ri: "rooms_inv E (db s)" using assms(1) by (simp add: rbox_inv_def)
  obtain n where n: "roombox (db s) i = Some n"
    using assms(2) by (cases "roombox (db s) i") (auto simp: MarkRoomDelivered_def dbUpdate_def loadRoomMsg_None)
  note load = loadRoomMsg_roombox [OF ri n]
  have ok: "room_msg_ok E s n" using assms(1) n by (auto simp: rbox_inv_def)
  then have ok': "room_msg_ok E s (n\<lparr>rm_Status := StatusDelivered\<rparr>)" by (simp add: room_msg_ok_def)
  let ?ob = "bDelete (roomOutboxKey E roomID member i) (bRoomOutbox (db s))"
  define d' where "d' = (db s)\<lparr>bRoomOutbox := ?ob, bRoomMsgs :=
    bPut (roomMsgKey E (rm_Room n) (rm_Seq n)) (n\<lparr>rm_Status := StatusDelivered\<rparr>) (bRoomMsgs (db s))\<rparr>"
  obtain r where r: "bGet (bRooms (db s)) roomID = Some r" "rm_Status n \<noteq> StatusDelivered"
    "all_delivered E roomID (rm_Sender n) ?ob (r_Members r)" "s' = s\<lparr>db := d'\<rparr>"
    "m = plain_room_msg E s (n\<lparr>rm_Status := StatusDelivered\<rparr>)"
    using assms(2) decryptRoomMessage_ok [OF ok'] decryptRoomMessage_ok [OF ok]
    by (auto simp: MarkRoomDelivered_def dbUpdate_def load getRoom_def Let_def d'_def
        split: if_splits option.splits)
  have "rbox_inv E s'" "room_inbox E s' = (room_inbox E s)(i \<mapsto> m)"
    unfolding r(4,5) by (rule rbox_modify [OF assms(1) n _ _ _ ok']; simp add: d'_def rooms_invD [OF ri])+
  with r n show thesis by (intro that [of r n]) (simp_all add: d'_def)
qed

section \<open>Deleting a room\<close>

lemma fold_room_rows:
  "fold (\<lambda>(k, m) d. d\<lparr>bRoomIdx := bDelete (rm_ID m) (bRoomIdx d), bRoomMsgs := bDelete k (bRoomMsgs d)\<rparr>) rows d
   = d\<lparr>bRoomIdx := fold bDelete (map (\<lambda>e. rm_ID (snd e)) rows) (bRoomIdx d),
       bRoomMsgs := fold bDelete (map fst rows) (bRoomMsgs d)\<rparr>"
  by (induction rows arbitrary: d) auto

lemma fold_room_outbox:
  "fold (\<lambda>(k, _) d. d\<lparr>bRoomOutbox := bDelete k (bRoomOutbox d)\<rparr>) obs d
   = d\<lparr>bRoomOutbox := fold bDelete (map fst obs) (bRoomOutbox d)\<rparr>"
  by (induction obs arbitrary: d) auto

lemma DeleteRoom_db:
  fixes i
  assumes "rooms_inv E (db s)"
  defines "rows \<equiv> filter (\<lambda>e. prefix (ToLower E i @ [CHR 0x00]) (fst e)) (entries (bRoomMsgs (db s)))"
    and "obs \<equiv> filter (\<lambda>e. prefix (ToLower E i @ '':'') (fst e)) (entries (bRoomOutbox (db s)))"
  shows "DeleteRoom E s i = (s\<lparr>db := (db s)\<lparr>
      bRoomIdx := fold bDelete (map (\<lambda>e. rm_ID (snd e)) rows) (bRoomIdx (db s)),
      bRoomMsgs := fold bDelete (map fst rows) (bRoomMsgs (db s)),
      bRoomOutbox := fold bDelete (map fst obs) (bRoomOutbox (db s)),
      bRooms := bDelete i (bRooms (db s))\<rparr>\<rparr>, Inr ())"
proof -
  have "scan_prefix (ToLower E i @ [CHR 0x00]) (entries (bRoomMsgs (db s))) = rows"
    "scan_prefix (ToLower E i @ '':'') (entries (bRoomOutbox (db s))) = obs"
    using rooms_invD [OF assms(1)] by (simp_all add: rows_def obs_def scan_prefix_eq wf_bucket_def)
  then show ?thesis
    by (simp add: DeleteRoom_def dbUpdate_def Let_def fold_room_rows fold_room_outbox)
qed

lemma DeleteRoom_effect_aux:
  assumes inv: "rbox_inv E s" and i: "CHR 0x00 \<notin> set (ToLower E i)"
    and nf: "\<And>j m. room_inbox E s j = Some m \<Longrightarrow> CHR 0x00 \<notin> set (ToLower E (rm_Room m))"
  shows "rbox_inv E (fst (DeleteRoom E s i))"
    and "room_inbox E (fst (DeleteRoom E s i)) j = (case room_inbox E s j of None \<Rightarrow> None
      | Some m \<Rightarrow> if ToLower E (rm_Room m) = ToLower E i then None else Some m)"
proof -
  have ri: "rooms_inv E (db s)" using inv by (simp add: rbox_inv_def)
  note li = rooms_invD(1) [OF ri]
  define rows where "rows = filter (\<lambda>e. prefix (ToLower E i @ [CHR 0x00]) (fst e)) (entries (bRoomMsgs (db s)))"
  define S where "S = {j. \<exists>m. roombox (db s) j = Some m \<and> ToLower E (rm_Room m) = ToLower E i}"
  have rows: "(k, m) \<in> set rows \<longleftrightarrow> k = roomMsgKey E (rm_Room m) (rm_Seq m)
      \<and> roombox (db s) (rm_ID m) = Some m \<and> ToLower E (rm_Room m) = ToLower E i" for k m
  proof -
    have "prefix (ToLower E i @ [CHR 0x00]) (roomMsgKey E (rm_Room m) (rm_Seq m)) \<longleftrightarrow> ToLower E (rm_Room m) = ToLower E i"
      if "roombox (db s) (rm_ID m) = Some m"
      using nul_prefix [OF i nf [of "rm_ID m"], of "plain_room_msg E s m" "PutUint64 (rm_Seq m)"] that
      by (auto simp: room_inbox_def roomMsgKey_def)
    then show ?thesis using rlog.entries_iff [OF li, of k m] by (auto simp: rows_def roombox_def)
  qed
  have ids: "j \<in> (\<lambda>e. rm_ID (snd e)) ` set rows \<longleftrightarrow> j \<in> S" for j
    unfolding image_iff Bex_def split_paired_Ex using loadRoomMsg_roombox(2) [OF ri] by (auto simp: S_def rows)
  have keys: "k \<in> fst ` set rows \<longleftrightarrow> (\<exists>m. bGet (bRoomMsgs (db s)) k = Some m \<and> rm_ID m \<in> S)" for k
  proof
    assume "k \<in> fst ` set rows"
    then obtain m where "(k, m) \<in> set rows" by force
    then show "\<exists>m. bGet (bRoomMsgs (db s)) k = Some m \<and> rm_ID m \<in> S"
      using rlog.lookup_index(2) [OF li] by (auto simp: rows S_def roombox_def)
  next
    assume "\<exists>m. bGet (bRoomMsgs (db s)) k = Some m \<and> rm_ID m \<in> S"
    then obtain m where m: "bGet (bRoomMsgs (db s)) k = Some m" "rm_ID m \<in> S" by blast
    have k: "k = roomMsgKey E (rm_Room m) (rm_Seq m)" by (rule rlog.rows(1) [OF li m(1)])
    have "roombox (db s) (rm_ID m) = Some m"
      using m(1) unfolding k roombox_def by (simp add: rlog.lookup_Some [OF li])
    with m(2) k have "(k, m) \<in> set rows" by (auto simp: rows S_def)
    then show "k \<in> fst ` set rows" by force
  qed
  define d' where "d' = db (fst (DeleteRoom E s i))"
  note dd = DeleteRoom_db [OF ri, of i, folded rows_def]
  have row': "bGet (bRoomMsgs d') k = (case bGet (bRoomMsgs (db s)) k of None \<Rightarrow> None
      | Some v \<Rightarrow> if rm_ID v \<in> S then None else Some v)" for k
    using keys [of k] by (cases "bGet (bRoomMsgs (db s)) k") (simp_all add: d'_def dd)
  have ix': "bGet (bRoomIdx d') j = (if j \<in> S then None else bGet (bRoomIdx (db s)) j)" for j
    using ids [of j] by (simp add: d'_def dd)
  have wf': "wf_bucket (bRoomMsgs d')" "wf_bucket (bRoomIdx d')" "bseq (bRoomMsgs d') = bseq (bRoomMsgs (db s))"
    using rooms_invD [OF ri] by (simp_all add: d'_def dd)
  note rem = rlog.log_remove [OF li row' ix' wf']
  have rb: "roombox d' = roombox (db s) |` (- S)" using rem(2) by (simp add: roombox_eq)
  have s': "fst (DeleteRoom E s i) = s\<lparr>db := d'\<rparr>" by (simp add: d'_def dd)
  have "rooms_inv E d'" using rem(1) rooms_invD [OF ri] by (simp add: rooms_inv_def d'_def dd)
  then show "rbox_inv E (fst (DeleteRoom E s i))"
    using inv unfolding s' by (auto simp: rbox_inv_def rb restrict_map_def split: if_splits)
  show "room_inbox E (fst (DeleteRoom E s i)) j = (case room_inbox E s j of None \<Rightarrow> None
      | Some m \<Rightarrow> if ToLower E (rm_Room m) = ToLower E i then None else Some m)"
    unfolding s' by (auto simp: room_inbox_def rb restrict_map_def S_def split: option.split)
qed

section \<open>Counters\<close>

definition sender_seq :: "env \<Rightarrow> store \<Rightarrow> string \<Rightarrow> string \<Rightarrow> 64 word" where
  "sender_seq E s roomID sender = (case bGet (bRoomSeq (db s)) (roomSeqKey E roomID sender) of
     Some v \<Rightarrow> if length v = 8 then Uint64 v else 0 | None \<Rightarrow> 0)"

lemma NextRoomSenderSeq_spec:
  "snd (NextRoomSenderSeq E s roomID sender) = Inr (sender_seq E s roomID sender + 1)"
  "sender_seq E (fst (NextRoomSenderSeq E s roomID sender)) roomID' sender' =
     (if roomSeqKey E roomID' sender' = roomSeqKey E roomID sender then sender_seq E s roomID sender + 1
      else sender_seq E s roomID' sender')"
  by (auto simp: NextRoomSenderSeq_def dbUpdate_def Let_def sender_seq_def split: option.split)

section \<open>Outbox entries and room records\<close>

lemma AddRoomMemberToOutbox_spec:
  assumes "rbox_inv E s"
  shows "rbox_inv E (fst (AddRoomMemberToOutbox E s roomID member i))"
    and "room_inbox E (fst (AddRoomMemberToOutbox E s roomID member i)) = room_inbox E s"
    and "bGet (bRoomOutbox (db (fst (AddRoomMemberToOutbox E s roomID member i))))
      = (bGet (bRoomOutbox (db s)))(roomOutboxKey E roomID member i \<mapsto> i)"
    and "bRooms (db (fst (AddRoomMemberToOutbox E s roomID member i))) = bRooms (db s)"
proof -
  have wf: "wf_bucket (bRooms (db s))" "wf_bucket (bRoomOutbox (db s))" "wf_bucket (bRoomSeq (db s))"
    using rooms_invD [of E "db s"] assms by (simp_all add: rbox_inv_def)
  let ?d = "(db s)\<lparr>bRoomOutbox := bPut (roomOutboxKey E roomID member i) i (bRoomOutbox (db s))\<rparr>"
  have s': "fst (AddRoomMemberToOutbox E s roomID member i) = s\<lparr>db := ?d\<rparr>"
    by (simp add: AddRoomMemberToOutbox_def dbUpdate_def)
  show "rbox_inv E (fst (AddRoomMemberToOutbox E s roomID member i))"
    "room_inbox E (fst (AddRoomMemberToOutbox E s roomID member i)) = room_inbox E s"
    unfolding s' by (rule rbox_same [OF assms]; simp add: wf)+
qed (simp_all add: AddRoomMemberToOutbox_def dbUpdate_def)

lemma CreateRoom_spec:
  assumes "rbox_inv E s" "nonce_ok r" "length (r_Members rm) \<le> MaxRoomMembers"
  obtains s' enc where "CreateRoom E r s rm = (s', Inr ())" "rbox_inv E s'" "room_inbox E s' = room_inbox E s"
    "bGet (bRooms (db s')) = (bGet (bRooms (db s)))(r_ID rm \<mapsto> enc)" "r_Members enc = r_Members rm"
    "bRoomOutbox (db s') = bRoomOutbox (db s)" "room_seq s' = room_seq s"
    "r_State rm \<noteq> [] \<Longrightarrow> decryptRoom E s' enc = Inr rm"
proof -
  have k: "aead_ok E" "keys_ok s" using assms(1) by (simp_all add: rbox_inv_def)
  obtain b where b: "encryptString E r s (r_Name rm) = Inr b" using encryptString_total k(2) assms(2) by blast
  have dec: "decryptString E s b = Inr (r_Name rm)"
    using decryptString_encryptString [OF k(1) assms(2) k(2) b] .
  let ?e = "rm\<lparr>r_Name := b\<rparr>"
  let ?d = "(db s)\<lparr>bRooms := bPut (r_ID rm) ?e (bRooms (db s))\<rparr>"
  have wf: "wf_bucket (bRooms (db s))" "wf_bucket (bRoomOutbox (db s))" "wf_bucket (bRoomSeq (db s))"
    using rooms_invD [of E "db s"] assms by (simp_all add: rbox_inv_def)
  have inv: "rbox_inv E (s\<lparr>db := ?d\<rparr>)" "room_inbox E (s\<lparr>db := ?d\<rparr>) = room_inbox E s"
    by (rule rbox_same [OF assms(1)]; simp add: wf)+
  show thesis
    by (rule that [of "s\<lparr>db := ?d\<rparr>" ?e])
      (use assms(3) b dec inv in \<open>simp_all add: CreateRoom_def encryptRoom_def dbUpdate_def decryptRoom_def\<close>)
qed

lemma MarkRoomDelivered_full:
  assumes inv: "rbox_inv E s" and m: "room_inbox E s i = Some m" "rm_Status m \<noteq> StatusDelivered"
    and r: "bGet (bRooms (db s)) roomID = Some r"
      "all_delivered E roomID (rm_Sender m) (bDelete (roomOutboxKey E roomID member i) (bRoomOutbox (db s))) (r_Members r)"
  shows "\<exists>s'. MarkRoomDelivered E s roomID member i = (s', Inr (m\<lparr>rm_Status := StatusDelivered\<rparr>, True))"
proof -
  have ri: "rooms_inv E (db s)" using inv by (simp add: rbox_inv_def)
  obtain n where n: "roombox (db s) i = Some n" "m = plain_room_msg E s n" using room_inbox_SomeD m(1) by blast
  have "room_msg_ok E s (n\<lparr>rm_Status := StatusDelivered\<rparr>)"
    using inv n(1) by (auto simp: rbox_inv_def room_msg_ok_def)
  then show ?thesis
    using m(2) r n(2)
    by (simp add: MarkRoomDelivered_def dbUpdate_def loadRoomMsg_roombox [OF ri n(1)] getRoom_def Let_def
        decryptRoomMessage_ok)
qed

lemma MarkRoomDelivered_partial:
  assumes inv: "rbox_inv E s" and m: "room_inbox E s i = Some m" "rm_Status m \<noteq> StatusDelivered"
    and r: "bGet (bRooms (db s)) roomID = Some r" "mb \<in> set (r_Members r)" "mb \<noteq> rm_Sender m"
    and k: "bGet (bRoomOutbox (db s)) k \<noteq> None" "prefix (roomOutboxPrefix E roomID mb) k"
      "k \<noteq> roomOutboxKey E roomID member i"
  obtains s' where "MarkRoomDelivered E s roomID member i = (s', Inr (m, False))" "rbox_inv E s'"
    "room_inbox E s' = room_inbox E s" "bGet (bRoomOutbox (db s')) (roomOutboxKey E roomID member i) = None"
proof -
  have ri: "rooms_inv E (db s)" using inv by (simp add: rbox_inv_def)
  obtain n where n: "roombox (db s) i = Some n" "m = plain_room_msg E s n" using room_inbox_SomeD m(1) by blast
  have ok: "room_msg_ok E s n" using inv n(1) by (auto simp: rbox_inv_def)
  let ?ob = "bDelete (roomOutboxKey E roomID member i) (bRoomOutbox (db s))"
  have "seek_has_prefix (roomOutboxPrefix E roomID mb) ?ob"
    using k rooms_invD(5) [OF ri] by (auto simp: seek_has_prefix_iff)
  then have na: "\<not> all_delivered E roomID (rm_Sender n) ?ob (r_Members r)"
    using r n(2) by (auto simp: all_delivered_iff)
  let ?d = "(db s)\<lparr>bRoomOutbox := ?ob\<rparr>"
  have "MarkRoomDelivered E s roomID member i = (s\<lparr>db := ?d\<rparr>, Inr (m, False))"
    using m(2) na r(1) n(2) decryptRoomMessage_ok [OF ok]
    by (simp add: MarkRoomDelivered_def dbUpdate_def loadRoomMsg_roombox [OF ri n(1)] getRoom_def Let_def)
  moreover have "rbox_inv E (s\<lparr>db := ?d\<rparr>)" "room_inbox E (s\<lparr>db := ?d\<rparr>) = room_inbox E s"
    by (rule rbox_same [OF inv]; simp add: rooms_invD [OF ri])+
  ultimately show thesis by (rule that) simp
qed

section \<open>A concrete room\<close>

definition sample_room :: room where
  "sample_room = \<lparr>r_ID = ''r'', r_Name = ''pub'', r_Members = [''Ann'', ''Bob''], r_CreatedBy = ''Ann'',
     r_CreatedAt = 1, r_State = RoomJoined\<rparr>"

definition sample_rm :: "string \<Rightarrow> roomMessage" where
  "sample_rm i = roomMessage0\<lparr>rm_ID := i, rm_Room := ''r'', rm_Sender := ''Ann'', rm_Dir := DirOut,
     rm_Body := ''hi'', rm_Status := StatusQueued\<rparr>"

definition sample_room1 :: store where
  "sample_room1 = fst (AddRoomMessage sample_env sample_nonce
     (fst (CreateRoom sample_env sample_nonce sample_store sample_room)) (sample_rm ''a''))"

definition sample_rooms :: store where
  "sample_rooms = fst (AddRoomMemberToOutbox sample_env
     (fst (AddRoomMemberToOutbox sample_env sample_room1 ''r'' ''Bob'' ''a'')) ''r'' ''Bob'' ''b'')"

lemma sample_room1:
  "rbox_inv sample_env sample_room1"
  "room_inbox sample_env sample_room1 = [''a'' \<mapsto> (sample_rm ''a'')\<lparr>rm_Seq := 1\<rparr>]"
  "\<exists>r. bGet (bRooms (db sample_room1)) ''r'' = Some r \<and> r_Members r = [''Ann'', ''Bob'']"
  "room_seq sample_room1 = 1" "bRoomOutbox (db sample_room1) = empty_bucket"
proof -
  let ?E = sample_env
  have d: "db sample_store = empty_db" by (simp add: sample_store_def)
  have i0: "rbox_inv ?E sample_store" by (rule rbox_inv_empty [OF sample_env_ok(1) sample_store_ok(2) d])
  have e0: "room_inbox ?E sample_store = Map.empty"
    by (simp add: room_inbox_def roombox_def d fun_eq_iff) (simp add: empty_db_def rlog.lookup_empty)
  have "length (r_Members sample_room) \<le> MaxRoomMembers" by (simp add: sample_room_def MaxRoomMembers_def)
  then obtain s0 r where c: "CreateRoom ?E sample_nonce sample_store sample_room = (s0, Inr ())" "rbox_inv ?E s0"
    "room_inbox ?E s0 = room_inbox ?E sample_store"
    "bGet (bRooms (db s0)) = (bGet (bRooms (db sample_store)))(r_ID sample_room \<mapsto> r)"
    "r_Members r = r_Members sample_room" "bRoomOutbox (db s0) = bRoomOutbox (db sample_store)"
    "room_seq s0 = room_seq sample_store"
    by (rule CreateRoom_spec [OF i0 sample_nonce_ok])
  have s0: "room_inbox ?E s0 = Map.empty" "bGet (bRooms (db s0)) ''r'' = Some r" "r_Members r = [''Ann'', ''Bob'']"
    using c by (simp_all add: e0 sample_room_def)
  have q: "room_seq s0 = 0" "bRoomOutbox (db s0) = empty_bucket"
    using c(6,7) by (simp_all add: d) (simp_all add: empty_db_def empty_bucket_def)
  have lt: "room_seq s0 < - 1" using q by (intro less_max_unat) simp
  have rx: "length (rm_Reactions (sample_rm ''a'')) \<le> MaxRoomReactions"
    by (simp add: sample_rm_def roomMessage0_def)
  from c(2) sample_nonce_ok lt rx
  obtain s1 where s1: "AddRoomMessage ?E sample_nonce s0 (sample_rm ''a'') = (s1, Inr ((sample_rm ''a'')\<lparr>rm_Seq := 1\<rparr>, False))"
    "rbox_inv ?E s1" "room_inbox ?E s1 = [''a'' \<mapsto> (sample_rm ''a'')\<lparr>rm_Seq := 1\<rparr>]" "room_seq s1 = 1"
    "bRooms (db s1) = bRooms (db s0)" "bRoomOutbox (db s1) = bRoomOutbox (db s0)"
    by (cases rule: AddRoomMessage_cases [where m = "sample_rm ''a''"])
      (simp_all add: s0(1) q, simp add: sample_rm_def)
  have e: "sample_room1 = s1" by (simp add: sample_room1_def c(1) s1(1))
  show "rbox_inv ?E sample_room1" "room_inbox ?E sample_room1 = [''a'' \<mapsto> (sample_rm ''a'')\<lparr>rm_Seq := 1\<rparr>]"
    "room_seq sample_room1 = 1" "bRoomOutbox (db sample_room1) = empty_bucket"
    by (simp_all add: e s1 q)
  show "\<exists>r. bGet (bRooms (db sample_room1)) ''r'' = Some r \<and> r_Members r = [''Ann'', ''Bob'']"
    using s0 s1(5) by (simp add: e)
qed

lemma sample_rooms:
  "rbox_inv sample_env sample_rooms"
  "room_inbox sample_env sample_rooms = [''a'' \<mapsto> (sample_rm ''a'')\<lparr>rm_Seq := 1\<rparr>]"
  "\<exists>r. bGet (bRooms (db sample_rooms)) ''r'' = Some r \<and> r_Members r = [''Ann'', ''Bob'']"
  "bGet (bRoomOutbox (db sample_rooms)) (roomOutboxKey sample_env ''r'' ''Bob'' ''b'') = Some ''b''"
  "room_seq sample_rooms = 1"
proof -
  note a1 = AddRoomMemberToOutbox_spec [OF sample_room1(1), of "''r''" "''Bob''" "''a''"]
  note a2 = AddRoomMemberToOutbox_spec [OF a1(1), of "''r''" "''Bob''" "''b''", folded sample_rooms_def]
  show "rbox_inv sample_env sample_rooms" by (fact a2(1))
  show "room_inbox sample_env sample_rooms = [''a'' \<mapsto> (sample_rm ''a'')\<lparr>rm_Seq := 1\<rparr>]"
    using a1(2) a2(2) sample_room1(2) by simp
  show "\<exists>r. bGet (bRooms (db sample_rooms)) ''r'' = Some r \<and> r_Members r = [''Ann'', ''Bob'']"
    using a1(4) a2(4) sample_room1(3) by simp
  show "bGet (bRoomOutbox (db sample_rooms)) (roomOutboxKey sample_env ''r'' ''Bob'' ''b'') = Some ''b''"
    using a2(3) by simp
  show "room_seq sample_rooms = 1"
    using sample_room1(4) by (simp add: sample_rooms_def AddRoomMemberToOutbox_def dbUpdate_def)
qed

section \<open>Properties\<close>

text \<open>
  A room message is stored once: a known id is reported as a duplicate and nothing changes,
  a new one is appended under the next sequence number and reads back as given.
\<close>

theorem AddRoomMessage_effect:
  assumes "rbox_inv E s" "nonce_ok r" "room_seq s < - 1" "length (rm_Reactions m) \<le> MaxRoomReactions"
  shows "case room_inbox E s (rm_ID m) of
      Some _ \<Rightarrow> AddRoomMessage E r s m = (s, Inr (roomMessage0, True))
    | None \<Rightarrow> snd (AddRoomMessage E r s m) = Inr (m\<lparr>rm_Seq := room_seq s + 1\<rparr>, False)
        \<and> rbox_inv E (fst (AddRoomMessage E r s m))
        \<and> room_inbox E (fst (AddRoomMessage E r s m)) = (room_inbox E s)(rm_ID m \<mapsto> m\<lparr>rm_Seq := room_seq s + 1\<rparr>)"
  using assms by (cases rule: AddRoomMessage_cases [where m = m]) simp_all

lemma sample_rooms_lt: "room_seq sample_rooms < - 1"
  by (intro less_max_unat) (simp add: sample_rooms)

theorem AddRoomMessage_effect_witness:
  "AddRoomMessage sample_env sample_nonce sample_rooms (sample_rm ''a'') = (sample_rooms, Inr (roomMessage0, True))"
  using AddRoomMessage_effect [OF sample_rooms(1) sample_nonce_ok sample_rooms_lt, of "sample_rm ''a''"]
  by (simp add: sample_rooms(2)) (simp add: sample_rm_def roomMessage0_def)

text \<open>
  The message window of a room is the newest \<open>limit\<close> messages of that room, oldest first.
\<close>

theorem RoomMessages_window:
  assumes "rbox_inv E s" "room_seq s < - 1" "CHR 0x00 \<notin> set (ToLower E roomID)"
    and "\<forall>i m. room_inbox E s i = Some m \<longrightarrow> CHR 0x00 \<notin> set (ToLower E (rm_Room m))"
  shows "\<exists>c. sorted_wrt (<) (map rm_Seq c)
    \<and> set c = {m. ToLower E (rm_Room m) = ToLower E roomID \<and> room_inbox E s (rm_ID m) = Some m}
    \<and> RoomMessages E s roomID limit
        = Inr (drop (length c - nat (if limit \<le> 0 \<or> limit > 1000 then 200 else limit)) c)"
  using rooms_window [OF assms(1-3)] assms(4) by blast

lemma ToLower_lower:
  "\<forall>c\<in>set s. (of_char c :: nat) < 0x80 \<and> \<not> (0x41 \<le> (of_char c :: nat) \<and> (of_char c :: nat) \<le> 0x5A) \<Longrightarrow> ToLower E s = s"
  by (auto simp: ToLower_def ascii_lower_def list_all_iff intro!: map_idI)

lemma sample_rooms_ids: "room_inbox sample_env sample_rooms i = Some m \<Longrightarrow> rm_Room m = ''r''"
  by (auto simp: sample_rooms(2) sample_rm_def split: if_splits)

theorem RoomMessages_window_witness:
  "\<exists>c. set c = {(sample_rm ''a'')\<lparr>rm_Seq := 1\<rparr>} \<and> RoomMessages sample_env sample_rooms ''r'' 50
     = Inr (drop (length c - 50) c)"
proof -
  let ?m = "(sample_rm ''a'')\<lparr>rm_Seq := 1\<rparr>"
  have r: "ToLower sample_env ''r'' = ''r''" by (rule ToLower_lower) simp
  have "\<forall>i m. room_inbox sample_env sample_rooms i = Some m \<longrightarrow> CHR 0x00 \<notin> set (ToLower sample_env (rm_Room m))"
    using sample_rooms_ids r by fastforce
  then obtain c where c: "set c = {m. ToLower sample_env (rm_Room m) = ToLower sample_env ''r''
        \<and> room_inbox sample_env sample_rooms (rm_ID m) = Some m}"
    "RoomMessages sample_env sample_rooms ''r'' 50 = Inr (drop (length c - 50) c)"
    using RoomMessages_window [OF sample_rooms(1) sample_rooms_lt, of "''r''" 50] r by auto
  have "rm_ID ?m = ''a''" "rm_Room ?m = ''r''" by (simp_all add: sample_rm_def)
  then have "set c = {?m}" unfolding c(1) by (auto simp: sample_rooms(2) split: if_splits)
  with c(2) show ?thesis by blast
qed

text \<open>
  A reaction toggles: if the member has not reacted with that emoji and the message has room,
  reacting adds exactly that reaction, reacting again removes it, and the room's messages are
  then as they were. The number of reactions never exceeds \<open>MaxRoomReactions\<close>, part of the
  invariant that both steps keep.
\<close>

theorem reaction_toggles_back:
  assumes "rbox_inv E s" "room_inbox E s i = Some m" "EqualFold E (rm_Room m) roomID"
    and "remove_reaction E sender emoji (rm_Reactions m) = None" "length (rm_Reactions m) < MaxRoomReactions"
  defines "s1 \<equiv> fst (ToggleRoomReaction E s roomID i sender emoji)"
  defines "s2 \<equiv> fst (ToggleRoomReaction E s1 roomID i sender emoji)"
  shows "room_inbox E s1 = (room_inbox E s)(i \<mapsto> m\<lparr>rm_Reactions := rm_Reactions m
      @ [\<lparr>rr_Sender = sender, rr_Emoji = emoji\<rparr>]\<rparr>) \<and> rbox_inv E s1
    \<and> room_inbox E s2 = room_inbox E s \<and> rbox_inv E s2"
proof -
  let ?rs = "rm_Reactions m @ [\<lparr>rr_Sender = sender, rr_Emoji = emoji\<rparr>]"
  have t: "toggled E sender emoji (rm_Reactions m) = Some ?rs" using assms(4,5) by (simp add: toggled_def)
  from ToggleRoomReaction_spec [OF assms(1-3), of sender emoji] t
  have 1: "rbox_inv E s1" "room_inbox E s1 = (room_inbox E s)(i \<mapsto> m\<lparr>rm_Reactions := ?rs\<rparr>)"
    by (auto simp: s1_def)
  have "toggled E sender emoji ?rs = Some (rm_Reactions m)" by (rule toggled_twice [OF assms(4) t])
  with ToggleRoomReaction_spec [OF 1(1), of i "m\<lparr>rm_Reactions := ?rs\<rparr>" roomID sender emoji] assms(3)
  have "rbox_inv E s2" "room_inbox E s2 = (room_inbox E s1)(i \<mapsto> m)"
    by (auto simp: s2_def 1(2))
  with 1 assms(2) show ?thesis by (auto simp: fun_eq_iff)
qed

theorem reaction_toggles_back_witness:
  "room_inbox sample_env (fst (ToggleRoomReaction sample_env
     (fst (ToggleRoomReaction sample_env sample_rooms ''r'' ''a'' ''Bob'' ''x'')) ''r'' ''a'' ''Bob'' ''x''))
   = room_inbox sample_env sample_rooms"
proof -
  have m: "room_inbox sample_env sample_rooms ''a'' = Some ((sample_rm ''a'')\<lparr>rm_Seq := 1\<rparr>)"
    by (simp add: sample_rooms(2))
  have "rm_Room ((sample_rm ''a'')\<lparr>rm_Seq := 1\<rparr>) = ''r''" "rm_Reactions ((sample_rm ''a'')\<lparr>rm_Seq := 1\<rparr>) = []"
    by (simp_all add: sample_rm_def roomMessage0_def)
  then show ?thesis
    using reaction_toggles_back [OF sample_rooms(1) m, of "''r''" "''Bob''" "''x''"]
    by (simp add: MaxRoomReactions_def)
qed

text \<open>
  When an acknowledgement marks a room message delivered, no member other than its sender has
  anything of that room left in the outbox, and the message is the one acknowledged.
\<close>

theorem room_delivered_means_drained:
  assumes "rbox_inv E s" "MarkRoomDelivered E s roomID member i = (s', Inr (m, True))"
  shows "rbox_inv E s' \<and> rm_Status m = StatusDelivered \<and> room_inbox E s' = (room_inbox E s)(i \<mapsto> m)
    \<and> (\<exists>r. bGet (bRooms (db s)) roomID = Some r \<and> (\<forall>mb\<in>set (r_Members r). mb \<noteq> rm_Sender m \<longrightarrow>
        (\<forall>k. prefix (roomOutboxPrefix E roomID mb) k \<longrightarrow> bGet (bRoomOutbox (db s')) k = None)))"
proof -
  obtain r n where r: "bGet (bRooms (db s)) roomID = Some r" "m = (plain_room_msg E s n)\<lparr>rm_Status := StatusDelivered\<rparr>"
    "rbox_inv E s'" "room_inbox E s' = (room_inbox E s)(i \<mapsto> m)"
    "all_delivered E roomID (rm_Sender n) (bRoomOutbox (db s')) (r_Members r)"
    by (rule MarkRoomDelivered_True [OF assms])
  have "wf_bucket (bRoomOutbox (db s'))" using rooms_invD(5) [of E "db s'"] r(3) by (simp add: rbox_inv_def)
  with r(5) have "\<forall>mb\<in>set (r_Members r). mb \<noteq> rm_Sender n \<longrightarrow>
      (\<forall>k. prefix (roomOutboxPrefix E roomID mb) k \<longrightarrow> bGet (bRoomOutbox (db s')) k = None)"
    by (auto simp: all_delivered_iff seek_has_prefix_iff)
  moreover have "rm_Sender m = rm_Sender n" "rm_Status m = StatusDelivered" by (simp_all add: r(2))
  ultimately show ?thesis using r(1,3,4) by auto
qed

theorem room_delivered_means_drained_witness:
  "\<exists>s' m. MarkRoomDelivered sample_env sample_room1 ''r'' ''Bob'' ''a'' = (s', Inr (m, True))
     \<and> rm_Status m = StatusDelivered \<and> rbox_inv sample_env s'"
proof -
  let ?m = "(sample_rm ''a'')\<lparr>rm_Seq := 1\<rparr>"
  obtain r where r: "bGet (bRooms (db sample_room1)) ''r'' = Some r" using sample_room1(3) by blast
  have m: "room_inbox sample_env sample_room1 ''a'' = Some ?m" "rm_Status ?m \<noteq> StatusDelivered"
    by (simp add: sample_room1(2), simp add: sample_rm_def)
  have e: "bDelete k empty_bucket = empty_bucket" for k by (simp add: bDelete_def empty_bucket_def)
  have "all_delivered sample_env ''r'' (rm_Sender ?m) (bDelete (roomOutboxKey sample_env ''r'' ''Bob'' ''a'')
      (bRoomOutbox (db sample_room1))) (r_Members r)"
    by (simp add: sample_room1(5) e all_delivered_iff seek_has_prefix_iff)
  from MarkRoomDelivered_full [OF sample_room1(1) m r this] obtain s' where
    s': "MarkRoomDelivered sample_env sample_room1 ''r'' ''Bob'' ''a'' = (s', Inr (?m\<lparr>rm_Status := StatusDelivered\<rparr>, True))"
    by blast
  with room_delivered_means_drained [OF sample_room1(1) s'] show ?thesis by blast
qed

text \<open>
  An acknowledgement that is not the last one outstanding in the room removes the member's
  outbox entry and leaves the message queued: while any member still has any message of the
  room in the outbox, no acknowledgement marks anything delivered, and the removed entry is the
  only thing that would have brought a later acknowledgement.
\<close>

theorem room_ack_can_leave_queued:
  assumes "rbox_inv E s" "room_inbox E s i = Some m" "rm_Status m \<noteq> StatusDelivered"
    and "bGet (bRooms (db s)) roomID = Some r" "mb \<in> set (r_Members r)" "mb \<noteq> rm_Sender m"
    and "bGet (bRoomOutbox (db s)) k \<noteq> None" "prefix (roomOutboxPrefix E roomID mb) k"
      "k \<noteq> roomOutboxKey E roomID member i"
  shows "\<exists>s'. MarkRoomDelivered E s roomID member i = (s', Inr (m, False))
    \<and> room_inbox E s' = room_inbox E s
    \<and> bGet (bRoomOutbox (db s')) (roomOutboxKey E roomID member i) = None"
  by (rule MarkRoomDelivered_partial [OF assms]) blast

lemma sample_keys:
  "roomOutboxKey sample_env ''r'' ''Bob'' ''b'' \<noteq> roomOutboxKey sample_env ''r'' ''Bob'' ''a''"
  "prefix (roomOutboxPrefix sample_env ''r'' ''Bob'') (roomOutboxKey sample_env ''r'' ''Bob'' ''b'')"
proof -
  have "ToLower sample_env ''a'' = ''a''" "ToLower sample_env ''b'' = ''b''" by (rule ToLower_lower, simp)+
  then show "roomOutboxKey sample_env ''r'' ''Bob'' ''b'' \<noteq> roomOutboxKey sample_env ''r'' ''Bob'' ''a''"
    "prefix (roomOutboxPrefix sample_env ''r'' ''Bob'') (roomOutboxKey sample_env ''r'' ''Bob'' ''b'')"
    by (simp_all add: roomOutboxKey_def roomOutboxPrefix_def)
qed

theorem room_ack_can_leave_queued_witness:
  "\<exists>s'. MarkRoomDelivered sample_env sample_rooms ''r'' ''Bob'' ''a'' = (s', Inr ((sample_rm ''a'')\<lparr>rm_Seq := 1\<rparr>, False))
    \<and> bGet (bRoomOutbox (db s')) (roomOutboxKey sample_env ''r'' ''Bob'' ''a'') = None"
proof -
  obtain r where r: "bGet (bRooms (db sample_rooms)) ''r'' = Some r" "r_Members r = [''Ann'', ''Bob'']"
    using sample_rooms(3) by blast
  have m: "room_inbox sample_env sample_rooms ''a'' = Some ((sample_rm ''a'')\<lparr>rm_Seq := 1\<rparr>)"
    by (simp add: sample_rooms(2))
  have q: "rm_Status ((sample_rm ''a'')\<lparr>rm_Seq := 1\<rparr>) \<noteq> StatusDelivered"
    "''Bob'' \<noteq> rm_Sender ((sample_rm ''a'')\<lparr>rm_Seq := 1\<rparr>)" "''Bob'' \<in> set (r_Members r)"
    by (simp_all add: sample_rm_def r(2))
  have k: "bGet (bRoomOutbox (db sample_rooms)) (roomOutboxKey sample_env ''r'' ''Bob'' ''b'') \<noteq> None"
    by (simp add: sample_rooms(4))
  from room_ack_can_leave_queued [OF sample_rooms(1) m q(1) r(1) q(3,2) k sample_keys(2,1)] show ?thesis by blast
qed

text \<open>
  Deleting a room removes its record and exactly the messages whose room id has the same
  lower-case form, and keeps the invariant.
\<close>

theorem DeleteRoom_effect:
  assumes "rbox_inv E s" "CHR 0x00 \<notin> set (ToLower E i)"
    and "\<forall>j m. room_inbox E s j = Some m \<longrightarrow> CHR 0x00 \<notin> set (ToLower E (rm_Room m))"
  shows "rbox_inv E (fst (DeleteRoom E s i)) \<and> snd (DeleteRoom E s i) = Inr ()
    \<and> bGet (bRooms (db (fst (DeleteRoom E s i)))) = (bGet (bRooms (db s)))(i := None)
    \<and> (\<forall>j. room_inbox E (fst (DeleteRoom E s i)) j = (case room_inbox E s j of None \<Rightarrow> None
        | Some m \<Rightarrow> if ToLower E (rm_Room m) = ToLower E i then None else Some m))"
proof -
  have nf: "CHR 0x00 \<notin> set (ToLower E (rm_Room m))" if "room_inbox E s j = Some m" for j m
    using assms(3) that by blast
  have ri: "rooms_inv E (db s)" using assms(1) by (simp add: rbox_inv_def)
  have "snd (DeleteRoom E s i) = Inr ()"
    "bGet (bRooms (db (fst (DeleteRoom E s i)))) = (bGet (bRooms (db s)))(i := None)"
    by (simp_all add: DeleteRoom_db [OF ri])
  with DeleteRoom_effect_aux [OF assms(1,2) nf] show ?thesis by simp
qed

text \<open>
  The record is deleted under the raw id but the messages under the lower-cased one: deleting
  \<open>R\<close> empties the room \<open>r\<close> and leaves its record in place.
\<close>

theorem DeleteRoom_effect_witness:
  "room_inbox sample_env (fst (DeleteRoom sample_env sample_rooms ''R'')) ''a'' = None
   \<and> bGet (bRooms (db (fst (DeleteRoom sample_env sample_rooms ''R'')))) ''r'' = bGet (bRooms (db sample_rooms)) ''r''"
proof -
  have r: "ToLower sample_env ''r'' = ''r''" "ToLower sample_env ''R'' = ''r''"
    by (simp_all add: ToLower_def ascii_lower_def char_of_eq_of_char)
  have nf: "\<forall>i m. room_inbox sample_env sample_rooms i = Some m \<longrightarrow> CHR 0x00 \<notin> set (ToLower sample_env (rm_Room m))"
    using sample_rooms_ids r by fastforce
  have "CHR 0x00 \<notin> set (ToLower sample_env ''R'')" by (simp add: r)
  from DeleteRoom_effect [OF sample_rooms(1) this nf] show ?thesis
    by (simp add: sample_rooms(2) r) (simp add: sample_rm_def r)
qed

text \<open>
  The per-sender counter of a room is durable and private to its room and sender (up to
  case): after any sequence of requests it has advanced, modulo 2^64, by exactly the number of
  requests for that pair.
\<close>

theorem sender_seq_counts:
  "sender_seq E (foldl (\<lambda>s (rm, p). fst (NextRoomSenderSeq E s rm p)) s calls) roomID sender
     = sender_seq E s roomID sender
       + of_nat (length (filter (\<lambda>(rm, p). roomSeqKey E rm p = roomSeqKey E roomID sender) calls))"
proof (induction calls arbitrary: s)
  case Nil
  then show ?case by simp
next
  case (Cons c calls)
  obtain rm p where c: "c = (rm, p)" by (cases c)
  have "sender_seq E (fst (NextRoomSenderSeq E s rm p)) roomID sender = sender_seq E s roomID sender
      + of_nat (length (filter (\<lambda>(rm, p). roomSeqKey E rm p = roomSeqKey E roomID sender) [c]))"
    by (cases "roomSeqKey E rm p = roomSeqKey E roomID sender")
      (simp_all add: c NextRoomSenderSeq_spec, simp add: sender_seq_def)
  with Cons show ?case by (simp add: c)
qed

end
