(* ===== verification/Store_Files.thy ===== *)
theory Store_Files
  imports Store_Rooms
begin

text \<open>
  Package \<open>internal/store\<close>, part 6 (\<open>files.go\<close>): file records, the outbox of files, and the
  transfer directories with the partial \<open>data.tmp\<close> and the finished \<open>data.enc\<close>.

  A transfer id names its directory (ids are 32 hexadecimal characters, so distinct ids are
  distinct directories). The system calls succeed unless the directory or file is missing.
  \<open>time.Now()\<close> is an argument.
\<close>

section \<open>Operations\<close>

abbreviation FileQueued :: string where "FileQueued \<equiv> ''queued''"
abbreviation FileSending :: string where "FileSending \<equiv> ''sending''"
abbreviation FileSent :: string where "FileSent \<equiv> ''sent''"
abbreviation FileReceiving :: string where "FileReceiving \<equiv> ''receiving''"
abbreviation FileComplete :: string where "FileComplete \<equiv> ''complete''"
abbreviation FileFailed :: string where "FileFailed \<equiv> ''failed''"

definition ENOENT :: err where "ENOENT = Err ''no such file or directory''"

text \<open>\<open>os.MkdirAll\<close> on a transfer directory, and a change inside it.\<close>

definition mkdir :: "store \<Rightarrow> string \<Rightarrow> store" where
  "mkdir s i = (case filesDir s i of
     Some _ \<Rightarrow> s | None \<Rightarrow> s\<lparr>filesDir := (filesDir s)(i \<mapsto> \<lparr>data_tmp = None, data_enc = None\<rparr>)\<rparr>)"

definition in_dir :: "(filedir \<Rightarrow> filedir) \<Rightarrow> store \<Rightarrow> string \<Rightarrow> store" where
  "in_dir f s i = s\<lparr>filesDir := (filesDir s)(i := map_option f (filesDir s i))\<rparr>"

text \<open>What \<open>writeFileData\<close> puts on disk, and what \<open>readFileData\<close> makes of a file's content.\<close>

definition writeFileData :: "env \<Rightarrow> rnd \<Rightarrow> store \<Rightarrow> bytes \<Rightarrow> bytes result" where
  "writeFileData E r s data = (case encKey s of None \<Rightarrow> Inr data | Some k \<Rightarrow> Encrypt E r k data)"

definition readFileData :: "env \<Rightarrow> store \<Rightarrow> bytes option \<Rightarrow> bytes result" where
  "readFileData E s content = (case content of
     None \<Rightarrow> Inl ENOENT
   | Some c \<Rightarrow> (case encKey s of None \<Rightarrow> Inr c | Some k \<Rightarrow> Decrypt E k c))"

definition GetFile :: "store \<Rightarrow> string \<Rightarrow> fileRec result" where
  "GetFile s i = (case bGet (bFiles (db s)) i of None \<Rightarrow> Inl ErrFileNotFound | Some f \<Rightarrow> Inr f)"

definition AddOutboundFile ::
    "env \<Rightarrow> rnd \<Rightarrow> gotime \<Rightarrow> store \<Rightarrow> string \<Rightarrow> string \<Rightarrow> string \<Rightarrow> string \<Rightarrow> bytes \<Rightarrow> store \<times> unit result" where
  "AddOutboundFile E r now s i peer name hash data =
     (let s0 = mkdir s i in
      case wrap_err ''store: write file data'' (writeFileData E r s0 data) of
        Inl e \<Rightarrow> (s0, Inl e)
      | Inr content \<Rightarrow>
        let s1 = in_dir (\<lambda>d. d\<lparr>data_enc := Some content\<rparr>) s0 i;
            f = \<lparr>f_ID = i, f_Peer = peer, f_Dir = DirOut, f_Name = name, f_Size = int (length data),
                 f_Hash = hash, f_Status = FileQueued, f_Received = 0, f_Sent = 0, f_TS = now\<rparr>
        in dbUpdate s1 (\<lambda>d. Inr (d\<lparr>bFiles := bPut i f (bFiles d),
             bFileOutbox := bPut i i (bFileOutbox d)\<rparr>, ())))"

definition tmp_of :: "store \<Rightarrow> string \<Rightarrow> bytes option" where
  "tmp_of s i = (case filesDir s i of None \<Rightarrow> None | Some d \<Rightarrow> data_tmp d)"

definition enc_of :: "store \<Rightarrow> string \<Rightarrow> bytes option" where
  "enc_of s i = (case filesDir s i of None \<Rightarrow> None | Some d \<Rightarrow> data_enc d)"

definition resume_point :: "store \<Rightarrow> string \<Rightarrow> string \<Rightarrow> int \<Rightarrow> int" where
  "resume_point s i hash sz = (case GetFile s i of
     Inl _ \<Rightarrow> 0
   | Inr prev \<Rightarrow>
       if f_Status prev = FileReceiving \<and> f_Hash prev = hash \<and> f_Size prev = sz
       then (case tmp_of s i of
           None \<Rightarrow> 0
         | Some tmp \<Rightarrow>
             let r1 = (if int (length tmp) < f_Received prev then int (length tmp) else f_Received prev)
             in if r1 < 0 \<or> r1 > sz then 0 else r1)
       else 0)"

definition BeginReceive ::
    "gotime \<Rightarrow> store \<Rightarrow> string \<Rightarrow> string \<Rightarrow> string \<Rightarrow> string \<Rightarrow> int \<Rightarrow> store \<times> int result" where
  "BeginReceive now s i peer name hash sz =
     (let s0 = mkdir s i;
          resume = resume_point s0 i hash sz;
          s1 = (if resume = 0 then in_dir (\<lambda>d. d\<lparr>data_tmp := Some []\<rparr>) s0 i else s0);
          f = \<lparr>f_ID = i, f_Peer = peer, f_Dir = DirIn, f_Name = name, f_Size = sz, f_Hash = hash,
               f_Status = FileReceiving, f_Received = resume, f_Sent = 0, f_TS = now\<rparr>
      in dbUpdate s1 (\<lambda>d. Inr (d\<lparr>bFiles := bPut i f (bFiles d)\<rparr>, resume)))"

text \<open>\<open>File.WriteAt\<close>: a hole before the offset reads as zero bytes.\<close>

definition WriteAt :: "bytes \<Rightarrow> nat \<Rightarrow> bytes \<Rightarrow> bytes" where
  "WriteAt data off content = (if data = [] then content
     else take off (content @ replicate (off - length content) (CHR 0x00)) @ data
       @ drop (off + length data) content)"

definition advance :: "int \<Rightarrow> int \<Rightarrow> fileRec \<Rightarrow> fileRec" where
  "advance offset len f =
     (let r1 = (if offset + len > f_Received f then offset + len else f_Received f);
          r2 = (if r1 > f_Size f then f_Size f else r1)
      in f\<lparr>f_Received := r2\<rparr>)"

definition WriteChunk :: "store \<Rightarrow> string \<Rightarrow> int \<Rightarrow> bytes \<Rightarrow> store \<times> fileRec result" where
  "WriteChunk s i offset data = (case filesDir s i of
     None \<Rightarrow> (s, Inl (ErrWrap ''store: open temp file'' ENOENT))
   | Some dir \<Rightarrow>
       let old = (case data_tmp dir of None \<Rightarrow> [] | Some c \<Rightarrow> c) in
       if offset < 0
       then (in_dir (\<lambda>d. d\<lparr>data_tmp := Some old\<rparr>) s i,
             Inl (ErrWrap ''store: write chunk'' (Err ''negative offset'')))
       else
         let s1 = in_dir (\<lambda>d. d\<lparr>data_tmp := Some (WriteAt data (nat offset) old)\<rparr>) s i
         in dbUpdate s1 (\<lambda>d. case bGet (bFiles d) i of
              None \<Rightarrow> Inl ErrFileNotFound
            | Some f \<Rightarrow>
                if offset > f_Received f
                then Inl (ErrF ''store: chunk at %d leaves a gap after %d''
                  [Itoa (nat offset), Itoa (nat (f_Received f))])
                else let f' = advance offset (int (length data)) f
                  in Inr (d\<lparr>bFiles := bPut i f' (bFiles d)\<rparr>, f')))"

definition setFileStatus :: "store \<Rightarrow> string \<Rightarrow> string \<Rightarrow> store \<times> unit result" where
  "setFileStatus s i status = dbUpdate s (\<lambda>d. case bGet (bFiles d) i of
     None \<Rightarrow> Inl ErrFileNotFound
   | Some f \<Rightarrow> Inr (d\<lparr>bFiles := bPut i (f\<lparr>f_Status := status\<rparr>) (bFiles d)\<rparr>, ()))"

definition markFileFailed :: "store \<Rightarrow> string \<Rightarrow> store" where
  "markFileFailed s i = fst (setFileStatus s i FileFailed)"

definition CompleteFile :: "env \<Rightarrow> rnd \<Rightarrow> store \<Rightarrow> string \<Rightarrow> store \<times> unit result" where
  "CompleteFile E r s i = (case bGet (bFiles (db s)) i of
     None \<Rightarrow> (s, Inl ErrFileNotFound)
   | Some f \<Rightarrow>
       if f_Status f \<noteq> FileReceiving then (s, Inl (Err ''store: file not in receiving state''))
       else if f_Received f \<noteq> f_Size f then (s, Inl (Err ''store: file truncated''))
       else case tmp_of s i of
         None \<Rightarrow> (s, Inl ENOENT)
       | Some data \<Rightarrow>
           if hex_EncodeToString (sha256 E data) \<noteq> f_Hash f
           then (in_dir (\<lambda>d. d\<lparr>data_tmp := None\<rparr>) (markFileFailed s i) i, Inl ErrFileHashMismatch)
           else case writeFileData E r s data of
             Inl e \<Rightarrow> (s, Inl e)
           | Inr content \<Rightarrow>
               let s1 = in_dir (\<lambda>d. d\<lparr>data_enc := Some content\<rparr>) s i;
                   (s2, res) = setFileStatus s1 i FileComplete
               in case res of
                    Inl e \<Rightarrow> (s2, Inl e)
                  | Inr _ \<Rightarrow> (in_dir (\<lambda>d. d\<lparr>data_tmp := None\<rparr>) s2 i, Inr ()))"

definition rmdir :: "store \<Rightarrow> string \<Rightarrow> store" where
  "rmdir s i = s\<lparr>filesDir := (filesDir s)(i := None)\<rparr>"

definition CancelReceive :: "store \<Rightarrow> string \<Rightarrow> store \<times> unit result" where
  "CancelReceive s i =
     (let (s1, res) = dbUpdate s (\<lambda>d. case bGet (bFiles d) i of
            None \<Rightarrow> Inl ErrFileNotFound
          | Some f \<Rightarrow> if f_Status f \<noteq> FileReceiving then Inl (Err ''store: file not in receiving state'')
              else Inr (d\<lparr>bFiles := bDelete i (bFiles d)\<rparr>, ()))
      in case res of Inl e \<Rightarrow> (s1, Inl e) | Inr _ \<Rightarrow> (rmdir s1 i, Inr ()))"

definition FileOutbox :: "store \<Rightarrow> fileRec list result" where
  "FileOutbox s = Inr (concat (map (\<lambda>(k, _). case bGet (bFiles (db s)) k of None \<Rightarrow> [] | Some f \<Rightarrow> [f])
     (entries (bFileOutbox (db s)))))"

definition MarkFileSent :: "store \<Rightarrow> string \<Rightarrow> store \<times> unit result" where
  "MarkFileSent s i = dbUpdate s (\<lambda>d. let d1 = d\<lparr>bFileOutbox := bDelete i (bFileOutbox d)\<rparr> in
     case bGet (bFiles d1) i of
       None \<Rightarrow> Inr (d1, ())
     | Some f \<Rightarrow> Inr (d1\<lparr>bFiles := bPut i (f\<lparr>f_Status := FileSent, f_Sent := f_Size f\<rparr>) (bFiles d1)\<rparr>, ()))"

definition DeleteFileOutbox :: "store \<Rightarrow> string \<Rightarrow> store \<times> unit result" where
  "DeleteFileOutbox s i = dbUpdate s (\<lambda>d. let d1 = d\<lparr>bFileOutbox := bDelete i (bFileOutbox d)\<rparr> in
     case bGet (bFiles d1) i of
       None \<Rightarrow> Inr (d1, ())
     | Some f \<Rightarrow> Inr (d1\<lparr>bFiles := bPut i (f\<lparr>f_Status := FileQueued\<rparr>) (bFiles d1)\<rparr>, ()))"

definition ListFiles :: "store \<Rightarrow> fileRec list result" where
  "ListFiles s = Inr (map snd (rev (entries (bFiles (db s)))))"

definition FileBlob :: "env \<Rightarrow> store \<Rightarrow> string \<Rightarrow> bytes result" where
  "FileBlob E s i = readFileData E s (enc_of s i)"

definition FileData :: "env \<Rightarrow> store \<Rightarrow> string \<Rightarrow> bytes result" where
  "FileData E s i = bindR (GetFile s i) (\<lambda>f.
     if f_Status f \<noteq> FileComplete then Inl (Err ''store: file not complete'') else FileBlob E s i)"

definition MarkFileSending :: "store \<Rightarrow> string \<Rightarrow> store \<times> unit result" where
  "MarkFileSending s i = dbUpdate s (\<lambda>d. case bGet (bFiles d) i of
     None \<Rightarrow> Inl ErrFileNotFound
   | Some f \<Rightarrow>
       let f1 = (if f_Status f = FileQueued then f\<lparr>f_Status := FileSending\<rparr> else f)
       in Inr (d\<lparr>bFiles := bPut i (f1\<lparr>f_Sent := 0\<rparr>) (bFiles d)\<rparr>, ()))"

definition DeleteFile :: "store \<Rightarrow> string \<Rightarrow> store \<times> unit result" where
  "DeleteFile s i = (rmdir (fst (dbUpdate s (\<lambda>d. Inr (d\<lparr>bFileOutbox := bDelete i (bFileOutbox d),
     bFiles := bDelete i (bFiles d)\<rparr>, ())))) i, Inr ())"

section \<open>Invariant\<close>

text \<open>
  A reception in progress holds at least as many bytes as its counter says, and the counter
  stays within the announced size; a complete file reads back as bytes with the announced hash.
\<close>

definition receiving_ok :: "store \<Rightarrow> string \<Rightarrow> fileRec \<Rightarrow> bool" where
  "receiving_ok s i f \<longleftrightarrow> (\<exists>tmp. tmp_of s i = Some tmp \<and> 0 \<le> f_Received f \<and> f_Received f \<le> f_Size f
     \<and> f_Received f \<le> int (length tmp))"

definition complete_ok :: "env \<Rightarrow> store \<Rightarrow> string \<Rightarrow> fileRec \<Rightarrow> bool" where
  "complete_ok E s i f \<longleftrightarrow> (\<exists>data. FileBlob E s i = Inr data \<and> hex_EncodeToString (sha256 E data) = f_Hash f)"

definition file_ok :: "env \<Rightarrow> store \<Rightarrow> string \<Rightarrow> fileRec \<Rightarrow> bool" where
  "file_ok E s i f \<longleftrightarrow> f_ID f = i \<and> (f_Status f = FileReceiving \<longrightarrow> receiving_ok s i f)
     \<and> (f_Status f = FileComplete \<longrightarrow> complete_ok E s i f)"

abbreviation file_at :: "store \<Rightarrow> string \<Rightarrow> fileRec option" where
  "file_at s i \<equiv> bGet (bFiles (db s)) i"

definition files_inv :: "env \<Rightarrow> store \<Rightarrow> bool" where
  "files_inv E s \<longleftrightarrow> aead_ok E \<and> keys_ok s \<and> wf_bucket (bFiles (db s)) \<and> wf_bucket (bFileOutbox (db s))
     \<and> (\<forall>i f. file_at s i = Some f \<longrightarrow> file_ok E s i f)"

lemma files_inv_empty: "\<lbrakk>aead_ok E; keys_ok s; db s = empty_db\<rbrakk> \<Longrightarrow> files_inv E s"
  by (simp add: files_inv_def empty_db_def)

text \<open>An operation on one id concerns that id only.\<close>

definition only_file :: "string \<Rightarrow> store \<Rightarrow> store \<Rightarrow> bool" where
  "only_file i s s' \<longleftrightarrow> encKey s' = encKey s \<and> idKey s' = idKey s
     \<and> (\<forall>j. j \<noteq> i \<longrightarrow> filesDir s' j = filesDir s j \<and> file_at s' j = file_at s j)
     \<and> (wf_bucket (bFiles (db s)) \<longrightarrow> wf_bucket (bFiles (db s')))
     \<and> (wf_bucket (bFileOutbox (db s)) \<longrightarrow> wf_bucket (bFileOutbox (db s')))"

lemma only_file_refl [simp]: "only_file i s s"
  by (simp add: only_file_def)

lemma only_file_trans: "\<lbrakk>only_file i s s'; only_file i s' s''\<rbrakk> \<Longrightarrow> only_file i s s''"
  by (simp add: only_file_def)

lemma file_ok_cong:
  "\<lbrakk>filesDir s' i = filesDir s i; encKey s' = encKey s\<rbrakk> \<Longrightarrow> file_ok E s' i f = file_ok E s i f"
  by (simp add: file_ok_def receiving_ok_def complete_ok_def FileBlob_def readFileData_def enc_of_def
      tmp_of_def cong: option.case_cong)

lemma files_inv_step:
  assumes "files_inv E s" "only_file i s s'" "\<And>f. file_at s' i = Some f \<Longrightarrow> file_ok E s' i f"
  shows "files_inv E s'"
proof -
  have "file_ok E s' j f" if "file_at s' j = Some f" for j f
  proof (cases "j = i")
    case True
    with that assms(3) show ?thesis by simp
  next
    case False
    then have same: "file_at s j = Some f" "filesDir s' j = filesDir s j" "encKey s' = encKey s"
      using that assms(2) by (simp_all add: only_file_def)
    from assms(1) same(1) have "file_ok E s j f" unfolding files_inv_def by blast
    then show ?thesis using file_ok_cong [OF same(2,3)] by simp
  qed
  then show ?thesis using assms(1,2) by (simp add: files_inv_def only_file_def keys_ok_def)
qed

lemma only_file_parts [simp]:
  "only_file i s (mkdir s i)" "only_file i s (in_dir g s i)" "only_file i s (rmdir s i)"
  by (auto simp: only_file_def mkdir_def in_dir_def rmdir_def split: option.split)

lemma dir_parts [simp]:
  "db (mkdir s i) = db s" "db (in_dir g s i) = db s" "db (rmdir s i) = db s"
  "encKey (mkdir s i) = encKey s" "encKey (in_dir g s i) = encKey s" "encKey (rmdir s i) = encKey s"
  "filesDir (in_dir g s i) i = map_option g (filesDir s i)"
  by (auto simp: mkdir_def in_dir_def rmdir_def split: option.split)

lemma mkdir_Some: "\<exists>d. filesDir (mkdir s i) i = Some d \<and> tmp_of (mkdir s i) i = data_tmp d
    \<and> tmp_of s i = data_tmp d \<and> enc_of s i = data_enc d"
  by (auto simp: mkdir_def tmp_of_def enc_of_def split: option.split)

text \<open>The database half of the operations: a new row at the id, or none.\<close>

lemma only_file_put:
  assumes "bFiles d' = bPut i f (bFiles (db s)) \<or> bFiles d' = bFiles (db s) \<or> bFiles d' = bDelete i (bFiles (db s))"
    and "bFileOutbox d' = bFileOutbox (db s) \<or> bFileOutbox d' = bPut i i (bFileOutbox (db s))
      \<or> bFileOutbox d' = bDelete i (bFileOutbox (db s))"
  shows "only_file i s (s\<lparr>db := d'\<rparr>)"
  using assms by (auto simp: only_file_def)

section \<open>Every operation keeps the invariant\<close>

lemma files_invD: "\<lbrakk>files_inv E s; file_at s i = Some f\<rbrakk> \<Longrightarrow> file_ok E s i f"
  unfolding files_inv_def by blast

lemma file_ok_parts:
  "\<lbrakk>tmp_of s' i = tmp_of s i; enc_of s' i = enc_of s i; encKey s' = encKey s\<rbrakk> \<Longrightarrow>
     file_ok E s' i f = file_ok E s i f"
  by (simp add: file_ok_def receiving_ok_def complete_ok_def FileBlob_def readFileData_def
      cong: option.case_cong)

lemma tmp_enc_mkdir [simp]: "tmp_of (mkdir s i) i = tmp_of s i" "enc_of (mkdir s i) i = enc_of s i"
  by (auto simp: tmp_of_def enc_of_def mkdir_def split: option.split)

lemma tmp_enc_db [simp]: "tmp_of (s\<lparr>db := d\<rparr>) = tmp_of s" "enc_of (s\<lparr>db := d\<rparr>) = enc_of s"
  by (simp_all add: tmp_of_def enc_of_def fun_eq_iff)

lemma tmp_enc_in_dir [simp]:
  "tmp_of (in_dir (\<lambda>d. d\<lparr>data_tmp := t\<rparr>) s i) i = (if filesDir s i = None then None else t)"
  "enc_of (in_dir (\<lambda>d. d\<lparr>data_tmp := t\<rparr>) s i) i = enc_of s i"
  "tmp_of (in_dir (\<lambda>d. d\<lparr>data_enc := c\<rparr>) s i) i = tmp_of s i"
  "enc_of (in_dir (\<lambda>d. d\<lparr>data_enc := c\<rparr>) s i) i = (if filesDir s i = None then None else c)"
  by (auto simp: tmp_of_def enc_of_def in_dir_def split: option.split)

lemma mkdir_not_None [simp]: "filesDir (mkdir s i) i \<noteq> None"
  by (auto simp: mkdir_def split: option.split)

lemma tmp_dir: "tmp_of s i = Some t \<Longrightarrow> filesDir s i \<noteq> None"
  by (auto simp: tmp_of_def split: option.splits)

text \<open>A row put at the id, on top of changes to its directory.\<close>

lemma files_inv_put:
  assumes "files_inv E s" "only_file i s s1" "db s1 = db s" "bFiles d' = bPut i f (bFiles (db s))"
    "bFileOutbox d' = bFileOutbox (db s) \<or> bFileOutbox d' = bPut i i (bFileOutbox (db s))
      \<or> bFileOutbox d' = bDelete i (bFileOutbox (db s))"
    "file_ok E (s1\<lparr>db := d'\<rparr>) i f"
  shows "files_inv E (s1\<lparr>db := d'\<rparr>)"
proof (rule files_inv_step [OF assms(1)])
  have "only_file i s1 (s1\<lparr>db := d'\<rparr>)" by (rule only_file_put) (use assms(3-5) in auto)
  with assms(2) show "only_file i s (s1\<lparr>db := d'\<rparr>)" by (rule only_file_trans)
  fix g
  assume "file_at (s1\<lparr>db := d'\<rparr>) i = Some g"
  then have "g = f" by (simp add: assms(4))
  with assms(6) show "file_ok E (s1\<lparr>db := d'\<rparr>) i g" by simp
qed

lemma files_inv_dir:
  assumes "files_inv E s" "only_file i s s1" "db s1 = db s"
    "\<And>f. file_at s i = Some f \<Longrightarrow> file_ok E s1 i f"
  shows "files_inv E s1"
  by (rule files_inv_step [OF assms(1,2)]) (use assms(3,4) in simp)

lemma files_inv_AddOutboundFile:
  assumes "files_inv E s"
  shows "files_inv E (fst (AddOutboundFile E r now s i peer name hash data))"
proof (cases "writeFileData E r (mkdir s i) data")
  case (Inl e)
  have "files_inv E (mkdir s i)"
    by (rule files_inv_dir [OF assms only_file_parts(1)])
      (simp_all add: file_ok_parts [of "mkdir s i" i s] files_invD [OF assms])
  with Inl show ?thesis by (simp add: AddOutboundFile_def wrap_err_def)
next
  case (Inr c)
  let ?s1 = "in_dir (\<lambda>d. d\<lparr>data_enc := Some c\<rparr>) (mkdir s i) i"
  have "only_file i s ?s1" by (rule only_file_trans [of _ _ "mkdir s i"]) simp_all
  from files_inv_put [OF assms this] show ?thesis
    using Inr by (simp add: AddOutboundFile_def wrap_err_def dbUpdate_def Let_def file_ok_def)
qed

lemma resume_bounds:
  assumes "0 \<le> sz"
  shows "0 \<le> resume_point s i hash sz \<and> resume_point s i hash sz \<le> sz"
    and "resume_point s i hash sz \<noteq> 0 \<Longrightarrow> \<exists>tmp. tmp_of s i = Some tmp \<and> resume_point s i hash sz \<le> int (length tmp)"
  using assms by (auto simp: resume_point_def Let_def split: sum.split option.split)

lemma files_inv_BeginReceive:
  assumes "files_inv E s" "0 \<le> sz"
  shows "files_inv E (fst (BeginReceive now s i peer name hash sz))"
proof -
  let ?s0 = "mkdir s i" and ?r = "resume_point (mkdir s i) i hash sz"
  let ?s1 = "if ?r = 0 then in_dir (\<lambda>d. d\<lparr>data_tmp := Some []\<rparr>) ?s0 i else ?s0"
  let ?f = "\<lparr>f_ID = i, f_Peer = peer, f_Dir = DirIn, f_Name = name, f_Size = sz, f_Hash = hash,
     f_Status = FileReceiving, f_Received = ?r, f_Sent = 0, f_TS = now\<rparr>"
  have o: "only_file i s ?s1"
    by (auto intro: only_file_trans [of _ _ "mkdir s i"])
  have "\<exists>tmp. tmp_of ?s1 i = Some tmp \<and> ?r \<le> int (length tmp)"
    using resume_bounds(2) [OF assms(2), of ?s0 i hash] by auto
  then have "receiving_ok (?s1\<lparr>db := d'\<rparr>) i ?f" for d'
    using resume_bounds(1) [OF assms(2), of ?s0 i hash] by (auto simp: receiving_ok_def)
  then have "file_ok E (?s1\<lparr>db := d'\<rparr>) i ?f" for d' by (simp add: file_ok_def)
  from files_inv_put [OF assms(1) o, where f = ?f, OF _ _ _ this] show ?thesis
    by (simp add: BeginReceive_def dbUpdate_def Let_def)
qed

lemma length_WriteAt: "data \<noteq> [] \<Longrightarrow> length (WriteAt data off c) = max (off + length data) (length c)"
  by (auto simp: WriteAt_def)

lemma length_WriteAt_ge: "length c \<le> length (WriteAt data off c)"
  by (cases "data = []") (simp_all add: length_WriteAt, simp add: WriteAt_def)

lemma advance_fields [simp]:
  "f_ID (advance off len f) = f_ID f" "f_Status (advance off len f) = f_Status f"
  "f_Hash (advance off len f) = f_Hash f" "f_Size (advance off len f) = f_Size f"
  by (simp_all add: advance_def Let_def)

lemma receiving_ok_write:
  assumes "receiving_ok s i f" "tmp_of s i = Some c" "0 \<le> off" "off \<le> f_Received f"
    "tmp_of s' i = Some (WriteAt data (nat off) c)"
  shows "receiving_ok s' i (advance off (int (length data)) f)"
proof -
  have "int (length c) \<le> int (length (WriteAt data (nat off) c))"
    "data \<noteq> [] \<Longrightarrow> off + int (length data) \<le> int (length (WriteAt data (nat off) c))"
    using length_WriteAt_ge [of c data "nat off"] length_WriteAt [of data "nat off" c] assms(3) by auto
  with assms show ?thesis
    by (cases "data = []") (auto simp: receiving_ok_def advance_def Let_def)
qed

lemma files_inv_WriteChunk:
  assumes "files_inv E s"
  shows "files_inv E (fst (WriteChunk s i off data))"
proof (cases "filesDir s i")
  case None
  with assms show ?thesis by (simp add: WriteChunk_def)
next
  case (Some dir)
  define old where "old = (case data_tmp dir of None \<Rightarrow> [] | Some c \<Rightarrow> c)"
  have tmp: "tmp_of s i = Some c \<Longrightarrow> c = old" for c by (simp add: tmp_of_def Some old_def)
  have wr: "files_inv E (in_dir (\<lambda>d. d\<lparr>data_tmp := Some c\<rparr>) s i)" if "length old \<le> length c" for c
  proof (rule files_inv_dir [OF assms])
    fix f
    assume "file_at s i = Some f"
    then have "file_ok E s i f" by (rule files_invD [OF assms])
    then show "file_ok E (in_dir (\<lambda>d. d\<lparr>data_tmp := Some c\<rparr>) s i) i f"
      using that tmp Some by (auto simp: file_ok_def receiving_ok_def complete_ok_def FileBlob_def
          readFileData_def cong: option.case_cong)
  qed simp_all
  let ?c = "WriteAt data (nat off) old"
  let ?s1 = "in_dir (\<lambda>d. d\<lparr>data_tmp := Some ?c\<rparr>) s i"
  have s1: "files_inv E ?s1" by (rule wr [OF length_WriteAt_ge])
  show ?thesis
  proof (cases "\<exists>f. file_at s i = Some f \<and> 0 \<le> off \<and> off \<le> f_Received f")
    case False
    then show ?thesis
      using s1 wr [of old] Some
      by (auto simp: WriteChunk_def Let_def old_def [symmetric] dbUpdate_def split: option.split)
  next
    case True
    then obtain f where f: "file_at s i = Some f" "0 \<le> off" "off \<le> f_Received f" by blast
    have ok: "file_ok E s i f" by (rule files_invD [OF assms f(1)])
    let ?f = "advance off (int (length data)) f"
    have "file_ok E (?s1\<lparr>db := d'\<rparr>) i ?f" for d'
    proof -
      have "receiving_ok (?s1\<lparr>db := d'\<rparr>) i ?f" if "f_Status f = FileReceiving"
      proof -
        have r: "receiving_ok s i f" using ok that by (simp add: file_ok_def)
        then have "tmp_of s i = Some old" using tmp by (auto simp: receiving_ok_def)
        then show ?thesis by (rule receiving_ok_write [OF r _ f(2,3)]) (simp add: Some)
      qed
      moreover have "complete_ok E (?s1\<lparr>db := d'\<rparr>) i ?f" if "f_Status f = FileComplete"
        using ok that by (simp add: file_ok_def complete_ok_def FileBlob_def readFileData_def cong: option.case_cong)
      ultimately show ?thesis using ok by (simp add: file_ok_def)
    qed
    from files_inv_put [OF assms only_file_parts(2), where f = ?f, OF _ _ _ this] show ?thesis
      using f Some by (simp add: WriteChunk_def Let_def old_def [symmetric] dbUpdate_def)
  qed
qed

lemma readFileData_writeFileData:
  assumes "aead_ok E" "nonce_ok r" "writeFileData E r s data = Inr c" "encKey s' = encKey s"
  shows "readFileData E s' (Some c) = Inr data"
  using assms box.dec_enc [OF assms(1,2)]
  by (cases "encKey s") (auto simp: writeFileData_def readFileData_def)

lemma writeFileData_total: "\<lbrakk>keys_ok s; nonce_ok r\<rbrakk> \<Longrightarrow> \<exists>c. writeFileData E r s data = Inr c"
  using box.enc_total [of _ r E data] by (cases "encKey s") (auto simp: writeFileData_def keys_ok_def)

text \<open>The three outcomes of completing a reception whose bytes are all there.\<close>

lemma CompleteFile_ok:
  assumes "files_inv E s" "nonce_ok r" "file_at s i = Some f" "f_Status f = FileReceiving"
    "f_Received f = f_Size f" "tmp_of s i = Some data" "hex_EncodeToString (sha256 E data) = f_Hash f"
  obtains s' where "CompleteFile E r s i = (s', Inr ())" "files_inv E s'"
    "file_at s' i = Some (f\<lparr>f_Status := FileComplete\<rparr>)" "FileData E s' i = Inr data"
proof -
  obtain c where c: "writeFileData E r s data = Inr c"
    using writeFileData_total [of s r E data] assms(1,2) by (auto simp: files_inv_def)
  let ?s1 = "in_dir (\<lambda>d. d\<lparr>data_enc := Some c\<rparr>) s i"
  let ?d = "(db s)\<lparr>bFiles := bPut i (f\<lparr>f_Status := FileComplete\<rparr>) (bFiles (db s))\<rparr>"
  let ?s2 = "in_dir (\<lambda>d. d\<lparr>data_tmp := None\<rparr>) (?s1\<lparr>db := ?d\<rparr>) i"
  obtain y where dir: "filesDir s i = Some y" using tmp_dir [OF assms(6)] by blast
  have blob: "FileBlob E ?s2 i = Inr data"
    using readFileData_writeFileData [OF _ assms(2) c, of ?s2] assms(1) dir
    by (simp add: FileBlob_def files_inv_def)
  have row: "file_at ?s2 i = Some (f\<lparr>f_Status := FileComplete\<rparr>)" by simp
  have "f_ID f = i" using files_invD [OF assms(1,3)] by (simp add: file_ok_def)
  then have ok: "file_ok E ?s2 i (f\<lparr>f_Status := FileComplete\<rparr>)"
    using blob assms(7) by (auto simp: file_ok_def complete_ok_def)
  have "only_file i s (?s1\<lparr>db := ?d\<rparr>)"
    by (rule only_file_trans [OF only_file_parts(2)], rule only_file_put) auto
  then have o: "only_file i s ?s2" by (rule only_file_trans) simp
  have inv: "files_inv E ?s2"
    by (rule files_inv_step [OF assms(1) o]) (use ok row in simp)
  have run: "CompleteFile E r s i = (?s2, Inr ())"
    using assms(3-7) c by (simp add: CompleteFile_def setFileStatus_def dbUpdate_def)
  show thesis
    by (rule that [OF run inv row]) (use blob row in \<open>simp add: FileData_def GetFile_def\<close>)
qed

lemma CompleteFile_bad_hash:
  assumes "files_inv E s" "file_at s i = Some f" "f_Status f = FileReceiving"
    "f_Received f = f_Size f" "tmp_of s i = Some data" "hex_EncodeToString (sha256 E data) \<noteq> f_Hash f"
  obtains s' where "CompleteFile E r s i = (s', Inl ErrFileHashMismatch)" "files_inv E s'"
    "file_at s' i = Some (f\<lparr>f_Status := FileFailed\<rparr>)" "tmp_of s' i = None"
proof -
  let ?d = "(db s)\<lparr>bFiles := bPut i (f\<lparr>f_Status := FileFailed\<rparr>) (bFiles (db s))\<rparr>"
  let ?s1 = "s\<lparr>db := ?d\<rparr>"
  let ?s2 = "in_dir (\<lambda>d. d\<lparr>data_tmp := None\<rparr>) ?s1 i"
  have "only_file i s ?s1" by (rule only_file_put) auto
  then have o: "only_file i s ?s2" by (rule only_file_trans) simp
  have "f_ID f = i" using files_invD [OF assms(1,2)] by (simp add: file_ok_def)
  then have "files_inv E ?s2" by (intro files_inv_step [OF assms(1) o]) (auto simp: file_ok_def)
  moreover have "CompleteFile E r s i = (?s2, Inl ErrFileHashMismatch)"
    using assms(2-6) by (simp add: CompleteFile_def markFileFailed_def setFileStatus_def dbUpdate_def)
  ultimately show thesis by (intro that [of ?s2]) simp_all
qed

lemma files_inv_CompleteFile:
  assumes "files_inv E s" "nonce_ok r"
  shows "files_inv E (fst (CompleteFile E r s i))"
proof (cases "\<exists>f data. file_at s i = Some f \<and> f_Status f = FileReceiving \<and> f_Received f = f_Size f \<and> tmp_of s i = Some data")
  case False
  then show ?thesis using assms(1) by (auto simp: CompleteFile_def split: option.split)
next
  case True
  then obtain f data where f: "file_at s i = Some f" "f_Status f = FileReceiving" "f_Received f = f_Size f"
    "tmp_of s i = Some data" by blast
  show ?thesis
  proof (cases "hex_EncodeToString (sha256 E data) = f_Hash f")
    case True
    obtain s' where "CompleteFile E r s i = (s', Inr ())" "files_inv E s'"
      by (rule CompleteFile_ok [OF assms f True])
    then show ?thesis by simp
  next
    case False
    obtain s' where "CompleteFile E r s i = (s', Inl ErrFileHashMismatch)" "files_inv E s'"
      by (rule CompleteFile_bad_hash [OF assms(1) f False, of r])
    then show ?thesis by simp
  qed
qed

text \<open>Operations that only change a record's status or counters, or remove it.\<close>

lemma files_inv_row:
  assumes "files_inv E s" "bFiles d' = bPut i f (bFiles (db s))"
    "bFileOutbox d' = bFileOutbox (db s) \<or> bFileOutbox d' = bDelete i (bFileOutbox (db s))"
    "file_ok E s i f"
  shows "files_inv E (s\<lparr>db := d'\<rparr>)"
  by (rule files_inv_put [OF assms(1) only_file_refl refl assms(2)])
    (use assms(3,4) file_ok_parts [of "s\<lparr>db := d'\<rparr>" i s] in auto)

lemma files_inv_outbox:
  "files_inv E s \<Longrightarrow> files_inv E (s\<lparr>db := (db s)\<lparr>bFileOutbox := bDelete i (bFileOutbox (db s))\<rparr>\<rparr>)"
  by (rule files_inv_step, assumption, rule only_file_put)
    (auto simp: file_ok_parts [of "_\<lparr>db := _\<rparr>" i s] dest: files_invD)

lemma files_inv_gone:
  assumes "files_inv E s" "bFiles d' = bDelete i (bFiles (db s))"
    "bFileOutbox d' = bFileOutbox (db s) \<or> bFileOutbox d' = bDelete i (bFileOutbox (db s))"
  shows "files_inv E (rmdir (s\<lparr>db := d'\<rparr>) i)"
proof (rule files_inv_step [OF assms(1)])
  have "only_file i s (s\<lparr>db := d'\<rparr>)" by (rule only_file_put) (use assms in auto)
  then show "only_file i s (rmdir (s\<lparr>db := d'\<rparr>) i)" by (rule only_file_trans) simp
qed (simp add: assms(2))

lemma files_inv_others:
  assumes "files_inv E s"
  shows "files_inv E (fst (CancelReceive s i))" "files_inv E (fst (MarkFileSent s i))"
    "files_inv E (fst (DeleteFileOutbox s i))" "files_inv E (fst (MarkFileSending s i))"
    "files_inv E (fst (DeleteFile s i))"
proof -
  show "files_inv E (fst (CancelReceive s i))"
    using assms files_inv_gone [OF assms]
    by (auto simp: CancelReceive_def dbUpdate_def split: option.split)
  show "files_inv E (fst (DeleteFile s i))"
    using files_inv_gone [OF assms] by (simp add: DeleteFile_def dbUpdate_def)
  show "files_inv E (fst (MarkFileSent s i))"
    using files_inv_outbox [OF assms] files_invD [OF assms, of i]
    by (auto simp: MarkFileSent_def dbUpdate_def Let_def file_ok_def intro!: files_inv_row [OF assms] split: option.split)
  show "files_inv E (fst (DeleteFileOutbox s i))"
    using files_inv_outbox [OF assms] files_invD [OF assms, of i]
    by (auto simp: DeleteFileOutbox_def dbUpdate_def Let_def file_ok_def intro!: files_inv_row [OF assms] split: option.split)
  show "files_inv E (fst (MarkFileSending s i))"
  proof (cases "file_at s i")
    case None
    with assms show ?thesis by (simp add: MarkFileSending_def dbUpdate_def)
  next
    case (Some f)
    let ?f = "(if f_Status f = FileQueued then f\<lparr>f_Status := FileSending\<rparr> else f)\<lparr>f_Sent := 0\<rparr>"
    have "file_ok E s i ?f"
      using files_invD [OF assms Some] by (auto simp: file_ok_def receiving_ok_def complete_ok_def)
    from files_inv_row [OF assms, where f = ?f, OF _ _ this] Some show ?thesis
      by (simp add: MarkFileSending_def dbUpdate_def Let_def)
  qed
qed

section \<open>Sequences of file operations\<close>

datatype file_op =
    FAdd rnd gotime string string string string bytes   \<comment> \<open>id, peer, name, hash, data\<close>
  | FBegin gotime string string string string int       \<comment> \<open>id, peer, name, hash, size\<close>
  | FChunk string int bytes
  | FComplete rnd string
  | FCancel string
  | FSent string
  | FUnqueue string
  | FSending string
  | FDelete string

fun file_apply :: "env \<Rightarrow> file_op \<Rightarrow> store \<Rightarrow> store" where
  "file_apply E (FAdd r now i peer name hash data) s = fst (AddOutboundFile E r now s i peer name hash data)"
| "file_apply E (FBegin now i peer name hash sz) s = fst (BeginReceive now s i peer name hash sz)"
| "file_apply E (FChunk i off data) s = fst (WriteChunk s i off data)"
| "file_apply E (FComplete r i) s = fst (CompleteFile E r s i)"
| "file_apply E (FCancel i) s = fst (CancelReceive s i)"
| "file_apply E (FSent i) s = fst (MarkFileSent s i)"
| "file_apply E (FUnqueue i) s = fst (DeleteFileOutbox s i)"
| "file_apply E (FSending i) s = fst (MarkFileSending s i)"
| "file_apply E (FDelete i) s = fst (DeleteFile s i)"

fun file_op_ok :: "file_op \<Rightarrow> bool" where
  "file_op_ok (FBegin now i peer name hash sz) = (0 \<le> sz)"
| "file_op_ok (FComplete r i) = nonce_ok r"
| "file_op_ok _ = True"

lemma files_inv_run:
  "\<lbrakk>files_inv E s; \<forall>x\<in>set xs. file_op_ok x\<rbrakk> \<Longrightarrow> files_inv E (fold (file_apply E) xs s)"
proof (induction xs arbitrary: s)
  case Nil
  then show ?case by simp
next
  case (Cons x xs)
  have "files_inv E (file_apply E x s)"
    using Cons.prems by (cases x) (simp_all add: files_inv_AddOutboundFile files_inv_BeginReceive
        files_inv_WriteChunk files_inv_CompleteFile files_inv_others)
  with Cons show ?case by simp
qed

section \<open>Receiving an honest stream\<close>

text \<open>
  \<open>partial s i data f\<close>: the record \<open>f\<close> is a reception in progress of a file with content
  \<open>data\<close>, and the bytes below the counter are that content's.
\<close>

definition partial :: "store \<Rightarrow> string \<Rightarrow> bytes \<Rightarrow> fileRec \<Rightarrow> bool" where
  "partial s i data f \<longleftrightarrow> file_at s i = Some f \<and> f_Status f = FileReceiving
     \<and> f_Size f = int (length data)
     \<and> (\<exists>tmp. tmp_of s i = Some tmp \<and> length tmp \<le> length data
          \<and> 0 \<le> f_Received f \<and> f_Received f \<le> int (length tmp)
          \<and> take (nat (f_Received f)) tmp = take (nat (f_Received f)) data)"

lemma WriteAt_nth:
  assumes "chunk \<noteq> []" "j < length (WriteAt chunk off c)"
  shows "WriteAt chunk off c ! j = (if off \<le> j \<and> j < off + length chunk then chunk ! (j - off)
     else if j < length c then c ! j else CHR 0x00)"
  using assms length_WriteAt [OF assms(1), of off c]
  by (auto simp: WriteAt_def nth_append)

lemma WriteAt_prefix:
  assumes "take r c = take r data" "r \<le> length c" "off \<le> r" "chunk = take n (drop off data)"
    "r' = max r (off + length chunk)"
  shows "take r' (WriteAt chunk off c) = take r' data"
proof (cases "chunk = []")
  case True
  with assms show ?thesis by (simp add: WriteAt_def max_def)
next
  case False
  have le: "off + length chunk \<le> length data" using False assms(4) by (cases "off < length data") auto
  have rl: "r \<le> length data" using assms(1,2) by (metis length_take min.absorb2 min.cobounded1)
  have len: "length (WriteAt chunk off c) = max (off + length chunk) (length c)"
    by (rule length_WriteAt [OF False])
  have "WriteAt chunk off c ! j = data ! j" if "j < r'" for j
  proof (cases "off \<le> j \<and> j < off + length chunk")
    case True
    then have "WriteAt chunk off c ! j = chunk ! (j - off)" using WriteAt_nth [OF False, of j off c] len by auto
    also have "\<dots> = data ! j" using True assms(4) by auto
    finally show ?thesis .
  next
    case no: False
    with that assms(3,5) have "j < r" by auto
    then have "WriteAt chunk off c ! j = c ! j" using WriteAt_nth [OF False, of j off c] len no assms(2) by auto
    also have "\<dots> = data ! j" using assms(1) \<open>j < r\<close> by (metis nth_take)
    finally show ?thesis .
  qed
  then show ?thesis using len le rl assms(2,5) by (auto simp: list_eq_iff_nth_eq)
qed

lemma WriteChunk_partial:
  fixes n
  assumes "partial s i data f" "off \<le> length data"
  defines "chunk \<equiv> take n (drop off data)"
  shows "if int off \<le> f_Received f
    then \<exists>s'. WriteChunk s i (int off) chunk = (s', Inr (f\<lparr>f_Received := max (f_Received f) (int (off + length chunk))\<rparr>))
        \<and> partial s' i data (f\<lparr>f_Received := max (f_Received f) (int (off + length chunk))\<rparr>)
    else \<exists>s' e. WriteChunk s i (int off) chunk = (s', Inl e) \<and> partial s' i data f"
proof -
  from assms(1) obtain tmp where f: "file_at s i = Some f" "f_Status f = FileReceiving" "f_Size f = int (length data)"
    and t: "tmp_of s i = Some tmp" "length tmp \<le> length data" "0 \<le> f_Received f" "f_Received f \<le> int (length tmp)"
      "take (nat (f_Received f)) tmp = take (nat (f_Received f)) data"
    by (auto simp: partial_def)
  obtain dir where dir: "filesDir s i = Some dir" "data_tmp dir = Some tmp"
    using t(1) by (auto simp: tmp_of_def split: option.splits)
  let ?tmp = "WriteAt chunk off tmp"
  let ?s1 = "in_dir (\<lambda>d. d\<lparr>data_tmp := Some ?tmp\<rparr>) s i"
  have lc: "off + length chunk \<le> length data" using assms(2) by (simp add: chunk_def)
  have lt: "length ?tmp \<le> length data" "length tmp \<le> length ?tmp"
    using length_WriteAt [of chunk off tmp] length_WriteAt_ge [of tmp chunk off] lc t(2)
    by (cases "chunk = []"; simp add: WriteAt_def)+
  show ?thesis
  proof (cases "int off \<le> f_Received f")
    case True
    let ?r = "max (f_Received f) (int (off + length chunk))"
    let ?f = "f\<lparr>f_Received := ?r\<rparr>"
    let ?d = "(db s)\<lparr>bFiles := bPut i ?f (bFiles (db s))\<rparr>"
    have "advance (int off) (int (length chunk)) f = ?f"
      using lc t(2,4) f(3) by (auto simp: advance_def Let_def max_def)
    then have run: "WriteChunk s i (int off) chunk = (?s1\<lparr>db := ?d\<rparr>, Inr ?f)"
      using f True dir by (simp add: WriteChunk_def dbUpdate_def Let_def)
    have "take (nat ?r) ?tmp = take (nat ?r) data"
      by (rule WriteAt_prefix [OF t(5)]) (use t True chunk_def in auto)
    moreover have "?r \<le> int (length ?tmp)"
      using length_WriteAt [of chunk off tmp] lt t(4) True by (cases "chunk = []") auto
    ultimately have "partial (?s1\<lparr>db := ?d\<rparr>) i data ?f"
      using f t lt dir by (auto simp: partial_def)
    with run True show ?thesis by auto
  next
    case False
    have run: "\<exists>e. WriteChunk s i (int off) chunk = (?s1, Inl e)"
      using f False dir by (simp add: WriteChunk_def dbUpdate_def Let_def)
    have "nat (f_Received f) \<le> length tmp" using t by simp
    then have "take (nat (f_Received f)) ?tmp = take (nat (f_Received f)) tmp"
      using False by (simp add: WriteAt_def)
    then have "partial ?s1 i data f" using f t lt dir by (auto simp: partial_def)
    with run False show ?thesis by auto
  qed
qed

section \<open>Properties\<close>

text \<open>
  C13. After any sequence of file operations, a file that is reported complete can be read, and
  what is read hashes to the announced SHA-256; a file in any other state is never served.
\<close>

theorem complete_files_are_authentic:
  assumes "files_inv E s" "\<forall>x\<in>set xs. file_op_ok x"
  defines "s' \<equiv> fold (file_apply E) xs s"
  shows "case GetFile s' i of
      Inl e \<Rightarrow> FileData E s' i = Inl e
    | Inr f \<Rightarrow> if f_Status f = FileComplete
        then \<exists>data. FileData E s' i = Inr data \<and> hex_EncodeToString (sha256 E data) = f_Hash f
        else FileData E s' i = Inl (Err ''store: file not complete'')"
proof -
  have inv: "files_inv E s'" unfolding s'_def by (rule files_inv_run [OF assms(1,2)])
  show ?thesis
  proof (cases "file_at s' i")
    case None
    then show ?thesis by (simp add: GetFile_def FileData_def)
  next
    case (Some f)
    with files_invD [OF inv Some] show ?thesis
      by (auto simp: GetFile_def FileData_def file_ok_def complete_ok_def)
  qed
qed

lemma sample_files: "files_inv sample_env sample_store"
  by (rule files_inv_empty [OF sample_env_ok(1) sample_store_ok(2)]) (simp add: sample_store_def)

theorem complete_files_are_authentic_witness:
  "FileData sample_env (fold (file_apply sample_env)
     [FBegin 1 ''f'' ''Bob'' ''n'' ''h'' 3, FChunk ''f'' 0 ''abc''] sample_store) ''f''
   = Inl (Err ''store: file not complete'')
   \<and> (\<exists>h data. h = hex_EncodeToString (sha256 sample_env ''abc'')
     \<and> FileData sample_env (fold (file_apply sample_env)
         [FBegin 1 ''f'' ''Bob'' ''n'' h 3, FChunk ''f'' 0 ''abc'', FComplete sample_nonce ''f''] sample_store) ''f'' = Inr data
     \<and> hex_EncodeToString (sha256 sample_env data) = h)"
proof -
  let ?h = "hex_EncodeToString (sha256 sample_env ''abc'')"
  let ?xs = "\<lambda>h. [FBegin 1 ''f'' ''Bob'' ''n'' h 3, FChunk ''f'' 0 ''abc'']"
  let ?s = "\<lambda>h. fold (file_apply sample_env) (?xs h) sample_store"
  let ?f = "\<lambda>h. \<lparr>f_ID = ''f'', f_Peer = ''Bob'', f_Dir = DirIn, f_Name = ''n'', f_Size = 3,
      f_Hash = h, f_Status = FileReceiving, f_Received = 3, f_Sent = 0, f_TS = 1\<rparr>"
  have at: "file_at (?s h) ''f'' = Some (?f h)" "tmp_of (?s h) ''f'' = Some ''abc''" for h
    by (simp_all add: BeginReceive_def WriteChunk_def GetFile_def resume_point_def mkdir_def in_dir_def dbUpdate_def
        sample_store_def tmp_of_def WriteAt_def advance_def empty_db_def Let_def)
  have nonce: "nonce_ok sample_nonce" by (rule sample_nonce_ok)
  have "files_inv sample_env (?s h)" for h by (rule files_inv_run [OF sample_files]) simp
  then obtain s' where "CompleteFile sample_env sample_nonce (?s ?h) ''f'' = (s', Inr ())"
    "file_at s' ''f'' = Some ((?f ?h)\<lparr>f_Status := FileComplete\<rparr>)"
    by (rule CompleteFile_ok [OF _ nonce at(1) _ _ at(2)]) simp_all
  then have "GetFile (fold (file_apply sample_env) (?xs ?h @ [FComplete sample_nonce ''f'']) sample_store) ''f''
      = Inr ((?f ?h)\<lparr>f_Status := FileComplete\<rparr>)"
    unfolding fold_append by (simp add: GetFile_def del: fold_simps)
  with complete_files_are_authentic [OF sample_files, of "?xs ''h''" "''f''"] at [of "''h''"]
    complete_files_are_authentic [OF sample_files, of "?xs ?h @ [FComplete sample_nonce ''f'']" "''f''"]
  show ?thesis using nonce by (auto simp: GetFile_def)
qed

text \<open>
  The counter of a reception is a high-water mark: a chunk is accepted only at or below it,
  it then moves to the end of the chunk if that is further, and never back or past the size; a
  chunk that would leave a hole is refused and the record stays as it was.
\<close>

theorem WriteChunk_high_water:
  assumes "files_inv E s" "file_at s i = Some f" "f_Status f = FileReceiving" "0 \<le> off"
  shows "if off \<le> f_Received f
    then \<exists>f'. snd (WriteChunk s i off data) = Inr f' \<and> file_at (fst (WriteChunk s i off data)) i = Some f'
      \<and> f_Received f' = min (f_Size f) (max (f_Received f) (off + int (length data)))
      \<and> f_Received f \<le> f_Received f' \<and> f_Received f' \<le> f_Size f
    else \<exists>e. snd (WriteChunk s i off data) = Inl e \<and> file_at (fst (WriteChunk s i off data)) i = Some f"
proof -
  have r: "receiving_ok s i f" using files_invD [OF assms(1,2)] assms(3) by (simp add: file_ok_def)
  then obtain dir where dir: "filesDir s i = Some dir"
    by (auto simp: receiving_ok_def tmp_of_def split: option.splits)
  have "f_Received (advance off (int (length data)) f) = min (f_Size f) (max (f_Received f) (off + int (length data)))"
    by (auto simp: advance_def Let_def)
  with r dir assms(2,4) show ?thesis
    by (auto simp: WriteChunk_def dbUpdate_def Let_def receiving_ok_def)
qed

theorem WriteChunk_high_water_witness:
  "\<exists>e. snd (WriteChunk (fst (BeginReceive 1 sample_store ''f'' ''Bob'' ''n'' ''h'' 9)) ''f'' 4 ''abc'') = Inl e"
proof -
  let ?s = "fst (BeginReceive 1 sample_store ''f'' ''Bob'' ''n'' ''h'' 9)"
  let ?f = "\<lparr>f_ID = ''f'', f_Peer = ''Bob'', f_Dir = DirIn, f_Name = ''n'', f_Size = 9,
      f_Hash = ''h'', f_Status = FileReceiving, f_Received = 0, f_Sent = 0, f_TS = 1\<rparr>"
  have "file_at ?s ''f'' = Some ?f"
    by (simp add: BeginReceive_def GetFile_def resume_point_def mkdir_def in_dir_def dbUpdate_def sample_store_def
        empty_db_def Let_def)
  from WriteChunk_high_water [OF files_inv_BeginReceive [OF sample_files] this, of 4 "''abc''"] show ?thesis by simp
qed

text \<open>
  Where a transfer resumes: never past the bytes on disk, the stored counter or the size; a
  header that differs in hash or size, or a partial that is gone, starts from zero with an empty
  temporary file.
\<close>

theorem BeginReceive_resumes_soundly:
  assumes "files_inv E s" "0 \<le> sz"
  shows "\<exists>n. snd (BeginReceive now s i peer name hash sz) = Inr n \<and> 0 \<le> n \<and> n \<le> sz
    \<and> files_inv E (fst (BeginReceive now s i peer name hash sz))
    \<and> (n = 0 \<and> tmp_of (fst (BeginReceive now s i peer name hash sz)) i = Some []
      \<or> (\<exists>f tmp. file_at s i = Some f \<and> f_Status f = FileReceiving \<and> f_Hash f = hash \<and> f_Size f = sz
          \<and> n = f_Received f \<and> tmp_of s i = Some tmp \<and> n \<le> int (length tmp)
          \<and> tmp_of (fst (BeginReceive now s i peer name hash sz)) i = Some tmp))"
proof -
  let ?n = "resume_point (mkdir s i) i hash sz"
  have run: "snd (BeginReceive now s i peer name hash sz) = Inr ?n"
    by (simp add: BeginReceive_def dbUpdate_def Let_def)
  have inv: "files_inv E (fst (BeginReceive now s i peer name hash sz))"
    by (rule files_inv_BeginReceive [OF assms])
  show ?thesis
  proof (cases "?n = 0")
    case True
    then have "tmp_of (fst (BeginReceive now s i peer name hash sz)) i = Some []"
      by (simp add: BeginReceive_def dbUpdate_def Let_def)
    with True run inv assms(2) show ?thesis by auto
  next
    case False
    then obtain f tmp where f: "file_at s i = Some f" "f_Status f = FileReceiving" "f_Hash f = hash"
      "f_Size f = sz" "tmp_of s i = Some tmp"
      by (auto simp: resume_point_def GetFile_def split: option.splits sum.splits if_splits)
    have "receiving_ok s i f" using files_invD [OF assms(1) f(1)] f(2) by (simp add: file_ok_def)
    then have b: "0 \<le> f_Received f" "f_Received f \<le> sz" "f_Received f \<le> int (length tmp)"
      using f by (auto simp: receiving_ok_def)
    have n: "?n = f_Received f" using f b by (simp add: resume_point_def GetFile_def)
    have "tmp_of (fst (BeginReceive now s i peer name hash sz)) i = Some tmp"
      using False f(5) by (simp add: BeginReceive_def dbUpdate_def Let_def)
    with run inv f b n show ?thesis by auto
  qed
qed

theorem BeginReceive_resumes_soundly_witness:
  "\<exists>n. snd (BeginReceive 2 sample_store ''f'' ''Bob'' ''n'' ''h'' 9) = Inr n \<and> 0 \<le> n \<and> n \<le> 9"
  using BeginReceive_resumes_soundly [OF sample_files, of 9 2 "''f''" "''Bob''" "''n''" "''h''"] by auto

end
