(* ===== verification/Node_Core.thy ===== *)
theory Node_Core
  imports Complex_Main Session Store_Mail Store_Rooms Store_Files
begin

text \<open>
  Package \<open>internal/node\<close>, part 1 (\<open>node.go\<close>, \<open>events.go\<close>, the state of \<open>link.go\<close>): the engine's
  state, its event fan-out and diagnostics log, the retry schedule, discovery and the rule who
  dials, and the registration of an authenticated session.

  A \<open>*link\<close> is a number: \<open>n_links\<close> is the heap of links and \<open>n_live\<close> the map of names to the
  registered one, so that "newest session wins" and the pointer comparison at the end of a
  session are visible. What a step takes from outside is the record \<open>world\<close>: the platform, one
  clock reading, random bytes, and whether a transmission on a link succeeds. The mutex \<open>n.mu\<close>
  is the flag \<open>n_mu\<close>; locking it while it is held never returns (\<open>None\<close>). Starting goroutines,
  sockets and \<open>context\<close> cancellation are outside the model: each loop body is a step.
\<close>

section \<open>State\<close>

record event =
  ev_Type :: string
  ev_Peer :: string
  ev_Message :: "message option"
  ev_Emoji :: string
  ev_Target :: string
  ev_FileID :: string
  ev_FileSrc :: string
  ev_FileSize :: int
  ev_FileHash :: string
  ev_Progress :: rat          \<comment> \<open>\<open>float64\<close>, without its rounding\<close>
  ev_Room :: string
  ev_RoomMessage :: "roomMessage option"

definition event0 :: event where
  "event0 = \<lparr>ev_Type = [], ev_Peer = [], ev_Message = None, ev_Emoji = [], ev_Target = [],
     ev_FileID = [], ev_FileSrc = [], ev_FileSize = 0, ev_FileHash = [], ev_Progress = 0,
     ev_Room = [], ev_RoomMessage = None\<rparr>"

text \<open>A log line is its format and arguments, not yet formatted.\<close>

datatype logarg = AStr string | AInt int | AErr err | AStrs "string list"

record logEntry =
  lg_At :: gotime
  lg_Fmt :: string
  lg_Args :: "logarg list"

record config =
  ListenAddr :: string
  PingEvery :: int
  DeadAfter :: int
  RetryBase :: int
  RetryMax :: int
  DialTick :: int

record dpeer =
  d_Name :: string
  d_FP :: string
  d_Addrs :: "string list"

record nearby =
  nb_peer :: dpeer
  nb_up :: bool
  nb_seen :: gotime
  nb_fails :: int
  nb_nextDial :: gotime
  nb_dialing :: bool

record link =
  l_key :: bytes                 \<comment> \<open>\<open>conn.RemoteKey\<close>\<close>
  l_caps :: "string list"        \<comment> \<open>\<open>conn.RemoteCaps\<close>\<close>
  l_addr :: string               \<comment> \<open>\<open>conn.RemoteAddr()\<close>\<close>
  l_open :: bool                 \<comment> \<open>not closed by us\<close>
  l_out :: "envelope list"       \<comment> \<open>what was put on the wire, oldest first\<close>
  l_peer :: string
  l_since :: gotime
  rxFileID :: string
  rxFileOff :: int
  rxFileHash :: string
  rxFileSize :: int
  rxFileName :: string
  fileAck :: "string \<Rightarrow> int option option"   \<comment> \<open>one-place channels, by transfer\<close>
  l_msgCount :: int              \<comment> \<open>the two locals of \<open>readLoop\<close>\<close>
  l_rateStart :: gotime

text \<open>
  The background work a node starts: an outbox flush, the transfer of one file, the ping loop and
  the service of a link, and the five loops of \<open>Start\<close> by name.
\<close>

datatype task = TFlush string bool | TFlushFile string string | TPing nat | TSession nat | TLoop string

record node =
  n_store :: store
  n_id :: ident
  n_myFP :: string
  n_cfg :: config
  n_hs :: nat                    \<comment> \<open>occupied places of \<open>hsSem\<close>\<close>
  n_announcing :: bool           \<comment> \<open>\<open>announceCtx\<close> is set\<close>
  n_ln :: "(string \<times> int) option" \<comment> \<open>the listener's address and port\<close>
  n_started :: gotime
  n_mu :: bool
  n_nearby :: "string \<Rightarrow> nearby option"
  n_live :: "string \<Rightarrow> nat option"
  n_links :: "nat \<Rightarrow> link"
  n_next :: nat                  \<comment> \<open>the next link number\<close>
  n_subs :: "nat \<Rightarrow> event list option"
  n_nextSub :: nat
  n_log :: "logEntry list"
  n_tasks :: "task list"         \<comment> \<open>goroutines started by \<open>goRun\<close> and not yet run\<close>

record world =
  w_env :: env
  w_now :: gotime
  w_nonce :: rnd
  w_id :: rnd
  w_jitter :: "string \<Rightarrow> rnd"
  w_tx :: "nat \<Rightarrow> envelope \<Rightarrow> unit result"

abbreviation second :: int where "second \<equiv> 1000000000"

definition set_link :: "nat \<Rightarrow> (link \<Rightarrow> link) \<Rightarrow> node \<Rightarrow> node" where
  "set_link l f n = n\<lparr>n_links := (n_links n)(l := f (n_links n l))\<rparr>"

definition goRun :: "task \<Rightarrow> node \<Rightarrow> node" where
  "goRun t n = n\<lparr>n_tasks := n_tasks n @ [t]\<rparr>"

section \<open>Construction\<close>

definition defaults :: "config \<Rightarrow> config" where
  "defaults c = \<lparr>
     ListenAddr = (if ListenAddr c = [] then ''0.0.0.0:0'' else ListenAddr c),
     PingEvery = (if PingEvery c = 0 then 10 * second else PingEvery c),
     DeadAfter = (if DeadAfter c = 0 then 30 * second else DeadAfter c),
     RetryBase = (if RetryBase c = 0 then 2 * second else RetryBase c),
     RetryMax = (if RetryMax c = 0 then 30 * second else RetryMax c),
     DialTick = (if DialTick c = 0 then second else DialTick c)\<rparr>"

definition link0 :: link where
  "link0 = \<lparr>l_key = [], l_caps = [], l_addr = [], l_open = False, l_out = [], l_peer = [], l_since = time_zero,
     rxFileID = [], rxFileOff = 0, rxFileHash = [], rxFileSize = 0, rxFileName = [], fileAck = Map.empty,
     l_msgCount = 0, l_rateStart = time_zero\<rparr>"

definition New :: "env \<Rightarrow> config \<Rightarrow> store \<Rightarrow> ident \<Rightarrow> node" where
  "New E cfg s ident = \<lparr>n_store = s, n_id = ident, n_myFP = Fingerprint E (Public (i_Key ident)),
     n_cfg = defaults cfg, n_hs = 0, n_announcing = False, n_ln = None, n_started = time_zero, n_mu = False, n_nearby = Map.empty,
     n_live = Map.empty, n_links = (\<lambda>_. link0), n_next = 0, n_subs = Map.empty, n_nextSub = 0,
     n_log = [], n_tasks = []\<rparr>"

definition newLink :: "world \<Rightarrow> 'c conn \<Rightarrow> string \<Rightarrow> string \<Rightarrow> link" where
  "newLink W c addr peer = link0\<lparr>l_key := c_RemoteKey c, l_caps := c_RemoteCaps c, l_addr := addr,
     l_open := True, l_peer := peer, l_since := w_now W\<rparr>"

section \<open>Events and the log\<close>

definition subCap :: nat where "subCap = 64"

definition Subscribe :: "node \<Rightarrow> node \<times> nat" where
  "Subscribe n = (n\<lparr>n_subs := (n_subs n)(n_nextSub n := Some []), n_nextSub := n_nextSub n + 1\<rparr>, n_nextSub n)"

definition unsubscribe :: "nat \<Rightarrow> node \<Rightarrow> node" where
  "unsubscribe i n = n\<lparr>n_subs := (n_subs n)(i := None)\<rparr>"

definition emit :: "event \<Rightarrow> node \<Rightarrow> node" where
  "emit e n = n\<lparr>n_subs := (\<lambda>i. case n_subs n i of
     None \<Rightarrow> None | Some ch \<Rightarrow> Some (if length ch < subCap then ch @ [e] else ch))\<rparr>"

text \<open>The subscriber takes the oldest buffered event.\<close>

definition receive :: "nat \<Rightarrow> node \<Rightarrow> node \<times> event option" where
  "receive i n = (case n_subs n i of
     Some (e # ch) \<Rightarrow> (n\<lparr>n_subs := (n_subs n)(i := Some ch)\<rparr>, Some e)
   | _ \<Rightarrow> (n, None))"

definition logCap :: nat where "logCap = 200"

definition logf :: "world \<Rightarrow> string \<Rightarrow> logarg list \<Rightarrow> node \<Rightarrow> node" where
  "logf W fmt args n = (let log = n_log n @ [\<lparr>lg_At = w_now W, lg_Fmt = fmt, lg_Args = args\<rparr>] in
     n\<lparr>n_log := (if length log > logCap then drop (length log - logCap) log else log)\<rparr>)"

text \<open>
  Both take \<open>n.mu\<close>. The versions with the lock; without the lock held they are the above.
\<close>

definition mu_lock :: "node \<Rightarrow> node option" where
  "mu_lock n = (if n_mu n then None else Some (n\<lparr>n_mu := True\<rparr>))"

definition mu_unlock :: "node \<Rightarrow> node" where
  "mu_unlock n = n\<lparr>n_mu := False\<rparr>"

definition emit_locking :: "event \<Rightarrow> node \<Rightarrow> node option" where
  "emit_locking e n = map_option (\<lambda>n1. mu_unlock (emit e n1)) (mu_lock n)"

definition logf_locking :: "world \<Rightarrow> string \<Rightarrow> logarg list \<Rightarrow> node \<Rightarrow> node option" where
  "logf_locking W fmt args n = map_option (\<lambda>n1. mu_unlock (logf W fmt args n1)) (mu_lock n)"

lemma locking_free:
  "\<not> n_mu n \<Longrightarrow> emit_locking e n = Some (emit e n)"
  "\<not> n_mu n \<Longrightarrow> logf_locking W fmt args n = Some (logf W fmt args n)"
  by (simp_all add: emit_locking_def logf_locking_def mu_lock_def mu_unlock_def emit_def logf_def Let_def)

lemma locking_held:
  "n_mu n \<Longrightarrow> emit_locking e n = None" "n_mu n \<Longrightarrow> logf_locking W fmt args n = None"
  by (simp_all add: emit_locking_def logf_locking_def mu_lock_def)

lemma emit_fields [simp]:
  "n_store (emit e n) = n_store n" "n_id (emit e n) = n_id n" "n_myFP (emit e n) = n_myFP n"
  "n_cfg (emit e n) = n_cfg n" "n_nearby (emit e n) = n_nearby n" "n_live (emit e n) = n_live n"
  "n_links (emit e n) = n_links n" "n_next (emit e n) = n_next n" "n_log (emit e n) = n_log n"
  "n_nextSub (emit e n) = n_nextSub n" "n_mu (emit e n) = n_mu n" "n_hs (emit e n) = n_hs n"
  "n_announcing (emit e n) = n_announcing n" "n_tasks (emit e n) = n_tasks n"
  by (simp_all add: emit_def)

lemma logf_fields [simp]:
  "n_store (logf W f a n) = n_store n" "n_id (logf W f a n) = n_id n" "n_myFP (logf W f a n) = n_myFP n"
  "n_cfg (logf W f a n) = n_cfg n" "n_nearby (logf W f a n) = n_nearby n" "n_live (logf W f a n) = n_live n"
  "n_links (logf W f a n) = n_links n" "n_next (logf W f a n) = n_next n" "n_subs (logf W f a n) = n_subs n"
  "n_nextSub (logf W f a n) = n_nextSub n" "n_mu (logf W f a n) = n_mu n" "n_hs (logf W f a n) = n_hs n"
  "n_announcing (logf W f a n) = n_announcing n" "n_tasks (logf W f a n) = n_tasks n"
  by (simp_all add: logf_def Let_def)

lemma set_link_fields [simp]:
  "n_store (set_link l f n) = n_store n" "n_id (set_link l f n) = n_id n" "n_myFP (set_link l f n) = n_myFP n"
  "n_cfg (set_link l f n) = n_cfg n" "n_nearby (set_link l f n) = n_nearby n" "n_live (set_link l f n) = n_live n"
  "n_next (set_link l f n) = n_next n" "n_subs (set_link l f n) = n_subs n" "n_log (set_link l f n) = n_log n"
  "n_nextSub (set_link l f n) = n_nextSub n" "n_mu (set_link l f n) = n_mu n"
  "n_tasks (set_link l f n) = n_tasks n" "n_hs (set_link l f n) = n_hs n"
  "n_links (set_link l f n) = (n_links n)(l := f (n_links n l))"
  by (simp_all add: set_link_def)

lemma goRun_fields [simp]:
  "n_store (goRun t n) = n_store n" "n_id (goRun t n) = n_id n" "n_cfg (goRun t n) = n_cfg n"
  "n_live (goRun t n) = n_live n" "n_links (goRun t n) = n_links n" "n_next (goRun t n) = n_next n"
  "n_subs (goRun t n) = n_subs n" "n_log (goRun t n) = n_log n" "n_tasks (goRun t n) = n_tasks n @ [t]"
  by (simp_all add: goRun_def)

section \<open>The retry schedule\<close>

text \<open>\<open>int64\<close> values, and the shift of one: counts of 64 and more give zero.\<close>

definition int64 :: "int \<Rightarrow> int" where
  "int64 x = signed_take_bit 63 x"

definition shl64 :: "int \<Rightarrow> nat \<Rightarrow> int" where
  "shl64 x k = (if k < 64 then int64 (x * 2 ^ k) else 0)"

text \<open>\<open>uint(a)\<close> of an \<open>int\<close>.\<close>

definition to_uint :: "int \<Rightarrow> nat" where
  "to_uint a = nat (a mod 2 ^ 64)"

definition backoff :: "int \<Rightarrow> int \<Rightarrow> int \<Rightarrow> int" where
  "backoff attempt0 base mx = (let attempt = (if attempt0 > 16 then 16 else attempt0);
       d = shl64 base (to_uint (attempt - 1)) in
     if attempt < 1 \<or> d > mx \<or> d \<le> 0 then mx else d)"

definition jitteredBackoff :: "rnd \<Rightarrow> int \<Rightarrow> int \<Rightarrow> int \<Rightarrow> int" where
  "jitteredBackoff r attempt base mx = (let d = backoff attempt base mx in
     if d \<le> 0 then d else (case r of
       None \<Rightarrow> d
     | Some b \<Rightarrow> sint (1 + Uint64 b mod (word_of_int d :: 64 word))))"

text \<open>The schedule of room messages, written out in \<open>flushRoomMember\<close>.\<close>

definition room_backoff :: "config \<Rightarrow> int \<Rightarrow> int" where
  "room_backoff c attempts = (let b = int64 (RetryBase c * shl64 1 (to_uint (attempts - 1))) in
     if b > RetryMax c then RetryMax c else b)"

section \<open>Discovery and dialling\<close>

text \<open>One event of \<open>browseLoop\<close>.\<close>

definition browse_step :: "world \<Rightarrow> bool \<Rightarrow> dpeer \<Rightarrow> node \<Rightarrow> node" where
  "browse_step W up p n =
     (if d_FP p = n_myFP n then n
      else let nb = (case n_nearby n (d_FP p) of
               None \<Rightarrow> \<lparr>nb_peer = p, nb_up = False, nb_seen = time_zero, nb_fails = 0,
                        nb_nextDial = time_zero, nb_dialing = False\<rparr>
             | Some nb \<Rightarrow> nb);
           n1 = n\<lparr>n_nearby := (n_nearby n)(d_FP p := Some (nb\<lparr>nb_peer := p, nb_up := up, nb_seen := w_now W\<rparr>))\<rparr>;
           n2 = (if up then logf W ''mdns: found %q at %s'' [AStr (d_Name p), AStrs (d_Addrs p)] n1
                 else logf W ''mdns: %q went away'' [AStr (d_Name p)] n1)
        in emit (event0\<lparr>ev_Type := ''peers''\<rparr>) n2)"

definition set_nearby :: "string \<Rightarrow> (nearby \<Rightarrow> nearby) \<Rightarrow> node \<Rightarrow> node" where
  "set_nearby fp f n = n\<lparr>n_nearby := (n_nearby n)(fp := map_option f (n_nearby n fp))\<rparr>"

text \<open>
  One entry of the scan in \<open>dialLoop\<close>, which runs with \<open>n.mu\<close> held; the flag says whether the
  entry is to be dialled.
\<close>

definition dial_entry :: "world \<Rightarrow> node \<Rightarrow> string \<Rightarrow> (node \<times> bool) option" where
  "dial_entry W n fp = (case n_nearby n fp of
     None \<Rightarrow> Some (n, False)
   | Some nb \<Rightarrow>
       Option.bind
         (if nb_up nb \<and> w_now W - nb_seen nb > 120 * second
          then Option.bind (logf_locking W ''mdns: %q expired (no announcement for 2m)'' [AStr (d_Name (nb_peer nb))]
                 (set_nearby fp (\<lambda>b. b\<lparr>nb_up := False\<rparr>) n))
               (emit_locking (event0\<lparr>ev_Type := ''peers''\<rparr>))
          else Some n)
         (\<lambda>n1. case n_nearby n1 fp of
            None \<Rightarrow> Some (n1, False)
          | Some nb1 \<Rightarrow>
              if \<not> nb_up nb1 \<or> nb_dialing nb1 \<or> w_now W < nb_nextDial nb1 \<or> n_myFP n1 \<ge> fp then Some (n1, False)
              else if n_live n1 (ToLower (w_env W) (d_Name (nb_peer nb1))) \<noteq> None then Some (n1, False)
              else Some (set_nearby fp (\<lambda>b. b\<lparr>nb_dialing := True\<rparr>) n1, True)))"

fun dial_scan :: "world \<Rightarrow> string list \<Rightarrow> node \<Rightarrow> string list \<Rightarrow> (node \<times> string list) option" where
  "dial_scan W [] n todo = Some (n, todo)"
| "dial_scan W (fp # fps) n todo = Option.bind (dial_entry W n fp) (\<lambda>(n1, go).
     dial_scan W fps n1 (if go then todo @ [fp] else todo))"

text \<open>One tick of \<open>dialLoop\<close>; \<open>fps\<close> is the order in which the map is visited.\<close>

definition dial_tick :: "world \<Rightarrow> string list \<Rightarrow> node \<Rightarrow> (node \<times> string list) option" where
  "dial_tick W fps n = Option.bind (mu_lock n) (\<lambda>n1.
     map_option (\<lambda>(n2, todo). (mu_unlock n2, todo)) (dial_scan W fps n1 []))"

definition dialDone :: "world \<Rightarrow> rnd \<Rightarrow> string \<Rightarrow> bool \<Rightarrow> node \<Rightarrow> node" where
  "dialDone W r fp ok n = set_nearby fp (\<lambda>nb.
     if ok then nb\<lparr>nb_dialing := False, nb_fails := 0, nb_nextDial := w_now W + DialTick (n_cfg n)\<rparr>
     else nb\<lparr>nb_dialing := False, nb_fails := nb_fails nb + 1,
        nb_nextDial := w_now W + jitteredBackoff r (nb_fails nb + 1) second (30 * second)\<rparr>) n"

text \<open>One connection of \<open>acceptLoop\<close>: shed when 32 handshakes are under way.\<close>

definition hsCap :: nat where "hsCap = 32"

definition accept_step :: "node \<Rightarrow> node \<times> bool" where
  "accept_step n = (if n_hs n < hsCap then (n\<lparr>n_hs := n_hs n + 1\<rparr>, True) else (n, False))"

section \<open>Sessions\<close>

definition linkFor :: "world \<Rightarrow> node \<Rightarrow> string \<Rightarrow> nat option" where
  "linkFor W n name = n_live n (ToLower (w_env W) name)"

definition close :: "nat \<Rightarrow> node \<Rightarrow> node" where
  "close l n = set_link l (\<lambda>k. k\<lparr>l_open := False\<rparr>) n"

text \<open>
  \<open>link.send\<close>: a closed connection and an invalid envelope are refused; \<open>w_tx\<close> is the rest of
  \<open>Conn.Send\<close> and the network.
\<close>

definition send :: "world \<Rightarrow> nat \<Rightarrow> envelope \<Rightarrow> node \<Rightarrow> node \<times> unit result" where
  "send W l e n =
     (if \<not> l_open (n_links n l) then (n, Inl (Err ''use of closed network connection''))
      else case validate e of
        Inl er \<Rightarrow> (n, Inl er)
      | Inr _ \<Rightarrow> (case w_tx W l e of
          Inl er \<Rightarrow> (n, Inl er)
        | Inr _ \<Rightarrow> (set_link l (\<lambda>k. k\<lparr>l_out := l_out k @ [e]\<rparr>) n, Inr ())))"

definition fp_separator :: "nat \<Rightarrow> bool" where
  "fp_separator r \<longleftrightarrow> r \<in> {0x20, 0x09, 0x3A, 0x2D, 0xA0}"

definition fpMatches :: "env \<Rightarrow> string \<Rightarrow> bytes \<Rightarrow> bool" where
  "fpMatches E want remoteKey \<longleftrightarrow>
     concat (map (\<lambda>r. EncodeRune (unicode_ToLower E r)) (filter (\<lambda>r. \<not> fp_separator r) (runes want)))
     = Fingerprint E remoteKey"

text \<open>The section of \<open>establish\<close> under \<open>n.mu\<close>: the newest session wins.\<close>

definition register :: "string \<Rightarrow> link \<Rightarrow> node \<Rightarrow> node" where
  "register key k n = (let n1 = (case n_live n key of None \<Rightarrow> n | Some old \<Rightarrow> close old n); l = n_next n1 in
     n1\<lparr>n_links := (n_links n1)(l := k), n_next := l + 1, n_live := (n_live n1)(key := Some l)\<rparr>)"

text \<open>The handshake's place in \<open>hsSem\<close>, given back once.\<close>

definition release :: "bool \<Rightarrow> node \<Rightarrow> node" where
  "release hsDone n = (if hsDone then n\<lparr>n_hs := n_hs n - 1\<rparr> else n)"

definition establish :: "world \<Rightarrow> 'c conn result \<Rightarrow> string \<Rightarrow> bool \<Rightarrow> string \<Rightarrow> node \<Rightarrow> node \<times> nat result" where
  "establish W hs addr hsDone wantFP n0 = (let E = w_env W;
       n = release hsDone n0 in
     case hs of
       Inl e \<Rightarrow> (logf W ''handshake with %s failed: %v'' [AStr addr, AErr e] n,
                 Inl (ErrWrap ''handshake with %s failed'' e))
     | Inr sc \<Rightarrow>
       if c_RemoteKey sc = Public (i_Key (n_id n)) then (n, Inl (Err ''node: connected to ourselves''))
       else if wantFP \<noteq> [] \<and> \<not> fpMatches E wantFP (c_RemoteKey sc) then
         (logf W ''REFUSED %q: dialed expecting fingerprint %s, remote presented %s''
            [AStr (c_RemoteName sc), AStr wantFP, AStr (take 8 (Fingerprint E (c_RemoteKey sc)))] n,
          Inl (ErrWrap ''remote key is %s, expected %s'' ErrFPMismatch))
       else (case Observe E (w_nonce W) (n_store n) (c_RemoteName sc) (c_RemoteKey sc) (w_now W) of
           (s', Inl e) \<Rightarrow> (logf W ''store: %v'' [AErr e] (n\<lparr>n_store := s'\<rparr>), Inl e)
         | (s', Inr (peer, ok)) \<Rightarrow>
           if \<not> ok then
             (emit (event0\<lparr>ev_Type := ''peers'', ev_Peer := p_Name peer\<rparr>)
                (logf W ''REFUSED %q: key %s does not match pinned %s''
                  [AStr (c_RemoteName sc), AStr (take 8 (Fingerprint E (c_RemoteKey sc))), AStr (take 8 (p_FP peer))]
                  (n\<lparr>n_store := s'\<rparr>)),
              Inl (ErrF ''node: key for %q does not match the pin'' [p_Name peer]))
           else
             (emit (event0\<lparr>ev_Type := ''peers'', ev_Peer := p_Name peer\<rparr>)
                (logf W ''session up with %q (%s) from %s''
                  [AStr (p_Name peer), AStr (take 8 (p_FP peer)), AStr addr]
                  (register (ToLower E (p_Name peer)) (newLink W sc addr (p_Name peer)) (n\<lparr>n_store := s'\<rparr>))),
              Inr (n_next n))))"

text \<open>The end of \<open>runSession\<close>, after \<open>readLoop\<close> has returned.\<close>

definition session_end :: "world \<Rightarrow> nat \<Rightarrow> node \<Rightarrow> node" where
  "session_end W l n = (let peer = l_peer (n_links n l); key = ToLower (w_env W) peer;
       n1 = close l n;
       n2 = (if n_live n1 key = Some l then n1\<lparr>n_live := (n_live n1)(key := None)\<rparr> else n1)
     in emit (event0\<lparr>ev_Type := ''peers'', ev_Peer := peer\<rparr>)
          (logf W ''session down with %q'' [AStr peer] n2))"

text \<open>\<open>Stop\<close>: the announcement is withdrawn and every registered connection closed.\<close>

definition Stop :: "node \<Rightarrow> node" where
  "Stop n = n\<lparr>n_announcing := False,
     n_links := (\<lambda>l. if l \<in> ran (n_live n) then (n_links n l)\<lparr>l_open := False\<rparr> else n_links n l)\<rparr>"

section \<open>Events and the log: bounded, and never blocking\<close>

lemma emit_queue:
  assumes "n_subs n i = Some ch" "length ch \<le> subCap"
  shows "n_subs (fold emit es n) i = Some (ch @ take (subCap - length ch) es)"
  using assms
proof (induction es arbitrary: n ch)
  case Nil
  then show ?case by simp
next
  case (Cons e es)
  show ?case
  proof (cases "length ch < subCap")
    case True
    then have "n_subs (emit e n) i = Some (ch @ [e])" using Cons.prems by (simp add: emit_def)
    from Cons.IH [OF this] True show ?thesis by (simp add: take_Cons' Suc_diff_Suc)
  next
    case False
    then have "n_subs (emit e n) i = Some ch" using Cons.prems by (simp add: emit_def)
    from Cons.IH [OF this Cons.prems(2)] False show ?thesis by simp
  qed
qed

definition last_n :: "nat \<Rightarrow> 'a list \<Rightarrow> 'a list" where
  "last_n k xs = drop (length xs - k) xs"

lemma last_n_append: "last_n k (last_n k xs @ ys) = last_n k (xs @ ys)"
  by (cases "k \<le> length ys"; cases "k \<le> length xs") (simp_all add: last_n_def add.commute)

lemma n_log_logf: "n_log (logf W f a n) = last_n logCap (n_log n @ [\<lparr>lg_At = w_now W, lg_Fmt = f, lg_Args = a\<rparr>])"
  by (simp add: logf_def Let_def last_n_def)

section \<open>Bounds of the retry schedule\<close>

lemma int64_id: "- (2 ^ 63) \<le> x \<Longrightarrow> x < 2 ^ 63 \<Longrightarrow> int64 x = x"
  by (simp add: int64_def signed_take_bit_int_eq_self)

lemma int64_range: "- (2 ^ 63) \<le> int64 x" "int64 x < 2 ^ 63"
  unfolding int64_def by (rule signed_take_bit_int_greater_eq_minus_exp, rule signed_take_bit_int_less_exp)

lemma backoff_bounds: "0 < mx \<Longrightarrow> 0 < backoff a base mx \<and> backoff a base mx \<le> mx"
  by (auto simp: backoff_def Let_def)

lemma backoff_range: "mx < 2 ^ 63 \<Longrightarrow> 0 < mx \<Longrightarrow> backoff a base mx < 2 ^ 63"
  using backoff_bounds [of mx a base] by linarith

lemma unat_Suc_small: "unat y < 2 ^ 63 \<Longrightarrow> unat (1 + y) = Suc (unat y)" for y :: "64 word"
proof -
  assume a: "unat y < 2 ^ 63"
  have "unat (1 + y) = (1 + unat y) mod 2 ^ 64" by (simp only: unat_word_ariths(1) unat_1 len_of_numeral_defs) simp
  also have "\<dots> = 1 + unat y" using a by (intro mod_less) simp
  finally show ?thesis by simp
qed

lemma sint_small: "unat w < 2 ^ 63 \<Longrightarrow> sint w = int (unat w)" for w :: "64 word"
proof -
  assume "unat w < 2 ^ 63"
  then have "int (unat w) < int (2 ^ 63)" by (simp only: of_nat_less_iff)
  then have "uint w < 2 ^ 63" by simp
  moreover have "- (2 ^ 63) \<le> uint w" by (rule order_trans [of _ 0]) simp_all
  ultimately have "signed_take_bit 63 (uint w) = uint w" by (intro signed_take_bit_int_eq_self)
  then show "sint w = int (unat w)" by (simp add: sint_uint)
qed

lemma jitter_range:
  fixes x :: "64 word"
  assumes "0 < d" "d < 2 ^ 63"
  shows "1 \<le> sint (1 + x mod word_of_int d) \<and> sint (1 + x mod word_of_int d) \<le> d"
proof -
  let ?y = "x mod word_of_int d"
  have "unat (word_of_int d :: 64 word) = nat d"
    using assms by (simp add: unat_eq_nat_uint uint_word_of_int)
  then have "unat ?y = unat x mod nat d" by (simp add: unat_mod)
  then have lt: "unat ?y < nat d" using assms(1) by simp
  have d: "nat d < 2 ^ 63" using assms(2) by (simp add: nat_less_iff)
  with lt have u: "unat (1 + ?y) = Suc (unat ?y)" by (intro unat_Suc_small) linarith
  with lt d have "unat (1 + ?y) < 2 ^ 63" by linarith
  from sint_small [OF this] u lt show ?thesis by linarith
qed

section \<open>The dialling scan\<close>

definition stale :: "world \<Rightarrow> nearby \<Rightarrow> bool" where
  "stale W nb \<longleftrightarrow> nb_up nb \<and> w_now W - nb_seen nb > 120 * second"

text \<open>Whom a tick dials, given the state before it.\<close>

definition dialable :: "world \<Rightarrow> node \<Rightarrow> string \<Rightarrow> bool" where
  "dialable W n fp \<longleftrightarrow> (\<exists>nb. n_nearby n fp = Some nb \<and> nb_up nb \<and> \<not> nb_dialing nb \<and> nb_nextDial nb \<le> w_now W
     \<and> n_myFP n < fp \<and> n_live n (ToLower (w_env W) (d_Name (nb_peer nb))) = None)"

lemma set_nearby_fields [simp]:
  "n_store (set_nearby fp f n) = n_store n" "n_live (set_nearby fp f n) = n_live n"
  "n_myFP (set_nearby fp f n) = n_myFP n" "n_mu (set_nearby fp f n) = n_mu n"
  "n_nearby (set_nearby fp f n) = (n_nearby n)(fp := map_option f (n_nearby n fp))"
  by (simp_all add: set_nearby_def)

lemma dial_entry_stale:
  "\<lbrakk>n_mu n; n_nearby n fp = Some nb; stale W nb\<rbrakk> \<Longrightarrow> dial_entry W n fp = None"
  by (simp add: dial_entry_def stale_def locking_held)

lemma dial_entry_fresh:
  assumes "\<And>nb. n_nearby n fp = Some nb \<Longrightarrow> \<not> stale W nb"
  shows "dial_entry W n fp = (if dialable W n fp
    then Some (set_nearby fp (\<lambda>b. b\<lparr>nb_dialing := True\<rparr>) n, True) else Some (n, False))"
proof (cases "n_nearby n fp")
  case None
  then show ?thesis by (simp add: dial_entry_def dialable_def)
next
  case (Some nb)
  then have "\<not> (nb_up nb \<and> w_now W - nb_seen nb > 120 * second)" using assms by (simp add: stale_def)
  then show ?thesis using Some unfolding dial_entry_def dialable_def
    by (auto simp: not_le not_less)
qed

text \<open>The scan reads and writes only the entry it visits.\<close>

lemma dial_entry_other:
  "dial_entry W n fp = Some (n', go) \<Longrightarrow> n_mu n \<Longrightarrow> n_mu n' \<and> (\<forall>fp'. fp' \<noteq> fp \<longrightarrow> n_nearby n' fp' = n_nearby n fp')"
  by (cases "\<exists>nb. n_nearby n fp = Some nb \<and> stale W nb")
    (auto simp: dial_entry_stale dial_entry_fresh split: if_splits)

lemma dial_scan_stale:
  assumes "n_mu n" "fp \<in> set fps" "n_nearby n fp = Some nb" "stale W nb"
  shows "dial_scan W fps n todo = None"
  using assms(1-3)
proof (induction fps arbitrary: n todo)
  case (Cons f fps)
  show ?case
  proof (cases "f = fp")
    case True
    with Cons.prems assms(4) show ?thesis by (simp add: dial_entry_stale)
  next
    case False
    show ?thesis
    proof (cases "dial_entry W n f")
      case (Some r)
      obtain n1 go where r: "r = (n1, go)" by (cases r)
      have "n_mu n1" "n_nearby n1 fp = Some nb"
        using dial_entry_other [OF Some [unfolded r] Cons.prems(1)] Cons.prems(3) False by auto
      with Cons.IH Cons.prems(2) False Some r show ?thesis by simp
    qed simp
  qed
qed simp

abbreviation mark_dialing :: "string \<Rightarrow> node \<Rightarrow> node" where
  "mark_dialing fp \<equiv> set_nearby fp (\<lambda>b. b\<lparr>nb_dialing := True\<rparr>)"

lemma dialable_mark: "fp' \<noteq> fp \<Longrightarrow> dialable W (mark_dialing fp' n) fp = dialable W n fp"
  by (simp add: dialable_def)

lemma dial_scan_fresh:
  assumes "distinct fps" "\<And>fp nb. fp \<in> set fps \<Longrightarrow> n_nearby n fp = Some nb \<Longrightarrow> \<not> stale W nb"
  shows "dial_scan W fps n todo = Some (fold mark_dialing (filter (dialable W n) fps) n, todo @ filter (dialable W n) fps)"
  using assms
proof (induction fps arbitrary: n todo)
  case (Cons f fps)
  have e: "dial_entry W n f = (if dialable W n f then Some (mark_dialing f n, True) else Some (n, False))"
    by (rule dial_entry_fresh) (use Cons.prems(2) in auto)
  show ?case
  proof (cases "dialable W n f")
    case True
    have "filter (dialable W (mark_dialing f n)) fps = filter (dialable W n) fps"
      using Cons.prems(1) by (intro filter_cong refl, subst dialable_mark) auto
    moreover have "dial_scan W fps (mark_dialing f n) (todo @ [f]) =
      Some (fold mark_dialing (filter (dialable W (mark_dialing f n)) fps) (mark_dialing f n),
        (todo @ [f]) @ filter (dialable W (mark_dialing f n)) fps)"
      by (rule Cons.IH) (use Cons.prems in \<open>auto split: if_splits\<close>)
    ultimately show ?thesis using True e by simp
  next
    case False
    have "dial_scan W fps n todo = Some (fold mark_dialing (filter (dialable W n) fps) n, todo @ filter (dialable W n) fps)"
      by (rule Cons.IH) (use Cons.prems in auto)
    with False e show ?thesis by simp
  qed
qed simp

lemma fold_mark_nearby:
  "n_nearby (fold mark_dialing fps n) fp =
     (if fp \<in> set fps then map_option (\<lambda>b. b\<lparr>nb_dialing := True\<rparr>) (n_nearby n fp) else n_nearby n fp)"
  by (induction fps arbitrary: n) (auto simp: option.map_comp comp_def)

section \<open>Registration of a session\<close>

definition live_inv :: "env \<Rightarrow> node \<Rightarrow> bool" where
  "live_inv E n \<longleftrightarrow> (\<forall>k l. n_live n k = Some l \<longrightarrow> l < n_next n \<and> ToLower E (l_peer (n_links n l)) = k)"

definition node_inv :: "env \<Rightarrow> node \<Rightarrow> bool" where
  "node_inv E n \<longleftrightarrow> trust_inv E (n_store n) \<and> live_inv E n"

lemma close_fields [simp]:
  "n_store (close l n) = n_store n" "n_live (close l n) = n_live n" "n_next (close l n) = n_next n"
  "n_id (close l n) = n_id n" "n_subs (close l n) = n_subs n" "n_cfg (close l n) = n_cfg n"
  "n_log (close l n) = n_log n" "n_tasks (close l n) = n_tasks n"
  "n_links (close l n) = (n_links n)(l := (n_links n l)\<lparr>l_open := False\<rparr>)"
  by (simp_all add: close_def)

lemma live_inv_close [simp]: "live_inv E (close l n) = live_inv E n"
  by (auto simp: live_inv_def)

lemma live_inv_store [simp]: "live_inv E (n\<lparr>n_store := s\<rparr>) = live_inv E n"
  by (simp add: live_inv_def)

lemma live_inv_emit [simp]: "live_inv E (emit e n) = live_inv E n"
  by (simp add: live_inv_def)

lemma live_inv_logf [simp]: "live_inv E (logf W f a n) = live_inv E n"
  by (simp add: live_inv_def)

lemma release_fields [simp]:
  "n_store (release d n) = n_store n" "n_live (release d n) = n_live n" "n_next (release d n) = n_next n"
  "n_id (release d n) = n_id n" "n_links (release d n) = n_links n"
  by (simp_all add: release_def)

lemma live_inv_release [simp]: "live_inv E (release d n) = live_inv E n"
  by (simp add: live_inv_def)

lemma register_fields [simp]:
  "n_store (register key k n) = n_store n" "n_live (register key k n) = (n_live n)(key := Some (n_next n))"
  "n_next (register key k n) = Suc (n_next n)" "n_links (register key k n) (n_next n) = k"
  by (simp_all add: register_def Let_def split: option.split)

lemma register_links:
  "l < n_next n \<Longrightarrow> n_links (register key k n) l =
     (if n_live n key = Some l then (n_links n l)\<lparr>l_open := False\<rparr> else n_links n l)"
  by (auto simp: register_def Let_def split: option.split)

lemma live_inv_register:
  assumes "live_inv E n" "ToLower E (l_peer k) = key"
  shows "live_inv E (register key k n)"
  unfolding live_inv_def
proof (intro allI impI)
  fix q l
  assume q: "n_live (register key k n) q = Some l"
  show "l < n_next (register key k n) \<and> ToLower E (l_peer (n_links (register key k n) l)) = q"
  proof (cases "q = key")
    case True
    with q have "l = n_next n" by simp
    with True assms(2) show ?thesis by simp
  next
    case False
    with q have "n_live n q = Some l" by simp
    with assms(1) have "l < n_next n" "ToLower E (l_peer (n_links n l)) = q" by (simp_all add: live_inv_def)
    then show ?thesis by (simp add: register_links)
  qed
qed

text \<open>
  What one observation contributes to \<open>establish\<close>: it always succeeds, returns a peer whose name
  has the same key as the one presented, and says whether the pin afterwards is that key.
\<close>

lemma Observe_establishes:
  assumes "trust_inv E s" "observation_ok (r, key, now)"
  obtains s' p ok where "Observe E r s name key now = (s', Inr (p, ok))" "trust_inv E s'"
    "ok \<longleftrightarrow> pinned_key (trust_of E s' name) = Some key"
    "peerKey E (p_Name p) = peerKey E name"
    "\<And>m k. pinned_key (trust_of E s m) = Some k \<Longrightarrow> pinned_key (trust_of E s' m) = Some k"
    "\<not> ok \<Longrightarrow> pinned_key (trust_of E s' name) = pinned_key (trust_of E s name)"
    "\<not> ok \<Longrightarrow> trust_of E s' name = fst (tofu_observe key (trust_of E s name))"
proof -
  let ?x = "(r, key, now)"
  have pre: "peers_inv E s" "aead_ok E" "nonce_ok r" "keys_ok s" "key_good s key"
    using assms by (simp_all add: trust_inv_def observation_ok_def key_good_def)
  obtain p b where ob: "Observe E r s name key now = (s\<lparr>db := putPeer E (db s) p\<rparr>, Inr (p, b))"
    "peerKey E (p_Name p) = peerKey E name"
    using pre by (rule Observe_put)
  let ?s = "s\<lparr>db := putPeer E (db s) p\<rparr>"
  have st: "observe_step E s name ?x = (?s, b)" by (simp add: observe_step_def ob(1))
  have spec: "(trust_of E ?s name, b) = tofu_observe key (trust_of E s name)"
    using pins.observe_spec [OF assms, of name] by (simp add: st)
  show thesis
  proof (rule that [OF ob(1) _ _ ob(2)])
    show "trust_inv E ?s" using pins.observe_inv [OF assms, of name] by (simp add: st)
    show "b \<longleftrightarrow> pinned_key (trust_of E ?s name) = Some key"
      using pins.observe_accepts_iff [OF assms, of name] by (simp add: st)
    show "pinned_key (trust_of E ?s m) = Some k" if "pinned_key (trust_of E s m) = Some k" for m k
      using pins.observe_keeps_pin [OF assms that, of name] by (simp add: st)
    show "pinned_key (trust_of E ?s name) = pinned_key (trust_of E s name)" if "\<not> b"
      using spec that by (cases "trust_of E s name") (auto split: if_splits)
    show "trust_of E ?s name = fst (tofu_observe key (trust_of E s name))" if "\<not> b"
      using spec by (metis fst_conv)
  qed
qed

lemma establish_refused:
  assumes "c_RemoteKey sc \<noteq> Public (i_Key (n_id n))" "wantFP = [] \<or> fpMatches (w_env W) wantFP (c_RemoteKey sc)"
    and "Observe (w_env W) (w_nonce W) (n_store n) (c_RemoteName sc) (c_RemoteKey sc) (w_now W) = (s', Inr (p, False))"
  shows "\<exists>e. snd (establish W (Inr sc) addr d wantFP n) = Inl e
    \<and> n_live (fst (establish W (Inr sc) addr d wantFP n)) = n_live n
    \<and> n_links (fst (establish W (Inr sc) addr d wantFP n)) = n_links n
    \<and> n_next (fst (establish W (Inr sc) addr d wantFP n)) = n_next n
    \<and> n_store (fst (establish W (Inr sc) addr d wantFP n)) = s'"
  using assms by (auto simp: establish_def Let_def)

lemma establish_accepted:
  assumes "c_RemoteKey sc \<noteq> Public (i_Key (n_id n))" "wantFP = [] \<or> fpMatches (w_env W) wantFP (c_RemoteKey sc)"
    and "Observe (w_env W) (w_nonce W) (n_store n) (c_RemoteName sc) (c_RemoteKey sc) (w_now W) = (s', Inr (p, True))"
  shows "snd (establish W (Inr sc) addr d wantFP n) = Inr (n_next n)
    \<and> n_store (fst (establish W (Inr sc) addr d wantFP n)) = s'
    \<and> n_live (fst (establish W (Inr sc) addr d wantFP n)) = (n_live n)(ToLower (w_env W) (p_Name p) := Some (n_next n))
    \<and> n_links (fst (establish W (Inr sc) addr d wantFP n)) (n_next n) = newLink W sc addr (p_Name p)
    \<and> (live_inv (w_env W) n \<longrightarrow> live_inv (w_env W) (fst (establish W (Inr sc) addr d wantFP n)))
    \<and> (\<forall>l. n_live n (ToLower (w_env W) (p_Name p)) = Some l \<longrightarrow> l < n_next n
         \<longrightarrow> \<not> l_open (n_links (fst (establish W (Inr sc) addr d wantFP n)) l))"
proof -
  let ?n0 = "(release d n)\<lparr>n_store := s'\<rparr>"
  let ?r = "register (ToLower (w_env W) (p_Name p)) (newLink W sc addr (p_Name p)) ?n0"
  obtain ev f1 a1 where e: "establish W (Inr sc) addr d wantFP n = (emit ev (logf W f1 a1 ?r), Inr (n_next n))"
    using assms by (auto simp: establish_def Let_def)
  have "live_inv (w_env W) ?r" if "live_inv (w_env W) n"
    by (rule live_inv_register) (use that in \<open>simp_all add: newLink_def\<close>)
  moreover have "\<not> l_open (n_links ?r l)"
    if "n_live n (ToLower (w_env W) (p_Name p)) = Some l" "l < n_next n" for l
    using register_links [of l ?n0] that by simp
  moreover have "n_links ?r (n_next n) = newLink W sc addr (p_Name p)"
    using register_fields(4) [of _ _ ?n0] by simp
  ultimately show ?thesis unfolding e by (simp del: fun_upd_apply)
qed

section \<open>Fingerprints typed by a person\<close>

definition fp_normal :: "string \<Rightarrow> string" where
  "fp_normal w = map (\<lambda>c. char_of (ascii_lower (of_char c))) (filter (\<lambda>c. \<not> fp_separator (of_char c)) w)"

lemma unicode_ToLower_ascii: "r < 0x80 \<Longrightarrow> unicode_ToLower U r = ascii_lower r"
  by (simp add: unicode_ToLower_def)

lemma fpMatches_ascii:
  assumes "is_ascii want"
  shows "fpMatches E want k \<longleftrightarrow> fp_normal want = Fingerprint E k"
proof -
  have "concat (map (\<lambda>r. EncodeRune (unicode_ToLower E r)) (filter (\<lambda>r. \<not> fp_separator r) (map of_char want)))
      = fp_normal want"
    using assms
  proof (induction want)
    case (Cons c want)
    then show ?case
      by (simp add: fp_normal_def EncodeRune_ascii unicode_ToLower_ascii ascii_lower_lt)
  qed (simp add: fp_normal_def)
  then show ?thesis by (simp add: fpMatches_def runes_ascii [OF assms])
qed

section \<open>Properties\<close>

text \<open>
  C29. A tick of the dialling loop never returns once any known peer has been silent for two
  minutes: the scan holds the node's mutex and then calls the logger, which takes the same
  mutex. Everything else that needs it waits from then on.
\<close>

theorem dial_tick_deadlocks:
  assumes "fp \<in> set fps" "n_nearby n fp = Some nb" "nb_up nb" "w_now W - nb_seen nb > 120 * second"
  shows "dial_tick W fps n = None"
proof (cases "mu_lock n")
  case (Some n1)
  then have n1: "n_mu n1" "n_nearby n1 fp = Some nb" using assms(2) by (auto simp: mu_lock_def split: if_splits)
  have "dial_scan W fps n1 [] = None"
    by (rule dial_scan_stale [OF n1(1) assms(1) n1(2)]) (use assms(3,4) in \<open>simp add: stale_def\<close>)
  with Some show ?thesis by (simp add: dial_tick_def)
qed (simp add: dial_tick_def)

definition sample_world :: world where
  "sample_world = \<lparr>w_env = sample_env, w_now = 1000 * second, w_nonce = sample_nonce, w_id = Some (replicate 16 CHR ''i''),
     w_jitter = (\<lambda>_. None), w_tx = (\<lambda>_ _. Inr ())\<rparr>"

definition sample_config :: config where
  "sample_config = \<lparr>ListenAddr = [], PingEvery = 0, DeadAfter = 0, RetryBase = 0, RetryMax = 0, DialTick = 0\<rparr>"

definition sample_node :: node where
  "sample_node = New sample_env sample_config sample_store (toy_ident (CHR ''a''))"

definition sample_dpeer :: "string \<Rightarrow> dpeer" where
  "sample_dpeer fp = \<lparr>d_Name = ''Bob'', d_FP = fp, d_Addrs = [''10.0.0.2:1'']\<rparr>"

text \<open>A peer announced 130 seconds ago.\<close>

theorem dial_tick_deadlocks_witness:
  "dial_tick sample_world [''zz''] (browse_step (sample_world\<lparr>w_now := 870 * second\<rparr>) True (sample_dpeer ''zz'') sample_node) = None"
proof -
  let ?n = "browse_step (sample_world\<lparr>w_now := 870 * second\<rparr>) True (sample_dpeer ''zz'') sample_node"
  have f: "n_myFP sample_node \<noteq> ''zz''"
    using length_Fingerprint [of sample_env] by (auto simp: sample_node_def New_def dest!: arg_cong [of _ _ length])
  then have "n_nearby ?n ''zz'' = Some \<lparr>nb_peer = sample_dpeer ''zz'', nb_up = True, nb_seen = 870 * second,
      nb_fails = 0, nb_nextDial = time_zero, nb_dialing = False\<rparr>"
    by (simp add: browse_step_def Let_def sample_dpeer_def sample_node_def New_def)
  from dial_tick_deadlocks [of "''zz''" "[''zz'']", OF _ this] show ?thesis by (simp add: sample_world_def)
qed

text \<open>
  Otherwise a tick dials exactly the announced, idle, due peers without a session whose
  fingerprint is above ours, marks those and nothing else, and gives the mutex back. Of two
  nodes that see each other at most one dials.
\<close>

theorem dial_tick_selects:
  assumes "\<not> n_mu n" "distinct fps" "\<forall>fp\<in>set fps. \<forall>nb. n_nearby n fp = Some nb \<longrightarrow> \<not> stale W nb"
  shows "\<exists>n'. dial_tick W fps n = Some (n', filter (dialable W n) fps) \<and> \<not> n_mu n'
    \<and> (\<forall>fp. n_nearby n' fp = (if fp \<in> set (filter (dialable W n) fps)
          then map_option (\<lambda>b. b\<lparr>nb_dialing := True\<rparr>) (n_nearby n fp) else n_nearby n fp))
    \<and> (\<forall>fp\<in>set (filter (dialable W n) fps). \<forall>m. n_myFP m = fp \<longrightarrow> \<not> dialable W m (n_myFP n))"
proof -
  let ?n = "n\<lparr>n_mu := True\<rparr>"
  have d: "dialable W ?n = dialable W n" by (simp add: dialable_def fun_eq_iff)
  have "dial_scan W fps ?n [] = Some (fold mark_dialing (filter (dialable W n) fps) ?n, filter (dialable W n) fps)"
    using dial_scan_fresh [OF assms(2), of ?n W "[]"] assms(3) unfolding d by auto
  then have t: "dial_tick W fps n = Some (mu_unlock (fold mark_dialing (filter (dialable W n) fps) ?n), filter (dialable W n) fps)"
    using assms(1) by (simp add: dial_tick_def mu_lock_def)
  have "n_nearby (mu_unlock (fold mark_dialing (filter (dialable W n) fps) ?n)) fp =
      (if fp \<in> set (filter (dialable W n) fps) then map_option (\<lambda>b. b\<lparr>nb_dialing := True\<rparr>) (n_nearby n fp)
       else n_nearby n fp)" for fp
    using fold_mark_nearby [of "filter (dialable W n) fps" ?n fp] by (simp add: mu_unlock_def)
  moreover have "\<forall>fp\<in>set (filter (dialable W n) fps). \<forall>m. n_myFP m = fp \<longrightarrow> \<not> dialable W m (n_myFP n)"
    by (auto simp: dialable_def)
  ultimately show ?thesis using t by (intro exI conjI allI) (assumption | simp add: mu_unlock_def)+
qed

theorem dial_tick_selects_witness:
  "\<exists>n'. dial_tick sample_world [''zz''] sample_node = Some (n', filter (dialable sample_world sample_node) [''zz'']) \<and> \<not> n_mu n'"
  using dial_tick_selects [of sample_node "[''zz'']" sample_world] by (auto simp: sample_node_def New_def)

text \<open>
  C30. The retry schedule: the delay doubles with every attempt up to a cap and never exceeds the
  maximum, also where the shift would overflow 64 bits; the jittered delay lies between one
  nanosecond and that value, whatever the random bytes.
\<close>

theorem retry_schedule:
  assumes "0 < mx" "mx < 2 ^ 63"
  shows "0 < backoff a base mx \<and> backoff a base mx \<le> mx
    \<and> 1 \<le> jitteredBackoff r a base mx \<and> jitteredBackoff r a base mx \<le> backoff a base mx
    \<and> (1 \<le> a \<longrightarrow> 0 < base \<longrightarrow> base * 2 ^ 15 < 2 ^ 63 \<longrightarrow> backoff a base mx = min mx (base * 2 ^ nat (min a 16 - 1)))"
proof -
  note b = backoff_bounds [OF assms(1), of a base]
  have d: "backoff a base mx < 2 ^ 63" using b assms(2) by linarith
  have j: "1 \<le> jitteredBackoff r a base mx" "jitteredBackoff r a base mx \<le> backoff a base mx"
    using b jitter_range [OF conjunct1 [OF b] d] by (auto simp: jitteredBackoff_def Let_def split: option.split)
  have "backoff a base mx = min mx (base * 2 ^ nat (min a 16 - 1))" if a: "1 \<le> a" "0 < base" "base * 2 ^ 15 < 2 ^ 63"
  proof -
    let ?k = "nat (min a 16 - 1)"
    have k: "?k \<le> 15" by simp
    have "to_uint (min a 16 - 1) = ?k" using a(1) by (simp add: to_uint_def)
    moreover have pos: "0 < base * 2 ^ ?k" using a(2) by simp
    moreover have le: "base * 2 ^ ?k \<le> base * 2 ^ 15"
      using k a(2) by (intro mult_left_mono power_increasing) simp_all
    have "int64 (base * 2 ^ ?k) = base * 2 ^ ?k"
      by (rule int64_id [OF _ le_less_trans [OF le a(3)]]) (rule order_trans [of _ 0], simp, use pos in linarith)
    ultimately have sh: "shl64 base (to_uint (min a 16 - 1)) = base * 2 ^ ?k" using k by (simp add: shl64_def)
    have m: "(if a > 16 then 16 else a) = min a 16" "\<not> min a 16 < 1" using a(1) by simp_all
    show ?thesis unfolding backoff_def Let_def m(1) sh using m(2) pos by simp
  qed
  with b j show ?thesis by blast
qed

theorem retry_schedule_witness:
  "backoff 3 (2 * second) (30 * second) = 8 * second \<and> backoff 100 (2 * second) (30 * second) = 30 * second"
  using retry_schedule [of "30 * second" 3 "2 * second" None] retry_schedule [of "30 * second" 100 "2 * second" None]
  by simp

text \<open>
  The schedule of room messages, by contrast, is not guarded against overflow.
\<close>

lemma int64_multiple: "2 ^ 64 dvd x \<Longrightarrow> int64 x = 0"
proof -
  assume "2 ^ 64 dvd x"
  then have "take_bit (Suc 63) x = 0" by (simp add: take_bit_eq_mod)
  then have "signed_take_bit 63 x = signed_take_bit 63 0"
    by (simp only: signed_take_bit_eq_iff_take_bit_eq take_bit_of_0)
  then show "int64 x = 0" by (simp add: int64_def)
qed

lemma shl64_one_dvd: "54 \<le> k \<Longrightarrow> 2 ^ 54 dvd shl64 1 k"
proof (cases "k < 63")
  case True
  assume "54 \<le> k"
  have "(2 :: int) ^ k < 2 ^ 63" using True by (intro power_strict_increasing) simp_all
  then have "int64 (2 ^ k) = 2 ^ k"
    by (intro int64_id) (rule order_trans [of _ 0], simp_all)
  then have "shl64 1 k = 2 ^ k" using True by (simp add: shl64_def)
  moreover have "(2 :: int) ^ 54 dvd 2 ^ k" using \<open>54 \<le> k\<close> by (rule le_imp_power_dvd)
  ultimately show ?thesis by (simp only:)
next
  case False
  show ?thesis
  proof (cases "k = 63")
    case True
    have "shl64 1 63 = - (2 ^ 63)" by (simp add: shl64_def int64_def signed_take_bit_eq_if_negative)
    then show ?thesis unfolding True by (simp add: dvd_def)
  next
    case False
    with \<open>\<not> k < 63\<close> show ?thesis by (simp add: shl64_def)
  qed
qed

text \<open>
  With the default timing, the delay before a room message is sent again becomes negative at
  the 34th attempt and is zero from the 55th on: a member who never acknowledges (one that has
  not answered the invitation drops room messages silently) is sent every queued message at
  every tick.
\<close>

theorem room_retry_unthrottled:
  assumes "55 \<le> a" "a < 2 ^ 63"
  shows "room_backoff (defaults sample_config) a = 0 \<and> room_backoff (defaults sample_config) 34 < 0"
proof -
  have k: "54 \<le> to_uint (a - 1)" using assms by (simp add: to_uint_def)
  obtain j where j: "shl64 1 (to_uint (a - 1)) = 2 ^ 54 * j" using shl64_one_dvd [OF k] by (auto simp: dvd_def)
  have "RetryBase (defaults sample_config) * (2 ^ 54 * j) = 2 ^ 64 * (1953125 * j)"
    by (simp add: defaults_def sample_config_def)
  then have "2 ^ 64 dvd RetryBase (defaults sample_config) * (2 ^ 54 * j)" by (simp only: dvd_triv_left)
  then have "int64 (RetryBase (defaults sample_config) * (2 ^ 54 * j)) = 0" by (rule int64_multiple)
  then have "room_backoff (defaults sample_config) a = 0"
    by (simp add: room_backoff_def j Let_def) (simp add: defaults_def sample_config_def)
  moreover have "to_uint (34 - 1) = 33" by (simp add: to_uint_def)
  then have "room_backoff (defaults sample_config) 34 < 0"
    by (simp add: room_backoff_def shl64_def Let_def defaults_def sample_config_def int64_def signed_take_bit_eq_if_negative)
  ultimately show ?thesis by blast
qed

theorem room_retry_unthrottled_witness: "room_backoff (defaults sample_config) 55 = 0"
  using room_retry_unthrottled [of 55] by simp

text \<open>
  C6. A session is registered only with the pinned key. If the handshake delivered a key that is
  neither our own nor, where a fingerprint was demanded, a different one, the outcome is decided
  by the pin: with the pinned (or first) key the newest session is registered under the peer's
  name and the previous one closed; with any other key nothing is registered or closed, the pin
  stays and the key is left pending. A demanded fingerprint that does not match is refused
  before the store is touched.
\<close>

theorem establish_enforces_pin:
  fixes sc :: "'c conn" and addr wantFP :: string and d :: bool
  assumes "node_inv (w_env W) n" "observation_ok (w_nonce W, c_RemoteKey sc, w_now W)"
    and "c_RemoteKey sc \<noteq> Public (i_Key (n_id n))"
  defines "r \<equiv> establish W (Inr sc) addr d wantFP n"
  shows "if wantFP \<noteq> [] \<and> \<not> fpMatches (w_env W) wantFP (c_RemoteKey sc)
    then n_store (fst r) = n_store n \<and> n_live (fst r) = n_live n
      \<and> (\<exists>e. snd r = Inl e \<and> errors_Is e ErrFPMismatch)
    else node_inv (w_env W) (fst r)
      \<and> (if pinned_key (trust_of (w_env W) (n_store n) (c_RemoteName sc)) \<in> {None, Some (c_RemoteKey sc)}
         then (\<exists>key. snd r = Inr (n_next n) \<and> n_live (fst r) = (n_live n)(key := Some (n_next n))
            \<and> l_key (n_links (fst r) (n_next n)) = c_RemoteKey sc
            \<and> pinned_key (trust_of (w_env W) (n_store (fst r)) (c_RemoteName sc)) = Some (c_RemoteKey sc)
            \<and> (\<forall>l. n_live n key = Some l \<longrightarrow> \<not> l_open (n_links (fst r) l)))
         else (\<exists>e. snd r = Inl e) \<and> n_live (fst r) = n_live n \<and> n_links (fst r) = n_links n
            \<and> trust_of (w_env W) (n_store (fst r)) (c_RemoteName sc)
              = fst (tofu_observe (c_RemoteKey sc) (trust_of (w_env W) (n_store n) (c_RemoteName sc))))"
proof (cases "wantFP \<noteq> [] \<and> \<not> fpMatches (w_env W) wantFP (c_RemoteKey sc)")
  case True
  with assms(3) show ?thesis by (simp add: r_def establish_def Let_def)
next
  case False
  let ?E = "w_env W" and ?s = "n_store n"
  have ti: "trust_inv ?E ?s" and li: "live_inv ?E n" using assms(1) by (simp_all add: node_inv_def)
  have w: "wantFP = [] \<or> fpMatches ?E wantFP (c_RemoteKey sc)" using False by blast
  from ti assms(2) obtain s' p ok where ob: "Observe ?E (w_nonce W) ?s (c_RemoteName sc) (c_RemoteKey sc) (w_now W)
      = (s', Inr (p, ok))" "trust_inv ?E s'" "ok \<longleftrightarrow> pinned_key (trust_of ?E s' (c_RemoteName sc)) = Some (c_RemoteKey sc)"
    and keep: "\<And>m k. pinned_key (trust_of ?E ?s m) = Some k \<Longrightarrow> pinned_key (trust_of ?E s' m) = Some k"
    and refused: "\<not> ok \<Longrightarrow> pinned_key (trust_of ?E s' (c_RemoteName sc)) = pinned_key (trust_of ?E ?s (c_RemoteName sc))"
      "\<not> ok \<Longrightarrow> trust_of ?E s' (c_RemoteName sc) = fst (tofu_observe (c_RemoteKey sc) (trust_of ?E ?s (c_RemoteName sc)))"
    by (rule Observe_establishes) blast
  show ?thesis
  proof (cases ok)
    case True
    have "pinned_key (trust_of ?E ?s (c_RemoteName sc)) \<in> {None, Some (c_RemoteKey sc)}"
      using keep [of "c_RemoteName sc"] ob(3) True by (cases "pinned_key (trust_of ?E ?s (c_RemoteName sc))") auto
    moreover note establish_accepted [OF assms(3) w ob(1) [unfolded eq_True [THEN iffD2, OF True]], of addr d, folded r_def]
    moreover have "l < n_next n" if "n_live n k = Some l" for k l using li that by (simp add: live_inv_def)
    moreover have "l_key (newLink W sc addr (p_Name p)) = c_RemoteKey sc" by (simp add: newLink_def)
    ultimately show ?thesis using False True ob(2,3) li by (auto simp: node_inv_def)
  next
    case f: False
    then have "ok = False" by simp
    note e = establish_refused [OF assms(3) w ob(1) [unfolded this], of addr d, folded r_def]
    have "pinned_key (trust_of ?E ?s (c_RemoteName sc)) \<noteq> None"
      using refused(2) [OF f] refused(1) [OF f] by (cases "trust_of ?E ?s (c_RemoteName sc)") auto
    then have "pinned_key (trust_of ?E ?s (c_RemoteName sc)) \<notin> {None, Some (c_RemoteKey sc)}"
      using refused(1) [OF f] ob(3) f by auto
    moreover have "node_inv ?E (fst r)" using e ob(2) li by (auto simp: node_inv_def live_inv_def)
    ultimately show ?thesis using False e refused(2) [OF f] by auto
  qed
qed

definition sample_conn :: "bytes \<Rightarrow> string \<Rightarrow> nat conn" where
  "sample_conn key name = \<lparr>c_RemoteKey = key, c_RemoteName = name, c_RemoteVersion = 2, c_RemoteCaps = LocalCaps,
     c_enc = 0, c_dec = 0\<rparr>"

lemma sample_node_inv: "node_inv sample_env sample_node"
  by (simp add: node_inv_def sample_node_def New_def live_inv_def sample_store_ok)

lemma sample_key_ok:
  "observation_ok (w_nonce sample_world, c_RemoteKey (sample_conn ''key-B'' name), w_now sample_world)"
  "c_RemoteKey (sample_conn ''key-B'' name) \<noteq> Public (i_Key (n_id sample_node))"
proof -
  have "length ''key-B'' \<noteq> length (Public (i_Key (toy_ident (CHR ''a''))))" by (simp add: toy_ident_def)
  then have "''key-B'' \<noteq> Public (i_Key (toy_ident (CHR ''a'')))" by (rule contrapos_nn) (rule arg_cong)
  then show "c_RemoteKey (sample_conn ''key-B'' name) \<noteq> Public (i_Key (n_id sample_node))"
    by (simp add: sample_conn_def sample_node_def New_def)
  show "observation_ok (w_nonce sample_world, c_RemoteKey (sample_conn ''key-B'' name), w_now sample_world)"
    by (simp add: sample_world_def sample_conn_def observation_ok_def IsEncrypted_def magic_def)
qed

theorem establish_enforces_pin_witness:
  "snd (establish sample_world (Inr (sample_conn ''key-B'' ''Bob'')) ''10.0.0.2:1'' False [] sample_node) = Inr 0
   \<and> (\<exists>e. snd (establish sample_world (Inr (sample_conn ''key-B'' ''Bob'')) ''10.0.0.2:1'' False ''00'' sample_node) = Inl e)"
proof -
  have i: "node_inv (w_env sample_world) sample_node" by (simp add: sample_world_def sample_node_inv)
  have u: "pinned_key (trust_of (w_env sample_world) (n_store sample_node) (c_RemoteName (sample_conn ''key-B'' ''Bob''))) = None"
    by (simp add: sample_node_def New_def sample_store_def empty_db_def trust_of_def)
  have z: "n_next sample_node = 0" by (simp add: sample_node_def New_def)
  have "\<not> fpMatches (w_env sample_world) ''00'' ''key-B''"
    using length_Fingerprint [of sample_env "''key-B''"]
    by (auto simp: fpMatches_ascii fp_normal_def sample_world_def fp_separator_def dest!: arg_cong [of _ _ length])
  then have "\<not> fpMatches (w_env sample_world) ''00'' (c_RemoteKey (sample_conn ''key-B'' ''Bob''))"
    by (simp add: sample_conn_def)
  with establish_enforces_pin [OF i sample_key_ok [of "''Bob''"], where wantFP = "''00''" and addr = "''10.0.0.2:1''" and d = False]
    establish_enforces_pin [OF i sample_key_ok [of "''Bob''"], where wantFP = "[]" and addr = "''10.0.0.2:1''" and d = False]
  show ?thesis by (auto simp: u z)
qed

text \<open>
  A fingerprint typed with spaces, dashes or colons and in any case is accepted exactly when
  it spells the whole fingerprint of the key: the display form matches, and a shortened one (as
  in an invite link) never does.
\<close>

theorem typed_fingerprint:
  assumes "is_ascii want" "sha256_ok E"
  shows "(fpMatches E want k \<longleftrightarrow> fp_normal want = Fingerprint E k)
    \<and> (length (fp_normal want) \<noteq> 64 \<longrightarrow> \<not> fpMatches E want k)"
  using fpMatches_ascii [OF assms(1), of E k] length_Fingerprint [OF assms(2), of k] by auto

theorem typed_fingerprint_witness: "\<not> fpMatches sample_env ''6B:65:79 00'' ''key''"
proof -
  have "is_ascii ''6B:65:79 00''" "length (fp_normal ''6B:65:79 00'') \<noteq> 64"
    by (simp_all add: fp_normal_def fp_separator_def)
  with typed_fingerprint [OF this(1) sample_env_ok(3), of "''key''"] show ?thesis by blast
qed

text \<open>
  Emitting never blocks and never disturbs the engine: whatever is emitted after a
  subscription, the subscriber's queue holds the first 64 events in order and the rest are
  dropped for it, while the store, the sessions and the log are as before.
\<close>

theorem slow_subscriber_loses_newest:
  "n_subs (fold emit es (fst (Subscribe n))) (snd (Subscribe n)) = Some (take 64 es)
   \<and> n_store (fold emit es (fst (Subscribe n))) = n_store n \<and> n_live (fold emit es (fst (Subscribe n))) = n_live n
   \<and> n_links (fold emit es (fst (Subscribe n))) = n_links n \<and> n_log (fold emit es (fst (Subscribe n))) = n_log n"
proof -
  have "n_subs (fold emit es (fst (Subscribe n))) (snd (Subscribe n)) = Some ([] @ take (subCap - length ([] :: event list)) es)"
    by (rule emit_queue) (simp_all add: Subscribe_def)
  moreover have "n_store (fold emit es m) = n_store m \<and> n_live (fold emit es m) = n_live m
      \<and> n_links (fold emit es m) = n_links m \<and> n_log (fold emit es m) = n_log m" for m
    by (induction es arbitrary: m) simp_all
  ultimately show ?thesis by (simp add: subCap_def Subscribe_def)
qed

text \<open>
  The diagnostics log is a ring: after any number of lines it holds the last 200 of them, in
  order.
\<close>

theorem log_keeps_latest:
  assumes "length (n_log n) \<le> 200"
  shows "n_log (fold (\<lambda>(W, f, a). logf W f a) ls n) =
    last_n 200 (n_log n @ map (\<lambda>(W, f, a). \<lparr>lg_At = w_now W, lg_Fmt = f, lg_Args = a\<rparr>) ls)"
  using assms
proof (induction ls arbitrary: n)
  case (Cons x ls)
  obtain W f a where x: "x = (W, f, a)" by (cases x)
  have "length (n_log (logf W f a n)) \<le> 200" by (simp add: n_log_logf last_n_def logCap_def)
  from Cons.IH [OF this] show ?case by (simp add: x n_log_logf logCap_def last_n_append)
qed (simp add: last_n_def)

theorem log_keeps_latest_witness:
  "length (n_log (fold (\<lambda>(W, f, a). logf W f a) (replicate 300 (sample_world, ''x'', [])) sample_node)) = 200"
  using log_keeps_latest [of sample_node "replicate 300 (sample_world, ''x'', [])"]
  by (simp add: sample_node_def New_def last_n_def)

end
