(* ===== verification/Node_Send.thy ===== *)
theory Node_Send
  imports Node_Core
begin

text \<open>
  Package \<open>internal/node\<close>, part 2: what the user of this device sets in motion. Queuing a
  message or a file, the outbox flush, the transfer of a file with its resume handshake, the
  one-shot envelopes (reactions, typing, read receipts, delete for everyone), and retention.

  A file transfer waits for the receiver's answer while other work goes on, so \<open>flushFile\<close> is
  two atomic parts with whatever happens in between (\<open>meanwhile\<close>) as an argument.
\<close>

section \<open>Link helpers\<close>

definition UnixMilli :: "gotime \<Rightarrow> int" where
  "UnixMilli t = t div 1000000"

definition of_UnixMilli :: "int \<Rightarrow> gotime" where
  "of_UnixMilli ms = ms * 1000000"

definition speaks :: "link \<Rightarrow> string \<Rightarrow> bool" where
  "speaks l cap = has_cap (l_caps l) cap"

definition awaitFileAck :: "string \<Rightarrow> link \<Rightarrow> link" where
  "awaitFileAck i l = l\<lparr>fileAck := (fileAck l)(i := Some None)\<rparr>"

definition cancelFileAck :: "string \<Rightarrow> link \<Rightarrow> link" where
  "cancelFileAck i l = l\<lparr>fileAck := (fileAck l)(i := None)\<rparr>"

definition deliverFileAck :: "string \<Rightarrow> int \<Rightarrow> link \<Rightarrow> link" where
  "deliverFileAck i offset l = (case fileAck l i of
     Some None \<Rightarrow> l\<lparr>fileAck := (fileAck l)(i := Some (Some offset))\<rparr>
   | _ \<Rightarrow> l)"

definition progressOf :: "int \<Rightarrow> int \<Rightarrow> rat" where
  "progressOf got tot = (if tot \<le> 0 then 0 else of_int got / of_int tot)"

section \<open>Messages\<close>

text \<open>The guard shared by \<open>SendReply\<close> and \<open>SendFile\<close>: a pinned peer without a pending key.\<close>

definition sendable_peer :: "world \<Rightarrow> node \<Rightarrow> string \<Rightarrow> peer result" where
  "sendable_peer W n name = (case GetPeer (w_env W) (n_store n) name of
     Inl e \<Rightarrow> if errors_Is e ErrNotFound then Inl ErrUnknownPeer else Inl e
   | Inr p \<Rightarrow> if p_PendingKey p \<noteq> None then Inl ErrKeyChanged else Inr p)"

definition SendReply :: "world \<Rightarrow> string \<Rightarrow> string \<Rightarrow> string \<Rightarrow> node \<Rightarrow> node \<times> message result" where
  "SendReply W peer body replyTo n =
     (if body = [] \<or> length body > MaxBody \<or> \<not> ValidString body then (n, Inl ErrBadBody)
      else case sendable_peer W n peer of
        Inl e \<Rightarrow> (n, Inl e)
      | Inr p \<Rightarrow> (case NewID (w_id W) of
          Inl e \<Rightarrow> (n, Inl e)
        | Inr i \<Rightarrow> (case AddMessage (w_env W) (w_nonce W) (n_store n)
              (message0\<lparr>m_ID := i, m_Peer := p_Name p, m_Dir := DirOut, m_Body := body, m_TS := w_now W,
                 m_Status := StatusQueued, m_ReplyTo := replyTo\<rparr>) of
            (s', Inl e) \<Rightarrow> (n\<lparr>n_store := s'\<rparr>, Inl e)
          | (s', Inr (m, _)) \<Rightarrow>
              (goRun (TFlush (p_Name p) False)
                (emit (event0\<lparr>ev_Type := ''message'', ev_Peer := p_Name p, ev_Message := Some m\<rparr>)
                  (n\<lparr>n_store := s'\<rparr>)), Inr m))))"

definition Send_node :: "world \<Rightarrow> string \<Rightarrow> string \<Rightarrow> node \<Rightarrow> node \<times> message result" where
  "Send_node W peer body n = SendReply W peer body [] n"

definition msg_envelope :: "message \<Rightarrow> envelope" where
  "msg_envelope m = envelope0\<lparr>e_T := TypeMsg, e_ID := m_ID m, e_TS := UnixMilli (m_TS m), e_Body := m_Body m,
     e_ReplyTo := m_ReplyTo m\<rparr>"

definition due :: "world \<Rightarrow> node \<Rightarrow> bool \<Rightarrow> message \<Rightarrow> bool" where
  "due W n force m \<longleftrightarrow> \<not> (\<not> force \<and> m_Attempts m > 0 \<and>
     w_now W - m_LastTry m < jitteredBackoff (w_jitter W (m_ID m)) (m_Attempts m) (RetryBase (n_cfg n)) (RetryMax (n_cfg n)))"

fun flush_loop :: "world \<Rightarrow> nat \<Rightarrow> string \<Rightarrow> bool \<Rightarrow> message list \<Rightarrow> node \<Rightarrow> node" where
  "flush_loop W l peer force [] n = n"
| "flush_loop W l peer force (m # ms) n =
     (if \<not> due W n force m then flush_loop W l peer force ms n
      else case RecordAttempt (w_env W) (n_store n) (m_ID m) (w_now W) of
        (s', Inl _) \<Rightarrow> flush_loop W l peer force ms (n\<lparr>n_store := s'\<rparr>)
      | (s', Inr m2) \<Rightarrow> (case send W l (msg_envelope m) (n\<lparr>n_store := s'\<rparr>) of
          (n1, Inl er) \<Rightarrow> close l (logf W ''send to %q failed: %v'' [AStr peer, AErr er] n1)
        | (n1, Inr _) \<Rightarrow> flush_loop W l peer force ms
            (emit (event0\<lparr>ev_Type := ''status'', ev_Peer := peer, ev_Message := Some m2\<rparr>) n1)))"

definition flush :: "world \<Rightarrow> string \<Rightarrow> bool \<Rightarrow> node \<Rightarrow> node" where
  "flush W peer force n = (case linkFor W n peer of
     None \<Rightarrow> n
   | Some l \<Rightarrow> (case Pending (w_env W) (n_store n) peer of
       Inl e \<Rightarrow> logf W ''outbox: %v'' [AErr e] n
     | Inr pend \<Rightarrow> flush_loop W l peer force pend n))"

definition RetryNow :: "string \<Rightarrow> node \<Rightarrow> node" where
  "RetryNow peer n = goRun (TFlush peer True) n"

definition DeleteFromOutbox_node :: "string \<Rightarrow> node \<Rightarrow> node \<times> unit result" where
  "DeleteFromOutbox_node i n = (case DeleteFromOutbox (n_store n) i of
     (s', Inl e) \<Rightarrow> (n\<lparr>n_store := s'\<rparr>, Inl e)
   | (s', Inr _) \<Rightarrow> (emit (event0\<lparr>ev_Type := ''outbox''\<rparr>) (n\<lparr>n_store := s'\<rparr>), Inr ()))"

text \<open>The body of \<open>retentionLoop\<close>; days are 24 hours long.\<close>

definition retention_run :: "world \<Rightarrow> node \<Rightarrow> node" where
  "retention_run W n = (case Settings (n_store n) of
     Inl _ \<Rightarrow> n
   | Inr st \<Rightarrow> if RetentionDays st = 0 then n
       else (case Prune (n_store n) (w_now W - RetentionDays st * 86400 * second) of
         (s', Inl _) \<Rightarrow> n\<lparr>n_store := s'\<rparr>
       | (s', Inr k) \<Rightarrow> if k > 0
           then emit (event0\<lparr>ev_Type := ''peers''\<rparr>)
             (logf W ''retention: pruned %d messages'' [AInt k] (n\<lparr>n_store := s'\<rparr>))
           else n\<lparr>n_store := s'\<rparr>))"

section \<open>One-shot envelopes\<close>

definition send_to :: "world \<Rightarrow> string \<Rightarrow> envelope \<Rightarrow> node \<Rightarrow> node \<times> unit result" where
  "send_to W peer e n = (case linkFor W n peer of
     None \<Rightarrow> (n, Inl ErrUnknownPeer) | Some l \<Rightarrow> send W l e n)"

definition SendReaction :: "world \<Rightarrow> string \<Rightarrow> string \<Rightarrow> string \<Rightarrow> node \<Rightarrow> node \<times> unit result" where
  "SendReaction W peer emoji targetID n =
     send_to W peer (envelope0\<lparr>e_T := TypeReact, e_Emoji := emoji, e_Target := targetID\<rparr>) n"

definition SendTyping :: "world \<Rightarrow> string \<Rightarrow> node \<Rightarrow> node \<times> unit result" where
  "SendTyping W peer n = (case Settings (n_store n) of
     Inl _ \<Rightarrow> (n, Inr ())
   | Inr st \<Rightarrow> if \<not> Typing st then (n, Inr ()) else send_to W peer (envelope0\<lparr>e_T := TypeTyping\<rparr>) n)"

definition SendReadReceipt :: "world \<Rightarrow> string \<Rightarrow> string \<Rightarrow> node \<Rightarrow> node \<times> unit result" where
  "SendReadReceipt W peer targetID n = (case Settings (n_store n) of
     Inl _ \<Rightarrow> (n, Inr ())
   | Inr st \<Rightarrow> if \<not> Receipts st then (n, Inr ())
       else send_to W peer (envelope0\<lparr>e_T := TypeRead, e_Target := targetID\<rparr>) n)"

definition DeleteMessageForEveryone :: "world \<Rightarrow> string \<Rightarrow> string \<Rightarrow> node \<Rightarrow> node \<times> unit result" where
  "DeleteMessageForEveryone W peer targetID n =
     send_to W peer (envelope0\<lparr>e_T := TypeDelAll, e_Target := targetID\<rparr>) n"

section \<open>Files\<close>

definition SendFile :: "world \<Rightarrow> string \<Rightarrow> string \<Rightarrow> bytes \<Rightarrow> node \<Rightarrow> node \<times> string result" where
  "SendFile W peer name data n = (case sendable_peer W n peer of
     Inl e \<Rightarrow> (n, Inl e)
   | Inr p \<Rightarrow>
       if length data = 0 \<or> int (length data) > MaxFileSize then (n, Inl (Err ''node: file size out of range''))
       else case NewID (w_id W) of
         Inl e \<Rightarrow> (n, Inl e)
       | Inr i \<Rightarrow> (case AddOutboundFile (w_env W) (w_nonce W) (w_now W) (n_store n) i (p_Name p) name
             (hex_EncodeToString (sha256 (w_env W) data)) data of
           (s', Inl e) \<Rightarrow> (n\<lparr>n_store := s'\<rparr>, Inl e)
         | (s', Inr _) \<Rightarrow>
             (goRun (TFlushFile (p_Name p) i)
               (emit (event0\<lparr>ev_Type := ''fileOutbox'', ev_Peer := p_Name p, ev_FileSrc := name,
                   ev_FileSize := int (length data), ev_FileID := i\<rparr>) (n\<lparr>n_store := s'\<rparr>)), Inr i)))"

text \<open>
  \<open>flushFile\<close> before it takes \<open>flushMu\<close>: the link, the record and the data it goes on with;
  \<open>None\<close> when it has already returned.
\<close>

definition flushFile_prepare ::
    "world \<Rightarrow> string \<Rightarrow> string \<Rightarrow> node \<Rightarrow> node \<times> (nat \<times> fileRec \<times> bytes) option" where
  "flushFile_prepare W peer fileID n = (case linkFor W n peer of
     None \<Rightarrow> (n, None)
   | Some l \<Rightarrow> (case GetFile (n_store n) fileID of
       Inl _ \<Rightarrow> (n, None)
     | Inr f \<Rightarrow>
       if f_Status f \<noteq> FileQueued \<and> f_Status f \<noteq> FileSending then (n, None)
       else case FileBlob (w_env W) (n_store n) fileID of
         Inl _ \<Rightarrow> (n, None)
       | Inr data \<Rightarrow> (n\<lparr>n_store := fst (MarkFileSending (n_store n) fileID)\<rparr>, Some (l, f, data))))"

text \<open>Under the mutex, up to the header; whether it then waits for a resume offset.\<close>

definition flushFile_header ::
    "world \<Rightarrow> string \<Rightarrow> string \<Rightarrow> nat \<times> fileRec \<times> bytes \<Rightarrow> node \<Rightarrow> node \<times> (nat \<times> fileRec \<times> bytes \<times> bool) option" where
  "flushFile_header W peer fileID k n = (case k of (l, f, data) \<Rightarrow>
     let resume = speaks (n_links n l) CapResume;
         n2 = (if resume then set_link l (awaitFileAck fileID) n else n)
     in case send W l (envelope0\<lparr>e_T := TypeFile, e_ID := fileID, e_Src := f_Name f, e_Size := f_Size f,
              e_Hash := f_Hash f\<rparr>) n2 of
          (n3, Inl er) \<Rightarrow>
            let n4 = close l (logf W ''file header to %q: %v'' [AStr peer, AErr er] n3)
            in (if resume then set_link l (cancelFileAck fileID) n4 else n4, None)
        | (n3, Inr _) \<Rightarrow> (n3, Some (l, f, data, resume)))"

definition flushFile_start ::
    "world \<Rightarrow> string \<Rightarrow> string \<Rightarrow> node \<Rightarrow> node \<times> (nat \<times> fileRec \<times> bytes \<times> bool) option" where
  "flushFile_start W peer fileID n = (case flushFile_prepare W peer fileID n of
     (n1, None) \<Rightarrow> (n1, None)
   | (n1, Some k) \<Rightarrow> flushFile_header W peer fileID k n1)"

datatype outcome = Sent | Stopped | Crashed err

function send_chunks :: "world \<Rightarrow> nat \<Rightarrow> string \<Rightarrow> string \<Rightarrow> fileRec \<Rightarrow> bytes \<Rightarrow> int \<Rightarrow> node \<Rightarrow> node \<times> outcome" where
  "send_chunks W l peer fileID f data off n =
     (if off < f_Size f then
        let e1 = (if off + int ChunkSize > f_Size f then f_Size f else off + int ChunkSize) in
        if off < 0 \<or> e1 > int (length data) then (n, Crashed (Panic ''slice bounds out of range''))
        else case send W l (envelope0\<lparr>e_T := TypeChunk, e_ID := fileID, e_Offset := off,
               e_Chunk := take (nat (e1 - off)) (drop (nat off) data)\<rparr>) n of
          (n1, Inl er) \<Rightarrow> (close l (logf W ''file chunk to %q: %v'' [AStr peer, AErr er] n1), Stopped)
        | (n1, Inr _) \<Rightarrow> send_chunks W l peer fileID f data e1
            (emit (event0\<lparr>ev_Type := ''fileProgress'', ev_Peer := peer, ev_FileID := fileID, ev_FileSrc := f_Name f,
              ev_Progress := progressOf e1 (f_Size f)\<rparr>) n1)
      else (n, Sent))"
  by pat_completeness auto
termination
  by (relation "measure (\<lambda>(W, l, peer, fileID, f, data, off, n). nat (f_Size f - off))")
    (auto simp: ChunkSize_def)

declare send_chunks.simps [simp del]

definition file_sent :: "string \<Rightarrow> string \<Rightarrow> fileRec \<Rightarrow> node \<Rightarrow> node" where
  "file_sent peer fileID f n =
     emit (event0\<lparr>ev_Type := ''fileComplete'', ev_Peer := peer, ev_FileID := fileID, ev_FileSrc := f_Name f\<rparr>)
       (n\<lparr>n_store := fst (MarkFileSent (n_store n) fileID)\<rparr>)"

text \<open>From the receiver's answer on.\<close>

definition flushFile_body ::
    "world \<Rightarrow> string \<Rightarrow> string \<Rightarrow> nat \<Rightarrow> fileRec \<Rightarrow> bytes \<Rightarrow> int \<Rightarrow> node \<Rightarrow> node \<times> outcome" where
  "flushFile_body W peer fileID l f data off n =
     (if off \<ge> f_Size f then (file_sent peer fileID f n, Sent)
      else case send_chunks W l peer fileID f data off n of
        (n1, Sent) \<Rightarrow> (file_sent peer fileID f n1, Sent)
      | (n1, oc) \<Rightarrow> (n1, oc))"

definition flushFile_finish ::
    "world \<Rightarrow> string \<Rightarrow> string \<Rightarrow> nat \<times> fileRec \<times> bytes \<times> bool \<Rightarrow> node \<Rightarrow> node \<times> outcome" where
  "flushFile_finish W peer fileID k n = (case k of (l, f, data, resume) \<Rightarrow>
     if \<not> resume then flushFile_body W peer fileID l f data 0 n
     else case fileAck (n_links n l) fileID of
       Some (Some off0) \<Rightarrow>
         let off = (if off0 < 0 \<or> off0 > f_Size f then 0 else off0);
             n1 = (if off > 0 then logf W ''resuming %s to %q at %d of %d bytes''
                     [AStr (f_Name f), AStr peer, AInt off, AInt (f_Size f)] n else n);
             (n2, oc) = flushFile_body W peer fileID l f data off n1
         in (set_link l (cancelFileAck fileID) n2, oc)
     | _ \<Rightarrow> (set_link l (cancelFileAck fileID)
              (logf W ''no fileack from %q for %s; will retry'' [AStr peer, AStr (f_Name f)] n), Stopped))"

definition flushFile :: "world \<Rightarrow> (node \<Rightarrow> node) \<Rightarrow> string \<Rightarrow> string \<Rightarrow> node \<Rightarrow> node \<times> outcome" where
  "flushFile W meanwhile peer fileID n = (case flushFile_start W peer fileID n of
     (n1, None) \<Rightarrow> (n1, Stopped)
   | (n1, Some k) \<Rightarrow> flushFile_finish W peer fileID k (meanwhile n1))"

section \<open>Sending\<close>

lemma send_cases [case_names sent failed]:
  obtains "send W l e n = (set_link l (\<lambda>k. k\<lparr>l_out := l_out k @ [e]\<rparr>) n, Inr ())" "validate e = Inr ()"
  | er where "send W l e n = (n, Inl er)"
  unfolding send_def by (cases "l_open (n_links n l)"; cases "validate e"; cases "w_tx W l e") auto

lemma send_ok:
  "\<lbrakk>l_open (n_links n l); validate e = Inr (); w_tx W l e = Inr ()\<rbrakk> \<Longrightarrow>
   send W l e n = (set_link l (\<lambda>k. k\<lparr>l_out := l_out k @ [e]\<rparr>) n, Inr ())"
  by (simp add: send_def)

text \<open>What a flush may change in the mailbox: the attempt counters, upwards.\<close>

definition retried :: "message \<Rightarrow> message \<Rightarrow> bool" where
  "retried m m' \<longleftrightarrow> m' = m\<lparr>m_Attempts := m_Attempts m', m_LastTry := m_LastTry m'\<rparr> \<and> m_Attempts m \<le> m_Attempts m'"

definition only_retries :: "env \<Rightarrow> store \<Rightarrow> store \<Rightarrow> bool" where
  "only_retries E s s' \<longleftrightarrow> (\<forall>i. rel_option retried (inbox E s i) (inbox E s' i))"

lemma retried_refl [simp]: "retried m m"
  by (simp add: retried_def)

lemma retried_trans: "retried a b \<Longrightarrow> retried b c \<Longrightarrow> retried a c"
  unfolding retried_def by (cases a; cases b; cases c) auto

lemma only_retries_refl [simp]: "only_retries E s s"
  by (simp add: only_retries_def option.rel_refl)

lemma only_retries_trans: "only_retries E a b \<Longrightarrow> only_retries E b c \<Longrightarrow> only_retries E a c"
proof -
  assume a: "only_retries E a b" "only_retries E b c"
  have "rel_option retried (inbox E a i) (inbox E c i)" for i
    using a [unfolded only_retries_def, THEN spec [of _ i]]
    by (cases "inbox E a i"; cases "inbox E b i"; cases "inbox E c i") (auto intro: retried_trans)
  then show ?thesis by (simp add: only_retries_def)
qed

lemma only_retries_dom: "only_retries E s s' \<Longrightarrow> inbox E s' i = None \<longleftrightarrow> inbox E s i = None"
  unfolding only_retries_def
  by (drule spec [of _ i], cases "inbox E s i"; cases "inbox E s' i") simp_all

lemma RecordAttempt_retries:
  assumes "box_inv E s" "inbox E s i \<noteq> None"
  obtains s' m2 where "RecordAttempt E s i now = (s', Inr m2)" "box_inv E s'" "only_retries E s s'"
    "inbox E s' i = Some m2" "mail_seq s' = mail_seq s"
proof -
  obtain m where m: "inbox E s i = Some m" using assms(2) by blast
  obtain s' where s': "RecordAttempt E s i now = (s', Inr (m\<lparr>m_Attempts := m_Attempts m + 1, m_LastTry := now\<rparr>))"
    "box_inv E s'" "inbox E s' = (inbox E s)(i \<mapsto> m\<lparr>m_Attempts := m_Attempts m + 1, m_LastTry := now\<rparr>)"
    "mail_seq s' = mail_seq s"
    by (rule RecordAttempt_some [OF assms(1) m refl])
  have "only_retries E s s'"
    by (auto simp: only_retries_def s'(3) m retried_def option.rel_refl)
  with s' show thesis by (intro that [OF s'(1)]) simp_all
qed

lemma due_cong: "n_cfg n' = n_cfg n \<Longrightarrow> due W n' = due W n"
  by (simp add: due_def fun_eq_iff)

text \<open>
  The loop of \<open>flush\<close>: a prefix of the due messages goes out, in order, and if it is a proper
  prefix the link has been closed.
\<close>

definition flushed :: "env \<Rightarrow> nat \<Rightarrow> message list \<Rightarrow> node \<Rightarrow> node \<Rightarrow> bool" where
  "flushed E l ms n n' \<longleftrightarrow> (\<exists>out rest. ms = out @ rest \<and> l_out (n_links n' l) = l_out (n_links n l) @ map msg_envelope out
     \<and> (rest \<noteq> [] \<longrightarrow> \<not> l_open (n_links n' l)))
   \<and> (\<forall>l'. l' \<noteq> l \<longrightarrow> n_links n' l' = n_links n l') \<and> n_live n' = n_live n \<and> n_cfg n' = n_cfg n
   \<and> box_inv E (n_store n') \<and> only_retries E (n_store n) (n_store n')"

lemma flushedI:
  assumes "ms = out @ rest" "l_out (n_links n' l) = l_out (n_links n l) @ map msg_envelope out"
    "rest \<noteq> [] \<Longrightarrow> \<not> l_open (n_links n' l)" "\<And>l'. l' \<noteq> l \<Longrightarrow> n_links n' l' = n_links n l'"
    "n_live n' = n_live n" "n_cfg n' = n_cfg n" "box_inv E (n_store n')" "only_retries E (n_store n) (n_store n')"
  shows "flushed E l ms n n'"
  using assms unfolding flushed_def by blast

lemma flushedD:
  assumes "flushed E l ms n n'"
  obtains out rest where "ms = out @ rest" "l_out (n_links n' l) = l_out (n_links n l) @ map msg_envelope out"
    "rest \<noteq> [] \<Longrightarrow> \<not> l_open (n_links n' l)" "\<And>l'. l' \<noteq> l \<Longrightarrow> n_links n' l' = n_links n l'"
    "n_live n' = n_live n" "n_cfg n' = n_cfg n" "box_inv E (n_store n')" "only_retries E (n_store n) (n_store n')"
  using assms unfolding flushed_def by blast

lemma flushed_Nil: "box_inv E (n_store n) \<Longrightarrow> flushed E l [] n n"
  by (rule flushedI [of _ "[]" "[]"]) simp_all

lemma flushed_Cons:
  assumes "flushed E l ms n1 n'" "l_out (n_links n1 l) = l_out (n_links n l) @ [msg_envelope m]"
    and "\<And>l'. l' \<noteq> l \<Longrightarrow> n_links n1 l' = n_links n l'" "n_live n1 = n_live n" "n_cfg n1 = n_cfg n"
    and "only_retries E (n_store n) (n_store n1)"
  shows "flushed E l (m # ms) n n'"
  using assms(1)
proof (rule flushedD)
  fix out rest
  assume o: "ms = out @ rest" "l_out (n_links n' l) = l_out (n_links n1 l) @ map msg_envelope out"
    "rest \<noteq> [] \<Longrightarrow> \<not> l_open (n_links n' l)" "\<And>l'. l' \<noteq> l \<Longrightarrow> n_links n' l' = n_links n1 l'"
    "n_live n' = n_live n1" "n_cfg n' = n_cfg n1" "box_inv E (n_store n')" "only_retries E (n_store n1) (n_store n')"
  show ?thesis
    by (rule flushedI [of _ "m # out" rest]) (simp_all add: o assms(2-5) only_retries_trans [OF assms(6) o(8)])
qed

lemma flushed_stop:
  assumes "box_inv E (n_store n')" "only_retries E (n_store n) (n_store n')" "n_live n' = n_live n" "n_cfg n' = n_cfg n"
    and "n_links n' = (n_links n)(l := (n_links n l)\<lparr>l_open := False\<rparr>)"
  shows "flushed E l ms n n'"
  by (rule flushedI [of _ "[]" ms]) (simp_all add: assms)

lemma flush_loop_spec:
  assumes "box_inv (w_env W) (n_store n)" "\<forall>m\<in>set ms. inbox (w_env W) (n_store n) (m_ID m) \<noteq> None"
  shows "flushed (w_env W) l (filter (due W n force) ms) n (flush_loop W l peer force ms n)"
  using assms
proof (induction ms arbitrary: n)
  case Nil
  then show ?case by (simp add: flushed_Nil)
next
  case (Cons m ms)
  let ?E = "w_env W"
  show ?case
  proof (cases "due W n force m")
    case False
    with Cons show ?thesis by simp
  next
    case True
    obtain s' m2 where ra: "RecordAttempt ?E (n_store n) (m_ID m) (w_now W) = (s', Inr m2)" "box_inv ?E s'"
      "only_retries ?E (n_store n) s'"
      using RecordAttempt_retries [OF Cons.prems(1), of "m_ID m"] Cons.prems(2) by (metis list.set_intros(1))
    let ?n = "n\<lparr>n_store := s'\<rparr>"
    show ?thesis
    proof (cases rule: send_cases [of W l "msg_envelope m" ?n])
      case sent
      let ?n1 = "emit (event0\<lparr>ev_Type := ''status'', ev_Peer := peer, ev_Message := Some m2\<rparr>)
        (set_link l (\<lambda>k. k\<lparr>l_out := l_out k @ [msg_envelope m]\<rparr>) ?n)"
      have "\<forall>m\<in>set ms. inbox ?E (n_store ?n1) (m_ID m) \<noteq> None"
        using Cons.prems(2) only_retries_dom [OF ra(3)] by simp
      then have "flushed ?E l (filter (due W ?n1 force) ms) ?n1 (flush_loop W l peer force ms ?n1)"
        by (intro Cons.IH) (simp_all add: ra(2))
      moreover have "due W ?n1 = due W n" by (rule due_cong) simp
      ultimately have f: "flushed ?E l (filter (due W n force) ms) ?n1 (flush_loop W l peer force ms ?n1)" by simp
      show ?thesis using True by (simp add: ra(1) sent(1)) (rule flushed_Cons [OF f], simp_all add: ra(3))
    next
      case (failed er)
      show ?thesis using True by (simp add: ra(1) failed) (rule flushed_stop, simp_all add: ra(2,3))
    qed
  qed
qed

section \<open>The chunks of a file\<close>

definition chunk_envelope :: "string \<Rightarrow> int \<Rightarrow> bytes \<Rightarrow> envelope" where
  "chunk_envelope i off c = envelope0\<lparr>e_T := TypeChunk, e_ID := i, e_Offset := off, e_Chunk := c\<rparr>"

text \<open>The reference: \<open>data\<close> cut into pieces of \<open>ChunkSize\<close>, each with its offset.\<close>

function chunk_envs :: "string \<Rightarrow> nat \<Rightarrow> bytes \<Rightarrow> envelope list" where
  "chunk_envs i off rest = (if rest = [] then []
     else chunk_envelope i (int off) (take ChunkSize rest) # chunk_envs i (off + ChunkSize) (drop ChunkSize rest))"
  by pat_completeness auto
termination
  by (relation "measure (\<lambda>(i, off, rest). length rest)") (auto simp: ChunkSize_def)

declare chunk_envs.simps [simp del]

lemma chunk_envs_Nil [simp]: "chunk_envs i off [] = []"
  by (simp add: chunk_envs.simps)

lemma concat_chunks: "concat (map e_Chunk (chunk_envs i off rest)) = rest"
proof (induction i off rest rule: chunk_envs.induct)
  case (1 i off rest)
  then show ?case by (cases "rest = []") (simp_all add: chunk_envs.simps [of i off rest] chunk_envelope_def)
qed

lemma chunk_sizes: "e \<in> set (chunk_envs i off rest) \<Longrightarrow> e_ID e = i \<and> e_T e = TypeChunk
    \<and> 0 < length (e_Chunk e) \<and> length (e_Chunk e) \<le> ChunkSize
    \<and> int off \<le> e_Offset e \<and> e_Offset e + int (length (e_Chunk e)) \<le> int (off + length rest)"
proof (induction i off rest rule: chunk_envs.induct)
  case (1 i off rest)
  have c: "0 < ChunkSize" by (simp add: ChunkSize_def)
  show ?case
  proof (cases "rest = []")
    case True
    with 1(2) show ?thesis by simp
  next
    case False
    with 1(2) consider "e = chunk_envelope i (int off) (take ChunkSize rest)"
      | "e \<in> set (chunk_envs i (off + ChunkSize) (drop ChunkSize rest))"
      by (auto simp: chunk_envs.simps [of i off rest])
    then show ?thesis
    proof cases
      case 1
      with False c show ?thesis by (simp add: chunk_envelope_def min_def)
    next
      case 2
      then have "rest \<noteq> []" "drop ChunkSize rest \<noteq> []" by auto
      with 1(1) [OF False 2] c show ?thesis by (simp add: of_nat_diff)
    qed
  qed
qed

text \<open>The loop of \<open>flushFile\<close> against the reference.\<close>

lemma send_chunks_step:
  assumes sz: "f_Size f = int (length data)" and o: "off < length data"
  shows "send_chunks W l peer i f data (int off) n =
    (case send W l (chunk_envelope i (int off) (take ChunkSize (drop off data))) n of
       (n1, Inl er) \<Rightarrow> (close l (logf W ''file chunk to %q: %v'' [AStr peer, AErr er] n1), Stopped)
     | (n1, Inr _) \<Rightarrow> send_chunks W l peer i f data (int (min (off + ChunkSize) (length data)))
         (emit (event0\<lparr>ev_Type := ''fileProgress'', ev_Peer := peer, ev_FileID := i, ev_FileSrc := f_Name f,
            ev_Progress := progressOf (int (min (off + ChunkSize) (length data))) (f_Size f)\<rparr>) n1))"
proof -
  let ?e = "min (off + ChunkSize) (length data)"
  have e1: "(if int off + int ChunkSize > f_Size f then f_Size f else int off + int ChunkSize) = int ?e"
    using sz by (simp add: min_def)
  have "take (nat (int ?e - int off)) (drop off data) = take ChunkSize (drop off data)"
    using o by (cases "off + ChunkSize \<le> length data") (simp_all add: min_def nat_diff_distrib)
  moreover have "int off < f_Size f" "\<not> (int off < 0 \<or> int ?e > int (length data))" using sz o by simp_all
  ultimately show ?thesis
    unfolding send_chunks.simps [of W l peer i f data "int off" n] Let_def e1
    by (simp add: chunk_envelope_def)
qed

lemma drop_min: "drop (min k (length xs)) xs = drop k xs"
  by (simp add: min_def)

text \<open>What happened on the link: pieces of \<open>todo\<close> went out, all of them or until it was closed.\<close>

definition transmitted :: "nat \<Rightarrow> envelope list \<Rightarrow> node \<Rightarrow> node \<Rightarrow> outcome \<Rightarrow> bool" where
  "transmitted l todo n n' oc \<longleftrightarrow> (\<exists>out rest. todo = out @ rest
     \<and> (oc = Sent \<and> rest = [] \<and> n_links n' l = (n_links n l)\<lparr>l_out := l_out (n_links n l) @ out\<rparr>
      \<or> oc = Stopped \<and> n_links n' l = (n_links n l)\<lparr>l_out := l_out (n_links n l) @ out, l_open := False\<rparr>))
     \<and> (\<forall>l'. l' \<noteq> l \<longrightarrow> n_links n' l' = n_links n l') \<and> n_store n' = n_store n \<and> n_live n' = n_live n"

lemma transmitted_Cons:
  assumes "transmitted l todo n1 n' oc" "n_links n1 = (n_links n)(l := (n_links n l)\<lparr>l_out := l_out (n_links n l) @ [e]\<rparr>)"
    "n_store n1 = n_store n" "n_live n1 = n_live n"
  shows "transmitted l (e # todo) n n' oc"
proof -
  obtain out rest where o: "todo = out @ rest" and
    d: "oc = Sent \<and> rest = [] \<and> n_links n' l = (n_links n1 l)\<lparr>l_out := l_out (n_links n1 l) @ out\<rparr>
      \<or> oc = Stopped \<and> n_links n' l = (n_links n1 l)\<lparr>l_out := l_out (n_links n1 l) @ out, l_open := False\<rparr>"
    and r: "\<forall>l'. l' \<noteq> l \<longrightarrow> n_links n' l' = n_links n1 l'" "n_store n' = n_store n1" "n_live n' = n_live n1"
    using assms(1) unfolding transmitted_def by blast
  have "e # todo = (e # out) @ rest" using o by simp
  moreover have "oc = Sent \<and> rest = [] \<and> n_links n' l = (n_links n l)\<lparr>l_out := l_out (n_links n l) @ (e # out)\<rparr>
      \<or> oc = Stopped \<and> n_links n' l = (n_links n l)\<lparr>l_out := l_out (n_links n l) @ (e # out), l_open := False\<rparr>"
    using d assms(2) by simp
  moreover have "\<forall>l'. l' \<noteq> l \<longrightarrow> n_links n' l' = n_links n l'" using r(1) assms(2) by simp
  ultimately show ?thesis using r(2,3) assms(3,4) unfolding transmitted_def by (intro conjI exI) simp_all
qed

lemma transmitted_stop:
  "\<lbrakk>n_links n' = (n_links n)(l := (n_links n l)\<lparr>l_open := False\<rparr>); n_store n' = n_store n; n_live n' = n_live n\<rbrakk>
   \<Longrightarrow> transmitted l todo n n' Stopped"
  unfolding transmitted_def by (intro conjI exI [of _ "[]"] exI [of _ todo]) simp_all

lemma send_chunks_spec:
  assumes sz: "f_Size f = int (length data)" and "off \<le> length data"
  shows "transmitted l (chunk_envs i off (drop off data)) n
    (fst (send_chunks W l peer i f data (int off) n)) (snd (send_chunks W l peer i f data (int off) n))"
  using assms(2)
proof (induction "length data - off" arbitrary: off n rule: less_induct)
  case less
  have c: "0 < ChunkSize" by (simp add: ChunkSize_def)
  show ?case
  proof (cases "off = length data")
    case True
    then show ?thesis using sz by (simp add: send_chunks.simps transmitted_def)
  next
    case False
    let ?e = "min (off + ChunkSize) (length data)"
    let ?c = "chunk_envelope i (int off) (take ChunkSize (drop off data))"
    have lt: "off < length data" using False less.prems by simp
    have "length data - ?e < length data - off" using c lt by auto
    note IH = less.hyps [OF this]
    have ce: "chunk_envs i off (drop off data) = ?c # chunk_envs i ?e (drop ?e data)"
    proof (cases "off + ChunkSize \<le> length data")
      case True
      with lt show ?thesis by (simp add: chunk_envs.simps [of i off] min_def add.commute)
    next
      case False
      with lt show ?thesis by (simp add: chunk_envs.simps [of i off] min_def)
    qed
    show ?thesis
    proof (cases rule: send_cases [of W l ?c n])
      case sent
      let ?n1 = "emit (event0\<lparr>ev_Type := ''fileProgress'', ev_Peer := peer, ev_FileID := i, ev_FileSrc := f_Name f,
            ev_Progress := progressOf (int ?e) (f_Size f)\<rparr>) (set_link l (\<lambda>k. k\<lparr>l_out := l_out k @ [?c]\<rparr>) n)"
      have "send_chunks W l peer i f data (int off) n = send_chunks W l peer i f data (int ?e) ?n1"
        by (simp only: send_chunks_step [OF sz lt] sent(1) prod.case sum.case)
      moreover have "transmitted l (chunk_envs i ?e (drop ?e data)) ?n1
          (fst (send_chunks W l peer i f data (int ?e) ?n1)) (snd (send_chunks W l peer i f data (int ?e) ?n1))"
        by (rule IH) simp
      ultimately show ?thesis unfolding ce by (simp only:) (rule transmitted_Cons, assumption, simp_all)
    next
      case (failed er)
      then show ?thesis by (simp add: send_chunks_step [OF sz lt]) (rule transmitted_stop, simp_all)
    qed
  qed
qed

lemma send_chunks_all:
  assumes sz: "f_Size f = int (length data)" and "off \<le> length data" and "l_open (n_links n l)"
    and "\<And>e. e \<in> set (chunk_envs i off (drop off data)) \<Longrightarrow> validate e = Inr () \<and> w_tx W l e = Inr ()"
  shows "snd (send_chunks W l peer i f data (int off) n) = Sent"
  using assms(2-4)
proof (induction "length data - off" arbitrary: off n rule: less_induct)
  case less
  have c: "0 < ChunkSize" by (simp add: ChunkSize_def)
  show ?case
  proof (cases "off = length data")
    case True
    then show ?thesis using sz by (simp add: send_chunks.simps)
  next
    case False
    let ?e = "min (off + ChunkSize) (length data)"
    let ?c = "chunk_envelope i (int off) (take ChunkSize (drop off data))"
    have lt: "off < length data" using False less.prems(1) by simp
    have m: "length data - ?e < length data - off" using c lt by auto
    have ce: "chunk_envs i off (drop off data) = ?c # chunk_envs i (off + ChunkSize) (drop (off + ChunkSize) data)"
      using lt by (simp add: chunk_envs.simps [of i off] add.commute)
    have s: "send W l ?c n = (set_link l (\<lambda>k. k\<lparr>l_out := l_out k @ [?c]\<rparr>) n, Inr ())"
      by (rule send_ok [OF less.prems(2)]) (use less.prems(3) [of ?c] ce in simp_all)
    have "e \<in> set (chunk_envs i off (drop off data))" if "e \<in> set (chunk_envs i ?e (drop ?e data))" for e
      using that ce by (cases "off + ChunkSize \<le> length data") (simp_all add: min_def)
    then have "snd (send_chunks W l peer i f data (int ?e) (emit ev (set_link l (\<lambda>k. k\<lparr>l_out := l_out k @ [?c]\<rparr>) n))) = Sent" for ev
      by (intro less.hyps [OF m]) (use less.prems in simp_all)
    then show ?thesis by (simp add: send_chunks_step [OF sz lt] s)
  qed
qed

section \<open>Properties\<close>

lemma sendable_peer_trust:
  assumes "trust_inv (w_env W) (n_store n)"
  shows "case trust_of (w_env W) (n_store n) name of
      Unknown \<Rightarrow> sendable_peer W n name = Inl ErrUnknownPeer
    | Pinned k v (Some k') \<Rightarrow> sendable_peer W n name = Inl ErrKeyChanged
    | Pinned k v None \<Rightarrow> \<exists>p. sendable_peer W n name = Inr p \<and> p_Key p = k
        \<and> peerKey (w_env W) (p_Name p) = peerKey (w_env W) name"
proof -
  have "peers_inv (w_env W) (n_store n)" using assms by (simp add: trust_inv_def)
  then show ?thesis
  proof (cases rule: getPeer_cases [where name = name])
    case none
    then show ?thesis by (simp add: sendable_peer_def GetPeer_def)
  next
    case (some p)
    then obtain k where "decrypt (w_env W) (n_store n) (p_Key p) = Inr k" by (auto simp: peer_ok_def)
    with some show ?thesis
      by (auto simp: sendable_peer_def GetPeer_def wrap_err_def peer_trust_def plain_def split: option.split)
  qed
qed

text \<open>
  C15. Queuing a message: a body that is empty, over 4096 bytes or not UTF-8 is refused, an
  unknown peer and a peer whose key has changed are refused, each without any effect; otherwise
  the message is stored as queued under a fresh id with its body and quoted id, nothing else in
  the mailbox changes, and a flush is started for the peer.
\<close>

theorem SendReply_effect:
  assumes "trust_inv (w_env W) (n_store n)" "box_inv (w_env W) (n_store n)" "nonce_ok (w_nonce W)"
    and "mail_seq (n_store n) < - 1" "NewID (w_id W) = Inr i" "inbox (w_env W) (n_store n) i = None"
  shows "if body = [] \<or> length body > 4096 \<or> \<not> ValidString body
    then SendReply W peer body replyTo n = (n, Inl ErrBadBody)
    else case trust_of (w_env W) (n_store n) peer of
        Unknown \<Rightarrow> SendReply W peer body replyTo n = (n, Inl ErrUnknownPeer)
      | Pinned k v (Some k') \<Rightarrow> SendReply W peer body replyTo n = (n, Inl ErrKeyChanged)
      | Pinned k v None \<Rightarrow> \<exists>n' m. SendReply W peer body replyTo n = (n', Inr m)
          \<and> m_ID m = i \<and> peerKey (w_env W) (m_Peer m) = peerKey (w_env W) peer \<and> m_Dir m = DirOut
          \<and> m_Status m = StatusQueued \<and> m_Body m = body \<and> m_ReplyTo m = replyTo
          \<and> inbox (w_env W) (n_store n') = (inbox (w_env W) (n_store n))(i \<mapsto> m)
          \<and> box_inv (w_env W) (n_store n') \<and> TFlush (m_Peer m) False \<in> set (n_tasks n')"
proof (cases "body = [] \<or> length body > 4096 \<or> \<not> ValidString body")
  case True
  then show ?thesis by (auto simp: SendReply_def MaxBody_def)
next
  case b: False
  note sp = sendable_peer_trust [OF assms(1), of peer]
  show ?thesis
  proof (cases "sendable_peer W n peer")
    case (Inl e)
    with b sp show ?thesis by (auto simp: SendReply_def MaxBody_def split: trust.splits option.splits)
  next
    case (Inr p)
    let ?m = "message0\<lparr>m_ID := i, m_Peer := p_Name p, m_Dir := DirOut, m_Body := body, m_TS := w_now W,
                 m_Status := StatusQueued, m_ReplyTo := replyTo\<rparr>"
    let ?m' = "?m\<lparr>m_Seq := mail_seq (n_store n) + 1\<rparr>"
    have new: "inbox (w_env W) (n_store n) (m_ID ?m) = None" using assms(6) by simp
    obtain s' where s': "AddMessage (w_env W) (w_nonce W) (n_store n) ?m = (s', Inr (?m', False))"
      "inbox (w_env W) s' = (inbox (w_env W) (n_store n))(i \<mapsto> ?m')" "box_inv (w_env W) s'"
      using assms(2-4) by (cases rule: AddMessage_cases [where m = ?m]) (use new in auto)
    obtain n' where n': "SendReply W peer body replyTo n = (n', Inr ?m')" "n_store n' = s'"
      "TFlush (p_Name p) False \<in> set (n_tasks n')"
      using b by (auto simp: SendReply_def MaxBody_def Inr assms(5) s'(1))
    with b sp Inr s'(2,3) show ?thesis by (auto split: trust.splits option.splits)
  qed
qed

theorem SendReply_effect_witness:
  "SendReply sample_world ''Bob'' ''hi'' [] sample_node = (sample_node, Inl ErrUnknownPeer)
    \<and> (\<exists>s n' m. s = fst (observe_step sample_env sample_store ''Bob'' (sample_nonce, ''key-B'', 1))
        \<and> SendReply sample_world ''Bob'' ''hi'' [] (sample_node\<lparr>n_store := s\<rparr>) = (n', Inr m)
        \<and> m_Body m = ''hi'' \<and> m_Status m = StatusQueued \<and> inbox sample_env (n_store n') (m_ID m) = Some m)"
proof -
  let ?x = "(sample_nonce, ''key-B'', 1)"
  let ?s = "fst (observe_step sample_env sample_store ''Bob'' ?x)"
  have w: "w_env sample_world = sample_env" "nonce_ok (w_nonce sample_world)" "n_store sample_node = sample_store"
    by (simp_all add: sample_node_def New_def sample_world_def)
  obtain i where i: "NewID (w_id sample_world) = Inr i" by (simp add: sample_world_def NewID_def IDLen_def ReadFull_def)
  have u: "trust_of sample_env sample_store ''Bob'' = Unknown" and em: "inbox sample_env sample_store i = None"
    by (simp_all add: sample_store_def empty_db_def trust_of_def inbox_def mailbox_empty [unfolded empty_db_def])
  have lt: "mail_seq sample_store < - 1" by (intro less_max_unat) (simp add: sample_store_box)
  have v: "ValidString ''hi''" by (rule ValidString_ascii) simp
  have ok: "observation_ok ?x" by (rule sample_observation) (simp add: IsEncrypted_def magic_def)
  obtain p b where p: "observe_step sample_env sample_store ''Bob'' ?x = (sample_store\<lparr>db := putPeer sample_env (db sample_store) p\<rparr>, b)"
    using sample_store_ok(1) ok by (rule observe_step_put)
  have s: "trust_of sample_env ?s ''Bob'' = Pinned ''key-B'' False None" "trust_inv sample_env ?s"
    using pins.observe_spec [OF sample_store_ok(1) ok, of "''Bob''"] pins.observe_inv [OF sample_store_ok(1) ok, of "''Bob''"] u by simp_all
  have b: "box_inv sample_env ?s" by (rule box_inv_observed [OF sample_store_box(1) sample_store_ok(1) ok])
  have e: "inbox sample_env ?s i = None" "mail_seq ?s < - 1"
    using em lt box_inv_bPeers(2) [where E = sample_env and s = sample_store and d = "db sample_store"] by (simp_all add: p putPeer_def)
  note eff = SendReply_effect [where W = sample_world and i = i and body = "''hi''" and peer = "''Bob''" and replyTo = "[]", unfolded w(1), OF _ _ w(2) _ i]
  show ?thesis
    using eff [of sample_node] eff [of "sample_node\<lparr>n_store := ?s\<rparr>"] sample_store_ok(1) sample_store_box(1) w(3) lt em u v s b e
    by auto
qed

text \<open>
  A flush puts on the wire, in the order they were written, the undelivered messages of that
  peer that are due; if it does not get through all of them the session has been closed. It
  loses nothing: in the mailbox only attempt counters change, and other sessions are untouched.
\<close>

theorem flush_sends_due:
  assumes "box_inv (w_env W) (n_store n)" "linkFor W n peer = Some l"
  shows "\<exists>ps out rest. Pending (w_env W) (n_store n) peer = Inr ps \<and> filter (due W n force) ps = out @ rest
    \<and> l_out (n_links (flush W peer force n) l) = l_out (n_links n l) @ map msg_envelope out
    \<and> (rest \<noteq> [] \<longrightarrow> \<not> l_open (n_links (flush W peer force n) l))
    \<and> (\<forall>l'. l' \<noteq> l \<longrightarrow> n_links (flush W peer force n) l' = n_links n l')
    \<and> box_inv (w_env W) (n_store (flush W peer force n))
    \<and> only_retries (w_env W) (n_store n) (n_store (flush W peer force n))"
proof -
  obtain ps where ps: "Pending (w_env W) (n_store n) peer = Inr ps"
    "set ps = {m. inbox (w_env W) (n_store n) (m_ID m) = Some m \<and> wanted (w_env W) peer m}"
    by (rule Pending_eq [OF assms(1)]) blast
  have "flushed (w_env W) l (filter (due W n force) ps) n (flush_loop W l peer force ps n)"
    by (rule flush_loop_spec [OF assms(1)]) (simp add: ps(2))
  moreover have "flush W peer force n = flush_loop W l peer force ps n" by (simp add: flush_def assms(2) ps(1))
  ultimately show ?thesis using ps(1) by (elim flushedD) metis
qed

definition sample_online :: node where
  "sample_online = sample_node\<lparr>n_store := sample_box, n_live := [''bob'' \<mapsto> 0],
     n_links := (\<lambda>_. link0\<lparr>l_peer := ''Bob'', l_open := True, l_caps := LocalCaps\<rparr>)\<rparr>"

lemma sample_online:
  "linkFor sample_world sample_online ''Bob'' = Some 0" "n_store sample_online = sample_box"
  "n_links sample_online 0 = link0\<lparr>l_peer := ''Bob'', l_open := True, l_caps := LocalCaps\<rparr>"
  by (simp_all add: sample_online_def linkFor_def sample_world_def ToLower_def ascii_lower_def char_of_eq_of_char)

theorem flush_sends_due_witness:
  "\<exists>ps out rest. Pending sample_env sample_box ''Bob'' = Inr ps
    \<and> filter (due sample_world sample_online True) ps = out @ rest
    \<and> l_out (n_links (flush sample_world ''Bob'' True sample_online) 0) = map msg_envelope out"
proof -
  have w: "w_env sample_world = sample_env" by (simp add: sample_world_def)
  have o: "l_out (n_links sample_online 0) = []" by (simp add: sample_online(3)) (simp add: link0_def)
  show ?thesis
    using flush_sends_due [of sample_world sample_online "''Bob''" 0 True] sample_box(1)
    by (simp add: w sample_online(1,2) o) blast
qed

lemma length_chunk_envs: "length (chunk_envs i off rest) = (length rest + ChunkSize - 1) div ChunkSize"
proof (induction i off rest rule: chunk_envs.induct)
  case (1 i off rest)
  have c: "0 < ChunkSize" by (simp add: ChunkSize_def)
  show ?case
  proof (cases "rest = []")
    case True
    with c show ?thesis by simp
  next
    case False
    then have r: "0 < length rest" by simp
    have "(length rest + ChunkSize - 1) div ChunkSize = Suc ((length rest - 1) div ChunkSize)"
    proof -
      have "length rest + ChunkSize - 1 = (length rest - 1) + ChunkSize" using r by (cases rest) simp_all
      then have "(length rest + ChunkSize - 1) div ChunkSize = ((length rest - 1) + ChunkSize) div ChunkSize" by (rule arg_cong)
      also have "\<dots> = Suc ((length rest - 1) div ChunkSize)" using div_add_self2 [of ChunkSize "length rest - 1"] c by linarith
      finally show ?thesis .
    qed
    moreover have "(length rest - ChunkSize + ChunkSize - 1) div ChunkSize = (length rest - 1) div ChunkSize"
      using c r by (cases "ChunkSize \<le> length rest") simp_all
    ultimately show ?thesis using 1 [OF False] False by (simp add: chunk_envs.simps [of i off rest])
  qed
qed

text \<open>
  C33. The chunk loop of a file transfer ends after at most as many rounds as the rest of the file
  has chunks: it has then sent exactly the rest, cut into that many pieces, or it has stopped
  early and closed the link; in neither case does it slice outside the data.
\<close>

theorem chunk_loop_terminates:
  assumes "f_Size f = int (length data)" "off \<le> length data" "send_chunks W l peer i f data (int off) n = (n', oc)"
  shows "\<exists>out. l_out (n_links n' l) = l_out (n_links n l) @ out
    \<and> length out \<le> (length data - off + ChunkSize - 1) div ChunkSize
    \<and> (oc = Sent \<and> length out = (length data - off + ChunkSize - 1) div ChunkSize \<and> concat (map e_Chunk out) = drop off data
       \<or> oc = Stopped \<and> \<not> l_open (n_links n' l))"
proof -
  let ?todo = "chunk_envs i off (drop off data)"
  have "transmitted l ?todo n n' oc" using send_chunks_spec [OF assms(1,2), of l i n W peer] assms(3) by simp
  then obtain out rest where "?todo = out @ rest"
    "oc = Sent \<and> rest = [] \<and> n_links n' l = (n_links n l)\<lparr>l_out := l_out (n_links n l) @ out\<rparr>
      \<or> oc = Stopped \<and> n_links n' l = (n_links n l)\<lparr>l_out := l_out (n_links n l) @ out, l_open := False\<rparr>"
    unfolding transmitted_def by blast
  moreover have "length ?todo = (length data - off + ChunkSize - 1) div ChunkSize" by (simp add: length_chunk_envs)
  ultimately show ?thesis using concat_chunks [of i off "drop off data"] by (intro exI [of _ out]) auto
qed

theorem chunk_loop_terminates_witness:
  "\<exists>n' out. send_chunks sample_world 0 ''Bob'' (replicate 32 CHR ''a'') \<lparr>f_ID = ''1'', f_Peer = ''Bob'', f_Dir = DirOut, f_Name = ''n'', f_Size = 3,
       f_Hash = [], f_Status = FileQueued, f_Received = 0, f_Sent = 0, f_TS = 1\<rparr> ''abc'' 0 sample_online = (n', Sent)
     \<and> l_out (n_links n' 0) = out \<and> length out = 1 \<and> concat (map e_Chunk out) = ''abc''"
proof -
  let ?i = "replicate 32 CHR ''a''"
  let ?f = "\<lparr>f_ID = ''1'', f_Peer = ''Bob'', f_Dir = DirOut, f_Name = ''n'', f_Size = 3,
       f_Hash = [], f_Status = FileQueued, f_Received = 0, f_Sent = 0, f_TS = 1\<rparr> :: fileRec"
  have i: "checkID ?i = Inr ()"
    using hex_DecodeString_replicate [of "CHR ''a''" 16] by (simp add: checkID_Inr hex_value_def)
  have l: "l_open (n_links sample_online 0)" "l_out (n_links sample_online 0) = []"
    by (simp_all add: sample_online(3)) (simp add: link0_def)
  have "validate e = Inr ()" if "e \<in> set (chunk_envs ?i 0 ''abc'')" for e
    using that i by (simp add: chunk_envs.simps [of _ _ "''abc''"] ChunkSize_def chunk_envelope_def validate_def envelope0_def wrap_err_def MaxFileSize_def)
  then have "snd (send_chunks sample_world 0 ''Bob'' ?i ?f ''abc'' (int 0) sample_online) = Sent"
    by (intro send_chunks_all) (use l in \<open>simp_all add: sample_world_def\<close>)
  then obtain n' where s: "send_chunks sample_world 0 ''Bob'' ?i ?f ''abc'' (int 0) sample_online = (n', Sent)"
    by (metis prod.collapse)
  with chunk_loop_terminates [OF _ _ s] show ?thesis by (auto simp: ChunkSize_def l(2))
qed

end
