(* ===== verification/Node_Rooms.thy ===== *)
theory Node_Rooms
  imports Node_Send
begin

text \<open>
  Package \<open>internal/node\<close>, part 3 (\<open>rooms.go\<close>): rooms. Creating, joining, leaving and renaming
  them, posting and reacting, the per-member flush, and the handlers of room envelopes with
  their authorisation checks.

  \<open>sendRoomEvent\<close> is best effort: it never fails, it changes at most what is on a link and the
  log. The second half states who may change what: the rows a handler writes are described by
  \<open>room_view\<close>, the decrypted rooms by id.
\<close>

section \<open>Member lists\<close>

fun isMember :: "env \<Rightarrow> string list \<Rightarrow> string \<Rightarrow> bool" where
  "isMember E [] name = False"
| "isMember E (m # ms) name = (if EqualFold E m name then True else isMember E ms name)"

definition removePeer :: "env \<Rightarrow> string list \<Rightarrow> string \<Rightarrow> string list" where
  "removePeer E members name = filter (\<lambda>m. \<not> EqualFold E m name) members"

definition sortStrings :: "string list \<Rightarrow> string list" where
  "sortStrings s = slice_sort (<) s"

text \<open>The loop of \<open>dedupeMembers\<close>; \<open>seen\<close> holds the lower-case forms met so far.\<close>

fun dedupe_loop :: "env \<Rightarrow> string list \<Rightarrow> string set \<Rightarrow> string list" where
  "dedupe_loop E [] seen = []"
| "dedupe_loop E (m # ms) seen =
     (if ToLower E m \<in> seen then dedupe_loop E ms seen
      else m # dedupe_loop E ms (insert (ToLower E m) seen))"

definition dedupeMembers :: "env \<Rightarrow> string list \<Rightarrow> string list" where
  "dedupeMembers E members = sortStrings (dedupe_loop E members {})"

section \<open>Sending to members\<close>

definition speaksRooms :: "link \<Rightarrow> bool" where
  "speaksRooms l = has_cap (l_caps l) CapRooms"

definition room_event :: "world \<Rightarrow> string \<Rightarrow> string \<Rightarrow> string \<Rightarrow> string \<Rightarrow> string list \<Rightarrow> envelope" where
  "room_event W roomID eventType actor name members = envelope0\<lparr>e_T := TypeRoomEvent, e_Room := roomID,
     e_RoomEvent := eventType, e_RoomActor := actor, e_RoomName := name, e_RoomMembers := members,
     e_TS := UnixMilli (w_now W)\<rparr>"

definition sendRoomEvent ::
    "world \<Rightarrow> string \<Rightarrow> string \<Rightarrow> string \<Rightarrow> string \<Rightarrow> string list \<Rightarrow> string \<Rightarrow> node \<Rightarrow> node" where
  "sendRoomEvent W roomID eventType actor name members member n = (case linkFor W n member of
     None \<Rightarrow> n
   | Some l \<Rightarrow>
       if \<not> speaksRooms (n_links n l)
       then logf W ''room event to %s skipped: peer does not speak rooms'' [AStr member] n
       else (case send W l (room_event W roomID eventType actor name members) n of
           (n1, Inl er) \<Rightarrow> logf W ''room event to %s: %v'' [AStr member, AErr er] n1
         | (n1, Inr _) \<Rightarrow> n1))"

text \<open>A loop over the members that skips some.\<close>

definition for_members :: "(string \<Rightarrow> bool) \<Rightarrow> (string \<Rightarrow> node \<Rightarrow> node) \<Rightarrow> string list \<Rightarrow> node \<Rightarrow> node" where
  "for_members skip f members n = fold f (filter (\<lambda>m. \<not> skip m) members) n"

abbreviation me :: "node \<Rightarrow> string" where "me n \<equiv> i_Name (n_id n)"

definition room_msg_envelope :: "string \<Rightarrow> roomMessage \<Rightarrow> envelope" where
  "room_msg_envelope roomID m = envelope0\<lparr>e_T := TypeRoomMsg, e_ID := rm_ID m, e_Room := roomID,
     e_TS := UnixMilli (rm_TS m), e_Body := rm_Body m, e_Seq := rm_SenderSeq m\<rparr>"

definition room_due :: "world \<Rightarrow> node \<Rightarrow> roomMessage \<Rightarrow> bool" where
  "room_due W n m \<longleftrightarrow> \<not> (rm_Attempts m > 0 \<and> w_now W - rm_LastTry m < room_backoff (n_cfg n) (rm_Attempts m))"

fun flush_room_loop :: "world \<Rightarrow> nat \<Rightarrow> string \<Rightarrow> string \<Rightarrow> roomMessage list \<Rightarrow> node \<Rightarrow> node" where
  "flush_room_loop W l member roomID [] n = n"
| "flush_room_loop W l member roomID (m # ms) n =
     (if \<not> room_due W n m then flush_room_loop W l member roomID ms n
      else let n1 = n\<lparr>n_store := fst (RoomRecordAttempt (n_store n) (rm_ID m) (w_now W))\<rparr> in
        case send W l (room_msg_envelope roomID m) n1 of
          (n2, Inl er) \<Rightarrow> logf W ''room send to %s: %v'' [AStr member, AErr er] n2
        | (n2, Inr _) \<Rightarrow> flush_room_loop W l member roomID ms n2)"

definition flushRoomMember :: "world \<Rightarrow> string \<Rightarrow> string \<Rightarrow> node \<Rightarrow> node" where
  "flushRoomMember W roomID member n = (case linkFor W n member of
     None \<Rightarrow> n
   | Some l \<Rightarrow>
       if \<not> speaksRooms (n_links n l) then n
       else (case RoomPending (w_env W) (n_store n) roomID member of
           Inl e \<Rightarrow> logf W ''room pending: %v'' [AErr e] n
         | Inr pending \<Rightarrow> flush_room_loop W l member roomID pending n))"

section \<open>What the user does\<close>

definition emit_room :: "node \<Rightarrow> node" where
  "emit_room n = emit (event0\<lparr>ev_Type := ''room''\<rparr>) n"

definition CreateRoom_node :: "world \<Rightarrow> string \<Rightarrow> string list \<Rightarrow> node \<Rightarrow> node \<times> room result" where
  "CreateRoom_node W name memberNames n = (let E = w_env W in
     if name = [] then (n, Inl (Err ''node: room name required''))
     else if memberNames = [] then (n, Inl (Err ''node: at least one member required''))
     else if length memberNames > MaxRoomMembers - 1
       then (n, Inl (ErrF ''node: too many members (max %d)'' [Itoa (MaxRoomMembers - 1)]))
     else case find (\<lambda>m. isl (GetPeer E (n_store n) m)) memberNames of
       Some m \<Rightarrow> (n, Inl (ErrF ''node: member %q is not a pinned peer'' [m]))
     | None \<Rightarrow> let members = dedupeMembers E (me n # memberNames) in
       (case wrap_err ''node: generate room id'' (NewID (w_id W)) of
          Inl e \<Rightarrow> (n, Inl e)
        | Inr roomID \<Rightarrow> let rm = \<lparr>r_ID = roomID, r_Name = name, r_Members = members, r_CreatedBy = me n,
              r_CreatedAt = w_now W, r_State = RoomJoined\<rparr> in
          (case CreateRoom E (w_nonce W) (n_store n) rm of
             (s', Inl e) \<Rightarrow> (n\<lparr>n_store := s'\<rparr>, Inl e)
           | (s', Inr _) \<Rightarrow>
               (emit_room (for_members (\<lambda>m. m = me n) (sendRoomEvent W roomID ''create'' (me n) name members) members
                  (n\<lparr>n_store := s'\<rparr>)), Inr rm))))"

definition SendRoomMessage :: "world \<Rightarrow> string \<Rightarrow> string \<Rightarrow> node \<Rightarrow> node \<times> roomMessage result" where
  "SendRoomMessage W roomID body n = (let E = w_env W in
     if body = [] then (n, Inl ErrBadBody)
     else if length body > MaxBody then (n, Inl ErrBadBody)
     else case GetRoom E (n_store n) roomID of
       Inl e \<Rightarrow> (logf W ''SendRoomMessage: get room: %v'' [AErr e] n, Inl e)
     | Inr r \<Rightarrow>
       if \<not> isMember E (r_Members r) (me n) then (n, Inl (Err ''node: not a member of this room''))
       else if Room_Pending r then (n, Inl ErrRoomPending)
       else case NewID (w_id W) of
         Inl e \<Rightarrow> (n, Inl e)
       | Inr msgID \<Rightarrow> (case NextRoomSenderSeq E (n_store n) roomID (me n) of
           (s1, Inl e) \<Rightarrow> (n\<lparr>n_store := s1\<rparr>, Inl e)
         | (s1, Inr senderSeq) \<Rightarrow> (case AddRoomMessage E (w_nonce W) s1
               (roomMessage0\<lparr>rm_ID := msgID, rm_Room := roomID, rm_Sender := me n, rm_Dir := DirOut, rm_Body := body,
                  rm_TS := w_now W, rm_Status := StatusQueued, rm_SenderSeq := senderSeq\<rparr>) of
             (s2, Inl e) \<Rightarrow> (n\<lparr>n_store := s2\<rparr>, Inl e)
           | (s2, Inr (stored, dup)) \<Rightarrow>
               if dup then (n\<lparr>n_store := s2\<rparr>, Inr stored)
               else let
                   s3 = fold (\<lambda>mb s. fst (AddRoomMemberToOutbox E s roomID mb msgID))
                          (filter (\<lambda>mb. mb \<noteq> me n) (r_Members r)) s2;
                   n1 = emit (event0\<lparr>ev_Type := ''roomMessage'', ev_Room := roomID, ev_RoomMessage := Some stored\<rparr>)
                          (n\<lparr>n_store := s3\<rparr>);
                   n2 = logf W ''SendRoomMessage: stored msg %s in room %s, members=%v''
                          [AStr msgID, AStr roomID, AStrs (r_Members r)] n1
                 in (for_members (\<lambda>mb. mb = me n) (\<lambda>mb k. flushRoomMember W roomID mb
                       (logf W ''room flush for %s (room %s)'' [AStr mb, AStr roomID] k)) (r_Members r) n2,
                     Inr stored))))"

definition AddRoomMember :: "world \<Rightarrow> string \<Rightarrow> string \<Rightarrow> node \<Rightarrow> node \<times> unit result" where
  "AddRoomMember W roomID memberName n = (let E = w_env W in
     case GetRoom E (n_store n) roomID of
       Inl e \<Rightarrow> (n, Inl e)
     | Inr r \<Rightarrow>
       if r_CreatedBy r \<noteq> me n then (n, Inl (Err ''node: only the creator can add members''))
       else if isMember E (r_Members r) memberName then (n, Inl (Err ''node: already a member''))
       else if length (r_Members r) \<ge> MaxRoomMembers
         then (n, Inl (ErrF ''node: room is full (%d members)'' [Itoa MaxRoomMembers]))
       else (case GetPeer E (n_store n) memberName of
         Inl _ \<Rightarrow> (n, Inl (ErrF ''node: %q is not a pinned peer'' [memberName]))
       | Inr _ \<Rightarrow> let r1 = r\<lparr>r_Members := sortStrings (r_Members r @ [memberName])\<rparr> in
           (case UpdateRoom E (w_nonce W) (n_store n) r1 of
              (s', Inl e) \<Rightarrow> (n\<lparr>n_store := s'\<rparr>, Inl e)
            | (s', Inr _) \<Rightarrow>
                (emit_room (for_members (\<lambda>mb. mb = me n \<or> mb = memberName)
                   (sendRoomEvent W roomID ''join'' memberName [] []) (r_Members r1)
                   (sendRoomEvent W roomID ''create'' (me n) (r_Name r1) (r_Members r1) memberName
                     (n\<lparr>n_store := s'\<rparr>))), Inr ()))))"

definition RemoveRoomMember :: "world \<Rightarrow> string \<Rightarrow> string \<Rightarrow> node \<Rightarrow> node \<times> unit result" where
  "RemoveRoomMember W roomID memberName n = (let E = w_env W in
     case GetRoom E (n_store n) roomID of
       Inl e \<Rightarrow> (n, Inl e)
     | Inr r \<Rightarrow>
       if r_CreatedBy r \<noteq> me n then (n, Inl (Err ''node: only the creator can remove members''))
       else if memberName = me n then (n, Inl (Err ''node: cannot remove yourself; use leave instead''))
       else if \<not> isMember E (r_Members r) memberName then (n, Inl (Err ''node: not a member''))
       else let r1 = r\<lparr>r_Members := filter (\<lambda>m. m \<noteq> memberName) (r_Members r)\<rparr> in
         (case UpdateRoom E (w_nonce W) (n_store n) r1 of
            (s', Inl e) \<Rightarrow> (n\<lparr>n_store := s'\<rparr>, Inl e)
          | (s', Inr _) \<Rightarrow>
              (emit_room (for_members (\<lambda>mb. mb = me n \<or> mb = memberName)
                 (sendRoomEvent W roomID ''remove'' memberName [] []) (r_Members r1)
                 (sendRoomEvent W roomID ''remove'' memberName [] [] memberName (n\<lparr>n_store := s'\<rparr>))), Inr ())))"

definition LeaveRoom :: "world \<Rightarrow> string \<Rightarrow> node \<Rightarrow> node \<times> unit result" where
  "LeaveRoom W roomID n = (let E = w_env W in
     case GetRoom E (n_store n) roomID of
       Inl e \<Rightarrow> (n, Inl e)
     | Inr r \<Rightarrow>
       if \<not> isMember E (r_Members r) (me n) then (n, Inl (Err ''node: not a member''))
       else let
           r1 = (if r_CreatedBy r = me n \<and> length (r_Members r) > 1
                 then (case find (\<lambda>m. m \<noteq> me n) (r_Members r) of None \<Rightarrow> r | Some m \<Rightarrow> r\<lparr>r_CreatedBy := m\<rparr>) else r);
           r2 = r1\<lparr>r_Members := filter (\<lambda>m. m \<noteq> me n) (r_Members r1)\<rparr>
         in if r_Members r2 = []
            then (let (s', res) = DeleteRoom E (n_store n) roomID in (n\<lparr>n_store := s'\<rparr>, res))
            else (case UpdateRoom E (w_nonce W) (n_store n) r2 of
                (s', Inl e) \<Rightarrow> (n\<lparr>n_store := s'\<rparr>, Inl e)
              | (s', Inr _) \<Rightarrow>
                  (emit_room (for_members (\<lambda>_. False) (sendRoomEvent W roomID ''leave'' (me n) [] []) (r_Members r2)
                     (n\<lparr>n_store := s'\<rparr>)), Inr ())))"

definition RenameRoom :: "world \<Rightarrow> string \<Rightarrow> string \<Rightarrow> node \<Rightarrow> node \<times> unit result" where
  "RenameRoom W roomID newName n = (let E = w_env W in
     if newName = [] then (n, Inl (Err ''node: new name required''))
     else case GetRoom E (n_store n) roomID of
       Inl e \<Rightarrow> (n, Inl e)
     | Inr r \<Rightarrow>
       if r_CreatedBy r \<noteq> me n then (n, Inl (Err ''node: only the creator can rename the room''))
       else let r1 = r\<lparr>r_Name := newName\<rparr> in
         (case UpdateRoom E (w_nonce W) (n_store n) r1 of
            (s', Inl e) \<Rightarrow> (n\<lparr>n_store := s'\<rparr>, Inl e)
          | (s', Inr _) \<Rightarrow>
              (emit_room (for_members (\<lambda>mb. mb = me n) (sendRoomEvent W roomID ''rename'' (me n) newName [])
                 (r_Members r1) (n\<lparr>n_store := s'\<rparr>)), Inr ())))"

definition send_room_reaction :: "world \<Rightarrow> string \<Rightarrow> string \<Rightarrow> string \<Rightarrow> string \<Rightarrow> node \<Rightarrow> node" where
  "send_room_reaction W roomID msgID emoji mb n = (case linkFor W n mb of
     None \<Rightarrow> n
   | Some l \<Rightarrow> if \<not> speaksRooms (n_links n l) then n
       else (case send W l (envelope0\<lparr>e_T := TypeReact, e_Room := roomID, e_Target := msgID, e_Emoji := emoji\<rparr>) n of
           (n1, Inl er) \<Rightarrow> logf W ''room reaction to %s: %v'' [AStr mb, AErr er] n1
         | (n1, Inr _) \<Rightarrow> n1))"

definition emit_changed :: "string \<Rightarrow> roomMessage \<Rightarrow> bool \<Rightarrow> node \<Rightarrow> node" where
  "emit_changed roomID m changed n = (if changed
     then emit (event0\<lparr>ev_Type := ''roomMessage'', ev_Room := roomID, ev_RoomMessage := Some m\<rparr>) n else n)"

definition SendRoomReaction :: "world \<Rightarrow> string \<Rightarrow> string \<Rightarrow> string \<Rightarrow> node \<Rightarrow> node \<times> unit result" where
  "SendRoomReaction W roomID msgID emoji n = (let E = w_env W in
     if emoji = [] then (n, Inl (Err ''node: emoji required''))
     else case GetRoom E (n_store n) roomID of
       Inl e \<Rightarrow> (n, Inl e)
     | Inr r \<Rightarrow>
       if \<not> isMember E (r_Members r) (me n) then (n, Inl (Err ''node: not a member of this room''))
       else if Room_Pending r then (n, Inl ErrRoomPending)
       else (case ToggleRoomReaction E (n_store n) roomID msgID (me n) emoji of
           (s', Inl e) \<Rightarrow> (n\<lparr>n_store := s'\<rparr>, Inl e)
         | (s', Inr (m, changed)) \<Rightarrow>
             (for_members (\<lambda>mb. mb = me n) (send_room_reaction W roomID msgID emoji) (r_Members r)
                (emit_changed roomID m changed (n\<lparr>n_store := s'\<rparr>)), Inr ())))"

definition AcceptRoomInvite :: "world \<Rightarrow> string \<Rightarrow> node \<Rightarrow> node \<times> unit result" where
  "AcceptRoomInvite W roomID n = (let E = w_env W in
     case GetRoom E (n_store n) roomID of
       Inl e \<Rightarrow> (n, Inl e)
     | Inr r \<Rightarrow>
       if \<not> Room_Pending r then (n, Inr ())
       else if \<not> isMember E (r_Members r) (me n) then (n, Inl (Err ''node: not a member of this room''))
       else let r1 = r\<lparr>r_State := RoomJoined\<rparr> in
         (case UpdateRoom E (w_nonce W) (n_store n) r1 of
            (s', Inl e) \<Rightarrow> (n\<lparr>n_store := s'\<rparr>, Inl e)
          | (s', Inr _) \<Rightarrow>
              (for_members (\<lambda>mb. mb = me n) (sendRoomEvent W roomID ''join'' (me n) [] []) (r_Members r1)
                 (emit_room (n\<lparr>n_store := s'\<rparr>)), Inr ())))"

definition DeclineRoomInvite :: "world \<Rightarrow> string \<Rightarrow> node \<Rightarrow> node \<times> unit result" where
  "DeclineRoomInvite W roomID n = (let E = w_env W in
     case GetRoom E (n_store n) roomID of
       Inl e \<Rightarrow> (n, Inl e)
     | Inr r \<Rightarrow>
       if \<not> Room_Pending r then (n, Inl (Err ''node: this room has already been joined; leave it instead''))
       else let n1 = for_members (\<lambda>mb. mb = me n) (sendRoomEvent W roomID ''leave'' (me n) [] []) (r_Members r) n in
         (case DeleteRoom E (n_store n1) roomID of
            (s', Inl e) \<Rightarrow> (n1\<lparr>n_store := s'\<rparr>, Inl e)
          | (s', Inr _) \<Rightarrow> (emit_room (n1\<lparr>n_store := s'\<rparr>), Inr ())))"

section \<open>Handlers of room envelopes\<close>

text \<open>\<open>l\<close> is the link the envelope arrived on; \<open>l_peer\<close> is the authenticated sender.\<close>

definition handleRoomReaction :: "world \<Rightarrow> nat \<Rightarrow> envelope \<Rightarrow> node \<Rightarrow> node" where
  "handleRoomReaction W l e n = (let E = w_env W; peer = l_peer (n_links n l) in
     case GetRoom E (n_store n) (e_Room e) of
       Inl _ \<Rightarrow> logf W ''room reaction dropped: unknown room %s from %s'' [AStr (e_Room e), AStr peer] n
     | Inr r \<Rightarrow>
       if \<not> isMember E (r_Members r) peer \<or> \<not> isMember E (r_Members r) (me n) \<or> Room_Pending r
       then logf W ''room reaction dropped: %q is not a member of %s, or we have not joined''
              [AStr peer, AStr (e_Room e)] n
       else (case ToggleRoomReaction E (n_store n) (e_Room e) (e_Target e) peer (e_Emoji e) of
           (s', Inl er) \<Rightarrow> logf W ''room reaction store: %v'' [AErr er] (n\<lparr>n_store := s'\<rparr>)
         | (s', Inr (m, changed)) \<Rightarrow> emit_changed (e_Room e) m changed (n\<lparr>n_store := s'\<rparr>)))"

definition handleRoomMsg :: "world \<Rightarrow> nat \<Rightarrow> envelope \<Rightarrow> node \<Rightarrow> node" where
  "handleRoomMsg W l e n = (let E = w_env W; peer = l_peer (n_links n l) in
     case GetRoom E (n_store n) (e_Room e) of
       Inl _ \<Rightarrow> logf W ''room msg dropped: unknown room %s from %s'' [AStr (e_Room e), AStr peer] n
     | Inr r \<Rightarrow>
       if \<not> isMember E (r_Members r) peer
       then logf W ''room msg dropped: %q is not a member of %s'' [AStr peer, AStr (e_Room e)] n
       else if \<not> isMember E (r_Members r) (me n)
       then logf W ''room msg dropped: we are not a member of %s'' [AStr (e_Room e)] n
       else if Room_Pending r
       then logf W ''room msg held: invitation to %s not accepted yet'' [AStr (e_Room e)] n
       else (case AddRoomMessage E (w_nonce W) (n_store n)
             (roomMessage0\<lparr>rm_ID := e_ID e, rm_Room := e_Room e, rm_Sender := peer, rm_Dir := DirIn, rm_Body := e_Body e,
                rm_TS := of_UnixMilli (e_TS e), rm_Status := StatusReceived, rm_SenderSeq := e_Seq e\<rparr>) of
           (s', Inl er) \<Rightarrow> logf W ''room msg store: %v'' [AErr er] (n\<lparr>n_store := s'\<rparr>)
         | (s', Inr (stored, dup)) \<Rightarrow>
             let n2 = (case send W l (envelope0\<lparr>e_T := TypeRoomAck, e_ID := e_ID e, e_Room := e_Room e\<rparr>)
                         (n\<lparr>n_store := s'\<rparr>) of
                     (n1, Inl er) \<Rightarrow> logf W ''room ack: %v'' [AErr er] n1
                   | (n1, Inr _) \<Rightarrow> n1)
             in emit_changed (e_Room e) stored (\<not> dup) n2))"

definition handleRoomAck :: "world \<Rightarrow> nat \<Rightarrow> envelope \<Rightarrow> node \<Rightarrow> node" where
  "handleRoomAck W l e n = (let E = w_env W; peer = l_peer (n_links n l);
       drop = logf W ''room ack dropped from %q for room %s'' [AStr peer, AStr (e_Room e)] n in
     case GetRoom E (n_store n) (e_Room e) of
       Inl _ \<Rightarrow> drop
     | Inr r \<Rightarrow>
       if \<not> isMember E (r_Members r) peer then drop
       else (case MarkRoomDelivered E (n_store n) (e_Room e) peer (e_ID e) of
           (s', Inl er) \<Rightarrow> logf W ''room ack store: %v'' [AErr er] (n\<lparr>n_store := s'\<rparr>)
         | (s', Inr (_, changed)) \<Rightarrow>
             if changed then emit (event0\<lparr>ev_Type := ''roomStatus'', ev_Room := e_Room e, ev_Target := e_ID e\<rparr>)
               (n\<lparr>n_store := s'\<rparr>)
             else n\<lparr>n_store := s'\<rparr>))"

text \<open>The branches of \<open>handleRoomEvent\<close>; \<open>actor\<close> is the authenticated sender.\<close>

definition event_create :: "world \<Rightarrow> string \<Rightarrow> envelope \<Rightarrow> node \<Rightarrow> node" where
  "event_create W actor e n = (let E = w_env W;
       members = dedupeMembers E (if e_RoomMembers e = [] then [actor, me n] else e_RoomMembers e) in
     if \<not> isMember E members (me n)
     then logf W ''room create rejected: %q did not include us in %v'' [AStr actor, AStrs members] n
     else if length members > MaxRoomMembers
     then logf W ''room create rejected: %d members exceeds the cap'' [AInt (int (length members))] n
     else (case GetRoom E (n_store n) (e_Room e) of
         Inr existing \<Rightarrow>
           if actor \<noteq> r_CreatedBy existing
           then logf W ''room create rejected: %q is not the creator of %s'' [AStr actor, AStr (e_Room e)] n
           else emit_room (n\<lparr>n_store := fst (UpdateRoom E (w_nonce W) (n_store n)
                  (existing\<lparr>r_Name := e_RoomName e, r_Members := members\<rparr>))\<rparr>)
       | Inl _ \<Rightarrow> (case CreateRoom E (w_nonce W) (n_store n)
             \<lparr>r_ID = e_Room e, r_Name = e_RoomName e, r_Members = members, r_CreatedBy = actor,
              r_CreatedAt = of_UnixMilli (e_TS e), r_State = RoomPending_state\<rparr> of
           (s', Inl er) \<Rightarrow> logf W ''room create: %v'' [AErr er] (n\<lparr>n_store := s'\<rparr>)
         | (s', Inr _) \<Rightarrow> emit_room (n\<lparr>n_store := s'\<rparr>))))"

definition event_join :: "world \<Rightarrow> string \<Rightarrow> envelope \<Rightarrow> node \<Rightarrow> node" where
  "event_join W actor e n = (let E = w_env W in
     case GetRoom E (n_store n) (e_Room e) of
       Inl _ \<Rightarrow> n
     | Inr r \<Rightarrow>
       if EqualFold E actor (e_RoomActor e) then (if isMember E (r_Members r) actor then emit_room n else n)
       else if actor \<noteq> r_CreatedBy r then logf W ''room join rejected: %q is not the creator'' [AStr actor] n
       else if isMember E (r_Members r) (e_RoomActor e) then n
       else if length (r_Members r) \<ge> MaxRoomMembers
       then logf W ''room join rejected: room %s is full'' [AStr (e_Room e)] n
       else emit_room (n\<lparr>n_store := fst (UpdateRoom E (w_nonce W) (n_store n)
              (r\<lparr>r_Members := sortStrings (r_Members r @ [e_RoomActor e])\<rparr>))\<rparr>))"

definition event_remove :: "world \<Rightarrow> string \<Rightarrow> envelope \<Rightarrow> node \<Rightarrow> node" where
  "event_remove W actor e n = (let E = w_env W in
     case GetRoom E (n_store n) (e_Room e) of
       Inl _ \<Rightarrow> n
     | Inr r \<Rightarrow>
       if actor \<noteq> r_CreatedBy r then logf W ''room remove rejected: %q is not the creator'' [AStr actor] n
       else emit_room (
         if e_RoomActor e = me n then n\<lparr>n_store := fst (DeleteRoom E (n_store n) (e_Room e))\<rparr>
         else if isMember E (r_Members r) (e_RoomActor e)
         then n\<lparr>n_store := fst (UpdateRoom E (w_nonce W) (n_store n)
                (r\<lparr>r_Members := removePeer E (r_Members r) (e_RoomActor e)\<rparr>))\<rparr>
         else n))"

definition event_leave :: "world \<Rightarrow> string \<Rightarrow> envelope \<Rightarrow> node \<Rightarrow> node" where
  "event_leave W actor e n = (let E = w_env W in
     case GetRoom E (n_store n) (e_Room e) of
       Inl _ \<Rightarrow> n
     | Inr r \<Rightarrow>
       if actor = me n then n\<lparr>n_store := fst (DeleteRoom E (n_store n) (e_Room e))\<rparr>
       else if isMember E (r_Members r) actor
       then emit_room (n\<lparr>n_store := fst (UpdateRoom E (w_nonce W) (n_store n)
              (r\<lparr>r_Members := removePeer E (r_Members r) actor\<rparr>))\<rparr>)
       else n)"

definition event_rename :: "world \<Rightarrow> string \<Rightarrow> envelope \<Rightarrow> node \<Rightarrow> node" where
  "event_rename W actor e n = (let E = w_env W in
     case GetRoom E (n_store n) (e_Room e) of
       Inl _ \<Rightarrow> n
     | Inr r \<Rightarrow>
       if actor \<noteq> r_CreatedBy r then logf W ''room rename rejected: %q is not the creator'' [AStr actor] n
       else emit_room (n\<lparr>n_store := fst (UpdateRoom E (w_nonce W) (n_store n) (r\<lparr>r_Name := e_RoomName e\<rparr>))\<rparr>))"

definition handleRoomEvent :: "world \<Rightarrow> nat \<Rightarrow> envelope \<Rightarrow> node \<Rightarrow> node" where
  "handleRoomEvent W l e n = (let actor = l_peer (n_links n l) in
     if e_RoomEvent e = ''create'' then event_create W actor e n
     else if e_RoomEvent e = ''join'' then event_join W actor e n
     else if e_RoomEvent e = ''remove'' then event_remove W actor e n
     else if e_RoomEvent e = ''leave'' then event_leave W actor e n
     else if e_RoomEvent e = ''rename'' then event_rename W actor e n
     else n)"

section \<open>Views\<close>

record roomView =
  rv_ID :: string
  rv_Name :: string
  rv_State :: string
  rv_Members :: "(string \<times> bool) list"   \<comment> \<open>\<open>RoomMemberView\<close>: name, online\<close>
  rv_CreatedBy :: string
  rv_CreatedAt :: gotime
  rv_LastMsg :: "roomMessage option"
  rv_Unread :: int

definition memberOnline :: "world \<Rightarrow> node \<Rightarrow> string \<Rightarrow> bool" where
  "memberOnline W n name = (if EqualFold (w_env W) name (me n) then True
     else n_live n (ToLower (w_env W) name) \<noteq> None)"

definition room_row :: "world \<Rightarrow> node \<Rightarrow> room \<Rightarrow> roomView" where
  "room_row W n r = \<lparr>rv_ID = r_ID r, rv_Name = r_Name r, rv_State = r_State r,
     rv_Members = map (\<lambda>m. (m, memberOnline W n m)) (r_Members r), rv_CreatedBy = r_CreatedBy r,
     rv_CreatedAt = r_CreatedAt r,
     rv_LastMsg = (case RoomMessages (w_env W) (n_store n) (r_ID r) 1 of
        Inl _ \<Rightarrow> None | Inr msgs \<Rightarrow> if msgs = [] then None else Some (last msgs)),
     rv_Unread = 0\<rparr>"

definition Rooms :: "world \<Rightarrow> node \<Rightarrow> roomView list result" where
  "Rooms W n = bindR (ListRooms (w_env W) (n_store n)) (\<lambda>rooms. Inr (map (room_row W n) rooms))"

definition GetRoom_node :: "world \<Rightarrow> node \<Rightarrow> string \<Rightarrow> roomView result" where
  "GetRoom_node W n i = bindR (GetRoom (w_env W) (n_store n) i) (\<lambda>r. Inr (room_row W n r))"

end
