(* ===== verification/Room_Auth.thy ===== *)
theory Room_Auth
  imports Node_Rooms
begin

text \<open>
  Who may change a room. The abstract state is the directory of rooms, a map from ids to
  decrypted rooms; \<open>spec_event\<close> says what a membership event of an authenticated sender does to
  it. The handler of \<open>rooms.go\<close>, which works on encrypted rows, refines it, and the rules of
  authorisation are read off the specification.
\<close>

section \<open>The directory of rooms\<close>

definition room_dir :: "env \<Rightarrow> store \<Rightarrow> string \<Rightarrow> room option" where
  "room_dir E s i = (case GetRoom E s i of Inl _ \<Rightarrow> None | Inr r \<Rightarrow> Some r)"

definition dir_inv :: "env \<Rightarrow> store \<Rightarrow> bool" where
  "dir_inv E s \<longleftrightarrow> aead_ok E \<and> keys_ok s \<and> wf_bucket (bRooms (db s))
     \<and> (\<forall>k rm. bGet (bRooms (db s)) k = Some rm \<longrightarrow> r_ID rm = k \<and> (\<exists>name. decryptString E s (r_Name rm) = Inr name))"

lemma dir_invD: "dir_inv E s \<Longrightarrow> bGet (bRooms (db s)) k = Some rm \<Longrightarrow>
    r_ID rm = k \<and> (\<exists>name. decryptString E s (r_Name rm) = Inr name)"
  unfolding dir_inv_def by blast

lemma dir_inv_keys: "dir_inv E s \<Longrightarrow> aead_ok E" "dir_inv E s \<Longrightarrow> keys_ok s" "dir_inv E s \<Longrightarrow> wf_bucket (bRooms (db s))"
  by (simp_all add: dir_inv_def)

lemma dir_inv_empty: "\<lbrakk>aead_ok E; keys_ok s; db s = empty_db\<rbrakk> \<Longrightarrow> dir_inv E s"
  by (simp add: dir_inv_def empty_db_def)

lemma GetRoom_dir:
  assumes "dir_inv E s"
  shows "case room_dir E s i of None \<Rightarrow> GetRoom E s i = Inl ErrNotFound
    | Some r \<Rightarrow> GetRoom E s i = Inr r \<and> r_ID r = i \<and> r_State r \<noteq> []"
proof (cases "bGet (bRooms (db s)) i")
  case None
  then show ?thesis by (simp add: room_dir_def GetRoom_def)
next
  case (Some rm)
  with dir_invD [OF assms Some] show ?thesis
    by (auto simp: room_dir_def GetRoom_def decryptRoom_def Let_def)
qed

lemma room_dir_Some:
  assumes "dir_inv E s" "room_dir E s i = Some r"
  shows "GetRoom E s i = Inr r" "r_ID r = i" "r_State r \<noteq> []"
  using GetRoom_dir [OF assms(1), of i] assms(2) by simp_all

lemma room_dir_None: "dir_inv E s \<Longrightarrow> room_dir E s i = None \<Longrightarrow> GetRoom E s i = Inl ErrNotFound"
  using GetRoom_dir [of E s i] by simp

lemma room_dir_bRooms:
  assumes "bGet (bRooms (db s')) i = bGet (bRooms (db s)) i" "encKey s' = encKey s" "idKey s' = idKey s"
  shows "room_dir E s' i = room_dir E s i"
proof -
  have dec: "decrypt E s' = decrypt E s" unfolding decrypt_def assms(2,3) ..
  have "decryptString E s' = decryptString E s" unfolding decryptString_def assms(2,3) dec ..
  then show ?thesis by (simp add: room_dir_def GetRoom_def assms(1) decryptRoom_def cong: option.case_cong)
qed

text \<open>The three ways a handler writes: a row, a new row, a removed one.\<close>

lemma put_room:
  assumes "dir_inv E s" "nonce_ok r" "r_State rm \<noteq> []" "encryptRoom E r s rm = Inr enc"
  shows "dir_inv E (s\<lparr>db := (db s)\<lparr>bRooms := bPut (r_ID rm) enc (bRooms (db s))\<rparr>\<rparr>)"
    and "room_dir E (s\<lparr>db := (db s)\<lparr>bRooms := bPut (r_ID rm) enc (bRooms (db s))\<rparr>\<rparr>) = (room_dir E s)(r_ID rm \<mapsto> rm)"
proof -
  let ?s = "s\<lparr>db := (db s)\<lparr>bRooms := bPut (r_ID rm) enc (bRooms (db s))\<rparr>\<rparr>"
  obtain b where b: "encryptString E r s (r_Name rm) = Inr b" "enc = rm\<lparr>r_Name := b\<rparr>"
    using assms(4) by (auto simp: encryptRoom_def)
  have dec: "decryptString E s b = Inr (r_Name rm)"
    by (rule decryptString_encryptString [OF dir_inv_keys(1) [OF assms(1)] assms(2) dir_inv_keys(2) [OF assms(1)] b(1)])
  show "dir_inv E ?s"
    using assms(1) dec unfolding dir_inv_def by (auto simp: b(2))
  have "room_dir E ?s i = ((room_dir E s)(r_ID rm \<mapsto> rm)) i" for i
  proof (cases "i = r_ID rm")
    case True
    then show ?thesis using assms(3) dec by (simp add: room_dir_def GetRoom_def decryptRoom_def b(2) Let_def)
  next
    case False
    then show ?thesis using room_dir_bRooms [of ?s i s E] by simp
  qed
  then show "room_dir E ?s = (room_dir E s)(r_ID rm \<mapsto> rm)" by (simp add: fun_eq_iff)
qed

lemma encryptRoom_total: "keys_ok s \<Longrightarrow> nonce_ok r \<Longrightarrow> \<exists>enc. encryptRoom E r s rm = Inr enc"
  using encryptString_total [of s r E "r_Name rm"] by (auto simp: encryptRoom_def)

lemma UpdateRoom_dir:
  assumes "dir_inv E s" "nonce_ok r" "r_State rm \<noteq> []"
  shows "snd (UpdateRoom E r s rm) = Inr ()" "dir_inv E (fst (UpdateRoom E r s rm))"
    "room_dir E (fst (UpdateRoom E r s rm)) = (room_dir E s)(r_ID rm \<mapsto> rm)"
proof -
  obtain enc where e: "encryptRoom E r s rm = Inr enc"
    using encryptRoom_total [OF dir_inv_keys(2) [OF assms(1)] assms(2)] by blast
  have u: "UpdateRoom E r s rm = (s\<lparr>db := (db s)\<lparr>bRooms := bPut (r_ID rm) enc (bRooms (db s))\<rparr>\<rparr>, Inr ())"
    by (simp add: UpdateRoom_def e dbUpdate_def)
  show "snd (UpdateRoom E r s rm) = Inr ()" "dir_inv E (fst (UpdateRoom E r s rm))"
    "room_dir E (fst (UpdateRoom E r s rm)) = (room_dir E s)(r_ID rm \<mapsto> rm)"
    using put_room [OF assms e] by (simp_all add: u)
qed

lemma CreateRoom_dir:
  assumes "dir_inv E s" "nonce_ok r" "r_State rm \<noteq> []" "length (r_Members rm) \<le> MaxRoomMembers"
  shows "snd (CreateRoom E r s rm) = Inr ()" "dir_inv E (fst (CreateRoom E r s rm))"
    "room_dir E (fst (CreateRoom E r s rm)) = (room_dir E s)(r_ID rm \<mapsto> rm)"
proof -
  have "CreateRoom E r s rm = UpdateRoom E r s rm"
    using assms(4) by (simp add: CreateRoom_def UpdateRoom_def)
  then show "snd (CreateRoom E r s rm) = Inr ()" "dir_inv E (fst (CreateRoom E r s rm))"
    "room_dir E (fst (CreateRoom E r s rm)) = (room_dir E s)(r_ID rm \<mapsto> rm)"
    by (simp_all add: UpdateRoom_dir [OF assms(1-3)])
qed

lemma DeleteRoom_dir:
  assumes "dir_inv E s"
  shows "snd (DeleteRoom E s i) = Inr ()" "dir_inv E (fst (DeleteRoom E s i))"
    "room_dir E (fst (DeleteRoom E s i)) = (room_dir E s)(i := None)"
proof -
  obtain d' where d': "DeleteRoom E s i = (s\<lparr>db := d'\<rparr>, Inr ())" "bRooms d' = bDelete i (bRooms (db s))"
    by (simp add: DeleteRoom_def dbUpdate_def Let_def fold_room_rows fold_room_outbox)
  show "snd (DeleteRoom E s i) = Inr ()" by (simp add: d')
  show "dir_inv E (fst (DeleteRoom E s i))"
    using assms unfolding dir_inv_def by (auto simp: d' split: if_splits)
  have "room_dir E (s\<lparr>db := d'\<rparr>) j = ((room_dir E s)(i := None)) j" for j
  proof (cases "j = i")
    case True
    then show ?thesis by (simp add: room_dir_def GetRoom_def d'(2))
  next
    case False
    then show ?thesis using room_dir_bRooms [of "s\<lparr>db := d'\<rparr>" j s E] by (simp add: d'(2))
  qed
  then show "room_dir E (fst (DeleteRoom E s i)) = (room_dir E s)(i := None)" by (simp add: d'(1) fun_eq_iff)
qed

section \<open>The specification of membership events\<close>

type_synonym rooms = "string \<Rightarrow> room option"

definition spec_create :: "env \<Rightarrow> string \<Rightarrow> string \<Rightarrow> envelope \<Rightarrow> rooms \<Rightarrow> rooms" where
  "spec_create E self actor e D = (let i = e_Room e;
       members = dedupeMembers E (if e_RoomMembers e = [] then [actor, self] else e_RoomMembers e) in
     if \<not> isMember E members self \<or> length members > MaxRoomMembers then D
     else case D i of
       Some r \<Rightarrow> if actor = r_CreatedBy r then D(i \<mapsto> r\<lparr>r_Name := e_RoomName e, r_Members := members\<rparr>) else D
     | None \<Rightarrow> D(i \<mapsto> \<lparr>r_ID = i, r_Name = e_RoomName e, r_Members = members, r_CreatedBy = actor,
         r_CreatedAt = of_UnixMilli (e_TS e), r_State = RoomPending_state\<rparr>))"

definition spec_change :: "env \<Rightarrow> string \<Rightarrow> string \<Rightarrow> envelope \<Rightarrow> room \<Rightarrow> room option" where
  "spec_change E self actor e r =
     (if e_RoomEvent e = ''join'' then
        (if \<not> EqualFold E actor (e_RoomActor e) \<and> actor = r_CreatedBy r
            \<and> \<not> isMember E (r_Members r) (e_RoomActor e) \<and> length (r_Members r) < MaxRoomMembers
         then Some (r\<lparr>r_Members := sortStrings (r_Members r @ [e_RoomActor e])\<rparr>) else Some r)
      else if e_RoomEvent e = ''remove'' then
        (if actor \<noteq> r_CreatedBy r then Some r
         else if e_RoomActor e = self then None
         else if isMember E (r_Members r) (e_RoomActor e)
         then Some (r\<lparr>r_Members := removePeer E (r_Members r) (e_RoomActor e)\<rparr>) else Some r)
      else if e_RoomEvent e = ''leave'' then
        (if actor = self then None
         else if isMember E (r_Members r) actor then Some (r\<lparr>r_Members := removePeer E (r_Members r) actor\<rparr>)
         else Some r)
      else if e_RoomEvent e = ''rename'' then
        (if actor = r_CreatedBy r then Some (r\<lparr>r_Name := e_RoomName e\<rparr>) else Some r)
      else Some r)"

definition spec_event :: "env \<Rightarrow> string \<Rightarrow> string \<Rightarrow> envelope \<Rightarrow> rooms \<Rightarrow> rooms" where
  "spec_event E self actor e D = (if e_RoomEvent e = ''create'' then spec_create E self actor e D
     else case D (e_Room e) of None \<Rightarrow> D | Some r \<Rightarrow> D(e_Room e := spec_change E self actor e r))"

lemma emit_room_store [simp]: "n_store (emit_room n) = n_store n" "n_links (emit_room n) = n_links n"
  "n_live (emit_room n) = n_live n"
  by (simp_all add: emit_room_def)

lemma emit_changed_store [simp]: "n_store (emit_changed i m b n) = n_store n" "n_links (emit_changed i m b n) = n_links n"
  by (simp_all add: emit_changed_def)

text \<open>One lemma per branch: the row written is the one of the specification.\<close>

lemma event_create_refines:
  assumes "dir_inv (w_env W) (n_store n)" "nonce_ok (w_nonce W)"
  shows "room_dir (w_env W) (n_store (event_create W actor e n)) =
      spec_create (w_env W) (me n) actor e (room_dir (w_env W) (n_store n))
    \<and> dir_inv (w_env W) (n_store (event_create W actor e n))"
proof -
  let ?E = "w_env W" and ?s = "n_store n" and ?i = "e_Room e"
  define ms where "ms = dedupeMembers ?E (if e_RoomMembers e = [] then [actor, me n] else e_RoomMembers e)"
  note ec = event_create_def [of W actor e n, unfolded Let_def, folded ms_def]
  note sc = spec_create_def [of ?E "me n" actor e, unfolded Let_def, folded ms_def]
  show ?thesis
  proof (cases "\<not> isMember ?E ms (me n) \<or> length ms > MaxRoomMembers")
    case True
    then show ?thesis using assms(1) by (auto simp: ec sc)
  next
    case ok: False
    show ?thesis
    proof (cases "room_dir ?E ?s ?i")
      case None
      let ?r = "\<lparr>r_ID = ?i, r_Name = e_RoomName e, r_Members = ms, r_CreatedBy = actor,
          r_CreatedAt = of_UnixMilli (e_TS e), r_State = RoomPending_state\<rparr>"
      have c: "r_State ?r \<noteq> []" "length (r_Members ?r) \<le> MaxRoomMembers" using ok by simp_all
      obtain s' where s': "CreateRoom ?E (w_nonce W) ?s ?r = (s', Inr ())"
        using CreateRoom_dir(1) [OF assms c] by (cases "CreateRoom ?E (w_nonce W) ?s ?r") auto
      have "n_store (event_create W actor e n) = s'"
        using ok s' room_dir_None [OF assms(1) None] by (simp add: ec)
      then show ?thesis
        using ok None CreateRoom_dir(2,3) [OF assms c] s' by (simp add: sc)
    next
      case (Some r)
      note r = room_dir_Some [OF assms(1) Some]
      show ?thesis
      proof (cases "actor = r_CreatedBy r")
        case True
        let ?r = "r\<lparr>r_Name := e_RoomName e, r_Members := ms\<rparr>"
        have "r_State ?r \<noteq> []" using r(3) by simp
        note u = UpdateRoom_dir(2,3) [OF assms this]
        have "n_store (event_create W actor e n) = fst (UpdateRoom ?E (w_nonce W) ?s ?r)"
          unfolding ec using ok True r(1) by simp
        then show ?thesis unfolding sc using ok Some True u r(2) by simp
      next
        case False
        then show ?thesis
          using ok Some r(1) assms(1) by (simp add: ec sc)
      qed
    qed
  qed
qed

lemma event_change_refines:
  assumes "dir_inv (w_env W) (n_store n)" "nonce_ok (w_nonce W)" "e_RoomEvent e \<noteq> ''create''"
    and "room_dir (w_env W) (n_store n) (e_Room e) = Some r"
  shows "room_dir (w_env W) (n_store (handleRoomEvent W l e n)) = (room_dir (w_env W) (n_store n))
      (e_Room e := spec_change (w_env W) (me n) (l_peer (n_links n l)) e r)
    \<and> dir_inv (w_env W) (n_store (handleRoomEvent W l e n))"
proof -
  let ?E = "w_env W" and ?s = "n_store n" and ?a = "l_peer (n_links n l)"
  note r = room_dir_Some [OF assms(1,4)]
  have id: "(room_dir ?E ?s)(e_Room e \<mapsto> r) = room_dir ?E ?s" using assms(4) by (simp add: fun_upd_idem)
  have u: "room_dir ?E (fst (UpdateRoom ?E (w_nonce W) ?s r')) = (room_dir ?E ?s)(e_Room e \<mapsto> r')"
    "dir_inv ?E (fst (UpdateRoom ?E (w_nonce W) ?s r'))" if "r_ID r' = r_ID r" "r_State r' = r_State r" for r'
    using UpdateRoom_dir(2,3) [OF assms(1,2), of r'] that r(2,3) by simp_all
  consider "e_RoomEvent e = ''join''" | "e_RoomEvent e = ''remove''" | "e_RoomEvent e = ''leave''"
    | "e_RoomEvent e = ''rename''" | "e_RoomEvent e \<notin> {''create'', ''join'', ''remove'', ''leave'', ''rename''}"
    using assms(3) by blast
  then show ?thesis
  proof cases
    case 1
    then show ?thesis
      by (simp add: handleRoomEvent_def event_join_def spec_change_def Let_def r(1) id assms(1) u not_le)
  next
    case 2
    then show ?thesis
      by (simp add: handleRoomEvent_def event_remove_def spec_change_def Let_def r(1) id assms(1) u
          DeleteRoom_dir [OF assms(1)])
  next
    case 3
    then show ?thesis
      by (simp add: handleRoomEvent_def event_leave_def spec_change_def Let_def r(1) id assms(1) u
          DeleteRoom_dir [OF assms(1)])
  next
    case 4
    then show ?thesis by (simp add: handleRoomEvent_def event_rename_def spec_change_def Let_def r(1) id assms(1) u)
  next
    case 5
    then show ?thesis by (simp add: handleRoomEvent_def spec_change_def Let_def id assms(1))
  qed
qed

lemma handleRoomEvent_refines:
  assumes "dir_inv (w_env W) (n_store n)" "nonce_ok (w_nonce W)"
  shows "room_dir (w_env W) (n_store (handleRoomEvent W l e n)) =
      spec_event (w_env W) (me n) (l_peer (n_links n l)) e (room_dir (w_env W) (n_store n))
    \<and> dir_inv (w_env W) (n_store (handleRoomEvent W l e n))"
proof (cases "e_RoomEvent e = ''create''")
  case True
  then show ?thesis
    using event_create_refines [OF assms] by (simp add: handleRoomEvent_def spec_event_def Let_def)
next
  case False
  show ?thesis
  proof (cases "room_dir (w_env W) (n_store n) (e_Room e)")
    case None
    then have "n_store (handleRoomEvent W l e n) = n_store n"
      using False room_dir_None [OF assms(1) None]
      by (simp add: handleRoomEvent_def event_join_def event_remove_def event_leave_def event_rename_def Let_def)
    then show ?thesis using False None assms(1) by (simp add: spec_event_def)
  next
    case (Some r)
    then show ?thesis using event_change_refines [OF assms False Some] False by (simp add: spec_event_def)
  qed
qed

section \<open>Authority in the specification\<close>

lemma spec_event_other: "i \<noteq> e_Room e \<Longrightarrow> spec_event E self actor e D i = D i"
  by (auto simp: spec_event_def spec_create_def Let_def split: option.split)

lemma spec_event_unknown:
  assumes "D (e_Room e) = None" "spec_event E self actor e D (e_Room e) = Some r"
  shows "Room_Pending r \<and> r_CreatedBy r = actor \<and> isMember E (r_Members r) self \<and> length (r_Members r) \<le> MaxRoomMembers"
  using assms by (auto simp: spec_event_def spec_create_def Let_def Room_Pending_def split: if_splits)

lemma spec_event_stranger:
  assumes "D (e_Room e) = Some r" "actor \<noteq> r_CreatedBy r" "actor \<noteq> self"
  shows "spec_event E self actor e D (e_Room e) \<in> {Some r, Some (r\<lparr>r_Members := removePeer E (r_Members r) actor\<rparr>)}"
  using assms by (auto simp: spec_event_def spec_create_def spec_change_def Let_def)

lemma spec_event_creator:
  assumes "D (e_Room e) = Some r" "actor = r_CreatedBy r" "actor \<noteq> self"
  shows "case spec_event E self actor e D (e_Room e) of
      None \<Rightarrow> e_RoomEvent e = ''remove'' \<and> e_RoomActor e = self
    | Some r' \<Rightarrow> r_CreatedBy r' = r_CreatedBy r \<and> r_State r' = r_State r \<and> r_CreatedAt r' = r_CreatedAt r"
  using assms by (simp add: spec_event_def spec_create_def spec_change_def Let_def)

lemma length_removePeer: "length (removePeer E ms p) \<le> length ms"
  by (simp add: removePeer_def)

lemma length_sortStrings [simp]: "length (sortStrings ms) = length ms"
  by (simp add: sortStrings_def)

definition bounded_rooms :: "rooms \<Rightarrow> bool" where
  "bounded_rooms D \<longleftrightarrow> (\<forall>i r. D i = Some r \<longrightarrow> length (r_Members r) \<le> MaxRoomMembers)"

lemma spec_change_bounded:
  "length (r_Members r) \<le> MaxRoomMembers \<Longrightarrow> spec_change E self actor e r = Some r' \<Longrightarrow> length (r_Members r') \<le> MaxRoomMembers"
  by (auto simp: spec_change_def split: if_splits intro: order_trans [OF length_removePeer])

lemma spec_event_bounded:
  assumes "bounded_rooms D"
  shows "bounded_rooms (spec_event E self actor e D)"
  unfolding bounded_rooms_def
proof (intro allI impI)
  fix i r
  assume r: "spec_event E self actor e D i = Some r"
  show "length (r_Members r) \<le> MaxRoomMembers"
  proof (cases "i = e_Room e \<and> e_RoomEvent e \<noteq> ''create'' \<and> D i \<noteq> None")
    case True
    then obtain r0 where "D i = Some r0" by blast
    with True r assms show ?thesis
      by (auto simp: spec_event_def bounded_rooms_def intro: spec_change_bounded)
  next
    case False
    with r assms show ?thesis
      by (auto simp: spec_event_def spec_create_def Let_def bounded_rooms_def split: if_splits option.splits)
  qed
qed

section \<open>A concrete directory\<close>

definition sample_dir :: store where
  "sample_dir = fst (CreateRoom sample_env sample_nonce sample_store sample_room)"

text \<open>A node holding Ann's room, with sessions to Ann (0), Bob (1) and Eve (others).\<close>

definition sample_member :: node where
  "sample_member = sample_node\<lparr>n_store := sample_dir, n_id := (n_id sample_node)\<lparr>i_Name := ''Bob''\<rparr>,
     n_links := (\<lambda>l. link0\<lparr>l_peer := (if l = 0 then ''Ann'' else if l = 1 then ''Bob'' else ''Eve''),
       l_open := True, l_caps := LocalCaps\<rparr>)\<rparr>"

lemma sample_dir: "dir_inv sample_env sample_dir" "room_dir sample_env sample_dir = [''r'' \<mapsto> sample_room]"
proof -
  have s: "dir_inv sample_env sample_store"
    by (rule dir_inv_empty) (simp_all add: sample_store_ok, simp add: sample_store_def)
  have r: "r_State sample_room \<noteq> []" "length (r_Members sample_room) \<le> MaxRoomMembers" "r_ID sample_room = ''r''"
    by (simp_all add: sample_room_def MaxRoomMembers_def)
  have "room_dir sample_env sample_store = Map.empty"
    by (simp add: fun_eq_iff room_dir_def GetRoom_def sample_store_def empty_db_def)
  then show "dir_inv sample_env sample_dir" "room_dir sample_env sample_dir = [''r'' \<mapsto> sample_room]"
    using CreateRoom_dir(2,3) [OF s sample_nonce_ok r(1,2)] r(3) by (simp_all add: sample_dir_def)
qed

lemma sample_member:
  "dir_inv (w_env sample_world) (n_store sample_member)" "nonce_ok (w_nonce sample_world)"
  "room_dir (w_env sample_world) (n_store sample_member) = [''r'' \<mapsto> sample_room]"
  "me sample_member = ''Bob''" "l_peer (n_links sample_member 0) = ''Ann''" "l_peer (n_links sample_member 1) = ''Bob''"
  "l_peer (n_links sample_member 2) = ''Eve''"
  by (simp_all add: sample_member_def sample_world_def sample_dir)

definition sample_event :: "string \<Rightarrow> envelope" where
  "sample_event t = envelope0\<lparr>e_T := TypeRoomEvent, e_Room := ''r'', e_RoomEvent := t, e_RoomActor := ''Eve'', e_RoomName := ''x''\<rparr>"

lemma sample_event [simp]:
  "e_Room (sample_event t) = ''r''" "e_RoomEvent (sample_event t) = t" "w_env sample_world = sample_env"
  "r_CreatedBy sample_room = ''Ann''" "r_Members sample_room = [''Ann'', ''Bob'']"
  by (simp_all add: sample_event_def sample_world_def sample_room_def)

section \<open>Properties\<close>



text \<open>
  C14. Authority over rooms: an event from a peer whose name is not ours never touches another
  room and never changes a room's creator; from anyone but the creator it changes nothing
  except that the sender itself may leave; the creator can delete our copy only by removing us;
  and of an unknown room it makes a pending invitation, by that sender, that includes us and
  respects the cap.
\<close>

theorem room_event_authority:
  fixes W n l e
  assumes "dir_inv (w_env W) (n_store n)" "nonce_ok (w_nonce W)" "l_peer (n_links n l) \<noteq> me n"
  defines "D \<equiv> room_dir (w_env W) (n_store n)" and "D' \<equiv> room_dir (w_env W) (n_store (handleRoomEvent W l e n))"
    and "actor \<equiv> l_peer (n_links n l)"
  shows "(\<forall>i. i \<noteq> e_Room e \<longrightarrow> D' i = D i)
    \<and> (case D (e_Room e) of
        None \<Rightarrow> (case D' (e_Room e) of None \<Rightarrow> True
          | Some r \<Rightarrow> Room_Pending r \<and> r_CreatedBy r = actor \<and> isMember (w_env W) (r_Members r) (me n)
              \<and> length (r_Members r) \<le> MaxRoomMembers)
      | Some r \<Rightarrow>
          if actor \<noteq> r_CreatedBy r
          then D' (e_Room e) \<in> {Some r, Some (r\<lparr>r_Members := removePeer (w_env W) (r_Members r) actor\<rparr>)}
          else (case D' (e_Room e) of None \<Rightarrow> e_RoomEvent e = ''remove'' \<and> e_RoomActor e = me n
            | Some r' \<Rightarrow> r_CreatedBy r' = r_CreatedBy r \<and> r_State r' = r_State r))"
proof -
  have D': "D' = spec_event (w_env W) (me n) actor e D"
    using handleRoomEvent_refines [OF assms(1,2), of l e] by (simp add: D'_def D_def actor_def)
  have a: "actor \<noteq> me n" using assms(3) by (simp add: actor_def)
  have "\<forall>i. i \<noteq> e_Room e \<longrightarrow> D' i = D i" by (simp add: D' spec_event_other)
  moreover have "case D (e_Room e) of
        None \<Rightarrow> (case D' (e_Room e) of None \<Rightarrow> True
          | Some r \<Rightarrow> Room_Pending r \<and> r_CreatedBy r = actor \<and> isMember (w_env W) (r_Members r) (me n)
              \<and> length (r_Members r) \<le> MaxRoomMembers)
      | Some r \<Rightarrow>
          if actor \<noteq> r_CreatedBy r
          then D' (e_Room e) \<in> {Some r, Some (r\<lparr>r_Members := removePeer (w_env W) (r_Members r) actor\<rparr>)}
          else (case D' (e_Room e) of None \<Rightarrow> e_RoomEvent e = ''remove'' \<and> e_RoomActor e = me n
            | Some r' \<Rightarrow> r_CreatedBy r' = r_CreatedBy r \<and> r_State r' = r_State r)"
  proof (cases "D (e_Room e)")
    case None
    show ?thesis using spec_event_unknown [of D e, OF None] unfolding D' None by (auto split: option.split)
  next
    case (Some r)
    show ?thesis
      using spec_event_stranger [of D e, OF Some _ a] spec_event_creator [of D e, OF Some _ a, of "w_env W"]
      unfolding D' Some by (auto split: option.split)
  qed
  ultimately show ?thesis by blast
qed

theorem room_event_authority_witness:
  "room_dir sample_env (n_store (handleRoomEvent sample_world 2 (sample_event ''rename'') sample_member)) ''r''
     \<in> {Some sample_room, Some (sample_room\<lparr>r_Members := removePeer sample_env [''Ann'', ''Bob''] ''Eve''\<rparr>)}"
proof -
  have "l_peer (n_links sample_member 2) \<noteq> me sample_member" by (simp add: sample_member)
  from room_event_authority [OF sample_member(1,2) this, of "sample_event ''rename''"] show ?thesis
    using sample_member(3,4,7) by simp
qed

text \<open>
  C23. The cap of 32 members holds after any sequence of membership events from any peers.
\<close>

theorem rooms_stay_bounded:
  assumes "dir_inv E (n_store n)" "bounded_rooms (room_dir E (n_store n))"
    and "\<forall>(W, l, e) \<in> set evs. w_env W = E \<and> nonce_ok (w_nonce W)"
  shows "dir_inv E (n_store (foldl (\<lambda>n (W, l, e). handleRoomEvent W l e n) n evs))
    \<and> bounded_rooms (room_dir E (n_store (foldl (\<lambda>n (W, l, e). handleRoomEvent W l e n) n evs)))"
  using assms
proof (induction evs arbitrary: n)
  case (Cons x evs)
  obtain W l e where x: "x = (W, l, e)" by (cases x)
  have w: "w_env W = E" "nonce_ok (w_nonce W)" using Cons.prems(3) by (simp_all add: x)
  note r = handleRoomEvent_refines [of W n, unfolded w(1), OF Cons.prems(1) w(2), of l e]
  have "bounded_rooms (room_dir E (n_store (handleRoomEvent W l e n)))"
    using r spec_event_bounded [OF Cons.prems(2)] by simp
  with r Cons.IH [of "handleRoomEvent W l e n"] Cons.prems(3) show ?case by (simp add: x)
qed simp

theorem rooms_stay_bounded_witness:
  "bounded_rooms (room_dir sample_env (n_store (foldl (\<lambda>n (W, l, e). handleRoomEvent W l e n) sample_member
     [(sample_world, 0, sample_event ''join''), (sample_world, 2, sample_event ''create'')])))"
proof -
  have "bounded_rooms (room_dir sample_env (n_store sample_member))"
    using sample_member(3) by (simp add: bounded_rooms_def sample_world_def) (simp add: sample_room_def MaxRoomMembers_def)
  from rooms_stay_bounded [OF _ this, of "[(sample_world, 0, sample_event ''join''), (sample_world, 2, sample_event ''create'')]"]
    sample_member(1,2) show ?thesis by simp
qed

text \<open>
  C38. Room authority is by display name, and nothing keeps a stranger from taking ours: a peer
  pinned under the very name we use deletes any of our rooms with one leave event, member or
  not.
\<close>

theorem namesake_deletes_room:
  assumes "dir_inv (w_env W) (n_store n)" "nonce_ok (w_nonce W)" "l_peer (n_links n l) = me n"
    and "room_dir (w_env W) (n_store n) (e_Room e) = Some r" "e_RoomEvent e = ''leave''"
  shows "room_dir (w_env W) (n_store (handleRoomEvent W l e n)) (e_Room e) = None"
  using handleRoomEvent_refines [OF assms(1,2), of l e] assms(3-5)
  by (simp add: spec_event_def spec_change_def)

theorem namesake_deletes_room_witness:
  "room_dir sample_env (n_store (handleRoomEvent sample_world 1 (sample_event ''leave'') sample_member)) ''r'' = None"
  using namesake_deletes_room [OF sample_member(1,2), of 1 "sample_event ''leave''" sample_room] sample_member(3,4,6)
  by (simp add: sample_event_def sample_world_def)









end
