(* ===== verification/Node_Link.thy ===== *)
theory Node_Link
  imports Room_Auth
begin

text \<open>
  Package \<open>internal/node\<close>, part 4 (\<open>link.go\<close>): the read loop of a session. \<open>handle\<close> is one
  iteration for a received envelope; its flag says whether the loop goes on. \<open>readLoop\<close> runs a
  sequence of envelopes, each with the circumstances of its arrival.
\<close>

section \<open>The handlers of one-to-one envelopes\<close>

definition maxMsgPerSec :: int where "maxMsgPerSec = 100"

text \<open>The message counter of the current second, as \<open>readLoop\<close> keeps it in two locals.\<close>

definition count_message :: "gotime \<Rightarrow> link \<Rightarrow> link" where
  "count_message now k = (let k1 = (if l_rateStart k = time_zero \<or> now - l_rateStart k > second
       then k\<lparr>l_rateStart := now, l_msgCount := 0\<rparr> else k) in k1\<lparr>l_msgCount := l_msgCount k1 + 1\<rparr>)"

definition inbound :: "world \<Rightarrow> node \<Rightarrow> nat \<Rightarrow> envelope \<Rightarrow> message" where
  "inbound W n l e = message0\<lparr>m_ID := e_ID e, m_Peer := l_peer (n_links n l), m_Dir := DirIn, m_Body := e_Body e,
     m_TS := w_now W, m_Status := StatusReceived, m_ReplyTo := e_ReplyTo e\<rparr>"

definition handle_msg :: "world \<Rightarrow> nat \<Rightarrow> envelope \<Rightarrow> node \<Rightarrow> node \<times> bool" where
  "handle_msg W l e n0 = (let n = set_link l (count_message (w_now W)) n0; peer = l_peer (n_links n l) in
     if l_msgCount (n_links n l) > maxMsgPerSec
     then (close l (logf W ''rate limit: %q exceeded %d msg/s'' [AStr peer, AInt maxMsgPerSec] n), False)
     else (case AddMessage (w_env W) (w_nonce W) (n_store n) (inbound W n l e) of
         (s', Inl er) \<Rightarrow> (logf W ''store inbound: %v'' [AErr er] (n\<lparr>n_store := s'\<rparr>), False)
       | (s', Inr (m, dup)) \<Rightarrow> (case send W l (envelope0\<lparr>e_T := TypeAck, e_ID := e_ID e\<rparr>) (n\<lparr>n_store := s'\<rparr>) of
           (n1, Inl _) \<Rightarrow> (n1, False)
         | (n1, Inr _) \<Rightarrow>
             (if dup then n1 else emit (event0\<lparr>ev_Type := ''message'', ev_Peer := peer, ev_Message := Some m\<rparr>) n1, True))))"

definition handle_ack :: "world \<Rightarrow> nat \<Rightarrow> envelope \<Rightarrow> node \<Rightarrow> node" where
  "handle_ack W l e n = (let peer = l_peer (n_links n l) in
     case MarkDelivered (w_env W) (n_store n) peer (e_ID e) of
       (s', Inl _) \<Rightarrow> n\<lparr>n_store := s'\<rparr>
     | (s', Inr (m, changed)) \<Rightarrow>
         if changed then emit (event0\<lparr>ev_Type := ''status'', ev_Peer := peer, ev_Message := Some m\<rparr>) (n\<lparr>n_store := s'\<rparr>)
         else n\<lparr>n_store := s'\<rparr>)"

definition handle_del :: "nat \<Rightarrow> envelope \<Rightarrow> node \<Rightarrow> node" where
  "handle_del l e n = emit (event0\<lparr>ev_Type := ''peers'', ev_Peer := l_peer (n_links n l)\<rparr>)
     (n\<lparr>n_store := fst (DeleteMessage (n_store n) (e_Target e))\<rparr>)"

section \<open>The handlers of file envelopes\<close>

definition handle_file :: "world \<Rightarrow> nat \<Rightarrow> envelope \<Rightarrow> node \<Rightarrow> node \<times> bool" where
  "handle_file W l e n = (let peer = l_peer (n_links n l) in
     case BeginReceive (w_now W) (n_store n) (e_ID e) peer (e_Src e) (e_Hash e) (e_Size e) of
       (s', Inl er) \<Rightarrow> (close l (logf W ''begin receive %s: %v'' [AStr (e_ID e), AErr er] (n\<lparr>n_store := s'\<rparr>)), False)
     | (s', Inr resume) \<Rightarrow>
       let n1 = set_link l (\<lambda>k. k\<lparr>rxFileID := e_ID e, rxFileOff := resume, rxFileHash := e_Hash e, rxFileSize := e_Size e,
                  rxFileName := e_Src e\<rparr>) (n\<lparr>n_store := s'\<rparr>);
           n2 = (if resume > 0 then logf W ''resuming %s from %d of %d bytes''
                   [AStr (e_Src e), AInt resume, AInt (e_Size e)] n1 else n1);
           ev = event0\<lparr>ev_Type := ''file'', ev_Peer := peer, ev_FileID := e_ID e, ev_FileSrc := e_Src e, ev_FileSize := e_Size e,
                  ev_FileHash := e_Hash e, ev_Progress := progressOf resume (e_Size e)\<rparr>
       in if speaks (n_links n2 l) CapResume
          then (case send W l (envelope0\<lparr>e_T := TypeFileAck, e_ID := e_ID e, e_Offset := resume\<rparr>) n2 of
              (n3, Inl er) \<Rightarrow> (logf W ''fileack to %s: %v'' [AStr peer, AErr er] n3, False)
            | (n3, Inr _) \<Rightarrow> (emit ev n3, True))
          else (emit ev n2, True))"

definition rx_reset :: "link \<Rightarrow> link" where
  "rx_reset k = k\<lparr>rxFileID := [], rxFileOff := 0, rxFileHash := [], rxFileSize := 0, rxFileName := []\<rparr>"

text \<open>The last chunk of a transfer: \<open>k\<close> is the link with its reception state.\<close>

definition finish_receive :: "world \<Rightarrow> nat \<Rightarrow> string \<Rightarrow> node \<Rightarrow> node" where
  "finish_receive W l i n = (let k = n_links n l in
     set_link l rx_reset (case CompleteFile (w_env W) (w_nonce W) (n_store n) i of
       (s', Inl er) \<Rightarrow> logf W ''complete file %s: %v'' [AStr i, AErr er] (n\<lparr>n_store := s'\<rparr>)
     | (s', Inr _) \<Rightarrow> emit (event0\<lparr>ev_Type := ''fileComplete'', ev_Peer := l_peer k, ev_FileID := i,
           ev_FileHash := rxFileHash k, ev_FileSrc := rxFileName k\<rparr>) (n\<lparr>n_store := s'\<rparr>)))"

definition handle_chunk :: "world \<Rightarrow> nat \<Rightarrow> envelope \<Rightarrow> node \<Rightarrow> node \<times> bool" where
  "handle_chunk W l e n =
     (if e_ID e \<noteq> rxFileID (n_links n l) then (n, True)
      else case WriteChunk (n_store n) (e_ID e) (e_Offset e) (e_Chunk e) of
        (s', Inl er) \<Rightarrow> (close l (logf W ''write chunk %s: %v'' [AStr (e_ID e), AErr er] (n\<lparr>n_store := s'\<rparr>)), False)
      | (s', Inr f) \<Rightarrow>
        let n1 = set_link l (\<lambda>k. k\<lparr>rxFileOff := f_Received f\<rparr>) (n\<lparr>n_store := s'\<rparr>); k = n_links n1 l;
            n2 = emit (event0\<lparr>ev_Type := ''fileProgress'', ev_Peer := l_peer k, ev_FileID := e_ID e, ev_FileHash := rxFileHash k,
                   ev_Progress := progressOf (rxFileOff k) (rxFileSize k)\<rparr>) n1
        in (if rxFileOff k \<ge> rxFileSize k then finish_receive W l (e_ID e) n2 else n2, True))"

section \<open>The loop\<close>

definition handle :: "world \<Rightarrow> nat \<Rightarrow> envelope \<Rightarrow> node \<Rightarrow> node \<times> bool" where
  "handle W l e n = (let peer = l_peer (n_links n l); T = e_T e in
     if T = TypePing then (n, True)
     else if T = TypeMsg then handle_msg W l e n
     else if T = TypeAck then (handle_ack W l e n, True)
     else if T = TypeReact then
       (if e_Room e \<noteq> [] then handleRoomReaction W l e n
        else emit (event0\<lparr>ev_Type := ''reaction'', ev_Peer := peer, ev_Emoji := e_Emoji e, ev_Target := e_Target e\<rparr>) n, True)
     else if T = TypeDel then (handle_del l e n, True)
     else if T = TypeDelAll then (handle_del l e n, True)
     else if T = TypeTyping then (emit (event0\<lparr>ev_Type := ''typing'', ev_Peer := peer\<rparr>) n, True)
     else if T = TypeRead then (emit (event0\<lparr>ev_Type := ''read'', ev_Peer := peer, ev_Target := e_Target e\<rparr>) n, True)
     else if T = TypeFile then handle_file W l e n
     else if T = TypeFileAck then (set_link l (deliverFileAck (e_ID e) (e_Offset e)) n, True)
     else if T = TypeChunk then handle_chunk W l e n
     else if T = TypeRoomMsg then (handleRoomMsg W l e n, True)
     else if T = TypeRoomAck then (handleRoomAck W l e n, True)
     else if T = TypeRoomEvent then (handleRoomEvent W l e n, True)
     else (n, True))"

fun readLoop :: "nat \<Rightarrow> (world \<times> envelope) list \<Rightarrow> node \<Rightarrow> node \<times> bool" where
  "readLoop l [] n = (n, True)"
| "readLoop l ((W, e) # es) n = (case handle W l e n of
     (n', True) \<Rightarrow> readLoop l es n' | (n', False) \<Rightarrow> (n', False))"

text \<open>One tick of \<open>pingLoop\<close>.\<close>

definition ping_tick :: "world \<Rightarrow> nat \<Rightarrow> node \<Rightarrow> node \<times> bool" where
  "ping_tick W l n = (case send W l (envelope0\<lparr>e_T := TypePing\<rparr>) n of
     (n1, Inl _) \<Rightarrow> (close l n1, False) | (n1, Inr _) \<Rightarrow> (n1, True))"

section \<open>Incoming messages\<close>

definition ack_envelope :: "string \<Rightarrow> envelope" where
  "ack_envelope i = envelope0\<lparr>e_T := TypeAck, e_ID := i\<rparr>"

text \<open>The mailbox after one more message with that id: unchanged if it is already there.\<close>

definition received :: "('i \<Rightarrow> 'm option) \<Rightarrow> 'i \<Rightarrow> 'm \<Rightarrow> ('i \<Rightarrow> 'm option)" where
  "received box i m = (case box i of None \<Rightarrow> box(i \<mapsto> m) | Some _ \<Rightarrow> box)"

lemma received_present: "received box i m i \<noteq> None"
  by (simp add: received_def split: option.split)

lemma count_message_fields [simp]:
  "l_peer (count_message t k) = l_peer k" "l_out (count_message t k) = l_out k" "l_open (count_message t k) = l_open k"
  by (simp_all add: count_message_def Let_def)

lemma handle_msg_limited:
  assumes "l_msgCount (count_message (w_now W) (n_links n l)) > maxMsgPerSec"
  shows "snd (handle_msg W l e n) = False" "n_store (fst (handle_msg W l e n)) = n_store n"
    "l_out (n_links (fst (handle_msg W l e n)) l) = l_out (n_links n l)"
    "\<not> l_open (n_links (fst (handle_msg W l e n)) l)"
  using assms by (simp_all add: handle_msg_def Let_def)

lemma handle_msg_stored:
  fixes W n l e
  assumes "box_inv (w_env W) (n_store n)" "nonce_ok (w_nonce W)" "mail_seq (n_store n) < - 1"
    and "\<not> l_msgCount (count_message (w_now W) (n_links n l)) > maxMsgPerSec"
  defines "n' \<equiv> fst (handle_msg W l e n)"
  shows "box_inv (w_env W) (n_store n')"
    and "inbox (w_env W) (n_store n') = received (inbox (w_env W) (n_store n)) (e_ID e)
           ((inbound W n l e)\<lparr>m_Seq := mail_seq (n_store n) + 1\<rparr>)"
    and "snd (handle_msg W l e n) \<Longrightarrow> l_out (n_links n' l) = l_out (n_links n l) @ [ack_envelope (e_ID e)]"
    and "\<not> snd (handle_msg W l e n) \<Longrightarrow> l_out (n_links n' l) = l_out (n_links n l)"
    and "l_peer (n_links n' l) = l_peer (n_links n l)"
    and "l_msgCount (n_links n' l) = l_msgCount (count_message (w_now W) (n_links n l))"
    and "l_rateStart (n_links n' l) = l_rateStart (count_message (w_now W) (n_links n l))"
    and "mail_seq (n_store n') \<in> {mail_seq (n_store n), mail_seq (n_store n) + 1}"
proof -
  let ?E = "w_env W" and ?n = "set_link l (count_message (w_now W)) n"
  have i: "inbound W ?n l e = inbound W n l e" by (simp add: inbound_def)
  have id: "m_ID (inbound W n l e) = e_ID e" by (simp add: inbound_def)
  obtain s' m dup where s': "AddMessage ?E (w_nonce W) (n_store n) (inbound W n l e) = (s', Inr (m, dup))" "box_inv ?E s'"
    "inbox ?E s' = received (inbox ?E (n_store n)) (e_ID e) ((inbound W n l e)\<lparr>m_Seq := mail_seq (n_store n) + 1\<rparr>)"
    "mail_seq s' \<in> {mail_seq (n_store n), mail_seq (n_store n) + 1}"
    using assms(1-3) by (cases rule: AddMessage_cases [where m = "inbound W n l e"])
      (use assms(1) in \<open>auto simp: received_def id\<close>)
  have h: "handle_msg W l e n = (case send W l (ack_envelope (e_ID e)) (?n\<lparr>n_store := s'\<rparr>) of
      (n1, Inl _) \<Rightarrow> (n1, False)
    | (n1, Inr _) \<Rightarrow> (if dup then n1 else emit (event0\<lparr>ev_Type := ''message'', ev_Peer := l_peer (n_links ?n l),
         ev_Message := Some m\<rparr>) n1, True))"
    using assms(4) s'(1) i by (simp add: handle_msg_def Let_def ack_envelope_def)
  show "box_inv ?E (n_store n')"
    "inbox ?E (n_store n') = received (inbox ?E (n_store n)) (e_ID e) ((inbound W n l e)\<lparr>m_Seq := mail_seq (n_store n) + 1\<rparr>)"
    "snd (handle_msg W l e n) \<Longrightarrow> l_out (n_links n' l) = l_out (n_links n l) @ [ack_envelope (e_ID e)]"
    "\<not> snd (handle_msg W l e n) \<Longrightarrow> l_out (n_links n' l) = l_out (n_links n l)"
    "l_peer (n_links n' l) = l_peer (n_links n l)"
    "l_msgCount (n_links n' l) = l_msgCount (count_message (w_now W) (n_links n l))"
    "l_rateStart (n_links n' l) = l_rateStart (count_message (w_now W) (n_links n l))"
    "mail_seq (n_store n') \<in> {mail_seq (n_store n), mail_seq (n_store n) + 1}"
    unfolding n'_def h using s'(2-4)
    by (cases rule: send_cases [of W l "ack_envelope (e_ID e)" "?n\<lparr>n_store := s'\<rparr>"]; simp)+
qed

section \<open>The rate limit\<close>

text \<open>Inside one second counted from \<open>t0\<close> the counter only grows.\<close>

lemma count_message_window:
  "l_rateStart k \<noteq> time_zero \<Longrightarrow> now - l_rateStart k \<le> second \<Longrightarrow>
   l_msgCount (count_message now k) = l_msgCount k + 1 \<and> l_rateStart (count_message now k) = l_rateStart k"
  by (simp add: count_message_def Let_def)

lemma handle_TypeMsg: "e_T e = TypeMsg \<Longrightarrow> handle W l e n = handle_msg W l e n"
  by (simp add: handle_def Let_def)

definition msg_arrival :: "env \<Rightarrow> gotime \<Rightarrow> world \<times> envelope \<Rightarrow> bool" where
  "msg_arrival E t0 x \<longleftrightarrow> e_T (snd x) = TypeMsg \<and> w_env (fst x) = E \<and> nonce_ok (w_nonce (fst x)) \<and> w_now (fst x) - t0 \<le> second"

lemma mail_room: "unat (w :: 64 word) + Suc k < 2 ^ 64 \<Longrightarrow> w < - 1"
  by (rule less_max_unat) simp

lemma mail_room_step:
  fixes v w :: "64 word"
  assumes "unat v + Suc k < 2 ^ 64" "w \<in> {v, v + 1}"
  shows "unat w + k < 2 ^ 64"
proof -
  have "w \<le> v + 1" using assms(2) word_less_inc [OF mail_room [OF assms(1)]] by auto
  then show ?thesis using assms(1) by (rule unat_inc_le)
qed

lemma rate_window:
  assumes "\<forall>x\<in>set es. msg_arrival E t0 x" "l_rateStart (n_links n l) = t0" "t0 \<noteq> time_zero"
    and "box_inv E (n_store n)" "unat (mail_seq (n_store n)) + length es < 2 ^ 64" "l_msgCount (n_links n l) \<le> 100"
  shows "length (l_out (n_links (fst (readLoop l es n)) l)) \<le> length (l_out (n_links n l)) + nat (100 - l_msgCount (n_links n l))
    \<and> (int (length es) > 100 - l_msgCount (n_links n l) \<longrightarrow> \<not> snd (readLoop l es n))"
  using assms(1,2,4-6)
proof (induction es arbitrary: n)
  case (Cons x es)
  obtain W e where x: "x = (W, e)" by (cases x)
  have a: "e_T e = TypeMsg" "w_env W = E" "nonce_ok (w_nonce W)" "w_now W - t0 \<le> second"
    using Cons.prems(1) by (simp_all add: x msg_arrival_def)
  let ?c = "l_msgCount (n_links n l)" and ?n = "fst (handle_msg W l e n)"
  have cm: "l_msgCount (count_message (w_now W) (n_links n l)) = ?c + 1"
    "l_rateStart (count_message (w_now W) (n_links n l)) = t0"
    using count_message_window [of "n_links n l" "w_now W"] assms(3) Cons.prems(2) a(4) by simp_all
  show ?case
  proof (cases "?c + 1 > 100")
    case True
    then have "l_msgCount (count_message (w_now W) (n_links n l)) > maxMsgPerSec" by (simp add: cm maxMsgPerSec_def)
    note lim = handle_msg_limited [OF this, of e]
    have "readLoop l (x # es) n = (?n, False)"
      using lim(1) by (cases "handle_msg W l e n") (simp add: x handle_TypeMsg [OF a(1)])
    with lim(3) show ?thesis by simp
  next
    case False
    then have nl: "\<not> l_msgCount (count_message (w_now W) (n_links n l)) > maxMsgPerSec" by (simp add: cm maxMsgPerSec_def)
    have seq: "unat (mail_seq (n_store n)) + Suc (length es) < 2 ^ 64" using Cons.prems(4) by simp
    note st = handle_msg_stored [of W n, unfolded a(2), OF Cons.prems(3) a(3) mail_room [OF seq] nl, of e]
    show ?thesis
    proof (cases "snd (handle_msg W l e n)")
      case True
      have r: "readLoop l (x # es) n = readLoop l es ?n"
        using True by (cases "handle_msg W l e n") (simp add: x handle_TypeMsg [OF a(1)])
      have "length (l_out (n_links (fst (readLoop l es ?n)) l)) \<le> length (l_out (n_links ?n l)) + nat (100 - l_msgCount (n_links ?n l))
        \<and> (int (length es) > 100 - l_msgCount (n_links ?n l) \<longrightarrow> \<not> snd (readLoop l es ?n))"
      proof (rule Cons.IH)
        show "\<forall>x\<in>set es. msg_arrival E t0 x" using Cons.prems(1) by simp
        show "l_rateStart (n_links ?n l) = t0" "box_inv E (n_store ?n)" using st(1,7) cm(2) by simp_all
        show "unat (mail_seq (n_store ?n)) + length es < 2 ^ 64" by (rule mail_room_step [OF seq st(8)])
        show "l_msgCount (n_links ?n l) \<le> 100" using st(6) cm(1) False by simp
      qed
      moreover have "length (l_out (n_links ?n l)) = length (l_out (n_links n l)) + 1" using st(3) [OF True] by simp
      moreover have "l_msgCount (n_links ?n l) = ?c + 1" using st(6) cm(1) by simp
      ultimately show ?thesis using False unfolding r by auto
    next
      case f: False
      have "readLoop l (x # es) n = (?n, False)"
        using f by (cases "handle_msg W l e n") (simp add: x handle_TypeMsg [OF a(1)])
      with st(4) [OF f] show ?thesis by simp
    qed
  qed
qed simp

lemma handle_ack_store:
  assumes "e_T e = TypeAck"
  shows "n_store (fst (handle W l e n)) = fst (MarkDelivered (w_env W) (n_store n) (l_peer (n_links n l)) (e_ID e))"
    and "snd (handle W l e n)"
proof -
  have "n_store (handle_ack W l e n) = fst (MarkDelivered (w_env W) (n_store n) (l_peer (n_links n l)) (e_ID e))"
    by (cases "MarkDelivered (w_env W) (n_store n) (l_peer (n_links n l)) (e_ID e)"; cases "snd (MarkDelivered (w_env W) (n_store n) (l_peer (n_links n l)) (e_ID e))")
      (auto simp: handle_ack_def Let_def split: sum.splits)
  moreover have "handle W l e n = (handle_ack W l e n, True)" using assms by (simp add: handle_def Let_def)
  ultimately show "n_store (fst (handle W l e n)) = fst (MarkDelivered (w_env W) (n_store n) (l_peer (n_links n l)) (e_ID e))"
    "snd (handle W l e n)" by simp_all
qed

section \<open>Properties\<close>

text \<open>
  C9. Only what is stored is acknowledged. A message within the rate limit is stored under the
  authenticated name of its sender, once, with its body intact, and if the session goes on an
  acknowledgement of exactly that id, which the mailbox now holds, is the only thing sent; one
  beyond the limit closes the session with nothing stored and nothing sent.
\<close>

theorem message_acknowledged_only_when_stored:
  assumes "box_inv (w_env W) (n_store n)" "nonce_ok (w_nonce W)" "mail_seq (n_store n) < - 1" "e_T e = TypeMsg"
  shows "if l_msgCount (count_message (w_now W) (n_links n l)) > 100
    then snd (handle W l e n) = False \<and> n_store (fst (handle W l e n)) = n_store n
      \<and> l_out (n_links (fst (handle W l e n)) l) = l_out (n_links n l) \<and> \<not> l_open (n_links (fst (handle W l e n)) l)
    else box_inv (w_env W) (n_store (fst (handle W l e n)))
      \<and> inbox (w_env W) (n_store (fst (handle W l e n))) = received (inbox (w_env W) (n_store n)) (e_ID e)
          ((inbound W n l e)\<lparr>m_Seq := mail_seq (n_store n) + 1\<rparr>)
      \<and> inbox (w_env W) (n_store (fst (handle W l e n))) (e_ID e) \<noteq> None
      \<and> l_out (n_links (fst (handle W l e n)) l) = l_out (n_links n l)
          @ (if snd (handle W l e n) then [ack_envelope (e_ID e)] else [])"
proof (cases "l_msgCount (count_message (w_now W) (n_links n l)) > 100")
  case True
  then have "l_msgCount (count_message (w_now W) (n_links n l)) > maxMsgPerSec" by (simp add: maxMsgPerSec_def)
  from True handle_msg_limited [OF this, of e] show ?thesis by (simp add: handle_TypeMsg [OF assms(4)])
next
  case False
  then have "\<not> l_msgCount (count_message (w_now W) (n_links n l)) > maxMsgPerSec" by (simp add: maxMsgPerSec_def)
  note st = handle_msg_stored [OF assms(1-3) this, of e]
  have "inbox (w_env W) (n_store (fst (handle_msg W l e n))) (e_ID e) \<noteq> None" unfolding st(2) by (rule received_present)
  with False st(1-4) show ?thesis by (simp add: handle_TypeMsg [OF assms(4)])
qed

theorem message_acknowledged_only_when_stored_witness:
  "inbox sample_env (n_store (fst (handle sample_world 0 (envelope0\<lparr>e_T := TypeMsg, e_ID := ''id7'', e_Body := ''yo''\<rparr>) sample_online)))
     ''id7'' \<noteq> None"
proof -
  let ?e = "envelope0\<lparr>e_T := TypeMsg, e_ID := ''id7'', e_Body := ''yo''\<rparr>"
  have lt: "mail_seq sample_box < - 1" by (intro less_max_unat) (simp add: sample_box)
  have w: "w_env sample_world = sample_env" "nonce_ok (w_nonce sample_world)" by (simp_all add: sample_world_def)
  have c: "\<not> l_msgCount (count_message (w_now sample_world) (n_links sample_online 0)) > 100"
    by (simp add: sample_online(3) count_message_def Let_def) (simp add: link0_def)
  have i: "inbox sample_env sample_box ''id7'' = None" by (simp add: sample_box(3))
  from message_acknowledged_only_when_stored [of sample_world sample_online ?e 0, unfolded w sample_online(2),
      OF sample_box(1) w(2) lt] c show ?thesis by (simp add: received_def i)
qed

text \<open>
  C31. The rate limit: of the messages that arrive within one second of the first of them, at most
  100 are acknowledged, and the session ends if there are more.
\<close>

theorem rate_limit:
  assumes "\<forall>x\<in>set ((W, e) # es). msg_arrival E (w_now W) x" "box_inv E (n_store n)"
    and "unat (mail_seq (n_store n)) + Suc (length es) < 2 ^ 64"
    and "l_rateStart (n_links n l) = time_zero \<or> w_now W - l_rateStart (n_links n l) > second" "w_now W \<noteq> time_zero"
  shows "length (l_out (n_links (fst (readLoop l ((W, e) # es) n)) l)) \<le> length (l_out (n_links n l)) + 100
    \<and> (length ((W, e) # es) > 100 \<longrightarrow> \<not> snd (readLoop l ((W, e) # es) n))"
proof -
  have a: "e_T e = TypeMsg" "w_env W = E" "nonce_ok (w_nonce W)" using assms(1) by (simp_all add: msg_arrival_def)
  have cm: "l_msgCount (count_message (w_now W) (n_links n l)) = 1"
    "l_rateStart (count_message (w_now W) (n_links n l)) = w_now W"
    using assms(4) by (auto simp: count_message_def Let_def)
  have "\<not> l_msgCount (count_message (w_now W) (n_links n l)) > maxMsgPerSec" by (simp add: cm maxMsgPerSec_def)
  note st = handle_msg_stored [of W n, unfolded a(2), OF assms(2) a(3) mail_room [OF assms(3)] this, of e]
  let ?n = "fst (handle_msg W l e n)"
  have rw: "length (l_out (n_links (fst (readLoop l es ?n)) l)) \<le> length (l_out (n_links ?n l)) + 99
    \<and> (length es > 99 \<longrightarrow> \<not> snd (readLoop l es ?n))"
    using rate_window [of es E "w_now W" ?n l] assms(1,5) st(1,6,7) cm mail_room_step [OF assms(3) st(8)] by simp
  show ?thesis
  proof (cases "snd (handle_msg W l e n)")
    case True
    then have "readLoop l ((W, e) # es) n = readLoop l es ?n"
      by (cases "handle_msg W l e n") (simp add: handle_TypeMsg [OF a(1)])
    with rw st(3) [OF True] show ?thesis by simp
  next
    case False
    then have "readLoop l ((W, e) # es) n = (?n, False)"
      by (cases "handle_msg W l e n") (simp add: handle_TypeMsg [OF a(1)])
    with st(4) [OF False] show ?thesis by simp
  qed
qed

theorem rate_limit_witness:
  "\<not> snd (readLoop 0 ((sample_world, envelope0\<lparr>e_T := TypeMsg\<rparr>) # replicate 100 (sample_world, envelope0\<lparr>e_T := TypeMsg\<rparr>)) sample_online)"
proof -
  let ?x = "(sample_world, envelope0\<lparr>e_T := TypeMsg\<rparr>)"
  have x: "msg_arrival sample_env (w_now sample_world) ?x" by (simp add: msg_arrival_def sample_world_def)
  then have 1: "\<forall>y\<in>set (?x # replicate 100 ?x). msg_arrival sample_env (w_now sample_world) y" by simp
  have 2: "unat (mail_seq (n_store sample_online)) + Suc (length (replicate 100 ?x)) < 2 ^ 64"
    by (simp add: sample_online(2) sample_box)
  have 3: "l_rateStart (n_links sample_online 0) = time_zero" "w_now sample_world \<noteq> time_zero"
    by (simp_all add: sample_online(3) sample_world_def time_zero_def) (simp add: link0_def time_zero_def)
  from rate_limit [OF 1 _ 2 disjI1 [OF 3(1)] 3(2)] show ?thesis
    unfolding sample_online(2) using sample_box(1) by simp
qed

text \<open>
  C25. A delivery report counts only from the peer the message was sent to, as the code compares
  peers: an acknowledgement turns the message of its id from queued to delivered exactly when it
  is outbound and its recipient's name equals that of the authenticated sender up to Unicode case
  folding, and changes nothing else in the mailbox. For ASCII names that is the contact itself,
  since they then have the same key in the table of links; beyond ASCII folding identifies names
  that the store pins apart (\<open>folded_namesake_settles\<close>).
\<close>

theorem ack_only_from_recipient:
  assumes "box_inv (w_env W) (n_store n)" "e_T e = TypeAck"
  shows "snd (handle W l e n) \<and> box_inv (w_env W) (n_store (fst (handle W l e n)))
    \<and> inbox (w_env W) (n_store (fst (handle W l e n))) = (\<lambda>i. map_option (\<lambda>m.
        if i = e_ID e \<and> m_Dir m = DirOut \<and> m_Status m \<noteq> StatusDelivered \<and> EqualFold (w_env W) (m_Peer m) (l_peer (n_links n l))
        then m\<lparr>m_Status := StatusDelivered\<rparr> else m) (inbox (w_env W) (n_store n) i))
    \<and> (\<forall>i m. inbox (w_env W) (n_store n) i = Some m \<longrightarrow> inbox (w_env W) (n_store (fst (handle W l e n))) i \<noteq> Some m
        \<longrightarrow> is_ascii (m_Peer m) \<longrightarrow> is_ascii (l_peer (n_links n l)) \<longrightarrow> ToLower (w_env W) (m_Peer m) = ToLower (w_env W) (l_peer (n_links n l)))"
proof -
  let ?E = "w_env W" and ?peer = "l_peer (n_links n l)"
  have h: "n_store (fst (handle W l e n)) = fst (MarkDelivered ?E (n_store n) ?peer (e_ID e))" "snd (handle W l e n)"
    using handle_ack_store [OF assms(2)] by simp_all
  have b: "box_inv ?E (n_store (fst (handle W l e n)))
    \<and> inbox ?E (n_store (fst (handle W l e n))) = (\<lambda>i. map_option (\<lambda>m.
        if i = e_ID e \<and> m_Dir m = DirOut \<and> m_Status m \<noteq> StatusDelivered \<and> EqualFold ?E (m_Peer m) ?peer
        then m\<lparr>m_Status := StatusDelivered\<rparr> else m) (inbox ?E (n_store n) i))"
    using assms(1)
  proof (cases rule: MarkDelivered_cases [where peer = ?peer and i = "e_ID e"])
    case 1
    then show ?thesis using assms(1) unfolding h(1) by (auto simp: fun_eq_iff option.map_ident_strong intro!: option.map_ident_strong [symmetric])
  next
    case (2 m s')
    then show ?thesis unfolding h(1) by (auto simp: fun_eq_iff intro!: option.map_ident_strong [symmetric])
  qed
  moreover have "ToLower ?E (m_Peer m) = ToLower ?E ?peer"
    if "inbox ?E (n_store n) i = Some m" "inbox ?E (n_store (fst (handle W l e n))) i \<noteq> Some m" "is_ascii (m_Peer m)" "is_ascii ?peer" for i m
    using b that EqualFold_ascii [OF that(3,4)] by (auto split: if_splits)
  ultimately show ?thesis using h(2) by blast
qed

theorem ack_only_from_recipient_witness:
  "inbox sample_env (n_store (fst (handle sample_world 0 (ack_envelope ''id1'') sample_online))) ''id1''
     = Some (sample_msg\<lparr>m_Seq := 1, m_Status := StatusDelivered\<rparr>)"
proof -
  have "w_env sample_world = sample_env" "e_T (ack_envelope ''id1'') = TypeAck" "e_ID (ack_envelope ''id1'') = ''id1''"
    by (simp_all add: sample_world_def ack_envelope_def)
  with ack_only_from_recipient [of sample_world sample_online "ack_envelope ''id1''" 0] sample_box(1,3) sample_online(2,3)
  show ?thesis by (simp add: sample_msg_def)
qed

text \<open>
  Folding is coarser than the store's idea of a contact: the long s folds to an s and is its own
  lower case, so a contact named with one is pinned apart from the contact named with the other,
  and yet acknowledges messages to it.
\<close>

abbreviation long_s_am :: string where "long_s_am \<equiv> [CHR 0xC5, CHR 0xBF] @ ''am''"

lemma segs_long_s: "segs long_s_am = [(0x17F, [CHR 0xC5, CHR 0xBF]), (0x61, ''a''), (0x6D, ''m'')]"
  by (subst segs.simps) (simp add: DecodeRune_def is_cont_def)

theorem folded_namesake_settles:
  assumes "box_inv (w_env W) (n_store n)" "u_fold (w_env W) 0x73 0x17F" "u_lower (w_env W) 0x17F = 0x17F"
    and "inbox (w_env W) (n_store n) i = Some m" "m_Dir m = DirOut" "m_Peer m = ''sam''" "l_peer (n_links n l) = long_s_am"
  shows "peerKey (w_env W) ''sam'' \<noteq> peerKey (w_env W) long_s_am
    \<and> inbox (w_env W) (n_store (fst (handle W l (ack_envelope i) n))) i = Some (m\<lparr>m_Status := StatusDelivered\<rparr>)"
proof -
  let ?E = "w_env W"
  have f: "EqualFold ?E ''sam'' long_s_am"
    using assms(2) segs_long_s by (simp add: EqualFold_def runes_def rune_EqualFold_def)
  have "TrimSpace long_s_am = long_s_am" using segs_long_s by (simp add: TrimSpace_def IsSpace_def)
  moreover have "ToLower ?E long_s_am = [CHR 0xC5, CHR 0xBF] @ ''am''"
    using segs_long_s assms(3) by (simp add: ToLower_def runes_def unicode_ToLower_def EncodeRune_def ascii_lower_def char_of_eq_of_char)
  moreover have "ToLower ?E ''sam'' = ''sam''" "TrimSpace ''sam'' = ''sam''"
    by (simp_all add: ToLower_def ascii_lower_def char_of_eq_of_char TrimSpace_def IsSpace_def)
  ultimately have "peerKey ?E ''sam'' \<noteq> peerKey ?E long_s_am" by (simp add: peerKey_def)
  moreover have "e_T (ack_envelope i) = TypeAck" "e_ID (ack_envelope i) = i" by (simp_all add: ack_envelope_def)
  then have "n_store (fst (handle W l (ack_envelope i) n)) = fst (MarkDelivered ?E (n_store n) long_s_am i)"
    using handle_ack_store(1) [of "ack_envelope i" W l n] assms(7) by simp
  moreover have "inbox ?E (fst (MarkDelivered ?E (n_store n) long_s_am i)) i = Some (m\<lparr>m_Status := StatusDelivered\<rparr>)"
    using assms(1)
  proof (cases rule: MarkDelivered_cases [where peer = long_s_am and i = i])
    case 1
    then have "m_Status m = StatusDelivered" using assms(4-6) f by auto
    then show ?thesis using 1(1) assms(4) by simp
  next
    case (2 m' s')
    then show ?thesis using assms(4) by simp
  qed
  ultimately show ?thesis by simp
qed

text \<open>
  C35. A delete request is obeyed whoever sends it: any connected peer removes any message, also
  one of a conversation with somebody else and also one still waiting to be delivered, by
  naming its id.
\<close>

theorem any_peer_deletes_any_message:
  assumes "box_inv (w_env W) (n_store n)" "e_T e \<in> {TypeDel, TypeDelAll}" "inbox (w_env W) (n_store n) (e_Target e) = Some m"
  shows "inbox (w_env W) (n_store (fst (handle W l e n))) = (inbox (w_env W) (n_store n))(e_Target e := None)"
proof -
  have h: "n_store (fst (handle W l e n)) = fst (DeleteMessage (n_store n) (e_Target e))"
  proof -
    have "e_T e = TypeDel \<or> e_T e = TypeDelAll" using assms(2) by blast
    then have "fst (handle W l e n) = handle_del l e n" by (elim disjE) (simp_all add: handle_def Let_def)
    then show ?thesis by (simp add: handle_del_def)
  qed
  from assms(1) show ?thesis
    by (cases rule: DeleteMessage_cases [where i = "e_Target e"]) (use assms(3) in \<open>simp_all add: h\<close>)
qed

theorem any_peer_deletes_any_message_witness:
  "inbox sample_env (n_store (fst (handle sample_world 5 (envelope0\<lparr>e_T := TypeDel, e_Target := ''id1''\<rparr>) sample_online))) ''id1'' = None"
proof -
  have w: "w_env sample_world = sample_env" by (simp add: sample_world_def)
  from any_peer_deletes_any_message [of sample_world sample_online "envelope0\<lparr>e_T := TypeDel, e_Target := ''id1''\<rparr>"
      "sample_msg\<lparr>m_Seq := 1\<rparr>" 5] show ?thesis
    using sample_box(1) by (simp add: w sample_online(2) sample_box(3))
qed

lemma send_frame: "send W l e n = (n1, r) \<Longrightarrow> n_store n1 = n_store n \<and> n_live n1 = n_live n"
  by (cases rule: send_cases [of W l e n]) auto

text \<open>
  A peer that announces a file under the id of one we are sending takes over its record: our
  queued file becomes a reception from that peer, and the transfer that is still in the outbox
  is never sent.
\<close>

theorem file_header_hijacks_outbound:
  assumes "file_at (n_store n) (e_ID e) = Some f" "f_Status f = FileQueued" "e_T e = TypeFile"
  shows "\<exists>f'. file_at (n_store (fst (handle W l e n))) (e_ID e) = Some f' \<and> f_Dir f' = DirIn \<and> f_Status f' = FileReceiving
    \<and> f_Peer f' = l_peer (n_links n l)
    \<and> bFileOutbox (db (n_store (fst (handle W l e n)))) = bFileOutbox (db (n_store n))
    \<and> snd (flushFile_start W2 peer (e_ID e) (fst (handle W l e n))) = None"
proof -
  let ?b = "BeginReceive (w_now W) (n_store n) (e_ID e) (l_peer (n_links n l)) (e_Src e) (e_Hash e) (e_Size e)"
  obtain r where r: "snd ?b = Inr r" by (simp add: BeginReceive_def dbUpdate_def Let_def)
  have b: "file_at (fst ?b) (e_ID e) = Some \<lparr>f_ID = e_ID e, f_Peer = l_peer (n_links n l), f_Dir = DirIn, f_Name = e_Src e,
      f_Size = e_Size e, f_Hash = e_Hash e, f_Status = FileReceiving, f_Received = r, f_Sent = 0, f_TS = w_now W\<rparr>"
    "bFileOutbox (db (fst ?b)) = bFileOutbox (db (n_store n))"
    using r by (auto simp: BeginReceive_def dbUpdate_def Let_def mkdir_def in_dir_def split: option.splits)
  have h: "n_store (fst (handle W l e n)) = fst ?b"
    using assms(3) r
    by (cases ?b) (auto simp: handle_def handle_file_def Let_def dest!: send_frame split: prod.split sum.split)
  have "snd (flushFile_start W2 peer (e_ID e) (fst (handle W l e n))) = None"
    using b(1) by (auto simp: flushFile_start_def flushFile_prepare_def h GetFile_def split: option.split)
  with b show ?thesis unfolding h by auto
qed

definition sample_outbound :: node where
  "sample_outbound = sample_online\<lparr>n_store := fst (AddOutboundFile sample_env sample_nonce 1 sample_store ''f'' ''Bob'' ''n'' ''h'' ''data'')\<rparr>"

lemma sample_outbound:
  "\<exists>f. file_at (n_store sample_outbound) ''f'' = Some f \<and> f_Status f = FileQueued"
proof -
  obtain c where "writeFileData sample_env sample_nonce (mkdir sample_store ''f'') ''data'' = Inr c"
    using box.enc_total [of "replicate 32 CHR ''k''" sample_nonce sample_env "''data''"]
    by (auto simp: writeFileData_def mkdir_def sample_store_def)
  then show ?thesis
    by (simp add: sample_outbound_def AddOutboundFile_def Let_def wrap_err_def dbUpdate_def)
qed

theorem file_header_hijacks_outbound_witness:
  "\<exists>f'. file_at (n_store (fst (handle sample_world 5 (envelope0\<lparr>e_T := TypeFile, e_ID := ''f''\<rparr>) sample_outbound))) ''f'' = Some f'
     \<and> f_Status f' = FileReceiving"
proof -
  obtain f where "file_at (n_store sample_outbound) ''f'' = Some f" "f_Status f = FileQueued" using sample_outbound by blast
  with file_header_hijacks_outbound [of sample_outbound "envelope0\<lparr>e_T := TypeFile, e_ID := ''f''\<rparr>" f sample_world 5]
  show ?thesis by auto
qed

end
