(* ===== verification/Delivery.thy ===== *)
theory Delivery
  imports Node_Link
begin

text \<open>
  One-to-one messages from a sending node to a receiving one over a network that may lose, delay,
  repeat and reorder what is put on it: the composition of \<open>SendReply\<close>, \<open>flush\<close> (\<open>node.go\<close>) and
  the read loops of both sides (\<open>link.go\<close>). Locale \<open>delivery\<close> holds the argument over the contracts of a sender's
  and a receiver's mailbox; both are interpreted on the nodes.
\<close>

section \<open>What the two sides promise\<close>

locale mail_sender =
  fixes sinv :: "'a \<Rightarrow> bool"
    and sbox :: "'a \<Rightarrow> string \<Rightarrow> message option"
    and wire :: "'a \<Rightarrow> envelope set"
    and mine :: "message \<Rightarrow> bool"
    and compose :: "'a \<Rightarrow> message \<Rightarrow> 'a \<Rightarrow> bool"
    and retry :: "'a \<Rightarrow> 'a \<Rightarrow> bool"
    and acked :: "'a \<Rightarrow> string \<Rightarrow> 'a \<Rightarrow> bool"
  assumes compose_new: "\<lbrakk>sinv s; compose s m s'\<rbrakk> \<Longrightarrow> sinv s' \<and> sbox s (m_ID m) = None \<and> sbox s' = (sbox s)(m_ID m \<mapsto> m)
      \<and> wire s' = wire s \<and> m_Status m \<noteq> StatusDelivered"
    and retry_frame: "\<lbrakk>sinv s; retry s s'\<rbrakk> \<Longrightarrow> sinv s' \<and> wire s \<subseteq> wire s'
      \<and> (\<forall>i. rel_option (\<lambda>m m'. m_Body m' = m_Body m \<and> m_Status m' = m_Status m \<and> mine m' = mine m) (sbox s i) (sbox s' i))"
    and retry_wire: "\<lbrakk>sinv s; retry s s'; e \<in> wire s'; e \<notin> wire s\<rbrakk> \<Longrightarrow>
      \<exists>m. sbox s (e_ID e) = Some m \<and> mine m \<and> e_Body e = m_Body m"
    and acked_frame: "\<lbrakk>sinv s; acked s i s'\<rbrakk> \<Longrightarrow> sinv s' \<and> wire s' = wire s
      \<and> (\<forall>j. sbox s' j = sbox s j \<or> j = i \<and> (\<exists>m. sbox s j = Some m \<and> mine m
           \<and> mine (m\<lparr>m_Status := StatusDelivered\<rparr>) \<and> sbox s' j = Some (m\<lparr>m_Status := StatusDelivered\<rparr>)))"

locale mail_receiver =
  fixes rinv :: "'b \<Rightarrow> bool"
    and rbox :: "'b \<Rightarrow> string \<Rightarrow> message option"
    and acks :: "'b \<Rightarrow> string set"
    and arrive :: "'b \<Rightarrow> envelope \<Rightarrow> 'b \<Rightarrow> bool"
  assumes arrive_box: "\<lbrakk>rinv s; arrive s e s'\<rbrakk> \<Longrightarrow> rinv s'
      \<and> (rbox s' = rbox s \<or> rbox s (e_ID e) = None
          \<and> (\<exists>m. rbox s' = (rbox s)(e_ID e \<mapsto> m) \<and> m_Dir m = DirIn \<and> m_Body m = e_Body e))"
    and arrive_acks: "\<lbrakk>rinv s; arrive s e s'\<rbrakk> \<Longrightarrow> acks s' = acks s \<or> acks s' = insert (e_ID e) (acks s) \<and> rbox s' (e_ID e) \<noteq> None"

section \<open>Agreement of the two mailboxes\<close>

locale delivery = mail_sender + mail_receiver
begin

definition agree :: "'a \<Rightarrow> 'b \<Rightarrow> bool" where
  "agree a b \<longleftrightarrow> sinv a \<and> rinv b
     \<and> (\<forall>e\<in>wire a. \<exists>m. sbox a (e_ID e) = Some m \<and> mine m \<and> e_Body e = m_Body m)
     \<and> (\<forall>i\<in>acks b. rbox b i \<noteq> None \<and> (\<exists>m. sbox a i = Some m \<and> mine m))
     \<and> (\<forall>i m m'. sbox a i = Some m \<longrightarrow> mine m \<longrightarrow> rbox b i = Some m' \<longrightarrow> m_Dir m' = DirIn \<and> m_Body m' = m_Body m)
     \<and> (\<forall>i m. sbox a i = Some m \<longrightarrow> mine m \<longrightarrow> m_Status m = StatusDelivered \<longrightarrow> rbox b i \<noteq> None)"

lemma agreeI:
  assumes "sinv a" "rinv b"
    and "\<And>e. e \<in> wire a \<Longrightarrow> \<exists>m. sbox a (e_ID e) = Some m \<and> mine m \<and> e_Body e = m_Body m"
    and "\<And>i. i \<in> acks b \<Longrightarrow> rbox b i \<noteq> None \<and> (\<exists>m. sbox a i = Some m \<and> mine m)"
    and "\<And>i m m'. \<lbrakk>sbox a i = Some m; mine m; rbox b i = Some m'\<rbrakk> \<Longrightarrow> m_Dir m' = DirIn \<and> m_Body m' = m_Body m"
    and "\<And>i m. \<lbrakk>sbox a i = Some m; mine m; m_Status m = StatusDelivered\<rbrakk> \<Longrightarrow> rbox b i \<noteq> None"
  shows "agree a b"
  using assms unfolding agree_def by blast

lemma agreeD:
  assumes "agree a b"
  shows "sinv a" "rinv b"
    and "e \<in> wire a \<Longrightarrow> \<exists>m. sbox a (e_ID e) = Some m \<and> mine m \<and> e_Body e = m_Body m"
    and "i \<in> acks b \<Longrightarrow> rbox b i \<noteq> None \<and> (\<exists>m. sbox a i = Some m \<and> mine m)"
    and "\<lbrakk>sbox a i = Some m; mine m; rbox b i = Some m'\<rbrakk> \<Longrightarrow> m_Dir m' = DirIn \<and> m_Body m' = m_Body m"
    and "\<lbrakk>sbox a i = Some m; mine m; m_Status m = StatusDelivered\<rbrakk> \<Longrightarrow> rbox b i \<noteq> None"
  using assms unfolding agree_def by blast+

lemma agree_compose:
  assumes "agree a b" "compose a m a'" "rbox b (m_ID m) = None"
  shows "agree a' b"
proof -
  note d = agreeD [OF assms(1)]
  note c = compose_new [OF d(1) assms(2)]
  show ?thesis
  proof (rule agreeI)
    show "sinv a'" "rinv b" using c d(2) by simp_all
    show "\<exists>m. sbox a' (e_ID e) = Some m \<and> mine m \<and> e_Body e = m_Body m" if "e \<in> wire a'" for e
      using d(3) [of e] that c by auto
    show "rbox b i \<noteq> None \<and> (\<exists>m. sbox a' i = Some m \<and> mine m)" if "i \<in> acks b" for i
      using d(4) [OF that] c by auto
    show "m_Dir m' = DirIn \<and> m_Body m' = m_Body m1" if "sbox a' i = Some m1" "mine m1" "rbox b i = Some m'" for i m1 m'
      using d(5) [of i m1 m'] that c assms(3) by (auto split: if_splits)
    show "rbox b i \<noteq> None" if "sbox a' i = Some m1" "mine m1" "m_Status m1 = StatusDelivered" for i m1
      using d(6) [of i m1] that c by (auto split: if_splits)
  qed
qed

lemma agree_retry:
  assumes "agree a b" "retry a a'"
  shows "agree a' b"
proof -
  note d = agreeD [OF assms(1)]
  note f = retry_frame [OF d(1) assms(2)]
  have fwd: "\<exists>m'. sbox a' i = Some m' \<and> m_Body m' = m_Body m \<and> mine m'" if "sbox a i = Some m" "mine m" for i m
    using f [THEN conjunct2, THEN conjunct2, THEN spec [of _ i]] that by (cases "sbox a' i") auto
  have bwd: "\<exists>m. sbox a i = Some m \<and> m_Body m' = m_Body m \<and> m_Status m' = m_Status m \<and> mine m"
    if "sbox a' i = Some m'" "mine m'" for i m'
    using f [THEN conjunct2, THEN conjunct2, THEN spec [of _ i]] that by (cases "sbox a i") auto
  show ?thesis
  proof (rule agreeI)
    show "sinv a'" "rinv b" using f d(2) by simp_all
    show "\<exists>m. sbox a' (e_ID e) = Some m \<and> mine m \<and> e_Body e = m_Body m" if "e \<in> wire a'" for e
    proof -
      have "\<exists>m. sbox a (e_ID e) = Some m \<and> mine m \<and> e_Body e = m_Body m"
        using d(3) [of e] retry_wire [OF d(1) assms(2) that] by blast
      with fwd show ?thesis by metis
    qed
    show "rbox b i \<noteq> None \<and> (\<exists>m. sbox a' i = Some m \<and> mine m)" if "i \<in> acks b" for i
      using d(4) [OF that] fwd by blast
    show "m_Dir m' = DirIn \<and> m_Body m' = m_Body m1" if "sbox a' i = Some m1" "mine m1" "rbox b i = Some m'" for i m1 m'
      using bwd [OF that(1,2)] d(5) [OF _ _ that(3)] by metis
    show "rbox b i \<noteq> None" if "sbox a' i = Some m1" "mine m1" "m_Status m1 = StatusDelivered" for i m1
      using bwd [OF that(1,2)] d(6) [of i] that(3) by metis
  qed
qed

lemma agree_arrive:
  assumes "agree a b" "e \<in> wire a" "arrive b e b'"
  shows "agree a b'"
proof -
  note d = agreeD [OF assms(1)]
  note bx = arrive_box [OF d(2) assms(3)] and ak = arrive_acks [OF d(2) assms(3)]
  obtain m0 where m0: "sbox a (e_ID e) = Some m0" "mine m0" "e_Body e = m_Body m0" using d(3) [OF assms(2)] by blast
  have keep: "rbox b' i \<noteq> None" if "rbox b i \<noteq> None" for i using bx that by auto
  show ?thesis
  proof (rule agreeI)
    show "sinv a" "rinv b'" using bx d(1) by simp_all
    show "\<exists>m. sbox a (e_ID e) = Some m \<and> mine m \<and> e_Body e = m_Body m" if "e \<in> wire a" for e
      by (rule d(3) [OF that])
    show "rbox b' i \<noteq> None \<and> (\<exists>m. sbox a i = Some m \<and> mine m)" if "i \<in> acks b'" for i
    proof (cases "i \<in> acks b")
      case True
      with d(4) keep show ?thesis by blast
    next
      case False
      with that ak have "i = e_ID e" "rbox b' i \<noteq> None" by auto
      with m0 show ?thesis by blast
    qed
    show "m_Dir m' = DirIn \<and> m_Body m' = m_Body m1" if "sbox a i = Some m1" "mine m1" "rbox b' i = Some m'" for i m1 m'
      using d(5) [OF that(1,2)] that bx m0 by (auto split: if_splits)
    show "rbox b' i \<noteq> None" if "sbox a i = Some m1" "mine m1" "m_Status m1 = StatusDelivered" for i m1
      by (rule keep [OF d(6) [OF that]])
  qed
qed

lemma agree_acked:
  assumes "agree a b" "i \<in> acks b" "acked a i a'"
  shows "agree a' b"
proof -
  note d = agreeD [OF assms(1)]
  note f = acked_frame [OF d(1) assms(3)]
  have bwd: "\<exists>m. sbox a j = Some m \<and> mine m \<and> m_Body m' = m_Body m \<and> (m_Status m' = m_Status m \<or> j = i)"
    if "sbox a' j = Some m'" "mine m'" for j m'
    using f [THEN conjunct2, THEN conjunct2, THEN spec [of _ j]] that by (cases "sbox a j") auto
  have fwd: "\<exists>m'. sbox a' j = Some m' \<and> mine m' \<and> m_Body m' = m_Body m" if "sbox a j = Some m" "mine m" for j m
    using f [THEN conjunct2, THEN conjunct2, THEN spec [of _ j]] that by auto
  show ?thesis
  proof (rule agreeI)
    show "sinv a'" "rinv b" using f d(2) by simp_all
    show "\<exists>m. sbox a' (e_ID e) = Some m \<and> mine m \<and> e_Body e = m_Body m" if "e \<in> wire a'" for e
    proof -
      have "e \<in> wire a" using f that by simp
      then obtain m where "sbox a (e_ID e) = Some m" "mine m" "e_Body e = m_Body m" using d(3) by blast
      with fwd show ?thesis by metis
    qed
    show "rbox b j \<noteq> None \<and> (\<exists>m. sbox a' j = Some m \<and> mine m)" if "j \<in> acks b" for j
      using d(4) [OF that] fwd by blast
    show "m_Dir m' = DirIn \<and> m_Body m' = m_Body m1" if "sbox a' j = Some m1" "mine m1" "rbox b j = Some m'" for j m1 m'
      using bwd [OF that(1,2)] d(5) [OF _ _ that(3)] by metis
    show "rbox b j \<noteq> None" if "sbox a' j = Some m1" "mine m1" "m_Status m1 = StatusDelivered" for j m1
      using bwd [OF that(1,2)] d(6) [of j] d(4) [OF assms(2)] that(3) by metis
  qed
qed

end

section \<open>The nodes as the two sides\<close>

definition addressed :: "env \<Rightarrow> string \<Rightarrow> message \<Rightarrow> bool" where
  "addressed E peer m \<longleftrightarrow> m_Dir m = DirOut \<and> EqualFold E (m_Peer m) peer"

definition sender_ok :: "env \<Rightarrow> string \<Rightarrow> nat \<Rightarrow> node \<Rightarrow> bool" where
  "sender_ok E peer l n \<longleftrightarrow> box_inv E (n_store n) \<and> l_peer (n_links n l) = peer \<and> peer \<noteq> []"

definition on_wire :: "nat \<Rightarrow> node \<Rightarrow> envelope set" where
  "on_wire l n = {e \<in> set (l_out (n_links n l)). e_T e = TypeMsg}"

definition acks_on_wire :: "nat \<Rightarrow> node \<Rightarrow> string set" where
  "acks_on_wire l n = e_ID ` {e \<in> set (l_out (n_links n l)). e_T e = TypeAck}"

text \<open>The steps, each with the clock, random bytes and network of its moment.\<close>

definition composes :: "env \<Rightarrow> node \<Rightarrow> message \<Rightarrow> node \<Rightarrow> bool" where
  "composes E n m n' \<longleftrightarrow> (\<exists>W to body replyTo i. w_env W = E \<and> nonce_ok (w_nonce W) \<and> mail_seq (n_store n) < - 1
     \<and> NewID (w_id W) = Inr i \<and> inbox E (n_store n) i = None \<and> SendReply W to body replyTo n = (n', Inr m))"

definition flushes :: "env \<Rightarrow> string \<Rightarrow> nat \<Rightarrow> node \<Rightarrow> node \<Rightarrow> bool" where
  "flushes E peer l n n' \<longleftrightarrow> (\<exists>W force. w_env W = E \<and> linkFor W n peer = Some l \<and> n' = flush W peer force n)"

definition gets_ack :: "env \<Rightarrow> nat \<Rightarrow> node \<Rightarrow> string \<Rightarrow> node \<Rightarrow> bool" where
  "gets_ack E l n i n' \<longleftrightarrow> (\<exists>W e. w_env W = E \<and> e_T e = TypeAck \<and> e_ID e = i \<and> n' = fst (handle W l e n))"

definition gets_message :: "env \<Rightarrow> nat \<Rightarrow> node \<Rightarrow> envelope \<Rightarrow> node \<Rightarrow> bool" where
  "gets_message E l n e n' \<longleftrightarrow> (\<exists>W. w_env W = E \<and> nonce_ok (w_nonce W) \<and> mail_seq (n_store n) < - 1
     \<and> e_T e = TypeMsg \<and> n' = fst (handle W l e n))"

lemma SendReply_new:
  assumes "SendReply W to body replyTo n = (n', Inr m)" "NewID (w_id W) = Inr i"
    and "box_inv (w_env W) (n_store n)" "nonce_ok (w_nonce W)" "mail_seq (n_store n) < - 1" "inbox (w_env W) (n_store n) i = None"
  shows "m_ID m = i" "m_Status m = StatusQueued" "inbox (w_env W) (n_store n') = (inbox (w_env W) (n_store n))(i \<mapsto> m)"
    "box_inv (w_env W) (n_store n')" "n_links n' = n_links n" "m_ReplyTo m = replyTo" "m_Dir m = DirOut"
    "m_Body m = body" "body \<noteq> [] \<and> length body \<le> MaxBody \<and> ValidString body"
proof -
  obtain p where p: "sendable_peer W n to = Inr p" and b: "\<not> (body = [] \<or> length body > MaxBody \<or> \<not> ValidString body)"
    using assms(1) by (cases "sendable_peer W n to") (auto simp: SendReply_def split: if_splits)
  let ?m = "message0\<lparr>m_ID := i, m_Peer := p_Name p, m_Dir := DirOut, m_Body := body, m_TS := w_now W,
               m_Status := StatusQueued, m_ReplyTo := replyTo\<rparr>"
  let ?m' = "?m\<lparr>m_Seq := mail_seq (n_store n) + 1\<rparr>"
  have new: "inbox (w_env W) (n_store n) (m_ID ?m) = None" using assms(6) by simp
  obtain s' where s': "AddMessage (w_env W) (w_nonce W) (n_store n) ?m = (s', Inr (?m', False))"
    "inbox (w_env W) s' = (inbox (w_env W) (n_store n))(i \<mapsto> ?m')" "box_inv (w_env W) s'"
    using assms(3-5) by (cases rule: AddMessage_cases [where m = ?m]) (use new in auto)
  have "m = ?m' \<and> n_store n' = s' \<and> n_links n' = n_links n"
    using assms(1,2) b p s'(1) by (auto simp: SendReply_def)
  with s'(2,3) show "m_ID m = i" "m_Status m = StatusQueued"
    "inbox (w_env W) (n_store n') = (inbox (w_env W) (n_store n))(i \<mapsto> m)"
    "box_inv (w_env W) (n_store n')" "n_links n' = n_links n" "m_ReplyTo m = replyTo" "m_Dir m = DirOut" "m_Body m = body" by simp_all
  show "body \<noteq> [] \<and> length body \<le> MaxBody \<and> ValidString body" using b by simp
qed

lemma flush_step:
  assumes "box_inv (w_env W) (n_store n)" "linkFor W n peer = Some l"
  obtains ps out rest where "Pending (w_env W) (n_store n) peer = Inr ps" "filter (due W n force) ps = out @ rest"
    "set ps = {m. inbox (w_env W) (n_store n) (m_ID m) = Some m \<and> wanted (w_env W) peer m}"
    "l_out (n_links (flush W peer force n) l) = l_out (n_links n l) @ map msg_envelope out"
    "rest = [] \<or> \<not> l_open (n_links (flush W peer force n) l)"
    "box_inv (w_env W) (n_store (flush W peer force n))" "only_retries (w_env W) (n_store n) (n_store (flush W peer force n))"
proof -
  obtain ps where ps: "Pending (w_env W) (n_store n) peer = Inr ps"
    "set ps = {m. inbox (w_env W) (n_store n) (m_ID m) = Some m \<and> wanted (w_env W) peer m}"
    by (rule Pending_eq [OF assms(1)]) blast
  have "flushed (w_env W) l (filter (due W n force) ps) n (flush_loop W l peer force ps n)"
    by (rule flush_loop_spec [OF assms(1)]) (simp add: ps(2))
  moreover have "flush W peer force n = flush_loop W l peer force ps n" by (simp add: flush_def assms(2) ps(1))
  ultimately show thesis using ps by (elim flushedD) (metis that)
qed

lemma retried_fields:
  "retried m m' \<Longrightarrow> m_Body m' = m_Body m \<and> m_Status m' = m_Status m \<and> addressed E peer m' = addressed E peer m"
  unfolding retried_def addressed_def by (cases m; cases m') simp

lemma set_link_handle_ack [simp]: "n_links (handle_ack W l e n) = n_links n"
  by (auto simp: handle_ack_def Let_def split: prod.split sum.split)

lemma store_handle_ack:
  "n_store (handle_ack W l e n) = fst (MarkDelivered (w_env W) (n_store n) (l_peer (n_links n l)) (e_ID e))"
  by (auto simp: handle_ack_def Let_def split: prod.split sum.split)

lemma handle_TypeAck: "e_T e = TypeAck \<Longrightarrow> handle W l e n = (handle_ack W l e n, True)"
  by (simp add: handle_def Let_def)

lemma l_peer_flush_loop: "l_peer (n_links (flush_loop W l peer force ms n) k) = l_peer (n_links n k)"
proof (induction ms arbitrary: n)
  case (Cons m ms)
  show ?case
  proof (cases "RecordAttempt (w_env W) (n_store n) (m_ID m) (w_now W)")
    case (Pair s' r)
    show ?thesis
      by (cases r; cases rule: send_cases [of W l "msg_envelope m" "n\<lparr>n_store := s'\<rparr>"]) (auto simp: Pair Cons.IH)
  qed
qed simp

lemma l_peer_flush: "l_peer (n_links (flush W peer force n) k) = l_peer (n_links n k)"
  by (simp add: flush_def l_peer_flush_loop split: option.split sum.split)

interpretation src: mail_sender "sender_ok E peer l" "\<lambda>n. inbox E (n_store n)" "on_wire l" "addressed E peer"
    "composes E" "flushes E peer l" "gets_ack E l" for E peer l
proof
  fix n m n'
  assume a: "sender_ok E peer l n" "composes E n m n'"
  then obtain W to body replyTo i where w: "w_env W = E" "nonce_ok (w_nonce W)" "mail_seq (n_store n) < - 1"
    "NewID (w_id W) = Inr i" "inbox E (n_store n) i = None" "SendReply W to body replyTo n = (n', Inr m)"
    by (auto simp: composes_def)
  have "box_inv (w_env W) (n_store n)" using a(1) w(1) by (simp add: sender_ok_def)
  note r = SendReply_new [OF w(6,4) this w(2,3), unfolded w(1), OF w(5)]
  show "sender_ok E peer l n' \<and> inbox E (n_store n) (m_ID m) = None
    \<and> inbox E (n_store n') = (inbox E (n_store n))(m_ID m \<mapsto> m) \<and> on_wire l n' = on_wire l n \<and> m_Status m \<noteq> StatusDelivered"
    using a(1) r w(5) by (simp add: sender_ok_def on_wire_def)
next
  fix n n'
  assume a: "sender_ok E peer l n" "flushes E peer l n n'"
  then obtain W force where w: "w_env W = E" "linkFor W n peer = Some l" "n' = flush W peer force n"
    by (auto simp: flushes_def)
  have b: "box_inv (w_env W) (n_store n)" using a(1) w(1) by (simp add: sender_ok_def)
  obtain ps out rest where "Pending E (n_store n) peer = Inr ps" and f: "filter (due W n force) ps = out @ rest"
    "set ps = {m. inbox E (n_store n) (m_ID m) = Some m \<and> wanted E peer m}"
    "l_out (n_links n' l) = l_out (n_links n l) @ map msg_envelope out"
    and "rest = [] \<or> \<not> l_open (n_links n' l)"
    and f2: "box_inv E (n_store n')" "only_retries E (n_store n) (n_store n')"
    by (rule flush_step [OF b w(2), of force, unfolded w(1), folded w(3)])
  have lp: "l_peer (n_links n' l) = l_peer (n_links n l)" unfolding w(3) by (rule l_peer_flush)
  have "rel_option (\<lambda>m m'. m_Body m' = m_Body m \<and> m_Status m' = m_Status m \<and> addressed E peer m' = addressed E peer m)
      (inbox E (n_store n) i) (inbox E (n_store n') i)" for i
    using f2(2) [unfolded only_retries_def, THEN spec [of _ i]] by (rule option.rel_mono_strong) (rule retried_fields)
  then show "sender_ok E peer l n' \<and> on_wire l n \<subseteq> on_wire l n' \<and> (\<forall>i. rel_option (\<lambda>m m'. m_Body m' = m_Body m
      \<and> m_Status m' = m_Status m \<and> addressed E peer m' = addressed E peer m) (inbox E (n_store n) i) (inbox E (n_store n') i))"
    using a(1) f(3) f2(1) lp by (auto simp: sender_ok_def on_wire_def)
  fix e
  assume "e \<in> on_wire l n'" "e \<notin> on_wire l n"
  then obtain m where m: "m \<in> set out" "e = msg_envelope m" using f(3) by (auto simp: on_wire_def)
  then have "m \<in> set (filter (due W n force) ps)" using f(1) by simp
  then have "inbox E (n_store n) (m_ID m) = Some m" "wanted E peer m" using f(2) by auto
  then show "\<exists>m. inbox E (n_store n) (e_ID e) = Some m \<and> addressed E peer m \<and> e_Body e = m_Body m"
    using m(2) a(1) by (auto simp: msg_envelope_def wanted_def addressed_def sender_ok_def)
next
  fix n i n'
  assume a: "sender_ok E peer l n" "gets_ack E l n i n'"
  then obtain W e where w: "w_env W = E" "e_T e = TypeAck" "e_ID e = i" "n' = handle_ack W l e n"
    by (auto simp: gets_ack_def handle_TypeAck)
  have b: "box_inv E (n_store n)" "l_peer (n_links n l) = peer" using a(1) by (simp_all add: sender_ok_def)
  have s: "n_store n' = fst (MarkDelivered E (n_store n) peer i)" by (simp add: w store_handle_ack b(2))
  have k: "n_links n' = n_links n" by (simp add: w(4))
  from b(1) show "sender_ok E peer l n' \<and> on_wire l n' = on_wire l n \<and> (\<forall>j. inbox E (n_store n') j = inbox E (n_store n) j
      \<or> j = i \<and> (\<exists>m. inbox E (n_store n) j = Some m \<and> addressed E peer m \<and> addressed E peer (m\<lparr>m_Status := StatusDelivered\<rparr>)
        \<and> inbox E (n_store n') j = Some (m\<lparr>m_Status := StatusDelivered\<rparr>)))"
  proof (cases rule: MarkDelivered_cases [where peer = peer and i = i])
    case 1
    then show ?thesis using a(1) s k by (simp add: sender_ok_def on_wire_def)
  next
    case (2 m s')
    then show ?thesis using a(1) s k by (auto simp: sender_ok_def on_wire_def addressed_def)
  qed
qed

interpretation dst: mail_receiver "\<lambda>n. box_inv E (n_store n)" "\<lambda>n. inbox E (n_store n)" "acks_on_wire l" "gets_message E l" for E l
proof
  fix n e n'
  assume a: "box_inv E (n_store n)" "gets_message E l n e n'"
  then obtain W where w: "w_env W = E" "nonce_ok (w_nonce W)" "mail_seq (n_store n) < - 1" "e_T e = TypeMsg"
    "n' = fst (handle_msg W l e n)"
    by (auto simp: gets_message_def handle_TypeMsg)
  have "box_inv E (n_store n') \<and> (inbox E (n_store n') = inbox E (n_store n) \<or> inbox E (n_store n) (e_ID e) = None
      \<and> (\<exists>m. inbox E (n_store n') = (inbox E (n_store n))(e_ID e \<mapsto> m) \<and> m_Dir m = DirIn \<and> m_Body m = e_Body e))
    \<and> (acks_on_wire l n' = acks_on_wire l n \<or> acks_on_wire l n' = insert (e_ID e) (acks_on_wire l n) \<and> inbox E (n_store n') (e_ID e) \<noteq> None)"
  proof (cases "l_msgCount (count_message (w_now W) (n_links n l)) > maxMsgPerSec")
    case True
    with handle_msg_limited [OF True, of e] a(1) w(5) show ?thesis by (simp add: acks_on_wire_def)
  next
    case False
    note h = handle_msg_stored [of W n, unfolded w(1), OF a(1) w(2,3) False, of e, folded w(5)]
    have "{x. (x = ack_envelope (e_ID e) \<or> x \<in> A) \<and> e_T x = TypeAck} = insert (ack_envelope (e_ID e)) {x \<in> A. e_T x = TypeAck}" for A
      by (auto simp: ack_envelope_def)
    then have "acks_on_wire l n' = acks_on_wire l n \<or> acks_on_wire l n' = insert (e_ID e) (acks_on_wire l n)"
      using h(3,4) by (cases "snd (handle_msg W l e n)") (simp_all add: acks_on_wire_def, simp add: ack_envelope_def)
    moreover have "inbox E (n_store n') (e_ID e) \<noteq> None" unfolding h(2) by (rule received_present)
    moreover have "inbox E (n_store n') = inbox E (n_store n) \<or> inbox E (n_store n) (e_ID e) = None
      \<and> (\<exists>m. inbox E (n_store n') = (inbox E (n_store n))(e_ID e \<mapsto> m) \<and> m_Dir m = DirIn \<and> m_Body m = e_Body e)"
      unfolding h(2) by (cases "inbox E (n_store n) (e_ID e)") (auto simp: received_def inbound_def)
    ultimately show ?thesis using h(1) by blast
  qed
  then show "box_inv E (n_store n') \<and> (inbox E (n_store n') = inbox E (n_store n) \<or> inbox E (n_store n) (e_ID e) = None
      \<and> (\<exists>m. inbox E (n_store n') = (inbox E (n_store n))(e_ID e \<mapsto> m) \<and> m_Dir m = DirIn \<and> m_Body m = e_Body e))"
    "acks_on_wire l n' = acks_on_wire l n \<or> acks_on_wire l n' = insert (e_ID e) (acks_on_wire l n) \<and> inbox E (n_store n') (e_ID e) \<noteq> None"
    by blast+
qed

interpretation net: delivery "sender_ok Ea peer la" "\<lambda>n. inbox Ea (n_store n)" "on_wire la" "addressed Ea peer"
    "composes Ea" "flushes Ea peer la" "gets_ack Ea la" "\<lambda>n. box_inv Eb (n_store n)" "\<lambda>n. inbox Eb (n_store n)"
    "acks_on_wire lb" "gets_message Eb lb" for Ea peer la Eb lb
  by unfold_locales

section \<open>Executions\<close>

text \<open>
  The two nodes and everything ever put on the wire between them. Any message or
  acknowledgement once sent may arrive at any later time, any number of times or never, so loss,
  delay, repetition and reordering are all among the executions; a broken session is replaced by
  a new one at any moment. A new message gets an id that occurs on neither side.
\<close>

definition reopen :: "nat \<Rightarrow> node \<Rightarrow> node" where
  "reopen l n = set_link l (\<lambda>k. k\<lparr>l_open := True, l_msgCount := 0, l_rateStart := time_zero\<rparr>) n"

inductive delivery_step :: "env \<Rightarrow> env \<Rightarrow> string \<Rightarrow> nat \<Rightarrow> nat \<Rightarrow> node \<times> node \<Rightarrow> node \<times> node \<Rightarrow> bool"
  for Ea Eb peer la lb where
    compose: "\<lbrakk>composes Ea a m a'; inbox Eb (n_store b) (m_ID m) = None\<rbrakk> \<Longrightarrow> delivery_step Ea Eb peer la lb (a, b) (a', b)"
  | flush: "flushes Ea peer la a a' \<Longrightarrow> delivery_step Ea Eb peer la lb (a, b) (a', b)"
  | arrive: "\<lbrakk>e \<in> on_wire la a; gets_message Eb lb b e b'\<rbrakk> \<Longrightarrow> delivery_step Ea Eb peer la lb (a, b) (a, b')"
  | ack: "\<lbrakk>i \<in> acks_on_wire lb b; gets_ack Ea la a i a'\<rbrakk> \<Longrightarrow> delivery_step Ea Eb peer la lb (a, b) (a', b)"
  | reconnect: "delivery_step Ea Eb peer la lb (a, b) (reopen la a, reopen lb b)"

inductive_cases delivery_stepE: "delivery_step Ea Eb peer la lb (a, b) y"

lemma agree_reopen: "net.agree Ea peer la Eb lb (reopen la a) (reopen lb b) = net.agree Ea peer la Eb lb a b"
  by (simp add: net.agree_def reopen_def sender_ok_def on_wire_def acks_on_wire_def)

lemma agree_step:
  assumes "delivery_step Ea Eb peer la lb (a, b) (a', b')" "net.agree Ea peer la Eb lb a b"
  shows "net.agree Ea peer la Eb lb a' b'"
  using assms(1)
proof (cases rule: delivery_step.cases)
  case (compose m)
  with assms(2) show ?thesis by (auto intro: net.agree_compose)
next
  case flush
  with assms(2) show ?thesis by (auto intro: net.agree_retry)
next
  case (arrive e)
  with assms(2) show ?thesis by (auto intro: net.agree_arrive)
next
  case (ack i)
  with assms(2) show ?thesis by (auto intro: net.agree_acked)
next
  case reconnect
  with assms(2) show ?thesis by (simp add: agree_reopen)
qed

lemma agree_reachable:
  assumes "(delivery_step Ea Eb peer la lb)\<^sup>*\<^sup>* (a, b) (a', b')" "net.agree Ea peer la Eb lb a b"
  shows "net.agree Ea peer la Eb lb a' b'"
  using assms
proof (induction "(a', b')" arbitrary: a' b' rule: rtranclp_induct)
  case (step y)
  then show ?case by (cases y) (auto intro: agree_step)
qed simp

text \<open>A conversation that starts: nothing of it is on the wire, delivered or known to the other side.\<close>

definition fresh_pair :: "env \<Rightarrow> env \<Rightarrow> string \<Rightarrow> nat \<Rightarrow> nat \<Rightarrow> node \<Rightarrow> node \<Rightarrow> bool" where
  "fresh_pair Ea Eb peer la lb a b \<longleftrightarrow> sender_ok Ea peer la a \<and> box_inv Eb (n_store b)
     \<and> l_out (n_links a la) = [] \<and> l_out (n_links b lb) = []
     \<and> (\<forall>i m. inbox Ea (n_store a) i = Some m \<longrightarrow> addressed Ea peer m
          \<longrightarrow> m_Status m \<noteq> StatusDelivered \<and> inbox Eb (n_store b) i = None)"

lemma agree_fresh: "fresh_pair Ea Eb peer la lb a b \<Longrightarrow> net.agree Ea peer la Eb lb a b"
  by (auto simp: fresh_pair_def net.agree_def on_wire_def acks_on_wire_def)

section \<open>A round over a working session\<close>

text \<open>
  One forced flush, the recipient's read loop over what it put on the wire, and the sender's read
  loop over the acknowledgements.
\<close>

definition delivery_round :: "world \<Rightarrow> world \<Rightarrow> nat \<Rightarrow> nat \<Rightarrow> string \<Rightarrow> node \<Rightarrow> node \<Rightarrow> node \<times> node" where
  "delivery_round Wa Wb la lb peer a b =
     (let a1 = flush Wa peer True a;
          sent = drop (length (l_out (n_links a la))) (l_out (n_links a1 la));
          b1 = fst (readLoop lb (map (Pair Wb) sent) b);
          back = drop (length (l_out (n_links b lb))) (l_out (n_links b1 lb))
      in (fst (readLoop la (map (Pair Wa) back) a1), b1))"

text \<open>Whatever a flush sends is a valid envelope.\<close>

lemma flush_loop_valid:
  "\<exists>es. l_out (n_links (flush_loop W l peer force ms n) k) = l_out (n_links n k) @ es \<and> (\<forall>e\<in>set es. validate e = Inr ())"
proof (induction ms arbitrary: n)
  case (Cons m ms)
  obtain s' r where ra: "RecordAttempt (w_env W) (n_store n) (m_ID m) (w_now W) = (s', r)" by (rule prod.exhaust)
  show ?case
  proof (cases rule: send_cases [of W l "msg_envelope m" "n\<lparr>n_store := s'\<rparr>"])
    case sent
    let ?n = "\<lambda>ev. emit ev (set_link l (\<lambda>k. k\<lparr>l_out := l_out k @ [msg_envelope m]\<rparr>) (n\<lparr>n_store := s'\<rparr>))"
    have "\<exists>es. l_out (n_links (flush_loop W l peer force ms (?n ev)) k) = l_out (n_links n k) @ es \<and> (\<forall>e\<in>set es. validate e = Inr ())" for ev
    proof -
      obtain es where "l_out (n_links (flush_loop W l peer force ms (?n ev)) k) = l_out (n_links (?n ev) k) @ es"
        "\<forall>e\<in>set es. validate e = Inr ()" using Cons.IH by blast
      with sent(2) show ?thesis by (intro exI [of _ "(if k = l then [msg_envelope m] else []) @ es"]) auto
    qed
    then show ?thesis using Cons.IH [of "n\<lparr>n_store := s'\<rparr>"] Cons.IH [of n] by (cases r) (simp_all add: ra sent(1))
  next
    case (failed er)
    then show ?thesis using Cons.IH [of "n\<lparr>n_store := s'\<rparr>"] Cons.IH [of n] by (cases r) (auto simp: ra)
  qed
qed simp

lemma flush_valid:
  "\<exists>es. l_out (n_links (flush W peer force n) k) = l_out (n_links n k) @ es \<and> (\<forall>e\<in>set es. validate e = Inr ())"
  using flush_loop_valid by (auto simp: flush_def split: option.split sum.split)

lemma flush_loop_open:
  "\<lbrakk>l_open (n_links n l); \<And>e. w_tx W l e = Inr (); \<forall>m\<in>set ms. validate (msg_envelope m) = Inr ()\<rbrakk> \<Longrightarrow>
   l_open (n_links (flush_loop W l peer force ms n) l)"
proof (induction ms arbitrary: n)
  case (Cons m ms)
  show ?case
  proof (cases "RecordAttempt (w_env W) (n_store n) (m_ID m) (w_now W)")
    case (Pair s' r)
    have "send W l (msg_envelope m) (n\<lparr>n_store := s'\<rparr>)
        = (set_link l (\<lambda>k. k\<lparr>l_out := l_out k @ [msg_envelope m]\<rparr>) (n\<lparr>n_store := s'\<rparr>), Inr ())"
      by (rule send_ok) (use Cons.prems in simp_all)
    with Cons show ?thesis by (cases r) (auto simp: Pair)
  qed
qed simp

lemma flush_all_sent:
  assumes "box_inv (w_env W) (n_store n)" "linkFor W n peer = Some l" "l_open (n_links n l)" "\<And>e. w_tx W l e = Inr ()"
    and "\<And>m. \<lbrakk>inbox (w_env W) (n_store n) (m_ID m) = Some m; wanted (w_env W) peer m\<rbrakk> \<Longrightarrow> validate (msg_envelope m) = Inr ()"
  obtains ps where "Pending (w_env W) (n_store n) peer = Inr ps"
    "set ps = {m. inbox (w_env W) (n_store n) (m_ID m) = Some m \<and> wanted (w_env W) peer m}"
    "l_out (n_links (flush W peer True n) l) = l_out (n_links n l) @ map msg_envelope ps"
    "box_inv (w_env W) (n_store (flush W peer True n))" "only_retries (w_env W) (n_store n) (n_store (flush W peer True n))"
proof -
  obtain ps out rest where f: "Pending (w_env W) (n_store n) peer = Inr ps" "filter (due W n True) ps = out @ rest"
    "set ps = {m. inbox (w_env W) (n_store n) (m_ID m) = Some m \<and> wanted (w_env W) peer m}"
    "l_out (n_links (flush W peer True n) l) = l_out (n_links n l) @ map msg_envelope out"
    "rest = [] \<or> \<not> l_open (n_links (flush W peer True n) l)"
    "box_inv (w_env W) (n_store (flush W peer True n))" "only_retries (w_env W) (n_store n) (n_store (flush W peer True n))"
    by (rule flush_step [OF assms(1,2), of True])
  have "l_open (n_links (flush_loop W l peer True ps n) l)"
    by (rule flush_loop_open [OF assms(3,4)]) (use assms(5) f(3) in simp)
  then have "l_open (n_links (flush W peer True n) l)" by (simp add: flush_def assms(2) f(1))
  moreover have "filter (due W n True) ps = ps" by (simp add: due_def)
  ultimately show thesis using f that by simp
qed

lemma count_message_le: "0 \<le> l_msgCount k \<Longrightarrow> 0 \<le> l_msgCount (count_message t k) \<and> l_msgCount (count_message t k) \<le> l_msgCount k + 1"
  by (simp add: count_message_def Let_def)

lemma handle_msg_answered:
  fixes W n
  assumes "box_inv (w_env W) (n_store n)" "nonce_ok (w_nonce W)" "mail_seq (n_store n) < - 1"
    and "l_open (n_links n l)" "\<And>e. w_tx W l e = Inr ()" "checkID (e_ID e) = Inr ()" "e_T e = TypeMsg"
    and "0 \<le> l_msgCount (n_links n l)" "l_msgCount (n_links n l) < 100"
  obtains n' where "handle W l e n = (n', True)" "box_inv (w_env W) (n_store n')" "l_open (n_links n' l)"
    "l_out (n_links n' l) = l_out (n_links n l) @ [ack_envelope (e_ID e)]"
    "inbox (w_env W) (n_store n') = received (inbox (w_env W) (n_store n)) (e_ID e)
        ((inbound W n l e)\<lparr>m_Seq := mail_seq (n_store n) + 1\<rparr>)"
    "mail_seq (n_store n') \<in> {mail_seq (n_store n), mail_seq (n_store n) + 1}"
    "0 \<le> l_msgCount (n_links n' l)" "l_msgCount (n_links n' l) \<le> l_msgCount (n_links n l) + 1"
proof -
  note c = count_message_le [OF assms(8), of "w_now W"]
  have nl: "\<not> l_msgCount (count_message (w_now W) (n_links n l)) > maxMsgPerSec" using c assms(9) by (simp add: maxMsgPerSec_def)
  note st = handle_msg_stored [OF assms(1-3) nl, of e]
  have v: "validate (ack_envelope (e_ID e)) = Inr ()"
    using assms(6) by (simp add: validate_def ack_envelope_def envelope0_def require_def)
  have "snd (handle_msg W l e n) \<and> l_open (n_links (fst (handle_msg W l e n)) l)"
  proof -
    obtain s' m dup where s': "AddMessage (w_env W) (w_nonce W) (n_store n) (inbound W n l e) = (s', Inr (m, dup))"
      using assms(1-3) by (cases rule: AddMessage_cases [where m = "inbound W n l e"]) auto
    have i: "inbound W (set_link l (count_message (w_now W)) n) l e = inbound W n l e" by (simp add: inbound_def)
    have "send W l (ack_envelope (e_ID e)) (set_link l (count_message (w_now W)) n\<lparr>n_store := s'\<rparr>)
        = (set_link l (\<lambda>k. k\<lparr>l_out := l_out k @ [ack_envelope (e_ID e)]\<rparr>) (set_link l (count_message (w_now W)) n\<lparr>n_store := s'\<rparr>), Inr ())"
      by (rule send_ok [OF _ v]) (use assms(4,5) in simp_all)
    then show ?thesis using nl s' i assms(4) by (simp add: handle_msg_def Let_def ack_envelope_def)
  qed
  then have ok: "snd (handle_msg W l e n)" "l_open (n_links (fst (handle_msg W l e n)) l)" by simp_all
  show thesis
    by (rule that [of "fst (handle_msg W l e n)"])
      (use ok st c in \<open>simp_all add: handle_TypeMsg [OF assms(7)] prod_eq_iff\<close>)
qed

lemma receive_all:
  assumes "box_inv (w_env W) (n_store n)" "nonce_ok (w_nonce W)" "unat (mail_seq (n_store n)) + length es < 2 ^ 64"
    and "l_open (n_links n l)" "\<And>e. w_tx W l e = Inr ()" "\<forall>e\<in>set es. e_T e = TypeMsg \<and> checkID (e_ID e) = Inr ()"
    and "0 \<le> l_msgCount (n_links n l)" "l_msgCount (n_links n l) + int (length es) \<le> 100"
  shows "\<exists>n'. readLoop l (map (Pair W) es) n = (n', True) \<and> box_inv (w_env W) (n_store n')
    \<and> l_out (n_links n' l) = l_out (n_links n l) @ map (\<lambda>e. ack_envelope (e_ID e)) es
    \<and> (\<forall>i. inbox (w_env W) (n_store n) i \<noteq> None \<or> i \<in> e_ID ` set es \<longrightarrow> inbox (w_env W) (n_store n') i \<noteq> None)"
  using assms(1,3,4,6-8)
proof (induction es arbitrary: n)
  case (Cons e es)
  have room: "mail_seq (n_store n) < - 1" using Cons.prems(2) by (intro mail_room [of _ "length es"]) simp
  obtain n1 where n1: "handle W l e n = (n1, True)" "box_inv (w_env W) (n_store n1)" "l_open (n_links n1 l)"
    "l_out (n_links n1 l) = l_out (n_links n l) @ [ack_envelope (e_ID e)]"
    "inbox (w_env W) (n_store n1) = received (inbox (w_env W) (n_store n)) (e_ID e)
        ((inbound W n l e)\<lparr>m_Seq := mail_seq (n_store n) + 1\<rparr>)"
    "mail_seq (n_store n1) \<in> {mail_seq (n_store n), mail_seq (n_store n) + 1}"
    "0 \<le> l_msgCount (n_links n1 l)" "l_msgCount (n_links n1 l) \<le> l_msgCount (n_links n l) + 1"
    by (rule handle_msg_answered [of W n l e]) (use Cons.prems assms(2,5) room in simp_all)
  have seq: "unat (mail_seq (n_store n1)) + length es < 2 ^ 64"
    by (rule mail_room_step [OF _ n1(6)]) (use Cons.prems(2) in simp)
  have keep: "inbox (w_env W) (n_store n1) i \<noteq> None" if "inbox (w_env W) (n_store n) i \<noteq> None \<or> i = e_ID e" for i
    using that unfolding n1(5) by (auto simp: received_def split: option.split)
  from Cons.IH [OF n1(2) seq n1(3) _ n1(7)] Cons.prems(4,6) n1(8) obtain n2 where
    n2: "readLoop l (map (Pair W) es) n1 = (n2, True)" "box_inv (w_env W) (n_store n2)"
      "l_out (n_links n2 l) = l_out (n_links n1 l) @ map (\<lambda>e. ack_envelope (e_ID e)) es"
      "\<forall>i. inbox (w_env W) (n_store n1) i \<noteq> None \<or> i \<in> e_ID ` set es \<longrightarrow> inbox (w_env W) (n_store n2) i \<noteq> None"
    by auto
  have "inbox (w_env W) (n_store n2) i \<noteq> None" if "inbox (w_env W) (n_store n) i \<noteq> None \<or> i \<in> e_ID ` set (e # es)" for i
    using that keep [of i] n2(4) by auto
  with n1(1,4) n2(1-3) show ?case by simp
qed simp

lemma MarkDelivered_box:
  fixes E s peer j
  assumes "box_inv E s"
  defines "s' \<equiv> fst (MarkDelivered E s peer j)"
  shows "box_inv E s' \<and> (\<forall>i. inbox E s' i = map_option (\<lambda>m.
    if i = j \<and> undelivered m \<and> EqualFold E (m_Peer m) peer then m\<lparr>m_Status := StatusDelivered\<rparr> else m) (inbox E s i))"
proof (cases "\<exists>m. inbox E s j = Some m \<and> undelivered m \<and> EqualFold E (m_Peer m) peer")
  case True
  then obtain m where m: "inbox E s j = Some m" "undelivered m" "EqualFold E (m_Peer m) peer" by blast
  obtain t where "MarkDelivered E s peer j = (t, Inr (m\<lparr>m_Status := StatusDelivered\<rparr>, True))" "box_inv E t"
    "inbox E t = (inbox E s)(j \<mapsto> m\<lparr>m_Status := StatusDelivered\<rparr>)"
    by (rule MarkDelivered_first [OF assms(1) m])
  with m show ?thesis by (auto simp: s'_def option.map_ident)
next
  case False
  have "s' = s"
  proof (cases "inbox E s j")
    case None
    then show ?thesis by (simp add: s'_def MarkDelivered_none)
  next
    case (Some m)
    with False show ?thesis
      using MarkDelivered_foreign [OF assms(1) Some, of peer] MarkDelivered_again [OF assms(1) Some, of peer]
      by (cases "m_Dir m = DirOut \<and> EqualFold E (m_Peer m) peer") (simp_all add: s'_def)
  qed
  moreover have "map_option (\<lambda>m. if i = j \<and> undelivered m \<and> EqualFold E (m_Peer m) peer then m\<lparr>m_Status := StatusDelivered\<rparr> else m)
      (inbox E s i) = inbox E s i" for i
    using False by (cases "inbox E s i") auto
  ultimately show ?thesis using assms(1) by simp
qed

text \<open>The mailbox after a list of acknowledgements.\<close>

lemma acks_all:
  assumes "box_inv (w_env W) (n_store n)" "l_peer (n_links n l) = peer"
  shows "\<exists>n'. readLoop l (map (Pair W) (map ack_envelope is)) n = (n', True) \<and> box_inv (w_env W) (n_store n')
    \<and> (\<forall>i. inbox (w_env W) (n_store n') i = map_option (\<lambda>m.
         if i \<in> set is \<and> undelivered m \<and> EqualFold (w_env W) (m_Peer m) peer then m\<lparr>m_Status := StatusDelivered\<rparr> else m)
         (inbox (w_env W) (n_store n) i))"
  using assms
proof (induction "is" arbitrary: n)
  case Nil
  then show ?case by (simp add: option.map_ident)
next
  case (Cons j js)
  let ?n = "handle_ack W l (ack_envelope j) n" and ?E = "w_env W"
  let ?u = "\<lambda>A m. if A \<and> undelivered m \<and> EqualFold ?E (m_Peer m) peer then m\<lparr>m_Status := StatusDelivered\<rparr> else m"
  have h: "handle W l (ack_envelope j) n = (?n, True)" by (rule handle_TypeAck) (simp add: ack_envelope_def)
  have s: "n_store ?n = fst (MarkDelivered ?E (n_store n) peer j)"
    using Cons.prems(2) by (simp add: store_handle_ack ack_envelope_def)
  have one: "box_inv ?E (n_store ?n) \<and> (\<forall>i. inbox ?E (n_store ?n) i = map_option (?u (i = j)) (inbox ?E (n_store n) i))"
    using MarkDelivered_box [OF Cons.prems(1), of peer j] unfolding s by simp
  have "\<exists>n'. readLoop l (map (Pair W) (map ack_envelope js)) ?n = (n', True) \<and> box_inv ?E (n_store n')
    \<and> (\<forall>i. inbox ?E (n_store n') i = map_option (?u (i \<in> set js)) (inbox ?E (n_store ?n) i))"
    by (rule Cons.IH) (use one Cons.prems(2) in simp_all)
  then obtain n' where n': "readLoop l (map (Pair W) (map ack_envelope js)) ?n = (n', True)" "box_inv ?E (n_store n')"
    "\<forall>i. inbox ?E (n_store n') i = map_option (?u (i \<in> set js)) (inbox ?E (n_store ?n) i)" by blast
  have "inbox ?E (n_store n') i = map_option (?u (i \<in> set (j # js))) (inbox ?E (n_store n) i)" for i
    using n'(3) one by (cases "inbox ?E (n_store n) i") auto
  with n'(1,2) h show ?case by simp
qed

section \<open>Properties\<close>

text \<open>
  C2. Delivered means stored by the other side, whatever the network does: in every reachable
  state, a message that the sender's store shows as delivered is in the recipient's store, as an
  incoming message with the same text; and whatever the recipient has under the id of a message
  sent to it is that message. The steps are composing, flushing, the arrival of a message or an
  acknowledgement that was put on the wire at any time before, and reconnecting; neither side
  deletes messages, and other peers do not interfere.
\<close>

theorem delivered_means_stored:
  assumes "fresh_pair Ea Eb peer la lb a0 b0" "(delivery_step Ea Eb peer la lb)\<^sup>*\<^sup>* (a0, b0) (a, b)"
    and "inbox Ea (n_store a) i = Some m" "m_Dir m = DirOut" "EqualFold Ea (m_Peer m) peer"
  shows "(m_Status m = StatusDelivered \<longrightarrow> inbox Eb (n_store b) i \<noteq> None)
    \<and> (\<forall>m'. inbox Eb (n_store b) i = Some m' \<longrightarrow> m_Dir m' = DirIn \<and> m_Body m' = m_Body m)"
  using net.agreeD(5,6) [OF agree_reachable [OF assms(2) agree_fresh [OF assms(1)]], of i m] assms(3-5)
  by (auto simp: addressed_def)

text \<open>Every pending message, retried and then acknowledged, is delivered; nothing else was pending.\<close>

lemma retried_then_acked:
  assumes set_ps: "set ps = {m. inbox E s (m_ID m) = Some m \<and> wanted E peer m}" and retries: "only_retries E s s1"
    and acked: "\<forall>i. inbox E s2 i = map_option (\<lambda>m. if i \<in> set (map m_ID ps) \<and> undelivered m \<and> EqualFold E (m_Peer m) peer
        then m\<lparr>m_Status := StatusDelivered\<rparr> else m) (inbox E s1 i)"
    and peer: "peer \<noteq> []"
  shows "m \<in> set ps \<Longrightarrow> \<exists>m'. inbox E s2 (m_ID m) = Some m' \<and> m_Status m' = StatusDelivered \<and> m_Body m' = m_Body m"
    and "\<not> (inbox E s2 (m_ID m) = Some m \<and> wanted E peer m)"
proof -
  have del: "\<exists>m'. inbox E s2 (m_ID m) = Some m' \<and> m_Status m' = StatusDelivered \<and> m_Body m' = m_Body m" if "m \<in> set ps" for m
  proof -
    have m: "inbox E s (m_ID m) = Some m" "undelivered m" "EqualFold E (m_Peer m) peer"
      using that peer by (auto simp: set_ps wanted_def)
    obtain m1 where m1: "inbox E s1 (m_ID m) = Some m1" "retried m m1"
      using retries [unfolded only_retries_def, THEN spec [of _ "m_ID m"]] m(1) by (auto simp: option_rel_Some1)
    then have "undelivered m1" "EqualFold E (m_Peer m1) peer" "m_Body m1 = m_Body m"
      using m(2,3) unfolding retried_def by (cases m; cases m1; simp)+
    then show ?thesis using acked that m1(1) by auto
  qed
  show "m \<in> set ps \<Longrightarrow> \<exists>m'. inbox E s2 (m_ID m) = Some m' \<and> m_Status m' = StatusDelivered \<and> m_Body m' = m_Body m" by (rule del)
  show "\<not> (inbox E s2 (m_ID m) = Some m \<and> wanted E peer m)"
  proof
    assume w: "inbox E s2 (m_ID m) = Some m \<and> wanted E peer m"
    obtain m1 where m1: "inbox E s1 (m_ID m) = Some m1" using acked w by (cases "inbox E s1 (m_ID m)") auto
    obtain m0 where m0: "inbox E s (m_ID m) = Some m0" "retried m0 m1"
      using retries [unfolded only_retries_def, THEN spec [of _ "m_ID m"]] m1 by (auto simp: option_rel_Some2)
    have u: "undelivered m" "EqualFold E (m_Peer m) peer" using w peer by (auto simp: wanted_def)
    have "m = m1" using acked w m1 u(1) by (auto split: if_splits)
    then have "m_ID m0 = m_ID m" "undelivered m0" "EqualFold E (m_Peer m0) peer"
      using m0(2) u unfolding retried_def by (cases m0; cases m1; simp)+
    then have "m0 \<in> set ps" using m0(1) by (simp add: set_ps wanted_def)
    from del [OF this] w \<open>m_ID m0 = m_ID m\<close> u(1) show False by auto
  qed
qed

text \<open>Of what \<open>SendReply\<close> queues, exactly a reply to something that is not an id cannot be sent.\<close>

lemma queued_envelope_valid:
  assumes "SendReply W to body replyTo n = (n', Inr m)" "NewID (w_id W) = Inr i"
    and "box_inv (w_env W) (n_store n)" "nonce_ok (w_nonce W)" "mail_seq (n_store n) < - 1" "inbox (w_env W) (n_store n) i = None"
  shows "validate (msg_envelope m) = Inr () \<longleftrightarrow> replyTo = [] \<or> checkID replyTo = Inr ()"
proof -
  note r = SendReply_new [OF assms]
  have "m_Body m = body \<and> body \<noteq> [] \<and> length body \<le> MaxBody \<and> ValidString body" using r(8,9) by simp
  then show ?thesis using r(1,6) checkID_NewID [OF assms(2)]
    by (auto simp: validate_def msg_envelope_def envelope0_def optional_def)
qed

text \<open>
  C22. Over a working session everything that can be sent gets through: a forced flush, the
  recipient's read loop and the acknowledgements leave nothing pending for that peer; every
  message that was pending is stored on the recipient's side and shown as delivered on the
  sender's. Two things are asked of what is pending. Each message makes a valid envelope; by
  \<open>queued_envelope_valid\<close> only a reply to something that is not an id does not, and
  \<open>bad_reply_blocks_peer\<close> shows what becomes of that one. And there are no more than the
  recipient's rate limit still lets through, which is 100 a second; beyond it the session is
  closed.
\<close>

theorem round_delivers_all:
  assumes "box_inv (w_env Wa) (n_store a)" "linkFor Wa a peer = Some la" "l_peer (n_links a la) = peer" "peer \<noteq> []"
    and "l_open (n_links a la)" "\<forall>e. w_tx Wa la e = Inr ()"
    and "Pending (w_env Wa) (n_store a) peer = Inr ps" "\<forall>m\<in>set ps. validate (msg_envelope m) = Inr ()"
    and "box_inv (w_env Wb) (n_store b)" "nonce_ok (w_nonce Wb)" "unat (mail_seq (n_store b)) + length ps < 2 ^ 64"
    and "l_open (n_links b lb)" "\<forall>e. w_tx Wb lb e = Inr ()"
    and "0 \<le> l_msgCount (n_links b lb)" "l_msgCount (n_links b lb) + int (length ps) \<le> 100"
  shows "case delivery_round Wa Wb la lb peer a b of (a', b') \<Rightarrow>
    Pending (w_env Wa) (n_store a') peer = Inr []
    \<and> (\<forall>m\<in>set ps. inbox (w_env Wb) (n_store b') (m_ID m) \<noteq> None
        \<and> (\<exists>m'. inbox (w_env Wa) (n_store a') (m_ID m) = Some m' \<and> m_Status m' = StatusDelivered \<and> m_Body m' = m_Body m))"
proof -
  let ?E = "w_env Wa" and ?a1 = "flush Wa peer True a" and ?es = "map msg_envelope ps"
  have set_ps: "set ps = {m. inbox ?E (n_store a) (m_ID m) = Some m \<and> wanted ?E peer m}"
    by (rule Pending_eq [OF assms(1), of peer]) (use assms(7) in simp)
  have f: "l_out (n_links ?a1 la) = l_out (n_links a la) @ ?es" "box_inv ?E (n_store ?a1)" "only_retries ?E (n_store a) (n_store ?a1)"
    by (rule flush_all_sent [OF assms(1,2,5) assms(6) [rule_format]]; use assms(7,8) set_ps in force)+
  have es: "\<forall>e\<in>set ?es. e_T e = TypeMsg \<and> checkID (e_ID e) = Inr ()"
    using assms(8) by (auto simp: msg_envelope_def validate_def)
  have n: "length ?es = length ps" by simp
  obtain b1 where b1: "readLoop lb (map (Pair Wb) ?es) b = (b1, True)"
    "l_out (n_links b1 lb) = l_out (n_links b lb) @ map (\<lambda>e. ack_envelope (e_ID e)) ?es"
    "\<forall>i. inbox (w_env Wb) (n_store b) i \<noteq> None \<or> i \<in> e_ID ` set ?es \<longrightarrow> inbox (w_env Wb) (n_store b1) i \<noteq> None"
    using receive_all [OF assms(9,10) assms(11) [folded n] assms(12) assms(13) [rule_format] es assms(14) assms(15) [folded n]] by blast
  have bk: "map (\<lambda>e. ack_envelope (e_ID e)) ?es = map ack_envelope (map m_ID ps)" by (simp add: msg_envelope_def)
  obtain a2 where a2: "readLoop la (map (Pair Wa) (map ack_envelope (map m_ID ps))) ?a1 = (a2, True)" "box_inv ?E (n_store a2)"
    "\<forall>i. inbox ?E (n_store a2) i = map_option (\<lambda>m. if i \<in> set (map m_ID ps) \<and> undelivered m \<and> EqualFold ?E (m_Peer m) peer
        then m\<lparr>m_Status := StatusDelivered\<rparr> else m) (inbox ?E (n_store ?a1) i)"
    using acks_all [OF f(2), of la peer "map m_ID ps"] assms(3) l_peer_flush by metis
  have dl: "drop (length xs) (xs @ ys) = ys" for xs ys :: "envelope list" by simp
  have r: "delivery_round Wa Wb la lb peer a b = (a2, b1)"
    by (simp only: delivery_round_def Let_def f(1) dl b1(1,2) fst_conv bk a2(1))
  note del = retried_then_acked(1) [OF set_ps f(3) a2(3) assms(4)] and none = retried_then_acked(2) [OF set_ps f(3) a2(3) assms(4)]
  obtain qs where qs: "Pending ?E (n_store a2) peer = Inr qs" "set qs = {m. inbox ?E (n_store a2) (m_ID m) = Some m \<and> wanted ?E peer m}"
    by (rule Pending_eq [OF a2(2), of peer]) blast
  have "set qs = {}" using none unfolding qs(2) by blast
  with qs(1) have "Pending ?E (n_store a2) peer = Inr []" by simp
  moreover have "inbox (w_env Wb) (n_store b1) (m_ID m) \<noteq> None" if "m \<in> set ps" for m
    by (rule b1(3) [rule_format], rule disjI2, rule image_eqI [of _ _ "msg_envelope m"]) (use that in \<open>simp_all add: msg_envelope_def\<close>)
  ultimately show ?thesis using r del by auto
qed

text \<open>
  A message written as a reply to something that is not an id is accepted and queued, but no
  session can ever carry it: every forced flush closes the session at that message, so neither it
  nor anything queued after it reaches the peer, and it is still queued for the next session.
\<close>

theorem bad_reply_blocks_peer:
  assumes "SendReply W to body replyTo n = (n1, Inr m)" "NewID (w_id W) = Inr i" "replyTo \<noteq> []" "checkID replyTo \<noteq> Inr ()"
    and "box_inv (w_env W) (n_store n)" "nonce_ok (w_nonce W)" "mail_seq (n_store n) < - 1" "inbox (w_env W) (n_store n) i = None"
    and "only_retries (w_env W) (n_store n1) (n_store n2)" "box_inv (w_env W) (n_store n2)"
    and "w_env W2 = w_env W" "linkFor W2 n2 (m_Peer m) = Some l" "m_Peer m \<noteq> []"
  shows "\<not> l_open (n_links (flush W2 (m_Peer m) True n2) l)
    \<and> (\<forall>e\<in>set (l_out (n_links (flush W2 (m_Peer m) True n2) l)). e \<in> set (l_out (n_links n2 l)) \<or> e_ID e \<noteq> i)
    \<and> only_retries (w_env W) (n_store n1) (n_store (flush W2 (m_Peer m) True n2))
    \<and> box_inv (w_env W) (n_store (flush W2 (m_Peer m) True n2))"
proof -
  let ?E = "w_env W" and ?n3 = "flush W2 (m_Peer m) True n2"
  note sr = SendReply_new [OF assms(1,2,5-8)]
  obtain m2 where m2: "inbox ?E (n_store n2) i = Some m2" "retried m m2"
    using assms(9) [unfolded only_retries_def, THEN spec [of _ i]] sr(3) by (auto simp: option_rel_Some1)
  then have f2: "m_ID m2 = i" "m_ReplyTo m2 = replyTo" "wanted ?E (m_Peer m) m2"
    using sr(1,2,6,7) assms(13) unfolding retried_def wanted_def by (cases m; cases m2; simp)+
  have bad: "validate (msg_envelope m2) \<noteq> Inr ()"
    using assms(3,4) f2(2) by (auto simp: validate_def msg_envelope_def optional_def)
  obtain ps out rest where f: "filter (due W2 n2 True) ps = out @ rest"
    "set ps = {m'. inbox ?E (n_store n2) (m_ID m') = Some m' \<and> wanted ?E (m_Peer m) m'}"
    "l_out (n_links ?n3 l) = l_out (n_links n2 l) @ map msg_envelope out"
    "rest = [] \<or> \<not> l_open (n_links ?n3 l)" "box_inv ?E (n_store ?n3)" "only_retries ?E (n_store n2) (n_store ?n3)"
    by (rule flush_step [of W2 n2 "m_Peer m" l True, unfolded assms(11), OF assms(10,12)]) blast
  have ps: "ps = out @ rest" using f(1) by (simp add: due_def)
  have valid: "validate e = Inr ()" if "e \<in> set (map msg_envelope out)" for e
    using flush_valid [of W2 "m_Peer m" True n2 l] that unfolding f(3) by auto
  have m2ps: "m2 \<in> set ps" using m2(1) f2 by (simp add: f(2))
  then have "m2 \<in> set rest" using ps valid [of "msg_envelope m2"] bad by auto
  then have "rest \<noteq> []" by auto
  have ni: "m_ID m' \<noteq> i" if "m' \<in> set out" for m'
  proof
    assume "m_ID m' = i"
    moreover have "m' \<in> set ps" using that ps by simp
    ultimately have "m' = m2" using m2(1) unfolding f(2) by simp
    with that valid [of "msg_envelope m2"] bad show False by simp
  qed
  have "\<forall>e\<in>set (map msg_envelope out). e_ID e \<noteq> i" using ni by (fastforce simp: msg_envelope_def)
  with \<open>rest \<noteq> []\<close> show ?thesis using f(3-6) only_retries_trans [OF assms(9)] by auto
qed

section \<open>Concrete nodes\<close>

definition sample_ID :: string where "sample_ID = hex_EncodeToString (replicate 16 CHR ''a'')"

lemma sample_ID [simp]: "checkID sample_ID = Inr ()"
  by (simp add: sample_ID_def checkID_def require_def IDLen_def)

definition sample_recipient :: node where "sample_recipient = sample_online\<lparr>n_store := sample_store\<rparr>"

lemma sample_recipient:
  "n_store sample_recipient = sample_store"
  "n_links sample_recipient 0 = link0\<lparr>l_peer := ''Bob'', l_open := True, l_caps := LocalCaps\<rparr>"
  using sample_online(3) by (simp_all add: sample_recipient_def)

lemma link0_fields: "l_out link0 = []" "l_msgCount link0 = 0"
  by (simp_all add: link0_def)

definition sample_queued :: message where "sample_queued = sample_msg\<lparr>m_ID := sample_ID\<rparr>"

definition sample_writer :: node where
  "sample_writer = sample_online\<lparr>n_store := fst (AddMessage sample_env sample_nonce sample_store sample_queued)\<rparr>"

lemma sample_writer:
  "box_inv sample_env (n_store sample_writer)" "inbox sample_env (n_store sample_writer) = [sample_ID \<mapsto> sample_queued\<lparr>m_Seq := 1\<rparr>]"
  "linkFor sample_world sample_writer ''Bob'' = Some 0"
  "n_links sample_writer 0 = link0\<lparr>l_peer := ''Bob'', l_open := True, l_caps := LocalCaps\<rparr>"
proof -
  have lt: "mail_seq sample_store < - 1" by (intro less_max_unat) (simp add: sample_store_box)
  have none: "inbox sample_env sample_store = Map.empty" by (simp add: fun_eq_iff sample_store_box)
  have i: "m_ID sample_queued = sample_ID" by (simp add: sample_queued_def)
  from sample_store_box(1) sample_nonce_ok lt
  have "box_inv sample_env (n_store sample_writer) \<and> inbox sample_env (n_store sample_writer) = [sample_ID \<mapsto> sample_queued\<lparr>m_Seq := 1\<rparr>]"
    by (cases rule: AddMessage_cases [where m = sample_queued]) (simp_all add: sample_store_box none sample_writer_def i)
  then show "box_inv sample_env (n_store sample_writer)" "inbox sample_env (n_store sample_writer) = [sample_ID \<mapsto> sample_queued\<lparr>m_Seq := 1\<rparr>]"
    by blast+
qed (use sample_online(1,3) in \<open>simp_all add: sample_writer_def linkFor_def\<close>)

lemma sample_pending:
  "Pending sample_env (n_store sample_writer) ''Bob'' = Inr [sample_queued\<lparr>m_Seq := 1\<rparr>]"
  "validate (msg_envelope (sample_queued\<lparr>m_Seq := 1\<rparr>)) = Inr ()"
proof -
  let ?m = "sample_queued\<lparr>m_Seq := 1\<rparr>"
  obtain ps where ps: "Pending sample_env (n_store sample_writer) ''Bob'' = Inr ps" "sorted_wrt (<) (map m_Seq ps)"
    "set ps = {m. inbox sample_env (n_store sample_writer) (m_ID m) = Some m \<and> wanted sample_env ''Bob'' m}"
    by (rule Pending_eq [OF sample_writer(1), of "''Bob''"]) blast
  have s: "set ps = {?m}" unfolding ps(3) sample_writer(2)
    by (auto simp: sample_queued_def wanted_def sample_msg_def split: if_splits)
  have "distinct ps" using ps(2) by (auto simp: strict_sorted_iff distinct_map)
  then have "length ps = 1" using distinct_card [of ps] s by simp
  then obtain x where x: "ps = [x]" by (cases ps) auto
  with s have "x = ?m" by (simp del: message.update_convs)
  with x ps(1) show "Pending sample_env (n_store sample_writer) ''Bob'' = Inr [?m]" by blast
  have vs: "ValidString ''hello''" by (rule ValidString_ascii) simp
  show "validate (msg_envelope ?m) = Inr ()"
    by (simp add: vs validate_def msg_envelope_def sample_queued_def sample_msg_def require_def MaxBody_def optional_def envelope0_def)
qed

lemma sample_world_tx: "w_env sample_world = sample_env" "nonce_ok (w_nonce sample_world)" "w_tx sample_world l e = Inr ()"
  by (simp_all add: sample_world_def)

abbreviation sample_sent :: node where "sample_sent \<equiv> flush sample_world ''Bob'' True sample_writer"

lemma sample_sent:
  "l_out (n_links sample_sent 0) = [msg_envelope (sample_queued\<lparr>m_Seq := 1\<rparr>)]" "box_inv sample_env (n_store sample_sent)"
  "\<exists>m. inbox sample_env (n_store sample_sent) sample_ID = Some m \<and> undelivered m \<and> m_Peer m = ''Bob'' \<and> m_Dir m = DirOut"
proof -
  let ?m = "sample_queued\<lparr>m_Seq := 1\<rparr>"
  have lnk: "l_open (n_links sample_writer 0)" "l_out (n_links sample_writer 0) = []" by (simp_all add: sample_writer(4) link0_fields)
  have valid: "validate (msg_envelope m) = Inr ()" if "inbox sample_env (n_store sample_writer) (m_ID m) = Some m" for m
    using that sample_pending(2) by (simp add: sample_writer(2) split: if_splits)
  obtain ps where f: "Pending sample_env (n_store sample_writer) ''Bob'' = Inr ps" "l_out (n_links sample_sent 0) = map msg_envelope ps"
    "box_inv sample_env (n_store sample_sent)" "only_retries sample_env (n_store sample_writer) (n_store sample_sent)"
    by (rule flush_all_sent [of sample_world sample_writer "''Bob''" 0]) (use sample_world_tx sample_writer(1,3) lnk valid in auto)
  show "l_out (n_links sample_sent 0) = [msg_envelope ?m]" "box_inv sample_env (n_store sample_sent)" using f(1-3) sample_pending(1) by auto
  obtain m where m: "inbox sample_env (n_store sample_sent) sample_ID = Some m" "retried ?m m"
    using f(4) [unfolded only_retries_def, THEN spec [of _ sample_ID]] by (auto simp: sample_writer(2) option_rel_Some1)
  have "undelivered m" "m_Peer m = ''Bob''" "m_Dir m = DirOut"
    using m(2) unfolding retried_def by (cases m; simp add: sample_queued_def sample_msg_def)+
  with m(1) show "\<exists>m. inbox sample_env (n_store sample_sent) sample_ID = Some m \<and> undelivered m \<and> m_Peer m = ''Bob'' \<and> m_Dir m = DirOut"
    by blast
qed

text \<open>A run in which the message is sent, arrives and is acknowledged.\<close>

lemma sample_delivery:
  obtains a b m where "(delivery_step sample_env sample_env ''Bob'' 0 0)\<^sup>*\<^sup>* (sample_writer, sample_recipient) (a, b)"
    "inbox sample_env (n_store a) sample_ID = Some m" "m_Status m = StatusDelivered" "m_Peer m = ''Bob''" "m_Dir m = DirOut"
proof -
  let ?e = "msg_envelope (sample_queued\<lparr>m_Seq := 1\<rparr>)"
  note w = sample_world_tx
  obtain m where m: "inbox sample_env (n_store sample_sent) sample_ID = Some m" "undelivered m" "m_Peer m = ''Bob''" "m_Dir m = DirOut"
    using sample_sent(3) by blast
  have id: "e_ID ?e = sample_ID" "e_T ?e = TypeMsg" "e_T (ack_envelope sample_ID) = TypeAck" "e_ID (ack_envelope sample_ID) = sample_ID"
    by (simp_all add: msg_envelope_def sample_queued_def ack_envelope_def)
  obtain b where b: "readLoop 0 (map (Pair sample_world) [?e]) sample_recipient = (b, True)" "l_out (n_links b 0) = [ack_envelope sample_ID]"
    using receive_all [of sample_world sample_recipient "[?e]" 0] w id(1,2) sample_store_box by (auto simp: sample_recipient link0_fields)
  have "l_peer (n_links sample_sent 0) = ''Bob''" by (simp add: l_peer_flush sample_writer(4))
  then obtain a where a: "readLoop 0 (map (Pair sample_world) (map ack_envelope [sample_ID])) sample_sent = (a, True)"
    "inbox sample_env (n_store a) sample_ID = Some (m\<lparr>m_Status := StatusDelivered\<rparr>)"
    using acks_all [of sample_world sample_sent 0 "''Bob''" "[sample_ID]"] sample_sent(2) w(1) m by auto
  have h: "b = fst (handle sample_world 0 ?e sample_recipient)" "a = fst (handle sample_world 0 (ack_envelope sample_ID) sample_sent)"
    using b(1) a(1) by (auto split: prod.splits bool.splits)
  have "delivery_step sample_env sample_env ''Bob'' 0 0 (sample_writer, sample_recipient) (sample_sent, sample_recipient)"
    by (rule delivery_step.flush) (unfold flushes_def, use w(1) sample_writer(3) in blast)
  moreover have "delivery_step sample_env sample_env ''Bob'' 0 0 (sample_sent, sample_recipient) (sample_sent, b)"
  proof (rule delivery_step.arrive)
    show "?e \<in> on_wire 0 sample_sent" using sample_sent(1) id(2) by (simp add: on_wire_def)
    have "mail_seq (n_store sample_recipient) < - 1" by (intro less_max_unat) (simp add: sample_recipient sample_store_box)
    then show "gets_message sample_env 0 sample_recipient ?e b" unfolding gets_message_def using h(1) w(1,2) id(2) by blast
  qed
  moreover have "delivery_step sample_env sample_env ''Bob'' 0 0 (sample_sent, b) (a, b)"
  proof (rule delivery_step.ack)
    show "sample_ID \<in> acks_on_wire 0 b" unfolding acks_on_wire_def b(2) by (auto simp: ack_envelope_def image_iff)
    show "gets_ack sample_env 0 sample_sent sample_ID a" unfolding gets_ack_def using h(2) w(1) id(3,4) by blast
  qed
  ultimately have "(delivery_step sample_env sample_env ''Bob'' 0 0)\<^sup>*\<^sup>* (sample_writer, sample_recipient) (a, b)" by auto
  then show thesis by (rule that [OF _ a(2)]) (simp_all add: m)
qed

theorem delivered_means_stored_witness:
  "\<exists>a b m. (delivery_step sample_env sample_env ''Bob'' 0 0)\<^sup>*\<^sup>* (sample_writer, sample_recipient) (a, b)
    \<and> inbox sample_env (n_store a) sample_ID = Some m \<and> m_Status m = StatusDelivered \<and> inbox sample_env (n_store b) sample_ID \<noteq> None"
proof -
  have fresh: "fresh_pair sample_env sample_env ''Bob'' 0 0 sample_writer sample_recipient"
    using sample_writer(1,2,4) sample_store_box(1,3)
    by (auto simp: fresh_pair_def sender_ok_def sample_recipient link0_fields sample_queued_def sample_msg_def split: if_splits)
  obtain a b m where r: "(delivery_step sample_env sample_env ''Bob'' 0 0)\<^sup>*\<^sup>* (sample_writer, sample_recipient) (a, b)"
    "inbox sample_env (n_store a) sample_ID = Some m" "m_Status m = StatusDelivered" "m_Peer m = ''Bob''" "m_Dir m = DirOut"
    by (rule sample_delivery)
  from delivered_means_stored [OF fresh r(1,2)] r(3-5) have "inbox sample_env (n_store b) sample_ID \<noteq> None" by simp
  with r(1-3) show ?thesis by blast
qed

theorem round_delivers_all_witness:
  "case delivery_round sample_world sample_world 0 0 ''Bob'' sample_writer sample_recipient of (a', b') \<Rightarrow>
     Pending sample_env (n_store a') ''Bob'' = Inr [] \<and> inbox sample_env (n_store b') sample_ID \<noteq> None"
proof -
  let ?ps = "[sample_queued\<lparr>m_Seq := 1\<rparr>]"
  note w = sample_world_tx
  have "case delivery_round sample_world sample_world 0 0 ''Bob'' sample_writer sample_recipient of (a', b') \<Rightarrow>
    Pending sample_env (n_store a') ''Bob'' = Inr []
    \<and> (\<forall>m\<in>set ?ps. inbox sample_env (n_store b') (m_ID m) \<noteq> None
        \<and> (\<exists>m'. inbox sample_env (n_store a') (m_ID m) = Some m' \<and> m_Status m' = StatusDelivered \<and> m_Body m' = m_Body m))"
    by (rule round_delivers_all [of sample_world sample_writer "''Bob''" 0 ?ps sample_world sample_recipient 0, unfolded w(1)])
      (use w sample_pending sample_writer(1,3,4) sample_store_box in \<open>simp_all add: sample_recipient link0_fields\<close>)
  then show ?thesis by (auto simp: sample_queued_def)
qed

definition sample_pinned :: node where
  "sample_pinned = sample_online\<lparr>n_store := sample_store\<lparr>db := putPeer sample_env empty_db
     \<lparr>p_Name = ''Bob'', p_Key = ''key-B'', p_FP = Fingerprint sample_env ''key-B'', p_FirstSeen = 1, p_LastSeen = 1,
      p_Verified = False, p_PendingKey = None, p_PendingAt = time_zero\<rparr>\<rparr>\<rparr>"

theorem bad_reply_blocks_peer_witness:
  "\<exists>n1 m. SendReply sample_world ''Bob'' ''hi'' ''nonsense'' sample_pinned = (n1, Inr m)
    \<and> \<not> l_open (n_links (flush sample_world (m_Peer m) True n1) 0)"
proof -
  have w: "w_env sample_world = sample_env" "nonce_ok (w_nonce sample_world)" by (simp_all add: sample_world_def)
  obtain i where i: "NewID (w_id sample_world) = Inr i"
    by (simp add: sample_world_def NewID_def IDLen_def ReadFull_def)
  have "sample_store\<lparr>db := empty_db\<rparr> = sample_store" by (simp add: sample_store_def)
  then have b: "box_inv sample_env (n_store sample_pinned)" and none: "inbox sample_env (n_store sample_pinned) i = None"
    using sample_store_box(1,3) by (simp_all add: sample_pinned_def putPeer_def)
  have lt: "mail_seq (n_store sample_pinned) < - 1"
    by (intro less_max_unat) (simp add: sample_pinned_def putPeer_def empty_db_def empty_bucket_def)
  have sp: "\<exists>p. sendable_peer sample_world sample_pinned ''Bob'' = Inr p \<and> p_Name p = ''Bob''"
    by (simp add: sendable_peer_def GetPeer_def getPeer_def sample_pinned_def putPeer_def w decrypt_def IsEncrypted_def magic_def wrap_err_def)
  have vs: "ValidString ''hi''" by (rule ValidString_ascii) simp
  obtain n1 m where m: "SendReply sample_world ''Bob'' ''hi'' ''nonsense'' sample_pinned = (n1, Inr m)" "m_Peer m = ''Bob''" "n_live n1 = n_live sample_pinned"
  proof -
    obtain p where p: "sendable_peer sample_world sample_pinned ''Bob'' = Inr p" "p_Name p = ''Bob''" using sp by blast
    let ?m = "message0\<lparr>m_ID := i, m_Peer := ''Bob'', m_Dir := DirOut, m_Body := ''hi'', m_TS := w_now sample_world,
               m_Status := StatusQueued, m_ReplyTo := ''nonsense''\<rparr>"
    have ni: "inbox sample_env (n_store sample_pinned) (m_ID ?m) = None" using none by simp
    obtain s' where "AddMessage sample_env (w_nonce sample_world) (n_store sample_pinned) ?m
        = (s', Inr (?m\<lparr>m_Seq := mail_seq (n_store sample_pinned) + 1\<rparr>, False))"
      using b w(2) lt by (cases rule: AddMessage_cases [where m = ?m]) (use ni in auto)
    then show thesis using that by (simp add: SendReply_def p i w(1) vs MaxBody_def)
  qed
  have c: "checkID ''nonsense'' \<noteq> Inr ()" by (simp add: checkID_def IDLen_def)
  have l: "linkFor sample_world n1 (m_Peer m) = Some 0"
    using sample_online(1) m(3) by (simp add: linkFor_def sample_pinned_def m(2))
  have "\<not> l_open (n_links (flush sample_world (m_Peer m) True n1) 0)"
    using bad_reply_blocks_peer [OF m(1) i _ c, where ?n2.0 = n1 and ?W2.0 = sample_world and l = 0] b w lt none l m(2)
      SendReply_new(4) [OF m(1) i]
    by simp
  with m(1) show ?thesis by blast
qed

end
