(* ===== verification/File_Transfer.thy ===== *)
theory File_Transfer
  imports Delivery
begin

text \<open>
  A file on its way from one node to another: \<open>flushFile\<close> on the sender's side (\<open>node.go\<close>), the
  header, answer and chunks on the wire, and the read loop (\<open>link.go\<close>) with the file store
  (\<open>files.go\<close>) on the receiver's side.
\<close>

section \<open>The exchange\<close>

definition file_header :: "string \<Rightarrow> fileRec \<Rightarrow> envelope" where
  "file_header i f = envelope0\<lparr>e_T := TypeFile, e_ID := i, e_Src := f_Name f, e_Size := f_Size f, e_Hash := f_Hash f\<rparr>"

definition file_answer :: "string \<Rightarrow> int \<Rightarrow> envelope" where
  "file_answer i off = envelope0\<lparr>e_T := TypeFileAck, e_ID := i, e_Offset := off\<rparr>"

text \<open>
  One run of \<open>flushFile\<close> on node \<open>a\<close>, whose link \<open>la\<close> ends at link \<open>lb\<close> of node \<open>b\<close>: the receiver
  handles the header and answers while the sender waits, then handles the chunks.
\<close>

definition transfer :: "world \<Rightarrow> world \<Rightarrow> nat \<Rightarrow> nat \<Rightarrow> string \<Rightarrow> string \<Rightarrow> node \<Rightarrow> node \<Rightarrow> node \<times> node \<times> outcome" where
  "transfer Wa Wb la lb peer i a b =
     (let a1 = fst (flushFile_start Wa peer i a);
          b1 = fst (handle Wb lb (last (l_out (n_links a1 la))) b);
          (a2, oc) = flushFile Wa (\<lambda>x. fst (handle Wa la (last (l_out (n_links b1 lb))) x)) peer i a;
          sent = drop (Suc (length (l_out (n_links a la)))) (l_out (n_links a2 la))
      in (a2, fst (readLoop lb (map (Pair Wb) sent) b1), oc))"

section \<open>The receiver\<close>

text \<open>
  What an honest receiver may hold of the announced file: nothing that fits the header, or a
  partial copy of its content.
\<close>

definition resumable :: "store \<Rightarrow> string \<Rightarrow> bytes \<Rightarrow> string \<Rightarrow> bool" where
  "resumable s i data hash \<longleftrightarrow> resume_point (mkdir s i) i hash (int (length data)) = 0
     \<or> (\<exists>g. partial s i data g \<and> f_Hash g = hash
          \<and> resume_point (mkdir s i) i hash (int (length data)) = f_Received g)"

definition receiving :: "node \<Rightarrow> nat \<Rightarrow> string \<Rightarrow> bytes \<Rightarrow> fileRec \<Rightarrow> bool" where
  "receiving n l i data g \<longleftrightarrow> partial (n_store n) i data g \<and> rxFileID (n_links n l) = i
     \<and> rxFileSize (n_links n l) = int (length data)"

lemma BeginReceive_partial:
  fixes s
  assumes "resumable s i data hash"
  defines "r \<equiv> resume_point (mkdir s i) i hash (int (length data))"
  shows "\<exists>s' g. BeginReceive now s i peer name hash (int (length data)) = (s', Inr r) \<and> partial s' i data g
    \<and> g = \<lparr>f_ID = i, f_Peer = peer, f_Dir = DirIn, f_Name = name, f_Size = int (length data), f_Hash = hash,
        f_Status = FileReceiving, f_Received = r, f_Sent = 0, f_TS = now\<rparr>"
proof -
  let ?g = "\<lparr>f_ID = i, f_Peer = peer, f_Dir = DirIn, f_Name = name, f_Size = int (length data), f_Hash = hash,
     f_Status = FileReceiving, f_Received = r, f_Sent = 0, f_TS = now\<rparr>"
  let ?s1 = "if r = 0 then in_dir (\<lambda>d. d\<lparr>data_tmp := Some []\<rparr>) (mkdir s i) i else mkdir s i"
  let ?s' = "?s1\<lparr>db := (db s)\<lparr>bFiles := bPut i ?g (bFiles (db s))\<rparr>\<rparr>"
  have run: "BeginReceive now s i peer name hash (int (length data)) = (?s', Inr r)"
    by (simp add: BeginReceive_def dbUpdate_def Let_def r_def)
  have "\<exists>tmp. tmp_of ?s1 i = Some tmp \<and> length tmp \<le> length data \<and> 0 \<le> r \<and> r \<le> int (length tmp)
      \<and> take (nat r) tmp = take (nat r) data"
  proof (cases "r = 0")
    case False
    with assms obtain g where g: "partial s i data g" "r = f_Received g" by (auto simp: resumable_def)
    with False show ?thesis by (auto simp: partial_def)
  qed simp
  then have "partial ?s' i data ?g" by (simp add: partial_def)
  with run show ?thesis by blast
qed

lemma valid_header:
  assumes "validate (file_header i f) = Inr ()" "f_Size f = int (length data)"
  shows "checkID i = Inr ()" "0 < length data" "int (length data) \<le> MaxFileSize"
  using assms by (simp_all add: validate_def file_header_def)

lemma valid_answer: "\<lbrakk>checkID i = Inr (); 0 \<le> r; r \<le> MaxFileSize\<rbrakk> \<Longrightarrow> validate (file_answer i r) = Inr ()"
  by (simp add: validate_def file_answer_def envelope0_def require_def)

lemma chunk_shape: "e \<in> set (chunk_envs i off rest) \<Longrightarrow> \<exists>j c. e = chunk_envelope i j c"
proof (induction i off rest rule: chunk_envs.induct)
  case (1 i off rest)
  then show ?case by (cases "rest = []") (auto simp: chunk_envs.simps [of i off rest])
qed

lemma valid_chunk:
  assumes "checkID i = Inr ()" "int (length data) \<le> MaxFileSize" "off \<le> length data"
    "e \<in> set (chunk_envs i off (drop off data))"
  shows "validate e = Inr ()"
proof -
  have e: "e_ID e = i" "e_T e = TypeChunk" "0 < length (e_Chunk e)" "length (e_Chunk e) \<le> ChunkSize"
    "int off \<le> e_Offset e" "e_Offset e + int (length (e_Chunk e)) \<le> int (length data)"
    using chunk_sizes [OF assms(4)] assms(3) by simp_all
  moreover have "e_Seq e = 0" using chunk_shape [OF assms(4)] by (auto simp: chunk_envelope_def envelope0_def)
  ultimately show ?thesis using assms(1,2) by (simp add: validate_def require_def)
qed

text \<open>The header starts or resumes the reception and is answered with the resume point.\<close>

lemma handle_header:
  fixes W n
  assumes "resumable (n_store n) i data (f_Hash f)" "f_Size f = int (length data)" "files_inv (w_env W) (n_store n)"
    and "l_open (n_links n l)" "\<And>e. w_tx W l e = Inr ()" "speaks (n_links n l) CapResume"
    and "validate (file_header i f) = Inr ()"
  defines "r \<equiv> resume_point (mkdir (n_store n) i) i (f_Hash f) (int (length data))"
  obtains n' g where "handle W l (file_header i f) n = (n', True)" "receiving n' l i data g"
    "f_Received g = r" "f_Name g = f_Name f" "f_Hash g = f_Hash f" "f_Dir g = DirIn" "files_inv (w_env W) (n_store n')"
    "l_out (n_links n' l) = l_out (n_links n l) @ [file_answer i r]"
    "0 \<le> r" "r \<le> int (length data)"
proof -
  note v = valid_header [OF assms(7,2)]
  have r: "0 \<le> r" "r \<le> int (length data)"
    using assms(1) v(2) by (auto simp: resumable_def r_def partial_def)
  obtain s' g where s': "BeginReceive (w_now W) (n_store n) i (l_peer (n_links n l)) (f_Name f) (f_Hash f) (int (length data)) = (s', Inr r)"
    "partial s' i data g" and g: "f_Received g = r" "f_Name g = f_Name f" "f_Hash g = f_Hash f" "f_Dir g = DirIn"
    using BeginReceive_partial [OF assms(1), of "w_now W" "l_peer (n_links n l)" "f_Name f"] by (auto simp: r_def)
  have inv: "files_inv (w_env W) s'"
    using files_inv_BeginReceive [OF assms(3), of "int (length data)" "w_now W" i "l_peer (n_links n l)" "f_Name f" "f_Hash f"]
    by (simp add: s'(1))
  have va: "validate (file_answer i r) = Inr ()" using valid_answer [OF v(1) r(1)] r(2) v(3) by simp
  let ?rx = "\<lambda>k. k\<lparr>rxFileID := i, rxFileOff := r, rxFileHash := f_Hash f, rxFileSize := int (length data), rxFileName := f_Name f\<rparr>"
  let ?k = "(?rx (n_links n l))\<lparr>l_out := l_out (n_links n l) @ [file_answer i r]\<rparr>"
  have "\<exists>n'. handle W l (file_header i f) n = (n', True) \<and> n_store n' = s' \<and> n_links n' l = ?k"
    using s'(1) assms(2,4,6) send_ok [OF _ va, of _ l W] assms(5)
    by (simp add: handle_def handle_file_def file_header_def Let_def speaks_def file_answer_def [symmetric])
  then obtain n' where n': "handle W l (file_header i f) n = (n', True)" "n_store n' = s'" "n_links n' l = ?k" by blast
  show thesis
    by (rule that [OF n'(1) _ g]) (use n'(2,3) s'(2) inv r in \<open>simp_all add: receiving_def\<close>)
qed

text \<open>A chunk at the counter moves it on; the last one completes the file.\<close>

lemma handle_chunk_next:
  fixes W n
  assumes "receiving n l i data g" "files_inv (w_env W) (n_store n)" "f_Received g = int off" "off < length data"
    and "off + ChunkSize < length data"
  obtains n' where "handle W l (chunk_envelope i (int off) (take ChunkSize (drop off data))) n = (n', True)"
    "receiving n' l i data (g\<lparr>f_Received := int (off + ChunkSize)\<rparr>)" "files_inv (w_env W) (n_store n')"
proof -
  let ?c = "take ChunkSize (drop off data)" and ?g = "g\<lparr>f_Received := int (off + ChunkSize)\<rparr>"
  have "length ?c = ChunkSize" "partial (n_store n) i data g" using assms(1,5) by (simp_all add: receiving_def)
  then obtain s' where s': "WriteChunk (n_store n) i (int off) ?c = (s', Inr ?g)" "partial s' i data ?g"
    using WriteChunk_partial [of "n_store n" i data g off ChunkSize] assms(3,4) by auto
  have inv: "files_inv (w_env W) s'" using files_inv_WriteChunk [OF assms(2), of i "int off" ?c] s'(1) by simp
  have "\<exists>n'. handle W l (chunk_envelope i (int off) ?c) n = (n', True) \<and> n_store n' = s'
      \<and> n_links n' l = (n_links n l)\<lparr>rxFileOff := int (off + ChunkSize)\<rparr>"
    using s'(1) assms(1,5) by (simp add: handle_def handle_chunk_def chunk_envelope_def Let_def receiving_def)
  then obtain n' where n': "handle W l (chunk_envelope i (int off) ?c) n = (n', True)" "n_store n' = s'"
    "n_links n' l = (n_links n l)\<lparr>rxFileOff := int (off + ChunkSize)\<rparr>" by blast
  have "receiving n' l i data ?g" using s'(2) assms(1) unfolding receiving_def n'(2,3) by simp
  then show thesis using inv unfolding n'(2) [symmetric] by (rule that [OF n'(1)])
qed

lemma handle_chunk_last:
  fixes W n
  assumes "receiving n l i data g" "files_inv (w_env W) (n_store n)" "nonce_ok (w_nonce W)"
    and "f_Received g = int off" "off < length data" "length data \<le> off + ChunkSize"
    and "f_Hash g = hex_EncodeToString (sha256 (w_env W) data)"
  obtains n' where "handle W l (chunk_envelope i (int off) (take ChunkSize (drop off data))) n = (n', True)"
    "file_at (n_store n') i = Some (g\<lparr>f_Received := int (length data), f_Status := FileComplete\<rparr>)"
    "FileData (w_env W) (n_store n') i = Inr data" "files_inv (w_env W) (n_store n')"
proof -
  let ?c = "take ChunkSize (drop off data)" and ?g = "g\<lparr>f_Received := int (length data)\<rparr>"
  have "length ?c = length data - off" "partial (n_store n) i data g" using assms(1,6) by (simp_all add: receiving_def)
  then obtain s' where s': "WriteChunk (n_store n) i (int off) ?c = (s', Inr ?g)" "partial s' i data ?g"
    using WriteChunk_partial [of "n_store n" i data g off ChunkSize] assms(4,5) by auto
  have inv: "files_inv (w_env W) s'" using files_inv_WriteChunk [OF assms(2), of i "int off" ?c] s'(1) by simp
  have f: "file_at s' i = Some ?g" "f_Status ?g = FileReceiving" "f_Received ?g = f_Size ?g" "tmp_of s' i = Some data"
    using s'(2) by (auto simp: partial_def)
  have h: "hex_EncodeToString (sha256 (w_env W) data) = f_Hash ?g" using assms(7) by simp
  obtain s2 where s2: "CompleteFile (w_env W) (w_nonce W) s' i = (s2, Inr ())" "files_inv (w_env W) s2"
    "file_at s2 i = Some (?g\<lparr>f_Status := FileComplete\<rparr>)" "FileData (w_env W) s2 i = Inr data"
    by (rule CompleteFile_ok [OF inv assms(3) f h])
  have "\<exists>n'. handle W l (chunk_envelope i (int off) ?c) n = (n', True) \<and> n_store n' = s2"
    using s'(1) s2(1) assms(1)
    by (simp add: handle_def handle_chunk_def chunk_envelope_def Let_def receiving_def finish_receive_def)
  then show thesis using s2(2-4) by (auto intro: that)
qed

lemma receive_chunks:
  assumes "receiving n l i data g" "files_inv (w_env W) (n_store n)" "nonce_ok (w_nonce W)"
    and "f_Received g = int off" "off < length data" "f_Hash g = hex_EncodeToString (sha256 (w_env W) data)"
  shows "\<exists>n'. readLoop l (map (Pair W) (chunk_envs i off (drop off data))) n = (n', True)
    \<and> file_at (n_store n') i = Some (g\<lparr>f_Received := int (length data), f_Status := FileComplete\<rparr>)
    \<and> FileData (w_env W) (n_store n') i = Inr data \<and> files_inv (w_env W) (n_store n')"
  using assms
proof (induction "length data - off" arbitrary: off n g rule: less_induct)
  case less
  have c: "0 < ChunkSize" by (simp add: ChunkSize_def)
  have ce: "chunk_envs i off (drop off data) = chunk_envelope i (int off) (take ChunkSize (drop off data))
      # chunk_envs i (off + ChunkSize) (drop (off + ChunkSize) data)"
    using less.prems(5) by (simp add: chunk_envs.simps [of i off] add.commute)
  show ?case
  proof (cases "off + ChunkSize < length data")
    case True
    let ?g = "g\<lparr>f_Received := int (off + ChunkSize)\<rparr>"
    obtain n' where n': "handle W l (chunk_envelope i (int off) (take ChunkSize (drop off data))) n = (n', True)"
      "receiving n' l i data ?g" "files_inv (w_env W) (n_store n')"
      by (rule handle_chunk_next [OF less.prems(1,2,4,5) True])
    have "length data - (off + ChunkSize) < length data - off" using c less.prems(5) by simp
    from less.hyps [OF this n'(2,3) less.prems(3)] True less.prems(6) show ?thesis by (simp add: ce n'(1))
  next
    case False
    then have le: "length data \<le> off + ChunkSize" by simp
    obtain n' where "handle W l (chunk_envelope i (int off) (take ChunkSize (drop off data))) n = (n', True)"
      "file_at (n_store n') i = Some (g\<lparr>f_Received := int (length data), f_Status := FileComplete\<rparr>)"
      "FileData (w_env W) (n_store n') i = Inr data" "files_inv (w_env W) (n_store n')"
      by (rule handle_chunk_last [OF less.prems(1-5) le less.prems(6)])
    then show ?thesis using le by (simp add: ce)
  qed
qed

section \<open>The sender\<close>

text \<open>A file that waits in the outbox of \<open>a\<close> for a peer with a working session.\<close>

definition file_due :: "world \<Rightarrow> node \<Rightarrow> string \<Rightarrow> nat \<Rightarrow> string \<Rightarrow> fileRec \<Rightarrow> bytes \<Rightarrow> bool" where
  "file_due W n peer l i f data \<longleftrightarrow> linkFor W n peer = Some l \<and> l_open (n_links n l) \<and> speaks (n_links n l) CapResume
     \<and> (\<forall>e. w_tx W l e = Inr ()) \<and> file_at (n_store n) i = Some f \<and> f_Status f \<in> {FileQueued, FileSending}
     \<and> FileBlob (w_env W) (n_store n) i = Inr data \<and> f_Size f = int (length data)
     \<and> f_Hash f = hex_EncodeToString (sha256 (w_env W) data) \<and> validate (file_header i f) = Inr ()"

lemma flushFile_start_due:
  assumes "file_due W n peer l i f data"
  obtains n1 where "flushFile_start W peer i n = (n1, Some (l, f, data, True))"
    "n_store n1 = fst (MarkFileSending (n_store n) i)"
    "n_links n1 l = (n_links n l)\<lparr>fileAck := (fileAck (n_links n l))(i := Some None), l_out := l_out (n_links n l) @ [file_header i f]\<rparr>"
    "n_live n1 = n_live n"
proof -
  note d = assms [unfolded file_due_def]
  let ?n = "n\<lparr>n_store := fst (MarkFileSending (n_store n) i)\<rparr>"
  have p: "flushFile_prepare W peer i n = (?n, Some (l, f, data))"
    using d by (auto simp: flushFile_prepare_def GetFile_def)
  have "send W l (file_header i f) (set_link l (awaitFileAck i) ?n)
     = (set_link l (\<lambda>k. k\<lparr>l_out := l_out k @ [file_header i f]\<rparr>) (set_link l (awaitFileAck i) ?n), Inr ())"
    by (rule send_ok) (use d in \<open>simp_all add: awaitFileAck_def\<close>)
  then have "flushFile_start W peer i n =
      (set_link l (\<lambda>k. k\<lparr>l_out := l_out k @ [file_header i f]\<rparr>) (set_link l (awaitFileAck i) ?n), Some (l, f, data, True))"
    using d by (simp add: flushFile_start_def p flushFile_header_def file_header_def Let_def)
  then show thesis by (rule that) (simp_all add: awaitFileAck_def)
qed

lemma flushFile_finish_due:
  fixes n
  assumes "file_due W n0 peer l i f data" "l_open (n_links n l)" "fileAck (n_links n l) i = Some (Some (int off))" "off < length data"
  obtains n' where "flushFile_finish W peer i (l, f, data, True) n = (n', Sent)"
    "l_out (n_links n' l) = l_out (n_links n l) @ chunk_envs i off (drop off data)"
    "n_store n' = fst (MarkFileSent (n_store n) i)" "n_live n' = n_live n" "l_open (n_links n' l)" "l_caps (n_links n' l) = l_caps (n_links n l)"
proof -
  note d = assms(1) [unfolded file_due_def]
  define n1 where "n1 = (if int off > 0 then logf W ''resuming %s to %q at %d of %d bytes''
     [AStr (f_Name f), AStr peer, AInt (int off), AInt (f_Size f)] n else n)"
  have n1: "n_links n1 = n_links n" "n_store n1 = n_store n" "n_live n1 = n_live n" by (simp_all add: n1_def)
  have sz: "f_Size f = int (length data)" and v: "validate (file_header i f) = Inr ()" using d by simp_all
  note h = valid_header [OF v sz]
  have all: "snd (send_chunks W l peer i f data (int off) n1) = Sent"
    by (rule send_chunks_all [OF sz]) (use assms(2,4) d n1 valid_chunk [OF h(1,3), of off] in simp_all)
  obtain n2 where n2: "send_chunks W l peer i f data (int off) n1 = (n2, Sent)"
    using all by (cases "send_chunks W l peer i f data (int off) n1") simp
  then have "transmitted l (chunk_envs i off (drop off data)) n1 n2 Sent"
    using send_chunks_spec [OF sz, of off l i n1 W peer] assms(4) by simp
  then have l2: "l_out (n_links n2 l) = l_out (n_links n l) @ chunk_envs i off (drop off data)" "n_store n2 = n_store n"
    "n_live n2 = n_live n" "l_open (n_links n2 l)" "l_caps (n_links n2 l) = l_caps (n_links n l)"
    using assms(2) by (auto simp: transmitted_def n1)
  have "flushFile_finish W peer i (l, f, data, True) n = (set_link l (cancelFileAck i) (file_sent peer i f n2), Sent)"
    using assms(3,4) sz n2 by (simp add: flushFile_finish_def flushFile_body_def Let_def n1_def)
  then show thesis by (rule that) (simp_all add: l2 file_sent_def cancelFileAck_def)
qed

lemma handle_answer:
  assumes "fileAck (n_links n l) i = Some None"
  shows "handle W l (file_answer i off) n = (set_link l (\<lambda>k. k\<lparr>fileAck := (fileAck k)(i := Some (Some off))\<rparr>) n, True)"
  using assms by (simp add: handle_def file_answer_def Let_def deliverFileAck_def set_link_def)

section \<open>Both together\<close>

definition ready :: "world \<Rightarrow> node \<Rightarrow> nat \<Rightarrow> string \<Rightarrow> fileRec \<Rightarrow> bytes \<Rightarrow> bool" where
  "ready W n l i f data \<longleftrightarrow> files_inv (w_env W) (n_store n) \<and> resumable (n_store n) i data (f_Hash f) \<and> nonce_ok (w_nonce W)
     \<and> l_open (n_links n l) \<and> (\<forall>e. w_tx W l e = Inr ()) \<and> speaks (n_links n l) CapResume"

abbreviation resume_at :: "node \<Rightarrow> string \<Rightarrow> fileRec \<Rightarrow> bytes \<Rightarrow> int" where
  "resume_at n i f data \<equiv> resume_point (mkdir (n_store n) i) i (f_Hash f) (int (length data))"

lemma transfer_setup:
  assumes "file_due Wa a peer la i f data" "ready Wb b lb i f data"
  obtains a2 b1 g where "transfer Wa Wb la lb peer i a b = (let (a3, oc) = flushFile_finish Wa peer i (la, f, data, True) a2;
       sent = drop (Suc (length (l_out (n_links a la)))) (l_out (n_links a3 la))
     in (a3, fst (readLoop lb (map (Pair Wb) sent) b1), oc))"
    "l_open (n_links a2 la)" "fileAck (n_links a2 la) i = Some (Some (resume_at b i f data))"
    "l_out (n_links a2 la) = l_out (n_links a la) @ [file_header i f]" "l_caps (n_links a2 la) = l_caps (n_links a la)"
    "n_store a2 = fst (MarkFileSending (n_store a) i)" "n_live a2 = n_live a"
    "receiving b1 lb i data g" "f_Received g = resume_at b i f data"
    "f_Name g = f_Name f" "f_Hash g = f_Hash f" "f_Dir g = DirIn" "files_inv (w_env Wb) (n_store b1)"
proof -
  note d = assms(1) [unfolded file_due_def] and rd = assms(2) [unfolded ready_def]
  let ?r = "resume_at b i f data"
  obtain a1 where a1: "flushFile_start Wa peer i a = (a1, Some (la, f, data, True))"
    "n_store a1 = fst (MarkFileSending (n_store a) i)"
    "n_links a1 la = (n_links a la)\<lparr>fileAck := (fileAck (n_links a la))(i := Some None), l_out := l_out (n_links a la) @ [file_header i f]\<rparr>"
    "n_live a1 = n_live a"
    by (rule flushFile_start_due [OF assms(1)])
  obtain b1 g where b1: "handle Wb lb (file_header i f) b = (b1, True)" "receiving b1 lb i data g" "f_Received g = ?r"
    "f_Name g = f_Name f" "f_Hash g = f_Hash f" "f_Dir g = DirIn" "files_inv (w_env Wb) (n_store b1)"
    "l_out (n_links b1 lb) = l_out (n_links b lb) @ [file_answer i ?r]"
    by (rule handle_header [of b i data f Wb lb]) (use d rd in simp_all)
  define a2 where "a2 = set_link la (\<lambda>k. k\<lparr>fileAck := (fileAck k)(i := Some (Some ?r))\<rparr>) a1"
  have ans: "handle Wa la (file_answer i ?r) a1 = (a2, True)"
    unfolding a2_def by (rule handle_answer) (simp add: a1(3))
  show thesis
  proof (rule that [of a2 b1 g])
    show "transfer Wa Wb la lb peer i a b = (let (a3, oc) = flushFile_finish Wa peer i (la, f, data, True) a2;
        sent = drop (Suc (length (l_out (n_links a la)))) (l_out (n_links a3 la))
      in (a3, fst (readLoop lb (map (Pair Wb) sent) b1), oc))"
      by (simp add: transfer_def flushFile_def a1(1,3) b1(1,8) ans)
  qed (use b1 d in \<open>simp_all add: a2_def a1\<close>)
qed

lemma sent_record:
  assumes "file_due W a peer l i f data"
  shows "\<exists>f'. file_at (fst (MarkFileSent (fst (MarkFileSending (n_store a) i)) i)) i = Some f' \<and> f_Status f' = FileSent"
    "bGet (bFileOutbox (db (fst (MarkFileSent (fst (MarkFileSending (n_store a) i)) i)))) i = None"
  using assms by (simp_all add: file_due_def MarkFileSending_def MarkFileSent_def dbUpdate_def Let_def)

lemma transfer_run:
  assumes "file_due Wa a peer la i f data" "ready Wb b lb i f data"
    and "sha256 (w_env Wb) = sha256 (w_env Wa)" "resume_at b i f data < int (length data)"
  obtains a' b' g sent where "transfer Wa Wb la lb peer i a b = (a', b', Sent)"
    "FileData (w_env Wb) (n_store b') i = Inr data" "files_inv (w_env Wb) (n_store b')"
    "file_at (n_store b') i = Some g" "f_Name g = f_Name f" "f_Dir g = DirIn" "f_Status g = FileComplete"
    "l_out (n_links a' la) = l_out (n_links a la) @ file_header i f # sent"
    "concat (map e_Chunk sent) = drop (nat (resume_at b i f data)) data"
    "n_store a' = fst (MarkFileSent (fst (MarkFileSending (n_store a) i)) i)"
    "l_open (n_links a' la)" "l_caps (n_links a' la) = l_caps (n_links a la)"
proof -
  let ?r = "resume_at b i f data" and ?off = "nat (resume_at b i f data)"
  let ?chunks = "chunk_envs i ?off (drop ?off data)"
  obtain a2 b1 g where tr: "transfer Wa Wb la lb peer i a b = (let (a3, oc) = flushFile_finish Wa peer i (la, f, data, True) a2;
       sent = drop (Suc (length (l_out (n_links a la)))) (l_out (n_links a3 la))
     in (a3, fst (readLoop lb (map (Pair Wb) sent) b1), oc))"
    and a2: "l_open (n_links a2 la)" "fileAck (n_links a2 la) i = Some (Some ?r)"
      "l_out (n_links a2 la) = l_out (n_links a la) @ [file_header i f]" "l_caps (n_links a2 la) = l_caps (n_links a la)"
      "n_store a2 = fst (MarkFileSending (n_store a) i)"
    and b1: "receiving b1 lb i data g" "f_Received g = ?r" "f_Name g = f_Name f" "f_Hash g = f_Hash f" "f_Dir g = DirIn"
      "files_inv (w_env Wb) (n_store b1)"
    by (rule transfer_setup [OF assms(1,2)])
  have "0 \<le> ?r" using b1(1,2) by (auto simp: receiving_def partial_def)
  then have off: "?r = int ?off" "?off < length data" using assms(4) by auto
  obtain a3 where a3: "flushFile_finish Wa peer i (la, f, data, True) a2 = (a3, Sent)"
    "l_out (n_links a3 la) = l_out (n_links a2 la) @ ?chunks" "n_store a3 = fst (MarkFileSent (n_store a2) i)"
    "l_open (n_links a3 la)" "l_caps (n_links a3 la) = l_caps (n_links a2 la)"
    using flushFile_finish_due [OF assms(1) a2(1) _ off(2)] a2(2) off(1) by metis
  have h: "f_Hash g = hex_EncodeToString (sha256 (w_env Wb) data)" "nonce_ok (w_nonce Wb)"
    using b1(4) assms(1-3) by (simp_all add: file_due_def ready_def)
  obtain b2 where b2: "readLoop lb (map (Pair Wb) ?chunks) b1 = (b2, True)"
    "file_at (n_store b2) i = Some (g\<lparr>f_Received := int (length data), f_Status := FileComplete\<rparr>)"
    "FileData (w_env Wb) (n_store b2) i = Inr data" "files_inv (w_env Wb) (n_store b2)"
    using receive_chunks [OF b1(1,6) h(2), of ?off] off b1(2) h(1) by auto
  show thesis
  proof (rule that [of a3 b2 _ ?chunks])
    show "transfer Wa Wb la lb peer i a b = (a3, b2, Sent)" by (simp add: tr a3(1,2) a2(3) b2(1))
    show "file_at (n_store b2) i = Some (g\<lparr>f_Received := int (length data), f_Status := FileComplete\<rparr>)" by (rule b2(2))
  qed (use a2 a3 b1 b2 concat_chunks [of i ?off "drop ?off data"] in simp_all)
qed

lemma file_due_sending:
  assumes "file_due W a peer l i f data"
  shows "\<exists>f1. file_due W (a\<lparr>n_store := fst (MarkFileSending (n_store a) i)\<rparr>) peer l i f1 data
    \<and> f_Hash f1 = f_Hash f \<and> file_header i f1 = file_header i f"
proof -
  let ?f = "(if f_Status f = FileQueued then f\<lparr>f_Status := FileSending\<rparr> else f)\<lparr>f_Sent := 0\<rparr>"
  have h: "file_header i ?f = file_header i f" by (simp add: file_header_def)
  have "file_at (fst (MarkFileSending (n_store a) i)) i = Some ?f"
    "FileBlob (w_env W) (fst (MarkFileSending (n_store a) i)) i = FileBlob (w_env W) (n_store a) i"
    using assms by (simp_all add: file_due_def MarkFileSending_def dbUpdate_def Let_def FileBlob_def readFileData_def
        cong: option.case_cong)
  with assms h have "file_due W (a\<lparr>n_store := fst (MarkFileSending (n_store a) i)\<rparr>) peer l i ?f data"
    by (auto simp: file_due_def linkFor_def)
  moreover have "f_Hash ?f = f_Hash f" by simp
  ultimately show ?thesis using h by blast
qed

lemma header_restarts:
  "FileData E (n_store (fst (handle W l (file_header i f) n))) i = Inl (Err ''store: file not complete'')"
proof -
  obtain s' r where s': "BeginReceive (w_now W) (n_store n) i (l_peer (n_links n l)) (f_Name f) (f_Hash f) (f_Size f) = (s', Inr r)"
    "\<exists>g. file_at s' i = Some g \<and> f_Status g = FileReceiving"
    by (simp add: BeginReceive_def dbUpdate_def Let_def)
  have "n_store (fst (handle W l (file_header i f) n)) = s'"
    using s'(1) by (simp add: handle_def handle_file_def file_header_def Let_def send_def split: sum.split)
  with s'(2) show ?thesis by (auto simp: FileData_def GetFile_def)
qed

section \<open>Properties\<close>

text \<open>
  C5. A file transfer over a working session, end to end: whatever honest part of the file the
  receiver already holds, short of all of it, one run of the sender's \<open>flushFile\<close> ends with the
  file complete on the receiver's side, under the announced name, readable as exactly the bytes
  the sender stored; only the missing bytes travel; and the sender's record is marked sent and
  leaves the outbox.
\<close>

theorem transfer_delivers:
  assumes "file_due Wa a peer la i f data" "ready Wb b lb i f data"
    and "sha256 (w_env Wb) = sha256 (w_env Wa)" "resume_at b i f data < int (length data)"
  shows "\<exists>a' b'. transfer Wa Wb la lb peer i a b = (a', b', Sent)
    \<and> FileData (w_env Wb) (n_store b') i = Inr data
    \<and> (\<exists>g. file_at (n_store b') i = Some g \<and> f_Name g = f_Name f \<and> f_Dir g = DirIn \<and> f_Status g = FileComplete)
    \<and> (\<exists>sent. l_out (n_links a' la) = l_out (n_links a la) @ file_header i f # sent
        \<and> concat (map e_Chunk sent) = drop (nat (resume_at b i f data)) data)
    \<and> (\<exists>f'. file_at (n_store a') i = Some f' \<and> f_Status f' = FileSent) \<and> bGet (bFileOutbox (db (n_store a'))) i = None"
  by (rule transfer_run [OF assms]) (use sent_record [OF assms(1)] in metis)

text \<open>
  A receiver that holds every byte but was interrupted before it completed the file answers
  the header with the full size; the sender then marks the file sent without sending a chunk,
  and the receiver, which completes a file only when a chunk arrives, keeps it as unfinished.
\<close>

theorem full_resume_stalls:
  assumes "file_due Wa a peer la i f data" "ready Wb b lb i f data" "resume_at b i f data = int (length data)"
  shows "\<exists>a' b'. transfer Wa Wb la lb peer i a b = (a', b', Sent)
    \<and> (\<exists>f'. file_at (n_store a') i = Some f' \<and> f_Status f' = FileSent) \<and> bGet (bFileOutbox (db (n_store a'))) i = None
    \<and> FileData (w_env Wb) (n_store b') i = Inl (Err ''store: file not complete'')"
proof -
  obtain a2 b1 g where tr: "transfer Wa Wb la lb peer i a b = (let (a3, oc) = flushFile_finish Wa peer i (la, f, data, True) a2;
       sent = drop (Suc (length (l_out (n_links a la)))) (l_out (n_links a3 la))
     in (a3, fst (readLoop lb (map (Pair Wb) sent) b1), oc))"
    and a2: "l_open (n_links a2 la)" "fileAck (n_links a2 la) i = Some (Some (resume_at b i f data))"
      "l_out (n_links a2 la) = l_out (n_links a la) @ [file_header i f]" "n_store a2 = fst (MarkFileSending (n_store a) i)"
    and b1: "receiving b1 lb i data g" by (rule transfer_setup [OF assms(1,2)])
  have sz: "f_Size f = int (length data)" using assms(1) by (simp add: file_due_def)
  have "\<exists>a3. flushFile_finish Wa peer i (la, f, data, True) a2 = (a3, Sent) \<and> l_out (n_links a3 la) = l_out (n_links a2 la)
      \<and> n_store a3 = fst (MarkFileSent (n_store a2) i)"
    using a2(2) assms(3) sz by (simp add: flushFile_finish_def flushFile_body_def Let_def file_sent_def cancelFileAck_def)
  then obtain a3 where a3: "flushFile_finish Wa peer i (la, f, data, True) a2 = (a3, Sent)"
    "l_out (n_links a3 la) = l_out (n_links a2 la)" "n_store a3 = fst (MarkFileSent (n_store a2) i)" by blast
  have "transfer Wa Wb la lb peer i a b = (a3, b1, Sent)" by (simp add: tr a3(1,2) a2(3))
  moreover have "FileData (w_env Wb) (n_store b1) i = Inl (Err ''store: file not complete'')"
    using b1 by (simp add: receiving_def partial_def FileData_def GetFile_def)
  ultimately show ?thesis using sent_record [OF assms(1)] a3(3) a2(4) by metis
qed

text \<open>
  The status of the record is looked at before the mutex is taken and not again under it: a
  second \<open>flushFile\<close> of the same file, started by a tick of the outbox loop while the first is
  under way, announces the file again after the first has delivered it, and the receiver throws
  its complete copy away to start over.
\<close>

theorem overlapping_flush_resends:
  assumes "file_due Wa a peer la i f data" "ready Wb b lb i f data"
    and "sha256 (w_env Wb) = sha256 (w_env Wa)" "resume_at b i f data < int (length data)"
  shows "\<exists>a1 k a2 b2 a3 k3. flushFile_prepare Wa peer i a = (a1, Some k)
    \<and> transfer Wa Wb la lb peer i a1 b = (a2, b2, Sent) \<and> FileData (w_env Wb) (n_store b2) i = Inr data
    \<and> flushFile_header Wa peer i k a2 = (a3, Some k3)
    \<and> l_out (n_links a3 la) = l_out (n_links a2 la) @ [file_header i f]
    \<and> FileData (w_env Wb) (n_store (fst (handle Wb lb (file_header i f) b2))) i = Inl (Err ''store: file not complete'')"
proof -
  note d = assms(1) [unfolded file_due_def]
  let ?a1 = "a\<lparr>n_store := fst (MarkFileSending (n_store a) i)\<rparr>"
  have p: "flushFile_prepare Wa peer i a = (?a1, Some (la, f, data))"
    using d by (auto simp: flushFile_prepare_def GetFile_def)
  obtain f1 where f1: "file_due Wa ?a1 peer la i f1 data" "f_Hash f1 = f_Hash f" "file_header i f1 = file_header i f"
    using file_due_sending [OF assms(1)] by blast
  have r1: "ready Wb b lb i f1 data" using assms(2) by (simp add: ready_def f1(2))
  obtain a2 b2 where t: "transfer Wa Wb la lb peer i ?a1 b = (a2, b2, Sent)" "FileData (w_env Wb) (n_store b2) i = Inr data"
    "files_inv (w_env Wb) (n_store b2)" "l_open (n_links a2 la)" "l_caps (n_links a2 la) = l_caps (n_links ?a1 la)"
    by (rule transfer_run [OF f1(1) r1 assms(3)]) (use assms(4) f1(2) in simp_all)
  have ok: "send Wa la (file_header i f) (set_link la (awaitFileAck i) a2)
     = (set_link la (\<lambda>k. k\<lparr>l_out := l_out k @ [file_header i f]\<rparr>) (set_link la (awaitFileAck i) a2), Inr ())"
    by (rule send_ok) (use d t(4) in \<open>simp_all add: awaitFileAck_def\<close>)
  have "speaks (n_links a2 la) CapResume" using t(5) d by (simp add: speaks_def)
  then have "\<exists>a3. flushFile_header Wa peer i (la, f, data) a2 = (a3, Some (la, f, data, True)) \<and> l_out (n_links a3 la) = l_out (n_links a2 la) @ [file_header i f]"
    using ok by (simp add: flushFile_header_def file_header_def Let_def awaitFileAck_def)
  with p t(1,2) header_restarts show ?thesis by blast
qed

section \<open>A transfer of three bytes\<close>

definition sample_rec :: fileRec where
  "sample_rec = \<lparr>f_ID = sample_ID, f_Peer = ''Bob'', f_Dir = DirOut, f_Name = ''n'', f_Size = 3,
     f_Hash = hex_EncodeToString (sha256 sample_env ''abc''), f_Status = FileQueued, f_Received = 0, f_Sent = 0, f_TS = 1\<rparr>"

definition sample_sender :: node where
  "sample_sender = sample_online\<lparr>n_store :=
     fst (AddOutboundFile sample_env sample_nonce 1 sample_store sample_ID ''Bob'' ''n'' (f_Hash sample_rec) ''abc'')\<rparr>"

definition sample_receiver :: "store \<Rightarrow> node" where
  "sample_receiver s = sample_online\<lparr>n_store := s\<rparr>"

lemma AddOutboundFile_stored:
  assumes "aead_ok E" "keys_ok s" "nonce_ok r"
  obtains s' where "AddOutboundFile E r now s i peer name hash data = (s', Inr ())"
    "file_at s' i = Some \<lparr>f_ID = i, f_Peer = peer, f_Dir = DirOut, f_Name = name, f_Size = int (length data),
       f_Hash = hash, f_Status = FileQueued, f_Received = 0, f_Sent = 0, f_TS = now\<rparr>"
    "FileBlob E s' i = Inr data"
proof -
  have "keys_ok (mkdir s i)" using assms(2) by (simp add: keys_ok_def mkdir_def split: option.split)
  then obtain c where c: "writeFileData E r (mkdir s i) data = Inr c" using writeFileData_total assms(3) by blast
  note rt = readFileData_writeFileData [OF assms(1,3) c]
  show thesis
  proof (rule that)
    show "AddOutboundFile E r now s i peer name hash data = (fst (AddOutboundFile E r now s i peer name hash data), Inr ())"
      by (simp add: AddOutboundFile_def c wrap_err_def dbUpdate_def Let_def)
  qed (simp_all add: AddOutboundFile_def c wrap_err_def dbUpdate_def Let_def FileBlob_def rt)
qed

lemma sample_due: "file_due sample_world sample_sender ''Bob'' 0 sample_ID sample_rec ''abc''"
proof -
  have w: "w_env sample_world = sample_env" "w_tx sample_world l e = Inr ()" for l e by (simp_all add: sample_world_def)
  have l: "linkFor sample_world sample_sender ''Bob'' = Some 0"
    using sample_online(1) by (simp add: sample_sender_def linkFor_def)
  have k: "l_open (n_links sample_sender 0)" "speaks (n_links sample_sender 0) CapResume"
    using sample_online(3) by (simp_all add: sample_sender_def speaks_def LocalCaps_def)
  obtain s' where s': "AddOutboundFile sample_env sample_nonce 1 sample_store sample_ID ''Bob'' ''n'' (f_Hash sample_rec) ''abc'' = (s', Inr ())"
    "file_at s' sample_ID = Some \<lparr>f_ID = sample_ID, f_Peer = ''Bob'', f_Dir = DirOut, f_Name = ''n'', f_Size = int (length ''abc''),
       f_Hash = f_Hash sample_rec, f_Status = FileQueued, f_Received = 0, f_Sent = 0, f_TS = 1\<rparr>"
    "FileBlob sample_env s' sample_ID = Inr ''abc''"
    by (rule AddOutboundFile_stored [OF sample_env_ok(1) sample_store_ok(2), of sample_nonce 1 sample_ID "''Bob''" "''n''" "f_Hash sample_rec" "''abc''"])
      simp_all
  have ne: "hex_EncodeToString (x # xs) \<noteq> []" for x xs by (simp add: hex_EncodeToString_def)
  have v: "validate (file_header sample_ID sample_rec) = Inr ()"
    by (simp add: validate_def file_header_def checkID_def require_def sample_ID_def sample_rec_def IDLen_def MaxFileSize_def
        envelope0_def sample_env_def pad_def ne)
  show ?thesis
    using w l k s' v by (simp add: file_due_def sample_sender_def sample_rec_def)
qed

lemma sample_ready:
  assumes "files_inv sample_env s" "resumable s sample_ID ''abc'' (f_Hash sample_rec)"
  shows "ready sample_world (sample_receiver s) 0 sample_ID sample_rec ''abc''"
  using assms sample_online(3)
  by (simp add: ready_def sample_receiver_def speaks_def LocalCaps_def) (simp add: sample_world_def)

lemma sample_resume: "resume_point (mkdir sample_store i) i h 3 = 0"
  by (simp add: resume_point_def GetFile_def sample_store_def empty_db_def)

theorem transfer_delivers_witness:
  "\<exists>a' b'. transfer sample_world sample_world 0 0 ''Bob'' sample_ID sample_sender (sample_receiver sample_store) = (a', b', Sent)
    \<and> FileData sample_env (n_store b') sample_ID = Inr ''abc''"
proof -
  have s: "n_store (sample_receiver sample_store) = sample_store" "w_env sample_world = sample_env"
    by (simp_all add: sample_receiver_def sample_world_def)
  have "ready sample_world (sample_receiver sample_store) 0 sample_ID sample_rec ''abc''"
    by (rule sample_ready [OF sample_files]) (simp add: resumable_def sample_resume)
  from transfer_delivers [OF sample_due this refl] show ?thesis by (simp add: s sample_resume) blast
qed

theorem overlapping_flush_resends_witness:
  "\<exists>a1 k a2 b2 a3 k3. flushFile_prepare sample_world ''Bob'' sample_ID sample_sender = (a1, Some k)
    \<and> transfer sample_world sample_world 0 0 ''Bob'' sample_ID a1 (sample_receiver sample_store) = (a2, b2, Sent)
    \<and> flushFile_header sample_world ''Bob'' sample_ID k a2 = (a3, Some k3)"
proof -
  have s: "n_store (sample_receiver sample_store) = sample_store" by (simp add: sample_receiver_def)
  have "ready sample_world (sample_receiver sample_store) 0 sample_ID sample_rec ''abc''"
    by (rule sample_ready [OF sample_files]) (simp add: resumable_def sample_resume)
  from overlapping_flush_resends [OF sample_due this refl] show ?thesis by (simp add: s sample_resume) blast
qed

text \<open>A store interrupted between the last chunk and the completion.\<close>

definition sample_held :: store where
  "sample_held = fst (WriteChunk (fst (BeginReceive 1 sample_store sample_ID ''Bob'' ''n'' (f_Hash sample_rec) 3)) sample_ID 0 ''abc'')"

lemma sample_held:
  "files_inv sample_env sample_held" "resume_point (mkdir sample_held sample_ID) sample_ID (f_Hash sample_rec) 3 = 3"
  "resumable sample_held sample_ID ''abc'' (f_Hash sample_rec)"
proof -
  let ?g = "\<lparr>f_ID = sample_ID, f_Peer = ''Bob'', f_Dir = DirIn, f_Name = ''n'', f_Size = 3,
      f_Hash = f_Hash sample_rec, f_Status = FileReceiving, f_Received = 3, f_Sent = 0, f_TS = 1\<rparr>"
  show "files_inv sample_env sample_held"
    unfolding sample_held_def by (intro files_inv_WriteChunk files_inv_BeginReceive sample_files) simp
  have g: "file_at sample_held sample_ID = Some ?g" "tmp_of sample_held sample_ID = Some ''abc''"
    by (simp_all add: sample_held_def BeginReceive_def WriteChunk_def GetFile_def resume_point_def mkdir_def in_dir_def dbUpdate_def
        sample_store_def tmp_of_def WriteAt_def advance_def empty_db_def Let_def)
  then show r: "resume_point (mkdir sample_held sample_ID) sample_ID (f_Hash sample_rec) 3 = 3"
    by (simp add: resume_point_def GetFile_def)
  have "partial sample_held sample_ID ''abc'' ?g" using g by (simp add: partial_def)
  then show "resumable sample_held sample_ID ''abc'' (f_Hash sample_rec)"
    using r by (auto simp: resumable_def intro!: exI [of _ ?g])
qed

theorem full_resume_stalls_witness:
  "\<exists>a' b'. transfer sample_world sample_world 0 0 ''Bob'' sample_ID sample_sender (sample_receiver sample_held) = (a', b', Sent)
    \<and> FileData sample_env (n_store b') sample_ID = Inl (Err ''store: file not complete'')"
proof -
  have s: "n_store (sample_receiver sample_held) = sample_held" "w_env sample_world = sample_env"
    by (simp_all add: sample_receiver_def sample_world_def)
  from full_resume_stalls [OF sample_due sample_ready [OF sample_held(1,3)]] show ?thesis
    by (simp add: s sample_held(2)) blast
qed

end
