(* ===== verification/Invite.thy ===== *)
theory Invite
  imports Node_Core
begin

text \<open>
  Package \<open>internal/node\<close>, part 5 (\<open>invite.go\<close>, \<open>qr.go\<close>): invitation links. The text functions
  of package \<open>net\<close> are written out; the QR encoder (a library) is a parameter, and the
  machine's interfaces are an argument.
\<close>

section \<open>Host and port\<close>

fun IndexByte :: "bytes \<Rightarrow> char \<Rightarrow> nat option" where
  "IndexByte [] c = None"
| "IndexByte (x # xs) c = (if x = c then Some 0 else map_option Suc (IndexByte xs c))"

definition LastIndexByte :: "bytes \<Rightarrow> char \<Rightarrow> nat option" where
  "LastIndexByte s c = map_option (\<lambda>i. length s - 1 - i) (IndexByte (rev s) c)"

text \<open>\<open>net.SplitHostPort\<close>: the port follows the last colon; a host with colons needs brackets.\<close>

definition SplitHostPort :: "bytes \<Rightarrow> (bytes \<times> bytes) result" where
  "SplitHostPort hp = (case LastIndexByte hp CHR '':'' of
     None \<Rightarrow> Inl (Err ''missing port in address'')
   | Some i \<Rightarrow>
     let fin = (\<lambda>host j k.
           if IndexByte (drop j hp) CHR ''['' \<noteq> None then Inl (Err ''unexpected '[' in address'')
           else if IndexByte (drop k hp) CHR '']'' \<noteq> None then Inl (Err ''unexpected ']' in address'')
           else Inr (host, drop (i + 1) hp))
     in if hd hp = CHR ''[''
        then (case IndexByte hp CHR '']'' of
            None \<Rightarrow> Inl (Err ''missing ']' in address'')
          | Some e \<Rightarrow>
            if e + 1 = length hp then Inl (Err ''missing port in address'')
            else if e + 1 = i then fin (take (e - 1) (drop 1 hp)) 1 (e + 1)
            else if hp ! (e + 1) = CHR '':'' then Inl (Err ''too many colons in address'')
            else Inl (Err ''missing port in address''))
        else if IndexByte (take i hp) CHR '':'' \<noteq> None then Inl (Err ''too many colons in address'')
        else fin (take i hp) 0 0)"

definition JoinHostPort :: "bytes \<Rightarrow> bytes \<Rightarrow> bytes" where
  "JoinHostPort host port = (if IndexByte host CHR '':'' \<noteq> None then ''['' @ host @ '']:'' @ port
     else host @ '':'' @ port)"

section \<open>Invitations\<close>

definition InvitePrefix :: bytes where "InvitePrefix = ''chirp://add/''"
definition MinFPLen :: nat where "MinFPLen = 8"
definition MaxPreviewFP :: nat where "MaxPreviewFP = 16"

definition lower_hex :: "nat \<Rightarrow> bool" where
  "lower_hex c \<longleftrightarrow> 0x30 \<le> c \<and> c \<le> 0x39 \<or> 0x61 \<le> c \<and> c \<le> 0x66"

definition ParseInvite :: "bytes \<Rightarrow> (bytes \<times> bytes \<times> bytes) result" where
  "ParseInvite uri =
     (if take (length InvitePrefix) uri \<noteq> InvitePrefix then Inl (Err ''invite: must start with chirp://add/'')
      else let rest = drop (length InvitePrefix) uri in
      if rest = [] then Inl (Err ''invite: empty address'')
      else case strings_Cut rest ''/'' of (hostPort, fp, hasFP) \<Rightarrow>
        if \<not> hasFP \<or> fp = [] then Inl (Err ''invite: missing fingerprint prefix'')
        else if length fp < MinFPLen then Inl (ErrF ''invite: fingerprint prefix must be at least %d chars'' [Itoa MinFPLen])
        else if \<not> list_all lower_hex (runes fp) then Inl (Err ''invite: fingerprint must be lowercase hex'')
        else case SplitHostPort hostPort of
            Inl e \<Rightarrow> Inl (ErrWrap ''invite: bad host:port'' e)
          | Inr (host, port) \<Rightarrow>
              if host = [] then Inl (Err ''invite: empty host'')
              else if port = [] then Inl (Err ''invite: empty port'')
              else Inr (host, port, fp))"

definition FormatInvite :: "bytes \<Rightarrow> bytes \<Rightarrow> bytes \<Rightarrow> bytes" where
  "FormatInvite host port fingerprint =
     (let fp = (if length fingerprint > MaxPreviewFP then take MaxPreviewFP fingerprint else fingerprint)
      in InvitePrefix @ host @ '':'' @ port @ ''/'' @ fp)"

section \<open>The addresses of this machine\<close>

text \<open>An interface address: an IPv4 network (after \<open>To4\<close>), or anything else.\<close>

datatype ifaddr = IP4 nat nat nat nat | OtherAddr

record iface =
  if_up :: bool
  if_loopback :: bool
  if_addrs :: "ifaddr list result"

fun IsLoopback :: "ifaddr \<Rightarrow> bool" where
  "IsLoopback (IP4 a b c d) = (a = 127)"
| "IsLoopback OtherAddr = False"

fun IsLinkLocalUnicast :: "ifaddr \<Rightarrow> bool" where
  "IsLinkLocalUnicast (IP4 a b c d) = (a = 169 \<and> b = 254)"
| "IsLinkLocalUnicast OtherAddr = False"

fun IsPrivate :: "ifaddr \<Rightarrow> bool" where
  "IsPrivate (IP4 a b c d) = (a = 10 \<or> a = 172 \<and> b div 16 = 1 \<or> a = 192 \<and> b = 168)"
| "IsPrivate OtherAddr = False"

fun ip_String :: "ifaddr \<Rightarrow> string" where
  "ip_String (IP4 a b c d) = Itoa a @ ''.'' @ Itoa b @ ''.'' @ Itoa c @ ''.'' @ Itoa d"
| "ip_String OtherAddr = []"

definition usable :: "ifaddr \<Rightarrow> bool" where
  "usable a \<longleftrightarrow> \<not> (a = OtherAddr \<or> IsLoopback a \<or> IsLinkLocalUnicast a)"

definition iface_addrs :: "iface \<Rightarrow> ifaddr list" where
  "iface_addrs f = (if \<not> if_up f \<or> if_loopback f then []
     else case if_addrs f of Inl _ \<Rightarrow> [] | Inr as \<Rightarrow> filter usable as)"

definition localAddresses :: "iface list result \<Rightarrow> string list" where
  "localAddresses ifaces = (case ifaces of
     Inl _ \<Rightarrow> []
   | Inr fs \<Rightarrow> let as = concat (map iface_addrs fs)
       in map ip_String (filter IsPrivate as) @ map ip_String (filter (\<lambda>a. \<not> IsPrivate a) as))"

section \<open>The QR code\<close>

text \<open>The encoder gives the size of the code and which modules are black.\<close>

type_synonym qr_encoder = "bytes \<Rightarrow> (nat \<times> (nat \<Rightarrow> nat \<Rightarrow> bool)) result"

definition qr_module :: "nat \<Rightarrow> nat \<Rightarrow> nat \<Rightarrow> string" where
  "qr_module scale x y = ''M'' @ Itoa ((x + 4) * scale) @ '' '' @ Itoa ((y + 4) * scale) @ ''h'' @ Itoa scale @
     ''v'' @ Itoa scale @ ''h-'' @ Itoa scale @ ''z''"

definition QRSVG :: "qr_encoder \<Rightarrow> bytes \<Rightarrow> int \<Rightarrow> string result" where
  "QRSVG enc text scale0 = (let scale = (if scale0 \<le> 0 then 8 else nat scale0) in
     bindR (wrap_err ''node: encode qr'' (enc text)) (\<lambda>(sz, black).
       let px = Itoa ((sz + 8) * scale);
           path = concat (map (\<lambda>y. concat (map (\<lambda>x. if black x y then qr_module scale x y else []) [0..<sz])) [0..<sz])
       in Inr (''<svg xmlns=\"http://www.w3.org/2000/svg\" viewBox=\"0 0 '' @ px @ '' '' @ px @ ''\" width=\"'' @ px @ ''\" height=\"'' @ px @
            ''\" role=\"img\" aria-label=\"Invite QR code\" shape-rendering=\"crispEdges\">'' @
            ''<rect width=\"'' @ px @ ''\" height=\"'' @ px @ ''\" fill=\"#fff\"/>'' @
            ''<path d=\"'' @ path @ ''\" fill=\"#0C0C14\"/>'' @ ''</svg>'')))"

section \<open>The invitation of a node\<close>

record invite =
  iv_URI :: string
  iv_Host :: string
  iv_Port :: string
  iv_Fingerprint :: string
  iv_Addresses :: "string list"
  iv_SVG :: string

text \<open>\<open>Port\<close> panics before \<open>Start\<close>: there is no listener.\<close>

definition Port :: "node \<Rightarrow> int result" where
  "Port n = (case n_ln n of None \<Rightarrow> Inl (Panic ''nil pointer dereference'') | Some (_, p) \<Rightarrow> Inr p)"

definition Invite :: "qr_encoder \<Rightarrow> iface list result \<Rightarrow> node \<Rightarrow> invite result" where
  "Invite enc ifaces n = bindR (Port n) (\<lambda>p. let port = Itoa (nat p); addrs = localAddresses ifaces;
       host = (if addrs = [] then ''127.0.0.1'' else hd addrs); uri = FormatInvite host port (n_myFP n) in
     bindR (QRSVG enc uri 8) (\<lambda>svg.
       Inr \<lparr>iv_URI = uri, iv_Host = host, iv_Port = port, iv_Fingerprint = n_myFP n, iv_Addresses = addrs, iv_SVG = svg\<rparr>))"

section \<open>Splitting what was joined\<close>

lemma IndexByte_None [simp]: "IndexByte s c = None \<longleftrightarrow> c \<notin> set s"
  by (induction s) auto

lemma IndexByte_append: "c \<notin> set s \<Longrightarrow> IndexByte (s @ c # t) c = Some (length s)"
  by (induction s) auto

lemma LastIndexByte_None: "LastIndexByte s c = None \<longleftrightarrow> c \<notin> set s"
  by (simp add: LastIndexByte_def)

lemma LastIndexByte_append: "c \<notin> set t \<Longrightarrow> LastIndexByte (s @ c # t) c = Some (length s)"
  using IndexByte_append [of c "rev t" "rev s"] by (simp add: LastIndexByte_def)

lemma LastIndexByte_Some:
  assumes "LastIndexByte s c = Some i"
  shows "i < length s \<and> s ! i = c \<and> c \<notin> set (drop (i + 1) s)"
proof -
  have "c \<in> set s" using assms LastIndexByte_None [of s c] by (metis option.distinct(1))
  then obtain a b where "s = a @ c # b" "c \<notin> set b" by (metis split_list_last)
  with assms LastIndexByte_append [of c b a] show ?thesis by auto
qed

text \<open>A host or port without the four characters the syntax uses.\<close>

definition plain_part :: "bytes \<Rightarrow> bool" where
  "plain_part s \<longleftrightarrow> s \<noteq> [] \<and> set s \<inter> {CHR '':'', CHR ''['', CHR '']'', CHR ''/''} = {}"

lemma plain_partD:
  assumes "plain_part s"
  shows "s \<noteq> []" "CHR '':'' \<notin> set s" "CHR ''['' \<notin> set s" "CHR '']'' \<notin> set s" "CHR ''/'' \<notin> set s" "hd s \<noteq> CHR ''[''"
  using assms by (cases s; auto simp: plain_part_def)+

lemma SplitHostPort_plain:
  assumes "plain_part host" "plain_part port"
  shows "SplitHostPort (host @ '':'' @ port) = Inr (host, port)"
proof -
  note h = plain_partD [OF assms(1)] and p = plain_partD [OF assms(2)]
  have "LastIndexByte (host @ '':'' @ port) CHR '':'' = Some (length host)"
    using LastIndexByte_append [OF p(2), of host] by simp
  moreover have "hd (host @ '':'' @ port) \<noteq> CHR ''[''" using h(1,6) by simp
  ultimately show ?thesis using h p unfolding SplitHostPort_def by (simp add: Let_def)
qed

lemma strings_Index_single: "c \<notin> set s \<Longrightarrow> strings_Index (s @ c # t) [c] = Some (length s)"
proof (induction s)
  case Nil
  then show ?case by (simp add: strings_Index.simps [of "c # t"])
next
  case (Cons x s)
  then show ?case by (simp add: strings_Index.simps [of "x # _"])
qed

lemma strings_Cut_single: "c \<notin> set s \<Longrightarrow> strings_Cut (s @ c # t) [c] = (s, t, True)"
  by (simp add: strings_Cut_def strings_Index_single)

lemma ParseInvite_FormatInvite:
  assumes "plain_part host" "plain_part port" "MinFPLen \<le> length fp"
    and "list_all (\<lambda>c. lower_hex (of_char c)) fp"
  shows "ParseInvite (FormatInvite host port fp) = Inr (host, port, take MaxPreviewFP fp)"
proof -
  let ?f = "take MaxPreviewFP fp"
  have f: "FormatInvite host port fp = InvitePrefix @ (host @ '':'' @ port) @ CHR ''/'' # ?f"
    by (simp add: FormatInvite_def Let_def)
  have "is_ascii ?f" using assms(4)
    by (auto simp: list_all_iff lower_hex_def dest!: in_set_takeD)
  then have "runes ?f = map of_char ?f" by (rule runes_ascii)
  then have hex: "list_all lower_hex (runes ?f)"
    using assms(4) by (auto simp: list_all_iff dest!: in_set_takeD)
  have len: "?f \<noteq> []" "\<not> length ?f < MinFPLen" using assms(3) by (auto simp: MinFPLen_def MaxPreviewFP_def)
  have "CHR ''/'' \<notin> set (host @ '':'' @ port)"
    using plain_partD(5) [OF assms(1)] plain_partD(5) [OF assms(2)] by simp
  note cut = strings_Cut_single [OF this, of ?f]
  show ?thesis
    using hex len plain_partD(1) [OF assms(1)] plain_partD(1) [OF assms(2)]
    unfolding f ParseInvite_def Let_def
    by (simp add: cut [simplified] SplitHostPort_plain [OF assms(1,2), simplified])
qed

lemma plain_part_Itoa: "plain_part (Itoa n)"
  unfolding plain_part_def using set_Itoa [of _ n] by fastforce

lemma plain_part_append: "plain_part s \<Longrightarrow> plain_part t \<Longrightarrow> plain_part (s @ CHR ''.'' # t)"
  by (auto simp: plain_part_def)

lemma plain_part_ip: "a \<noteq> OtherAddr \<Longrightarrow> plain_part (ip_String a)"
  by (cases a) (simp_all add: plain_part_append plain_part_Itoa)

lemma localAddresses_mem:
  "h \<in> set (localAddresses ifaces) \<longleftrightarrow> (\<exists>fs f a as. ifaces = Inr fs \<and> f \<in> set fs \<and> if_up f \<and> \<not> if_loopback f
     \<and> if_addrs f = Inr as \<and> a \<in> set as \<and> usable a \<and> h = ip_String a)"
proof (cases ifaces)
  case (Inr fs)
  have "a \<in> set (iface_addrs f) \<longleftrightarrow> if_up f \<and> \<not> if_loopback f \<and> (\<exists>as. if_addrs f = Inr as \<and> a \<in> set as \<and> usable a)" for a f
    by (cases "if_addrs f") (auto simp: iface_addrs_def)
  with Inr show ?thesis unfolding localAddresses_def Let_def by auto blast+
qed (simp add: localAddresses_def)

lemma plain_part_local: "h \<in> set (localAddresses ifaces) \<Longrightarrow> plain_part h"
  using plain_part_ip by (auto simp only: localAddresses_mem usable_def)

lemma localAddresses_private:
  assumes "ifaces = Inr fs" "f \<in> set fs" "a \<in> set (iface_addrs f)" "IsPrivate a"
  shows "localAddresses ifaces \<noteq> [] \<and> (\<exists>f'\<in>set fs. \<exists>a'\<in>set (iface_addrs f'). IsPrivate a' \<and> hd (localAddresses ifaces) = ip_String a')"
proof -
  let ?ps = "filter IsPrivate (concat (map iface_addrs fs))"
  have "a \<in> set ?ps" using assms by auto
  then have ne: "?ps \<noteq> []" by (metis empty_iff list.set(1))
  then have "hd (localAddresses ifaces) = ip_String (hd ?ps)" "localAddresses ifaces \<noteq> []"
    using assms(1) by (simp_all add: localAddresses_def Let_def hd_append hd_map)
  moreover have "hd ?ps \<in> set ?ps" using ne by (rule hd_in_set)
  ultimately show ?thesis by auto
qed

lemma hex_lower: "list_all (\<lambda>c. lower_hex (of_char c)) (hex_EncodeToString bs)"
proof -
  have "lower_hex (of_char (hex_digit k))" if "k < 16" for k
    using that by (auto simp: hex_digit_def lower_hex_def)
  moreover have "(of_char b :: nat) div 16 < 16" for b :: char
    using of_char_lt_256 [of b] by (simp add: less_mult_imp_div_less)
  ultimately show ?thesis by (auto simp: hex_EncodeToString_def list_all_iff)
qed

lemma Invite_Inr:
  assumes "Invite enc ifaces n = Inr iv"
  obtains p where "n_ln n = Some p" "iv_Port iv = Itoa (nat (snd p))"
    "iv_URI iv = FormatInvite (iv_Host iv) (iv_Port iv) (n_myFP n)"
    "iv_Host iv = (if localAddresses ifaces = [] then ''127.0.0.1'' else hd (localAddresses ifaces))"
    "iv_Fingerprint iv = n_myFP n"
proof -
  obtain p where p: "n_ln n = Some p" using assms by (cases "n_ln n") (simp_all add: Invite_def Port_def)
  obtain svg where "QRSVG enc (FormatInvite (if localAddresses ifaces = [] then ''127.0.0.1'' else hd (localAddresses ifaces))
      (Itoa (nat (snd p))) (n_myFP n)) 8 = Inr svg"
    using assms p by (cases p) (auto simp: Invite_def Port_def Let_def bindR_eq_Inr)
  then show thesis using assms p by (cases p) (intro that, auto simp: Invite_def Port_def Let_def)
qed

section \<open>Properties\<close>

text \<open>
  C27. Every invitation a node issues parses back to the address and port it shows and to the first
  sixteen digits of its fingerprint. The address is one of an interface that is up, is not a
  loopback or link-local one, and a private one whenever the machine has one; without any the
  invitation names 127.0.0.1.
\<close>

theorem invite_roundtrip:
  assumes "sha256_ok E" "n_myFP n = Fingerprint E key" "Invite enc ifaces n = Inr iv"
  shows "ParseInvite (iv_URI iv) = Inr (iv_Host iv, iv_Port iv, take 16 (n_myFP n))
    \<and> (iv_Host iv = ''127.0.0.1'' \<or>
       (\<exists>fs f a as. ifaces = Inr fs \<and> f \<in> set fs \<and> if_up f \<and> \<not> if_loopback f \<and> if_addrs f = Inr as
          \<and> a \<in> set as \<and> usable a \<and> iv_Host iv = ip_String a))
    \<and> (\<forall>fs f a. ifaces = Inr fs \<longrightarrow> f \<in> set fs \<longrightarrow> a \<in> set (iface_addrs f) \<longrightarrow> IsPrivate a
         \<longrightarrow> (\<exists>f'\<in>set fs. \<exists>a'\<in>set (iface_addrs f'). IsPrivate a' \<and> iv_Host iv = ip_String a'))"
proof -
  obtain p where ln: "n_ln n = Some p" and p: "iv_Port iv = Itoa (nat (snd p))"
    "iv_URI iv = FormatInvite (iv_Host iv) (iv_Port iv) (n_myFP n)"
    "iv_Host iv = (if localAddresses ifaces = [] then ''127.0.0.1'' else hd (localAddresses ifaces))"
    and fp: "iv_Fingerprint iv = n_myFP n"
    by (rule Invite_Inr [OF assms(3)])
  have host: "iv_Host iv = ''127.0.0.1'' \<or> iv_Host iv \<in> set (localAddresses ifaces)"
    unfolding p(3) by simp
  moreover have "plain_part (iv_Host iv)"
    using host plain_part_local by (auto simp: plain_part_def)
  then have "ParseInvite (iv_URI iv) = Inr (iv_Host iv, iv_Port iv, take MaxPreviewFP (n_myFP n))"
    unfolding p(2)
  proof (rule ParseInvite_FormatInvite)
    show "plain_part (iv_Port iv)" by (simp add: p(1) plain_part_Itoa)
    show "MinFPLen \<le> length (n_myFP n)" by (simp add: assms MinFPLen_def)
    show "list_all (\<lambda>c. lower_hex (of_char c)) (n_myFP n)" by (simp add: assms(2) Fingerprint_def hex_lower)
  qed
  moreover have "\<exists>f'\<in>set fs. \<exists>a'\<in>set (iface_addrs f'). IsPrivate a' \<and> iv_Host iv = ip_String a'"
    if "ifaces = Inr fs" "f \<in> set fs" "a \<in> set (iface_addrs f)" "IsPrivate a" for fs f a
    using localAddresses_private [OF that] unfolding p(3) by simp
  ultimately show ?thesis unfolding localAddresses_mem MaxPreviewFP_def by blast
qed

definition sample_enc :: qr_encoder where
  "sample_enc t = Inr (1, \<lambda>x y. True)"

theorem invite_roundtrip_witness:
  "\<exists>iv. Invite sample_enc (Inr []) (sample_node\<lparr>n_ln := Some (''0.0.0.0:1'', 1)\<rparr>) = Inr iv
     \<and> ParseInvite (iv_URI iv) = Inr (''127.0.0.1'', Itoa 1, take 16 (n_myFP sample_node))"
proof -
  let ?n = "sample_node\<lparr>n_ln := Some (''0.0.0.0:1'', 1)\<rparr>"
  have svg: "\<exists>svg. QRSVG sample_enc u 8 = Inr svg" for u
    unfolding QRSVG_def sample_enc_def wrap_err_def Let_def by simp
  obtain iv where i: "Invite sample_enc (Inr []) ?n = Inr iv"
    using svg by (auto simp: Invite_def Port_def Let_def bindR_eq_Inr) blast
  have h: "iv_Host iv = ''127.0.0.1''" "iv_Port iv = Itoa 1"
    using Invite_Inr [OF i] by (auto simp: localAddresses_def)
  have "ParseInvite (iv_URI iv) = Inr (iv_Host iv, iv_Port iv, take 16 (n_myFP ?n))"
    by (rule conjunct1 [OF invite_roundtrip [OF _ _ i, of sample_env]]) (simp_all add: sample_env_ok sample_node_def New_def)
  with i h show ?thesis by auto
qed

end
