(* ===== verification/Discovery.thy ===== *)
theory Discovery
  imports Invite
begin

text \<open>
  Package \<open>internal/discovery\<close>: what is announced about a node, the parsing of untrusted mDNS
  entries (\<open>mdns.go\<close>), and the in-memory hub that stands for a LAN (\<open>memory.go\<close>). The multicast
  library is a parameter: its registration is a function of what it is asked to publish, its
  entries are arguments. Text forms of IP addresses are those of package \<open>net\<close>.
\<close>

section \<open>The interface\<close>

record announcement =
  a_Name :: string
  a_FP :: string
  a_Port :: int

record devent =
  de_Up :: bool
  de_Peer :: dpeer

definition Service :: string where "Service = ''_chirp._tcp''"

section \<open>Text form of an IPv6 address\<close>

text \<open>
  Eight 16-bit groups. The first of the longest runs of at least two zero groups is written
  \<open>::\<close>; an IPv4-mapped address is written in dotted form.
\<close>

type_synonym ip6 = "nat list"

fun hex_nat :: "nat \<Rightarrow> string" where
  "hex_nat n = (if n < 16 then [hex_digit n] else hex_nat (n div 16) @ [hex_digit (n mod 16)])"

declare hex_nat.simps [simp del]

definition zero_run :: "ip6 \<Rightarrow> nat \<Rightarrow> nat" where
  "zero_run ip i = length (takeWhile (\<lambda>g. g = 0) (drop i ip))"

definition longest_zeros :: "ip6 \<Rightarrow> (nat \<times> nat) option" where
  "longest_zeros ip = fold (\<lambda>i best. let l = zero_run ip i in
     if l \<ge> 2 \<and> (case best of None \<Rightarrow> True | Some (_, b) \<Rightarrow> l > b) then Some (i, l) else best) [0..<8] None"

fun join_groups :: "ip6 \<Rightarrow> string" where
  "join_groups [] = []"
| "join_groups [g] = hex_nat g"
| "join_groups (g # gs) = hex_nat g @ '':'' @ join_groups gs"

text \<open>\<open>net.IP.To4\<close> of a 16-byte address.\<close>

definition To4 :: "ip6 \<Rightarrow> ifaddr option" where
  "To4 ip = (if take 5 ip = replicate 5 0 \<and> ip ! 5 = 0xFFFF
     then Some (IP4 (ip ! 6 div 256) (ip ! 6 mod 256) (ip ! 7 div 256) (ip ! 7 mod 256)) else None)"

definition ip6_String :: "ip6 \<Rightarrow> string" where
  "ip6_String ip = (case To4 ip of Some a \<Rightarrow> ip_String a | None \<Rightarrow>
     (case longest_zeros ip of
        None \<Rightarrow> join_groups ip
      | Some (i, l) \<Rightarrow> join_groups (take i ip) @ ''::'' @ join_groups (drop (i + l) ip)))"

definition ip6_IsLinkLocalUnicast :: "ip6 \<Rightarrow> bool" where
  "ip6_IsLinkLocalUnicast ip = (case To4 ip of Some a \<Rightarrow> IsLinkLocalUnicast a | None \<Rightarrow> ip ! 0 div 64 = 0x3FA)"

section \<open>Multicast DNS\<close>

record serviceEntry =
  se_Text :: "string list"
  se_Port :: int
  se_TTL :: nat
  se_IPv4 :: "ifaddr list"
  se_IPv6 :: "ip6 list"

text \<open>
  \<open>zeroconf.Register\<close> is the argument; the server it returns, which the code keeps until the
  context is done, is the result here.
\<close>

definition mdns_Announce :: "(string \<Rightarrow> string \<Rightarrow> string \<Rightarrow> int \<Rightarrow> string list \<Rightarrow> 'srv result) \<Rightarrow> announcement \<Rightarrow> 'srv result" where
  "mdns_Announce register_service a =
     (if length (a_FP a) < 16 then Inl (Err ''mdns: fingerprint too short'')
      else wrap_err ''mdns: register'' (register_service (take 16 (a_FP a)) Service ''local.'' (a_Port a)
        [''v=1'', ''name='' @ a_Name a, ''fp='' @ a_FP a]))"

text \<open>The TXT record as a map: a later pair overwrites an earlier one; a text without \<open>=\<close> is skipped.\<close>

definition txt_map :: "string list \<Rightarrow> (string \<Rightarrow> string option)" where
  "txt_map ts = fold (\<lambda>kv m. case strings_Cut kv ''='' of (k, v, ok) \<Rightarrow> if ok then m(k \<mapsto> v) else m) ts Map.empty"

definition txt_get :: "(string \<Rightarrow> string option) \<Rightarrow> string \<Rightarrow> string" where
  "txt_get m k = (case m k of None \<Rightarrow> [] | Some v \<Rightarrow> v)"

definition entry_addrs :: "serviceEntry \<Rightarrow> string list" where
  "entry_addrs e = (let port = itoa (se_Port e) in
     map (\<lambda>ip. JoinHostPort (ip_String ip) port) (se_IPv4 e) @
     map (\<lambda>ip. JoinHostPort (ip6_String ip) port) (filter (\<lambda>ip. \<not> ip6_IsLinkLocalUnicast ip) (se_IPv6 e)))"

definition fromEntry :: "serviceEntry \<Rightarrow> dpeer option" where
  "fromEntry e = (let txt = txt_map (se_Text e) in
     if txt_get txt ''v'' \<noteq> ''1'' \<or> txt_get txt ''name'' = [] \<or> length (txt_get txt ''fp'') \<noteq> 64
        \<or> se_Port e \<le> 0 \<or> se_Port e > 65535 then None
     else let p = \<lparr>d_Name = txt_get txt ''name'', d_FP = txt_get txt ''fp'', d_Addrs = entry_addrs e\<rparr>
       in if d_Addrs p \<noteq> [] then Some p else None)"

text \<open>The events of \<open>MDNS.Browse\<close> for the entries received.\<close>

definition mdns_events :: "serviceEntry list \<Rightarrow> devent list" where
  "mdns_events es = List.map_filter (\<lambda>e. map_option (\<lambda>p. \<lparr>de_Up = (se_TTL e > 0), de_Peer = p\<rparr>) (fromEntry e)) es"

section \<open>The in-memory hub\<close>

text \<open>
  A browser's channel holds up to 64 events; what does not fit is dropped. Iterating over the
  browsers touches every channel once, so the map's order is not visible there; over the
  announcements it is, and it is an argument of \<open>Browse\<close>.
\<close>

record hub =
  h_next :: nat
  h_announce :: "nat \<Rightarrow> announcement option"
  h_browsers :: "nat \<Rightarrow> devent list option"

definition NewHub :: hub where
  "NewHub = \<lparr>h_next = 0, h_announce = Map.empty, h_browsers = Map.empty\<rparr>"

definition browseCap :: nat where "browseCap = 64"

definition trySend :: "devent \<Rightarrow> devent list \<Rightarrow> devent list" where
  "trySend e ch = (if length ch < browseCap then ch @ [e] else ch)"

definition toPeer :: "announcement \<Rightarrow> dpeer" where
  "toPeer a = \<lparr>d_Name = a_Name a, d_FP = a_FP a, d_Addrs = [''127.0.0.1:'' @ itoa (a_Port a)]\<rparr>"

definition broadcast :: "nat \<Rightarrow> devent \<Rightarrow> hub \<Rightarrow> hub" where
  "broadcast self e h = h\<lparr>h_browsers := (\<lambda>b. if b = self then h_browsers h b else map_option (trySend e) (h_browsers h b))\<rparr>"

text \<open>\<open>self\<close> is the member's id: that of its last \<open>Browse\<close>, 0 before.\<close>

definition hub_Announce :: "nat \<Rightarrow> announcement \<Rightarrow> hub \<Rightarrow> hub \<times> nat" where
  "hub_Announce self a h = (let i = h_next h + 1 in
     (broadcast self \<lparr>de_Up = True, de_Peer = toPeer a\<rparr>
        (h\<lparr>h_next := i, h_announce := (h_announce h)(i \<mapsto> a)\<rparr>), i))"

text \<open>The goroutine of \<open>Announce\<close> once its context is done.\<close>

definition hub_withdraw :: "nat \<Rightarrow> nat \<Rightarrow> announcement \<Rightarrow> hub \<Rightarrow> hub" where
  "hub_withdraw self i a h = broadcast self \<lparr>de_Up = False, de_Peer = toPeer a\<rparr>
     (h\<lparr>h_announce := (h_announce h)(i := None)\<rparr>)"

definition hub_Browse :: "nat list \<Rightarrow> hub \<Rightarrow> hub \<times> nat" where
  "hub_Browse order h = (let i = h_next h + 1;
       evs = map (\<lambda>a. \<lparr>de_Up = True, de_Peer = toPeer a\<rparr>) (List.map_filter (h_announce h) order)
     in (h\<lparr>h_next := i, h_browsers := (h_browsers h)(i \<mapsto> fold trySend evs [])\<rparr>, i))"

definition hub_leave :: "nat \<Rightarrow> hub \<Rightarrow> hub" where
  "hub_leave i h = h\<lparr>h_browsers := (h_browsers h)(i := None)\<rparr>"

definition hub_take :: "nat \<Rightarrow> hub \<Rightarrow> hub \<times> devent option" where
  "hub_take i h = (case h_browsers h i of
     Some (e # ch) \<Rightarrow> (h\<lparr>h_browsers := (h_browsers h)(i \<mapsto> ch)\<rparr>, Some e) | _ \<Rightarrow> (h, None))"

section \<open>Addresses that can be dialled\<close>

lemma set_hex_nat: "c \<in> set (hex_nat n) \<Longrightarrow> lower_hex (of_char c)"
proof (induction n rule: hex_nat.induct)
  case (1 n)
  have "lower_hex (of_char (hex_digit k))" if "k < 16" for k
    using that by (auto simp: hex_digit_def lower_hex_def)
  then show ?case using 1 by (subst (asm) (2) hex_nat.simps) (auto split: if_splits)
qed

text \<open>No bracket occurs in the text of an address.\<close>

abbreviation unbracketed :: "string \<Rightarrow> bool" where
  "unbracketed s \<equiv> CHR ''['' \<notin> set s \<and> CHR '']'' \<notin> set s"

lemma unbracketed_hex_nat: "unbracketed (hex_nat n)"
  by (auto dest!: set_hex_nat simp: lower_hex_def)

lemma unbracketed_join: "unbracketed (join_groups gs)"
  by (induction gs rule: join_groups.induct) (simp_all add: unbracketed_hex_nat)

lemma unbracketed_Itoa: "unbracketed (Itoa n)"
  using plain_partD(3,4) [OF plain_part_Itoa] by blast

lemma unbracketed_ip: "unbracketed (ip_String a)"
  by (cases a) (simp_all add: unbracketed_Itoa)

lemma unbracketed_ip6: "unbracketed (ip6_String ip)"
  unfolding ip6_String_def by (auto simp: unbracketed_ip unbracketed_join split: option.split)

lemma SplitHostPort_JoinHostPort:
  assumes "unbracketed host" "plain_part port"
  shows "SplitHostPort (JoinHostPort host port) = Inr (host, port)"
proof -
  note p = plain_partD [OF assms(2)]
  show ?thesis
  proof (cases "CHR '':'' \<in> set host")
    case True
    let ?s = "''['' @ host @ '']:'' @ port"
    have l: "LastIndexByte ?s CHR '':'' = Some (length host + 2)"
      using LastIndexByte_append [OF p(2), of "''['' @ host @ '']''"] by simp
    have i: "IndexByte ?s CHR '']'' = Some (length host + 1)"
      using IndexByte_append [of "CHR '']''" "''['' @ host" "'':'' @ port"] assms(1) by simp
    have "SplitHostPort ?s = Inr (host, port)"
      using l i assms(1) p unfolding SplitHostPort_def by (simp add: Let_def)
    with True show ?thesis by (simp add: JoinHostPort_def)
  next
    case False
    have l: "LastIndexByte (host @ '':'' @ port) CHR '':'' = Some (length host)"
      using LastIndexByte_append [OF p(2), of host] by simp
    have "hd (host @ '':'' @ port) \<noteq> CHR ''[''" using assms(1) by (cases host) auto
    with l False assms(1) p have "SplitHostPort (host @ '':'' @ port) = Inr (host, port)"
      unfolding SplitHostPort_def by (simp add: Let_def)
    with False show ?thesis by (simp add: JoinHostPort_def)
  qed
qed

lemma plain_part_itoa: "0 \<le> i \<Longrightarrow> plain_part (itoa i)"
  by (simp add: itoa_def plain_part_Itoa)

lemma entry_addrs_split:
  assumes "0 \<le> se_Port e" "addr \<in> set (entry_addrs e)"
  shows "\<exists>host. SplitHostPort addr = Inr (host, itoa (se_Port e))
    \<and> (host \<in> ip_String ` set (se_IPv4 e) \<or> host \<in> ip6_String ` set (se_IPv6 e))"
proof -
  note sp = SplitHostPort_JoinHostPort [OF _ plain_part_itoa [OF assms(1)]]
  from assms(2) show ?thesis
    by (auto simp: entry_addrs_def Let_def sp unbracketed_ip unbracketed_ip6)
qed

text \<open>Cutting a pair at its first equals sign.\<close>

lemma txt_pair: "CHR ''='' \<notin> set k \<Longrightarrow> strings_Cut (k @ ''='' @ v) ''='' = (k, v, True)"
  by (simp add: strings_Cut_single)

section \<open>Properties\<close>

text \<open>
  What the code relies on of the library: whoever sees the service of a server that was
  registered with a port and texts sees that port and those texts. It is asked only of ports in
  range and of texts that DNS carries as they are: at most 255 printable ASCII characters, without
  the quotation mark and the backslash.
\<close>

definition plain_txt :: "string \<Rightarrow> bool" where
  "plain_txt t \<longleftrightarrow> length t \<le> 255 \<and> list_all (\<lambda>c. CHR '' '' \<le> c \<and> c \<le> CHR ''~'' \<and> c \<noteq> CHR 0x22 \<and> c \<noteq> CHR 0x5C) t"

definition publishes :: "(string \<Rightarrow> string \<Rightarrow> string \<Rightarrow> int \<Rightarrow> string list \<Rightarrow> 'srv result) \<Rightarrow> ('srv \<Rightarrow> serviceEntry set) \<Rightarrow> bool" where
  "publishes reg seen \<longleftrightarrow> (\<forall>i service dom port txt srv. reg i service dom port txt = Inr srv
     \<longrightarrow> 0 < port \<longrightarrow> port \<le> 65535 \<longrightarrow> list_all plain_txt txt \<longrightarrow> (\<forall>e\<in>seen srv. se_Port e = port \<and> se_Text e = txt))"

text \<open>
  C28. What a node publishes over multicast DNS is what another node reads: an entry that is seen
  of the registered service is accepted with the same name and fingerprint (of printable ASCII
  characters, the equals sign that separates the fields of the record included), and each of its
  addresses splits back into an address of the entry and the port. An entry is accepted only with
  a name, 64 characters of fingerprint, a port in range and an address. Of the library it is
  assumed that it shows the port and such texts as they were given.
\<close>

theorem mdns_roundtrip:
  assumes "publishes reg seen" "mdns_Announce reg a = Inr srv" "e \<in> seen srv"
    and "length (a_FP a) = 64" "a_Name a \<noteq> []" "0 < a_Port a" "a_Port a \<le> 65535"
    and "entry_addrs e \<noteq> []" "plain_txt (''name='' @ a_Name a)" "plain_txt (a_FP a)"
  shows "fromEntry e = Some \<lparr>d_Name = a_Name a, d_FP = a_FP a, d_Addrs = entry_addrs e\<rparr>
    \<and> (\<forall>addr\<in>set (entry_addrs e). \<exists>host. SplitHostPort addr = Inr (host, itoa (a_Port a))
        \<and> (host \<in> ip_String ` set (se_IPv4 e) \<or> host \<in> ip6_String ` set (se_IPv6 e)))
    \<and> (\<forall>x p. fromEntry x = Some p \<longrightarrow> d_Name p \<noteq> [] \<and> length (d_FP p) = 64 \<and> d_Addrs p \<noteq> []
        \<and> 0 < se_Port x \<and> se_Port x \<le> 65535)"
proof -
  let ?txt = "[''v=1'', ''name='' @ a_Name a, ''fp='' @ a_FP a]"
  have "reg (take 16 (a_FP a)) Service ''local.'' (a_Port a) ?txt = Inr srv"
    using assms(2) by (auto simp: mdns_Announce_def wrap_err_Inr split: if_splits)
  moreover have "list_all plain_txt ?txt" using assms(4,9,10) by (simp add: plain_txt_def less_eq_char_def)
  ultimately have e: "se_Port e = a_Port a" "se_Text e = ?txt" using assms(1,3,6,7) by (auto simp: publishes_def)
  have "txt_map ?txt = [''v'' \<mapsto> ''1'', ''name'' \<mapsto> a_Name a, ''fp'' \<mapsto> a_FP a]"
    using txt_pair [of "''v''" "''1''"] txt_pair [of "''name''" "a_Name a"] txt_pair [of "''fp''" "a_FP a"]
    by (simp add: txt_map_def)
  then have "fromEntry e = Some \<lparr>d_Name = a_Name a, d_FP = a_FP a, d_Addrs = entry_addrs e\<rparr>"
    using assms(4-8) by (simp add: fromEntry_def e txt_get_def)
  moreover have "\<forall>x p. fromEntry x = Some p \<longrightarrow> d_Name p \<noteq> [] \<and> length (d_FP p) = 64 \<and> d_Addrs p \<noteq> []
        \<and> 0 < se_Port x \<and> se_Port x \<le> 65535"
    by (auto simp: fromEntry_def Let_def split: if_splits)
  moreover have "0 \<le> se_Port e" using e assms(6) by simp
  ultimately show ?thesis using entry_addrs_split [of e] e(1) by auto
qed

definition sample_entry :: serviceEntry where
  "sample_entry = \<lparr>se_Text = [''v=1'', ''name=A=B'', ''fp='' @ replicate 64 CHR ''f''], se_Port = 4000, se_TTL = 120,
     se_IPv4 = [IP4 10 0 0 2], se_IPv6 = [[0x2001, 0xDB8, 0, 0, 0, 0, 0, 1]]\<rparr>"

text \<open>A name with an equals sign in it, reachable over both protocols.\<close>

theorem mdns_roundtrip_witness:
  "fromEntry sample_entry = Some \<lparr>d_Name = ''A=B'', d_FP = replicate 64 CHR ''f'', d_Addrs = entry_addrs sample_entry\<rparr>"
proof -
  let ?a = "\<lparr>a_Name = ''A=B'', a_FP = replicate 64 CHR ''f'', a_Port = 4000\<rparr>"
  let ?reg = "\<lambda>i service dom port txt. Inr (port, txt)" and ?seen = "\<lambda>(port, txt). {sample_entry\<lparr>se_Port := port, se_Text := txt\<rparr>}"
  have "publishes ?reg ?seen" by (auto simp: publishes_def)
  moreover have "mdns_Announce ?reg ?a = Inr (4000, se_Text sample_entry)"
    by (simp add: mdns_Announce_def sample_entry_def wrap_err_def)
  moreover have "sample_entry \<in> ?seen (4000, se_Text sample_entry)" by (simp add: sample_entry_def)
  moreover have "plain_txt (''name='' @ a_Name ?a)" "plain_txt (a_FP ?a)"
    by (simp_all add: plain_txt_def less_eq_char_def, simp add: list_all_iff)
  ultimately show ?thesis using mdns_roundtrip [of ?reg ?seen ?a _ sample_entry] by (simp add: sample_entry_def entry_addrs_def Let_def)
qed

end
