(* ===== verification/Node_Run.thy ===== *)
theory Node_Run
  imports Node_Link Discovery
begin

text \<open>
  Package \<open>internal/node\<close>, part 6 (the rest of \<open>node.go\<close>): starting a node, dialling a discovered
  or typed address, serving one connection from handshake to close, and the outbox tick; then
  the step relation of a running node and what no run of it can change.

  Sockets are arguments: the listener or the error of \<open>net.Listen\<close>, whether a connection attempt
  to an address succeeds, the outcome of the handshake on it, the envelopes that arrive. The
  discovery backend is a record of functions over its own state \<open>'d\<close>.
\<close>

section \<open>Start\<close>

record 'd discovery =
  disc_Browse :: "'d \<Rightarrow> 'd \<times> unit result"
  disc_Announce :: "announcement \<Rightarrow> 'd \<Rightarrow> 'd \<times> unit result"

text \<open>The in-memory hub as a backend: its state, this member's id, and the ids announced under its context.\<close>

definition hub_discovery :: "nat list \<Rightarrow> (hub \<times> nat \<times> nat list) discovery" where
  "hub_discovery order = \<lparr>
     disc_Browse = (\<lambda>(h, self, own). let (h', i) = hub_Browse order h in ((h', i, own), Inr ())),
     disc_Announce = (\<lambda>a (h, self, own). let (h', i) = hub_Announce self a h in ((h', self, own @ [i]), Inr ()))\<rparr>"

definition announcement_of :: "node \<Rightarrow> announcement result" where
  "announcement_of n = bindR (Port n) (\<lambda>p. Inr \<lparr>a_Name = i_Name (n_id n), a_FP = n_myFP n, a_Port = p\<rparr>)"

definition Start :: "world \<Rightarrow> 'd discovery \<Rightarrow> (string \<times> int) result \<Rightarrow> 'd \<Rightarrow> node \<Rightarrow> ('d \<times> node) \<times> unit result" where
  "Start W D listen d n = (case listen of
     Inl e \<Rightarrow> ((d, n), Inl (ErrWrap ''node: listen'' e))
   | Inr lsn \<Rightarrow> let n1 = n\<lparr>n_ln := Some lsn, n_started := w_now W\<rparr> in
     (case disc_Browse D d of
        (d1, Inl e) \<Rightarrow> ((d1, n1), Inl e)
      | (d1, Inr _) \<Rightarrow> (case announcement_of n1 of
          Inl e \<Rightarrow> ((d1, n1), Inl e)
        | Inr a \<Rightarrow> (case disc_Announce D a d1 of
            (d2, Inl e) \<Rightarrow> ((d2, n1), Inl e)
          | (d2, Inr _) \<Rightarrow>
              ((d2, fold goRun (map TLoop [''acceptLoop'', ''browseLoop'', ''dialLoop'', ''retentionLoop'', ''outboxLoop''])
                 (logf W ''listening on %s, announcing as %q (%s)'' [AStr (fst lsn), AStr (i_Name (n_id n)), AStr (take 8 (n_myFP n))]
                   (n1\<lparr>n_announcing := True\<rparr>))), Inr ())))))"

section \<open>One connection\<close>

text \<open>
  \<open>runSession\<close>: the ping loop and a forced flush are started, the envelopes \<open>es\<close> handled until
  the connection ends, and the session taken down at the time of \<open>W'\<close>.
\<close>

definition runSession_start :: "nat \<Rightarrow> node \<Rightarrow> node" where
  "runSession_start l n = goRun (TFlush (l_peer (n_links n l)) True) (goRun (TPing l) n)"

definition runSession :: "world \<Rightarrow> (world \<times> envelope) list \<Rightarrow> nat \<Rightarrow> node \<Rightarrow> node" where
  "runSession W' es l n = session_end W' l (fst (readLoop l es (runSession_start l n)))"

definition serve ::
    "world \<Rightarrow> 'c conn result \<Rightarrow> string \<Rightarrow> bool \<Rightarrow> string \<Rightarrow> (world \<times> envelope) list \<Rightarrow> world \<Rightarrow> node \<Rightarrow> node \<times> unit result" where
  "serve W hs addr hsDone wantFP es W' n = (case establish W hs addr hsDone wantFP n of
     (n1, Inl e) \<Rightarrow> (n1, Inl e)
   | (n1, Inr l) \<Rightarrow> (runSession W' es l n1, Inr ()))"

text \<open>One connection of \<open>acceptLoop\<close>, served when a place for its handshake is free.\<close>

definition accept ::
    "world \<Rightarrow> 'c conn result \<Rightarrow> string \<Rightarrow> (world \<times> envelope) list \<Rightarrow> world \<Rightarrow> node \<Rightarrow> node" where
  "accept W hs addr es W' n = (case accept_step n of
     (n1, False) \<Rightarrow> n1
   | (n1, True) \<Rightarrow> fst (serve W hs addr True [] es W' n1))"

text \<open>The addresses are tried in order; the error logged is the last one.\<close>

fun first_reachable :: "(string \<Rightarrow> unit result) \<Rightarrow> string list \<Rightarrow> logarg \<Rightarrow> string + logarg" where
  "first_reachable connect [] e = Inr e"
| "first_reachable connect (a # as) e = (case connect a of
     Inr _ \<Rightarrow> Inl a | Inl er \<Rightarrow> first_reachable connect as (AErr er))"

definition dial ::
    "world \<Rightarrow> (string \<Rightarrow> unit result) \<Rightarrow> (string \<Rightarrow> 'c conn result) \<Rightarrow> (world \<times> envelope) list \<Rightarrow> world \<Rightarrow> rnd \<Rightarrow> string \<Rightarrow> node \<Rightarrow> node" where
  "dial W connect hs es W' r fp n = (case n_nearby n fp of
     None \<Rightarrow> n
   | Some nb \<Rightarrow> let p = nb_peer nb in
     (case first_reachable connect (d_Addrs p) (AStr ''<nil>'') of
        Inr e \<Rightarrow> logf W ''dial %q failed: %v'' [AStr (d_Name p), e] (dialDone W r fp False n)
      | Inl a \<Rightarrow> (case serve W (hs a) a False [] es W' n of
          (n1, Inl _) \<Rightarrow> dialDone W' r fp False n1
        | (n1, Inr _) \<Rightarrow> dialDone W' r fp True n1)))"

definition Dial :: "world \<Rightarrow> (string \<Rightarrow> unit result) \<Rightarrow> (string \<Rightarrow> 'c conn result) \<Rightarrow> string \<Rightarrow> string \<Rightarrow> string \<Rightarrow> node \<Rightarrow> node \<times> unit result" where
  "Dial W connect hs host port fingerprint n = (let addr = JoinHostPort host port in
     case connect addr of
       Inl e \<Rightarrow> (n, Inl (ErrWrap ''dial %s'' e))
     | Inr _ \<Rightarrow> (case establish W (hs addr) addr False fingerprint n of
         (n1, Inl e) \<Rightarrow> (n1, Inl (ErrWrap ''dial %s'' e))
       | (n1, Inr l) \<Rightarrow> (goRun (TSession l) n1, Inr ())))"

section \<open>The outbox tick\<close>

text \<open>One tick of \<open>outboxLoop\<close>; \<open>keys\<close> is the order in which the map of live links is visited.\<close>

definition outbox_tick :: "world \<Rightarrow> string list \<Rightarrow> node \<Rightarrow> node" where
  "outbox_tick W keys n = (let
       names = map (\<lambda>l. l_peer (n_links n l)) (List.map_filter (n_live n) keys);
       n1 = fold (\<lambda>name. flush W name False) names n;
       n2 = (case FileOutbox (n_store n1) of
               Inl _ \<Rightarrow> n1
             | Inr fo \<Rightarrow> fold (\<lambda>f. goRun (TFlushFile (f_Peer f) (f_ID f))) fo n1)
     in case ListRooms (w_env W) (n_store n2) of
          Inl _ \<Rightarrow> n2
        | Inr rooms \<Rightarrow> fold (\<lambda>r. for_members (\<lambda>mb. mb = me n2) (flushRoomMember W (r_ID r)) (r_Members r)) rooms n2)"

section \<open>Dialling an invitation\<close>

lemma short_fingerprint_refused:
  assumes "sha256_ok E" "is_ascii fp" "length fp < 64"
  shows "\<not> fpMatches E fp k"
proof -
  have "length (fp_normal fp) \<le> length fp" by (simp add: fp_normal_def)
  then show ?thesis using assms length_Fingerprint [OF assms(1), of k] by (auto simp: fpMatches_ascii)
qed

text \<open>
  The fingerprint in an invitation cannot be used to dial it: the link carries sixteen of the
  64 digits, the check at the end of the handshake compares whole fingerprints, so dialling the
  invited address with the invited fingerprint is refused whoever answers, the inviter included,
  and no session is opened.
\<close>

theorem invited_fingerprint_refused:
  assumes "sha256_ok (w_env W)" "plain_part host" "plain_part port"
    and "connect (JoinHostPort host port) = Inr ()" "hs (JoinHostPort host port) = Inr sc" "c_RemoteKey sc \<noteq> Public (i_Key (n_id n))"
  shows "\<exists>fp. ParseInvite (FormatInvite host port (Fingerprint (w_env W) key)) = Inr (host, port, fp)
    \<and> (\<exists>n' m m'. Dial W connect hs host port fp n = (n', Inl (ErrWrap m (ErrWrap m' ErrFPMismatch)))
        \<and> n_live n' = n_live n \<and> n_links n' = n_links n \<and> n_store n' = n_store n)"
proof -
  let ?fp = "Fingerprint (w_env W) key"
  have hex: "list_all (\<lambda>c. lower_hex (of_char c)) ?fp" by (simp add: Fingerprint_def hex_lower)
  have p: "ParseInvite (FormatInvite host port ?fp) = Inr (host, port, take MaxPreviewFP ?fp)"
    by (rule ParseInvite_FormatInvite [OF assms(2,3) _ hex]) (simp add: assms(1) MinFPLen_def)
  have "\<not> fpMatches (w_env W) (take MaxPreviewFP ?fp) (c_RemoteKey sc)"
  proof (rule short_fingerprint_refused [OF assms(1)])
    show "is_ascii (take MaxPreviewFP ?fp)"
      using hex by (auto simp: list_all_iff lower_hex_def dest!: in_set_takeD) 
    show "length (take MaxPreviewFP ?fp) < 64" by (simp add: MaxPreviewFP_def assms(1))
  qed
  moreover have "take MaxPreviewFP ?fp \<noteq> []"
    using length_Fingerprint [OF assms(1), of key] by (auto simp: MaxPreviewFP_def)
  ultimately show ?thesis using p assms(4-6) by (auto simp: Dial_def Let_def establish_def release_def)
qed

theorem invited_fingerprint_refused_witness:
  "\<exists>fp e. ParseInvite (FormatInvite ''10.0.0.2'' ''7000'' (Fingerprint sample_env ''key-B'')) = Inr (''10.0.0.2'', ''7000'', fp)
     \<and> snd (Dial sample_world (\<lambda>_. Inr ()) (\<lambda>_. Inr (sample_conn ''key-B'' ''Bob'')) ''10.0.0.2'' ''7000'' fp sample_node) = Inl e"
  using invited_fingerprint_refused [of sample_world "''10.0.0.2''" "''7000''" "\<lambda>_. Inr ()" "\<lambda>_. Inr (sample_conn ''key-B'' ''Bob'')"
      "sample_conn ''key-B'' ''Bob''" sample_node "''key-B''"] sample_key_ok(2)
  by (auto simp: sample_world_def sample_env_ok plain_part_def)

end
