(* ===== verification/Views.thy ===== *)
theory Views
  imports Node_Run "HOL-Library.Product_Lexorder"
begin

text \<open>
  Package \<open>internal/node\<close>, part 7 (\<open>views.go\<close>): what the user interface reads from a node and the
  actions on contacts. Where the code iterates over a map, the order is an argument.
\<close>

section \<open>This device\<close>

record me_view =
  mv_Name :: string
  mv_FP :: string
  mv_FPGroups :: "string list"
  mv_Words :: "string list"
  mv_Identicon :: bytes
  mv_Port :: int

definition Me :: "env \<Rightarrow> node \<Rightarrow> me_view result" where
  "Me E n = bindR (Port n) (\<lambda>p. Inr \<lparr>mv_Name = i_Name (n_id n), mv_FP = n_myFP n, mv_FPGroups = FingerprintGroups (n_myFP n),
     mv_Words = Words E (Public (i_Key (n_id n))), mv_Identicon = IdenticonSeed E (Public (i_Key (n_id n))), mv_Port = p\<rparr>)"

section \<open>Contacts\<close>

definition TrustUnknown :: string where "TrustUnknown = ''unknown''"
definition TrustNew :: string where "TrustNew = ''new''"
definition TrustVerified :: string where "TrustVerified = ''verified''"
definition TrustChanged :: string where "TrustChanged = ''changed''"

record peerView =
  pv_Name :: string
  pv_FP :: string
  pv_FPGroups :: "string list"
  pv_Words :: "string list"
  pv_Identicon :: bytes
  pv_Trust :: string
  pv_Online :: bool
  pv_Nearby :: bool
  pv_Addr :: string
  pv_FirstSeen :: gotime
  pv_LastSeen :: gotime
  pv_Queued :: nat
  pv_Last :: "message option"
  pv_NewFP :: string
  pv_NewFPGroups :: "string list"
  pv_NewWords :: "string list"

definition peerView0 :: peerView where
  "peerView0 = \<lparr>pv_Name = [], pv_FP = [], pv_FPGroups = [], pv_Words = [], pv_Identicon = [], pv_Trust = [],
     pv_Online = False, pv_Nearby = False, pv_Addr = [], pv_FirstSeen = time_zero, pv_LastSeen = time_zero,
     pv_Queued = 0, pv_Last = None, pv_NewFP = [], pv_NewFPGroups = [], pv_NewWords = []\<rparr>"

definition nearbyByName :: "env \<Rightarrow> string list \<Rightarrow> node \<Rightarrow> (string \<Rightarrow> nearby option)" where
  "nearbyByName E fps n = fold (\<lambda>fp m. case n_nearby n fp of
     Some nb \<Rightarrow> if nb_up nb then m(ToLower E (d_Name (nb_peer nb)) \<mapsto> nb) else m
   | None \<Rightarrow> m) fps Map.empty"

text \<open>The row of a pinned peer.\<close>

definition pinned_view :: "env \<Rightarrow> (string \<Rightarrow> nearby option) \<Rightarrow> message list \<Rightarrow> node \<Rightarrow> peer \<Rightarrow> peerView" where
  "pinned_view E near pend n p = (let k = ToLower E (p_Name p);
       v0 = peerView0\<lparr>pv_Name := p_Name p, pv_FP := p_FP p, pv_FPGroups := FingerprintGroups (p_FP p),
              pv_Words := Words E (p_Key p), pv_Identicon := IdenticonSeed E (p_Key p),
              pv_FirstSeen := p_FirstSeen p, pv_LastSeen := p_LastSeen p, pv_Trust := TrustNew,
              pv_Queued := length (filter (\<lambda>m. ToLower E (m_Peer m) = k) pend)\<rparr>;
       v1 = (if p_Verified p then v0\<lparr>pv_Trust := TrustVerified\<rparr> else v0);
       v2 = (case p_PendingKey p of
               None \<Rightarrow> v1
             | Some pk \<Rightarrow> v1\<lparr>pv_Trust := TrustChanged, pv_NewFP := Fingerprint E pk,
                 pv_NewFPGroups := FingerprintGroups (Fingerprint E pk), pv_NewWords := Words E pk\<rparr>);
       v3 = (case n_live n k of
               None \<Rightarrow> v2
             | Some l \<Rightarrow> v2\<lparr>pv_Online := True, pv_Addr := l_addr (n_links n l)\<rparr>);
       v4 = v3\<lparr>pv_Nearby := (near k \<noteq> None)\<rparr>
     in case Messages E (n_store n) (p_Name p) 1 of
          Inr [m] \<Rightarrow> v4\<lparr>pv_Last := Some m\<rparr> | _ \<Rightarrow> v4)"

definition nearby_view :: "nearby \<Rightarrow> peerView" where
  "nearby_view nb = peerView0\<lparr>pv_Name := d_Name (nb_peer nb), pv_FP := d_FP (nb_peer nb),
     pv_FPGroups := FingerprintGroups (d_FP (nb_peer nb)), pv_Trust := TrustUnknown, pv_Nearby := True,
     pv_LastSeen := nb_seen nb\<rparr>"

text \<open>
  \<open>fps\<close> and \<open>ks\<close> are the orders in which \<open>n.nearby\<close> and \<open>nearbyByName\<close> are visited. The sort key
  is the comparison of the code; no two rows have the same lower-cased name, so the instability
  of \<open>sort.Slice\<close> is not visible.
\<close>

definition Peers :: "env \<Rightarrow> string list \<Rightarrow> string list \<Rightarrow> node \<Rightarrow> peerView list result" where
  "Peers E fps ks n =
     bindR (ListPeers E (n_store n)) (\<lambda>pinned.
     bindR (Pending E (n_store n) []) (\<lambda>pend.
       let near = nearbyByName E fps n;
           seen = (\<lambda>p. ToLower E (p_Name p)) ` set pinned;
           out = map (pinned_view E near pend n) pinned @
             map nearby_view (List.map_filter near (filter (\<lambda>k. k \<notin> seen) ks))
       in Inr (sort_key (\<lambda>v. (\<not> pv_Online v, ToLower E (pv_Name v))) out)))"

section \<open>Actions\<close>

definition Verify :: "env \<Rightarrow> string \<Rightarrow> bool \<Rightarrow> node \<Rightarrow> node \<times> unit result" where
  "Verify E name v n = (case SetVerified E (n_store n) name v of
     (s', Inl e) \<Rightarrow> (n\<lparr>n_store := s'\<rparr>, Inl e)
   | (s', Inr _) \<Rightarrow> (emit (event0\<lparr>ev_Type := ''peers'', ev_Peer := name\<rparr>) (n\<lparr>n_store := s'\<rparr>), Inr ()))"

definition AcceptKey :: "env \<Rightarrow> string \<Rightarrow> node \<Rightarrow> node \<times> unit result" where
  "AcceptKey E name n = (case AcceptPendingKey E (n_store n) name of
     (s', Inl e) \<Rightarrow> (n\<lparr>n_store := s'\<rparr>, Inl e)
   | (s', Inr _) \<Rightarrow> (emit (event0\<lparr>ev_Type := ''peers'', ev_Peer := name\<rparr>) (n\<lparr>n_store := s'\<rparr>), Inr ()))"

definition Forget :: "world \<Rightarrow> string \<Rightarrow> node \<Rightarrow> node \<times> unit result" where
  "Forget W name n = (let n1 = (case linkFor W n name of None \<Rightarrow> n | Some l \<Rightarrow> close l n) in
     case ForgetPeer (w_env W) (n_store n1) name of
       (s', Inl e) \<Rightarrow> (n1\<lparr>n_store := s'\<rparr>, Inl e)
     | (s', Inr _) \<Rightarrow> (emit (event0\<lparr>ev_Type := ''peers'', ev_Peer := name\<rparr>) (n1\<lparr>n_store := s'\<rparr>), Inr ()))"

text \<open>A rename is announced under the context of the current announcement, if there is one.\<close>

definition reannounce :: "world \<Rightarrow> 'd discovery \<Rightarrow> 'd \<Rightarrow> node \<Rightarrow> ('d \<times> node) \<times> unit result" where
  "reannounce W D d n = (if \<not> n_announcing n then ((d, n), Inr ())
     else case announcement_of n of
       Inl e \<Rightarrow> ((d, n), Inl e)
     | Inr a \<Rightarrow> (case disc_Announce D a d of
         (d', Inl e) \<Rightarrow> ((d', logf W ''re-announce after rename: %v'' [AErr e] n), Inr ())
       | (d', Inr _) \<Rightarrow> ((d', n), Inr ())))"

definition Rename :: "world \<Rightarrow> 'd discovery \<Rightarrow> string \<Rightarrow> 'd \<Rightarrow> node \<Rightarrow> ('d \<times> node) \<times> unit result" where
  "Rename W D name0 d n = (case ValidateName name0 of
     Inl _ \<Rightarrow> ((d, n), Inl ErrBadName)
   | Inr name \<Rightarrow> (case RenameIdentity (n_store n) name of
       (s', Inl e) \<Rightarrow> ((d, n\<lparr>n_store := s'\<rparr>), Inl e)
     | (s', Inr _) \<Rightarrow>
         (case reannounce W D d (n\<lparr>n_store := s', n_id := (n_id n)\<lparr>i_Name := name\<rparr>\<rparr>) of
            ((d', n1), Inl e) \<Rightarrow> ((d', n1), Inl e)
          | ((d', n1), Inr _) \<Rightarrow> ((d', emit (event0\<lparr>ev_Type := ''me''\<rparr>) n1), Inr ()))))"

definition DeleteFile_node :: "string \<Rightarrow> node \<Rightarrow> node \<times> unit result" where
  "DeleteFile_node i n = (case DeleteFile (n_store n) i of
     (s', Inl e) \<Rightarrow> (n\<lparr>n_store := s'\<rparr>, Inl e)
   | (s', Inr _) \<Rightarrow> (emit (event0\<lparr>ev_Type := ''peers''\<rparr>) (n\<lparr>n_store := s'\<rparr>), Inr ()))"

definition DeleteMessage_node :: "string \<Rightarrow> node \<Rightarrow> node \<times> unit result" where
  "DeleteMessage_node i n = (case DeleteMessage (n_store n) i of
     (s', Inl e) \<Rightarrow> (n\<lparr>n_store := s'\<rparr>, Inl e)
   | (s', Inr _) \<Rightarrow> (emit (event0\<lparr>ev_Type := ''peers''\<rparr>) (n\<lparr>n_store := s'\<rparr>), Inr ()))"

section \<open>Queries\<close>

definition Messages_node :: "env \<Rightarrow> node \<Rightarrow> string \<Rightarrow> int \<Rightarrow> message list result" where
  "Messages_node E n peer limit = Messages E (n_store n) peer limit"

definition Outbox :: "env \<Rightarrow> node \<Rightarrow> message list result" where
  "Outbox E n = Pending E (n_store n) []"

definition Search_node :: "env \<Rightarrow> node \<Rightarrow> string \<Rightarrow> int \<Rightarrow> searchResult list result" where
  "Search_node E n query limit = Search E (n_store n) query limit"

definition Files :: "node \<Rightarrow> fileRec list result" where
  "Files n = ListFiles (n_store n)"

definition OutboundFiles :: "node \<Rightarrow> fileRec list result" where
  "OutboundFiles n = FileOutbox (n_store n)"

definition FileData_node :: "env \<Rightarrow> node \<Rightarrow> string \<Rightarrow> bytes result" where
  "FileData_node E n i = FileData E (n_store n) i"

definition FileMeta :: "node \<Rightarrow> string \<Rightarrow> fileRec result" where
  "FileMeta n i = GetFile (n_store n) i"

definition RoomMessages_node :: "env \<Rightarrow> node \<Rightarrow> string \<Rightarrow> int \<Rightarrow> roomMessage list result" where
  "RoomMessages_node E n i limit = RoomMessages E (n_store n) i limit"

definition RemoteCaps :: "world \<Rightarrow> node \<Rightarrow> string \<Rightarrow> string list option" where
  "RemoteCaps W n peer = map_option (\<lambda>l. l_caps (n_links n l)) (linkFor W n peer)"

record session_row =
  s_Peer :: string
  s_Addr :: string
  s_Since :: gotime

record diag =
  dg_Listen :: string
  dg_Uptime :: int
  dg_Nearby :: nat
  dg_Sessions :: "session_row list"
  dg_Log :: "logEntry list"

text \<open>Seconds since the start, rounded towards zero.\<close>

definition seconds_since :: "gotime \<Rightarrow> gotime \<Rightarrow> int" where
  "seconds_since now t = (let x = now - t in sgn x * (\<bar>x\<bar> div second))"

definition Diagnostics :: "world \<Rightarrow> string list \<Rightarrow> string list \<Rightarrow> node \<Rightarrow> diag result" where
  "Diagnostics W fps ks n = (case n_ln n of
     None \<Rightarrow> Inl (Panic ''nil pointer dereference'')
   | Some lsn \<Rightarrow> Inr \<lparr>dg_Listen = fst lsn, dg_Uptime = seconds_since (w_now W) (n_started n),
       dg_Nearby = length (filter (\<lambda>fp. case n_nearby n fp of None \<Rightarrow> False | Some nb \<Rightarrow> nb_up nb) fps),
       dg_Sessions = map (\<lambda>l. \<lparr>s_Peer = l_peer (n_links n l), s_Addr = l_addr (n_links n l), s_Since = l_since (n_links n l)\<rparr>)
         (List.map_filter (n_live n) ks),
       dg_Log = n_log n\<rparr>)"

section \<open>What the contact list shows\<close>

definition plain_peer :: "env \<Rightarrow> store \<Rightarrow> peer \<Rightarrow> peer" where
  "plain_peer E s p = p\<lparr>p_Key := plain E s (p_Key p), p_PendingKey := map_option (plain E s) (p_PendingKey p)\<rparr>"

lemma peer_row:
  assumes "peers_inv E s" "(k, p) \<in> set (entries (bPeers (db s)))"
  shows "peer_ok E s p" "trust_of E s (p_Name p) = peer_trust E s p" "p_FP p = Fingerprint E (plain E s (p_Key p))"
proof -
  have r: "bGet (bPeers (db s)) k = Some p" using assms by (simp add: peers_inv_def bolt.items_iff)
  then have k: "k = peerKey E (p_Name p)" "peer_ok E s p" using assms(1) by (simp_all add: peers_inv_def)
  then show "peer_ok E s p" "trust_of E s (p_Name p) = peer_trust E s p" using r by (simp_all add: trust_of_def)
  obtain key where "decrypt E s (p_Key p) = Inr key" "p_FP p = Fingerprint E key" using k(2) by (auto simp: peer_ok_def)
  then show "p_FP p = Fingerprint E (plain E s (p_Key p))" by (simp add: plain_def)
qed

lemma ListPeers_rows:
  assumes "peers_inv E s"
  shows "ListPeers E s = Inr (map (\<lambda>e. plain_peer E s (snd e)) (entries (bPeers (db s))))"
  unfolding ListPeers_def
proof (rule mapR_all_Inr)
  fix e
  assume e: "e \<in> set (entries (bPeers (db s)))"
  obtain k p where p: "e = (k, p)" by (cases e)
  then have ok: "peer_ok E s p" using peer_row(1) [OF assms, of k p] e by simp
  then obtain key where key: "decrypt E s (p_Key p) = Inr key" by (auto simp: peer_ok_def)
  have nil: "plain E s [] = []" by (simp add: plain_def decrypt_def IsEncrypted_def magic_def)
  show "(\<lambda>(_, p). bindR (wrap_err ''store: decrypt peer key'' (decrypt E s (p_Key p))) (\<lambda>plain.
       case p_PendingKey p of
         Some pk \<Rightarrow> if length pk > 0
           then bindR (wrap_err ''store: decrypt pending key'' (decrypt E s pk)) (\<lambda>pk'. Inr (p\<lparr>p_Key := plain, p_PendingKey := Some pk'\<rparr>))
           else Inr (p\<lparr>p_Key := plain\<rparr>)
       | None \<Rightarrow> Inr (p\<lparr>p_Key := plain\<rparr>))) e = Inr (plain_peer E s (snd e))"
  proof (cases "p_PendingKey p")
    case None
    with key show ?thesis unfolding p by (cases p) (simp add: wrap_err_def plain_peer_def plain_def)
  next
    case (Some pk)
    then obtain key' where "decrypt E s pk = Inr key'" using ok by (auto simp: peer_ok_def)
    with Some nil key show ?thesis unfolding p by (cases p) (auto simp: wrap_err_def plain_peer_def plain_def)
  qed
qed

text \<open>The label of a state of the trust automaton.\<close>

fun trust_label :: "trust \<Rightarrow> string" where
  "trust_label Unknown = TrustUnknown"
| "trust_label (Pinned k v (Some k')) = TrustChanged"
| "trust_label (Pinned k v None) = (if v then TrustVerified else TrustNew)"

lemma pinned_view_fields:
  "pv_Name (pinned_view E near pend n p) = p_Name p" "pv_FP (pinned_view E near pend n p) = p_FP p"
  "pv_Words (pinned_view E near pend n p) = Words E (p_Key p)"
  "pv_Trust (pinned_view E near pend n p) = (if p_PendingKey p \<noteq> None then TrustChanged else if p_Verified p then TrustVerified else TrustNew)"
  "p_PendingKey p = Some k' \<Longrightarrow> pv_NewFP (pinned_view E near pend n p) = Fingerprint E k'"
  by (simp_all add: pinned_view_def Let_def peerView0_def split: option.split sum.split list.split)

lemma pinned_view_label: "pv_Trust (pinned_view E near pend n (plain_peer E s p)) = trust_label (peer_trust E s p)"
  by (cases "p_PendingKey p") (simp_all add: pinned_view_fields plain_peer_def peer_trust_def)

lemma pinned_view_trust:
  assumes "peers_inv E s" "(k0, p) \<in> set (entries (bPeers (db s)))" "v = pinned_view E near pend n (plain_peer E s p)"
  shows "\<exists>k ver pk. trust_of E s (pv_Name v) = Pinned k ver pk \<and> pv_Trust v = trust_label (Pinned k ver pk)
    \<and> pv_FP v = Fingerprint E k \<and> pv_Words v = Words E k \<and> (\<forall>k'. pk = Some k' \<longrightarrow> pv_NewFP v = Fingerprint E k')"
proof -
  note row = peer_row [OF assms(1,2)]
  have "trust_of E s (pv_Name v) = peer_trust E s p" using row(2) by (simp add: assms(3) pinned_view_fields plain_peer_def)
  moreover have "pv_FP v = Fingerprint E (plain E s (p_Key p))" "pv_Words v = Words E (plain E s (p_Key p))"
    using row(3) by (simp_all add: assms(3) pinned_view_fields plain_peer_def)
  moreover have "pv_NewFP v = Fingerprint E k'" if "map_option (plain E s) (p_PendingKey p) = Some k'" for k'
    unfolding assms(3) by (rule pinned_view_fields(5)) (simp add: plain_peer_def that)
  ultimately show ?thesis using pinned_view_label [of E near pend n s p] by (simp add: assms(3) peer_trust_def)
qed

text \<open>
  C24. The contact list shows the state of the trust automaton: every pinned contact is listed with
  the fingerprint and words of its pinned key, as \<open>changed\<close> exactly when another key is pending
  (whose fingerprint is then shown as well), else as \<open>verified\<close> or \<open>new\<close>; every other row is a
  nearby stranger marked \<open>unknown\<close>. Contacts that are online come first.
\<close>

theorem contact_list_shows_trust:
  assumes "trust_inv E (n_store n)" "box_inv E (n_store n)"
  shows "\<exists>vs. Peers E fps ks n = Inr vs
    \<and> (\<forall>v\<in>set vs. pv_Trust v = TrustUnknown
        \<or> (\<exists>k ver pend. trust_of E (n_store n) (pv_Name v) = Pinned k ver pend \<and> pv_Trust v = trust_label (Pinned k ver pend)
            \<and> pv_FP v = Fingerprint E k \<and> pv_Words v = Words E k \<and> (\<forall>k'. pend = Some k' \<longrightarrow> pv_NewFP v = Fingerprint E k')))
    \<and> (\<forall>name. trust_of E (n_store n) name \<noteq> Unknown \<longrightarrow> (\<exists>v\<in>set vs. peerKey E (pv_Name v) = peerKey E name
        \<and> pv_Trust v = trust_label (trust_of E (n_store n) name)))
    \<and> sorted_wrt (\<lambda>v w. pv_Online w \<longrightarrow> pv_Online v) vs"
proof -
  let ?s = "n_store n"
  let ?near = "nearbyByName E fps n"
  have inv: "peers_inv E ?s" using assms(1) by (simp add: trust_inv_def)
  let ?pinned = "map (\<lambda>e. plain_peer E ?s (snd e)) (entries (bPeers (db ?s)))"
  obtain pend where pend: "Pending E ?s [] = Inr pend" using Pending_eq [OF assms(2), of "[]"] by blast
  let ?strangers = "map nearby_view (List.map_filter ?near (filter (\<lambda>k. k \<notin> (\<lambda>p. ToLower E (p_Name p)) ` set ?pinned) ks))"
  let ?vs = "sort_key (\<lambda>v. (\<not> pv_Online v, ToLower E (pv_Name v))) (map (pinned_view E ?near pend n) ?pinned @ ?strangers)"
  have vs: "Peers E fps ks n = Inr ?vs" by (simp add: Peers_def ListPeers_rows [OF inv] pend Let_def)
  have "\<forall>v\<in>set ?vs. pv_Trust v = TrustUnknown
      \<or> (\<exists>k ver pend. trust_of E ?s (pv_Name v) = Pinned k ver pend \<and> pv_Trust v = trust_label (Pinned k ver pend)
          \<and> pv_FP v = Fingerprint E k \<and> pv_Words v = Words E k \<and> (\<forall>k'. pend = Some k' \<longrightarrow> pv_NewFP v = Fingerprint E k'))"
    using pinned_view_trust [OF inv] by (auto simp: nearby_view_def)
  moreover have "\<exists>v\<in>set ?vs. peerKey E (pv_Name v) = peerKey E name \<and> pv_Trust v = trust_label (trust_of E ?s name)"
    if t: "trust_of E ?s name \<noteq> Unknown" for name
  proof -
    obtain p where p: "bGet (bPeers (db ?s)) (peerKey E name) = Some p" "trust_of E ?s name = peer_trust E ?s p"
      using t by (auto simp: trust_of_def split: option.splits)
    then have "(peerKey E name, p) \<in> set (entries (bPeers (db ?s)))" "peerKey E (p_Name p) = peerKey E name"
      using inv by (auto simp: peers_inv_def bolt.items_iff)
    then show ?thesis using p(2) pinned_view_label [of E ?near pend n ?s p]
      by (intro bexI [of _ "pinned_view E ?near pend n (plain_peer E ?s p)"]) (force simp: pinned_view_fields plain_peer_def)+
  qed
  moreover have "sorted_wrt (\<lambda>v w. pv_Online w \<longrightarrow> pv_Online v) ?vs"
  proof (rule sorted_wrt_mono_rel)
    show "sorted_wrt (\<lambda>v w. (\<not> pv_Online v, ToLower E (pv_Name v)) \<le> (\<not> pv_Online w, ToLower E (pv_Name w))) ?vs"
      using sorted_sort_key [of "\<lambda>v. (\<not> pv_Online v, ToLower E (pv_Name v))"] by (simp add: sorted_map)
  qed auto
  ultimately show ?thesis using vs by blast
qed

theorem contact_list_shows_trust_witness:
  "\<exists>vs. Peers sample_env [] [] (sample_node\<lparr>n_store := fst (observe_step sample_env sample_store ''Bob'' (sample_nonce, ''key'', 1))\<rparr>) = Inr vs
     \<and> (\<exists>v\<in>set vs. peerKey sample_env (pv_Name v) = peerKey sample_env ''Bob'' \<and> pv_Trust v = TrustNew)"
proof -
  let ?x = "(sample_nonce, ''key'', 1)"
  let ?s = "fst (observe_step sample_env sample_store ''Bob'' ?x)"
  have ok: "observation_ok ?x" by (rule sample_observation) (simp add: IsEncrypted_def magic_def)
  have i: "trust_inv sample_env ?s" "box_inv sample_env ?s"
    using pins.observe_inv [OF sample_store_ok(1) ok] box_inv_observed [OF sample_store_box(1) sample_store_ok(1) ok] by simp_all
  have "trust_of sample_env sample_store ''Bob'' = Unknown" by (simp add: trust_of_def sample_store_def empty_db_def)
  then have t: "trust_of sample_env ?s ''Bob'' = Pinned ''key'' False None"
    using pins.observe_spec [OF sample_store_ok(1) ok, of "''Bob''"] by (simp add: prod_eq_iff)
  let ?n = "sample_node\<lparr>n_store := ?s\<rparr>"
  have st: "n_store ?n = ?s" by simp
  obtain vs where "Peers sample_env [] [] ?n = Inr vs" "\<forall>name. trust_of sample_env ?s name \<noteq> Unknown \<longrightarrow>
      (\<exists>v\<in>set vs. peerKey sample_env (pv_Name v) = peerKey sample_env name \<and> pv_Trust v = trust_label (trust_of sample_env ?s name))"
    using contact_list_shows_trust [of sample_env ?n "[]" "[]", unfolded st, OF i] by blast
  then show ?thesis using t by (metis trust.distinct(1) trust_label.simps(3))
qed

end
