(* ===== verification/Node_Steps.thy ===== *)
theory Node_Steps
  imports Views
begin

text \<open>
  Package \<open>internal/node\<close>, part 8: a running node as a state machine. Every operation of the engine
  that its users, its peers and its timers trigger is a step, the bodies of the loops included;
  \<open>frame\<close> is what a step that neither opens a session nor edits a contact leaves alone: the peers
  on record and who each link belongs to. The invariant of all runs is that an open link is the
  one of its peer and was authenticated by the key pinned for it. Two edits of a contact break
  the second half for a session that is open at that moment, and runs keep track of those
  sessions: accepting a changed key, and forgetting a contact under a name with spaces around it.
\<close>

section \<open>What a store operation leaves alone\<close>

definition peers_same :: "store \<Rightarrow> store \<Rightarrow> bool" where
  "peers_same s t \<longleftrightarrow> bPeers (db t) = bPeers (db s) \<and> encKey t = encKey s \<and> idKey t = idKey s"

lemma peers_same_refl [simp]: "peers_same s s"
  by (simp add: peers_same_def)

lemma peers_same_trans: "peers_same s t \<Longrightarrow> peers_same t u \<Longrightarrow> peers_same s u"
  by (simp add: peers_same_def)

lemma peers_same_dir [simp]:
  "peers_same s (in_dir f t i) = peers_same s t" "peers_same s (mkdir t i) = peers_same s t"
  "peers_same s (rmdir t i) = peers_same s t"
  by (simp_all add: peers_same_def in_dir_def mkdir_def rmdir_def split: option.split)

lemma peers_same_dbUpdate:
  assumes "peers_same s t" "\<And>d d' x. f d = Inr (d', x) \<Longrightarrow> bPeers d' = bPeers d"
  shows "peers_same s (fst (dbUpdate t f))"
  using assms by (cases "f (db t)") (auto simp: peers_same_def dbUpdate_def)

named_theorems frames \<open>what leaves the peers on record and the owners of links alone\<close>

lemma bPeers_deleteMessages [simp]: "bPeers (deleteMessages d P) = bPeers d"
  using deleteMessages_other by simp

lemma peers_same_messages [frames]:
  "peers_same s t \<Longrightarrow> peers_same s (fst (AddMessage E r t m))"
  "peers_same s t \<Longrightarrow> peers_same s (fst (MarkDelivered E t peer i))"
  "peers_same s t \<Longrightarrow> peers_same s (fst (RecordAttempt E t i now))"
  "peers_same s t \<Longrightarrow> peers_same s (fst (DeleteFromOutbox t i))"
  "peers_same s t \<Longrightarrow> peers_same s (fst (Prune t cutoff))"
  "peers_same s t \<Longrightarrow> peers_same s (fst (DeleteMessage t i))"
  "peers_same s t \<Longrightarrow> peers_same s (fst (DeleteAllMessages t))"
  "peers_same s t \<Longrightarrow> peers_same s (fst (SaveSettings t st))"
  "peers_same s t \<Longrightarrow> peers_same s (fst (RenameIdentity t name))"
  by (auto simp: AddMessage_def MarkDelivered_def RecordAttempt_def DeleteFromOutbox_def Prune_def DeleteMessage_def
      DeleteAllMessages_def SaveSettings_def RenameIdentity_def NextSequence_def Let_def case_prod_beta bindR_eq_Inr
      intro!: peers_same_dbUpdate split: sum.split if_splits option.splits)

lemma bPeers_fold_rooms [simp]:
  "bPeers (fold (\<lambda>(k, m) d. d\<lparr>bRoomIdx := bDelete (rm_ID m) (bRoomIdx d), bRoomMsgs := bDelete k (bRoomMsgs d)\<rparr>) rows d) = bPeers d"
  "bPeers (fold (\<lambda>(k, _) d. d\<lparr>bRoomOutbox := bDelete k (bRoomOutbox d)\<rparr>) obs d) = bPeers d"
  by (induction rows arbitrary: d; auto) (induction obs arbitrary: d; auto)

lemma peers_same_write_rooms [frames]:
  "peers_same s t \<Longrightarrow> peers_same s (fst (CreateRoom E r t rm))"
  "peers_same s t \<Longrightarrow> peers_same s (fst (UpdateRoom E r t rm))"
  by (auto simp: CreateRoom_def UpdateRoom_def intro!: peers_same_dbUpdate split: sum.split)

lemma peers_same_DeleteRoom [frames]:
  "peers_same s t \<Longrightarrow> peers_same s (fst (DeleteRoom E t i))"
  unfolding DeleteRoom_def by (rule peers_same_dbUpdate) (auto simp: Let_def)

lemma peers_same_AddRoomMessage [frames]:
  "peers_same s t \<Longrightarrow> peers_same s (fst (AddRoomMessage E r t m))"
  by (auto simp: AddRoomMessage_def NextSequence_def Let_def case_prod_beta intro!: peers_same_dbUpdate split: sum.split if_splits)

lemma peers_same_change_room_message [frames]:
  "peers_same s t \<Longrightarrow> peers_same s (fst (MarkRoomDelivered E t i mb j))"
  "peers_same s t \<Longrightarrow> peers_same s (fst (RoomRecordAttempt t i now))"
  "peers_same s t \<Longrightarrow> peers_same s (fst (ToggleRoomReaction E t i j sender emoji))"
  unfolding MarkRoomDelivered_def RoomRecordAttempt_def ToggleRoomReaction_def Let_def
  by (simp_all add: case_prod_beta) (erule peers_same_dbUpdate; auto simp: bindR_eq_Inr split: if_splits option.splits)+

lemma peers_same_room_counters [frames]:
  "peers_same s t \<Longrightarrow> peers_same s (fst (NextRoomSenderSeq E t i sender))"
  "peers_same s t \<Longrightarrow> peers_same s (fst (AddRoomMemberToOutbox E t i mb j))"
  by (auto simp: NextRoomSenderSeq_def AddRoomMemberToOutbox_def Let_def intro!: peers_same_dbUpdate)

lemma peers_same_files [frames]:
  "peers_same s t \<Longrightarrow> peers_same s (fst (AddOutboundFile E r now t i peer name hash data))"
  "peers_same s t \<Longrightarrow> peers_same s (fst (BeginReceive now t i peer name hash sz))"
  "peers_same s t \<Longrightarrow> peers_same s (fst (WriteChunk t i off data))"
  "peers_same s t \<Longrightarrow> peers_same s (fst (setFileStatus t i status))"
  "peers_same s t \<Longrightarrow> peers_same s (fst (MarkFileSent t i))"
  "peers_same s t \<Longrightarrow> peers_same s (fst (MarkFileSending t i))"
  "peers_same s t \<Longrightarrow> peers_same s (fst (DeleteFile t i))"
  by (auto simp: AddOutboundFile_def BeginReceive_def WriteChunk_def setFileStatus_def MarkFileSent_def MarkFileSending_def
      DeleteFile_def Let_def case_prod_beta intro!: peers_same_dbUpdate split: sum.split if_splits option.splits)

lemma peers_same_CompleteFile [frames]:
  "peers_same s t \<Longrightarrow> peers_same s (fst (CompleteFile E r t i))"
  by (auto simp: CompleteFile_def markFileFailed_def Let_def case_prod_beta intro!: frames split: sum.split option.split)

lemma peers_same_fold [frames]:
  assumes "\<And>x t. peers_same s t \<Longrightarrow> peers_same s (f x t)" "peers_same s t"
  shows "peers_same s (fold f xs t)"
  using assms(2) by (induction xs arbitrary: t) (simp_all add: assms(1))

section \<open>What an operation of a node leaves alone\<close>

text \<open>A link keeps its owner, is not reopened, and sends more of what validation accepts.\<close>

definition link_ext :: "link \<Rightarrow> link \<Rightarrow> bool" where
  "link_ext k k' \<longleftrightarrow> l_peer k' = l_peer k \<and> l_key k' = l_key k \<and> (l_open k' \<longrightarrow> l_open k)
     \<and> (\<exists>es. l_out k' = l_out k @ es \<and> (\<forall>e\<in>set es. validate e = Inr ()))"

definition frame :: "node \<Rightarrow> node \<Rightarrow> bool" where
  "frame n m \<longleftrightarrow> n_next m = n_next n \<and> n_live m = n_live n \<and> peers_same (n_store n) (n_store m)
     \<and> (\<forall>l. link_ext (n_links n l) (n_links m l))"

lemma link_ext_refl [simp]: "link_ext k k"
  by (simp add: link_ext_def)

lemma link_ext_fields:
  "link_ext k k' \<Longrightarrow> l_peer k'' = l_peer k' \<Longrightarrow> l_key k'' = l_key k' \<Longrightarrow> l_out k'' = l_out k' \<Longrightarrow> (l_open k'' \<Longrightarrow> l_open k')
   \<Longrightarrow> link_ext k k''"
  by (auto simp: link_ext_def)

lemma link_ext_trans: "link_ext a b \<Longrightarrow> link_ext b c \<Longrightarrow> link_ext a c"
  by (auto simp: link_ext_def)

lemma frame_refl [simp]: "frame n n"
  by (simp add: frame_def)

lemma frame_trans: "frame n m \<Longrightarrow> frame m k \<Longrightarrow> frame n k"
  by (auto simp: frame_def intro: peers_same_trans link_ext_trans)

lemma frame_same [simp]:
  "frame n (emit e m) = frame n m" "frame n (logf W f a m) = frame n m" "frame n (goRun t m) = frame n m"
  "frame n (release d m) = frame n m" "frame n (emit_room m) = frame n m" "frame n (emit_changed i x c m) = frame n m"
  "frame n (set_nearby fp g m) = frame n m" "frame n (m\<lparr>n_hs := h\<rparr>) = frame n m" "frame n (m\<lparr>n_announcing := b\<rparr>) = frame n m"
  "frame n (m\<lparr>n_ln := lsn, n_started := t0\<rparr>) = frame n m" "frame n (m\<lparr>n_subs := q\<rparr>) = frame n m"
  "frame n (m\<lparr>n_nearby := y\<rparr>) = frame n m" "frame n (m\<lparr>n_id := i0\<rparr>) = frame n m" "frame n (m\<lparr>n_mu := b\<rparr>) = frame n m"
  by (simp_all add: frame_def emit_room_def emit_changed_def set_nearby_def)

lemma frame_store [frames]:
  "frame n m \<Longrightarrow> peers_same (n_store m) s \<Longrightarrow> frame n (m\<lparr>n_store := s\<rparr>)"
  by (auto simp: frame_def intro: peers_same_trans)

lemma frame_set_link [frames]:
  assumes "frame n m" "\<And>k. link_ext k (f k)"
  shows "frame n (set_link l f m)"
  using assms by (auto simp: frame_def intro: link_ext_trans)

lemma link_ext_updates [simp]:
  "link_ext k (k\<lparr>l_open := False\<rparr>)" "link_ext k (rx_reset k)" "link_ext k (count_message now k)"
  "link_ext k (awaitFileAck i k)" "link_ext k (cancelFileAck i k)" "link_ext k (deliverFileAck i x k)"
  "link_ext k (k\<lparr>rxFileID := a, rxFileOff := b, rxFileHash := c, rxFileSize := d, rxFileName := g\<rparr>)" "link_ext k (k\<lparr>rxFileOff := b\<rparr>)"
  by (auto simp: link_ext_def rx_reset_def count_message_def Let_def awaitFileAck_def cancelFileAck_def deliverFileAck_def
      split: option.split)

lemma frame_close [frames]: "frame n m \<Longrightarrow> frame n (close l m)"
  unfolding close_def by (rule frame_set_link) simp_all

lemma frame_send [frames]: "frame n m \<Longrightarrow> frame n (fst (send W l e m))"
  by (rule send_cases [where W = W and l = l and e = e and n = m]) (auto simp: link_ext_def intro!: frame_set_link)

lemma frame_send_eq: "send W l e m = (m', r) \<Longrightarrow> frame n m \<Longrightarrow> frame n m'"
  using frame_send [of n m W l e] by simp

lemma frame_fold [frames]:
  assumes "\<And>x k. frame n k \<Longrightarrow> frame n (f x k)" "frame n m"
  shows "frame n (fold f xs m)"
  using assms(2) by (induction xs arbitrary: m) (simp_all add: assms(1))

lemma frame_for_members [frames]:
  "(\<And>x k. frame n k \<Longrightarrow> frame n (f x k)) \<Longrightarrow> frame n m \<Longrightarrow> frame n (for_members skip f xs m)"
  unfolding for_members_def by (rule frame_fold)

section \<open>The operations\<close>

lemmas op_simps = Let_def case_prod_beta send_to_def linkFor_def

lemma frame_queueing [frames]:
  "frame n m \<Longrightarrow> frame n (fst (SendReply W peer body rt m))"
  "frame n m \<Longrightarrow> frame n (fst (SendFile W peer name data m))"
  "frame n m \<Longrightarrow> frame n (fst (DeleteFromOutbox_node i m))"
  "frame n m \<Longrightarrow> frame n (retention_run W m)"
  "frame n m \<Longrightarrow> frame n (RetryNow peer m)"
  by (auto simp: SendReply_def SendFile_def DeleteFromOutbox_node_def retention_run_def RetryNow_def op_simps
      intro!: frames split: sum.split)

lemma frame_one_shot [frames]:
  "frame n m \<Longrightarrow> frame n (fst (SendReaction W peer emoji i m))"
  "frame n m \<Longrightarrow> frame n (fst (SendTyping W peer m))"
  "frame n m \<Longrightarrow> frame n (fst (SendReadReceipt W peer i m))"
  "frame n m \<Longrightarrow> frame n (fst (DeleteMessageForEveryone W peer i m))"
  by (auto simp: SendReaction_def SendTyping_def SendReadReceipt_def DeleteMessageForEveryone_def op_simps
      intro!: frames split: sum.split option.split)

lemma frame_flush_loop: "frame n m \<Longrightarrow> frame n (flush_loop W l peer force ms m)"
proof (induction ms arbitrary: m)
  case (Cons a ms)
  then show ?case by (auto simp: op_simps intro!: frames Cons.IH split: sum.split)
qed simp

lemma frame_flush [frames]: "frame n m \<Longrightarrow> frame n (flush W peer force m)"
  by (auto simp: flush_def op_simps intro!: frame_flush_loop split: sum.split option.split)

lemma frame_send_chunks: "frame n m \<Longrightarrow> frame n (fst (send_chunks W l peer i f data off m))"
proof (induction "nat (f_Size f - off)" arbitrary: off m rule: less_induct)
  case less
  note sent = frame_send_eq [OF _ less.prems]
  show ?case
    using less.prems by (subst send_chunks.simps)
      (auto simp: Let_def ChunkSize_def dest: sent intro!: frame_close less.hyps split: sum.split prod.split)
qed

lemma frame_flushFile [frames]:
  "frame n m \<Longrightarrow> frame n (fst (flushFile_prepare W peer i m))"
  "frame n m \<Longrightarrow> frame n (fst (flushFile_header W peer i k m))"
  "frame n m \<Longrightarrow> frame n (fst (flushFile_finish W peer i k' m))"
  by (auto simp: flushFile_prepare_def flushFile_header_def flushFile_finish_def flushFile_body_def file_sent_def op_simps
      intro!: frames frame_send_chunks split: sum.split option.split outcome.split prod.split)

lemma frame_flush_room_loop: "frame n m \<Longrightarrow> frame n (flush_room_loop W l mb i ms m)"
proof (induction ms arbitrary: m)
  case (Cons a ms)
  then show ?case by (auto simp: op_simps intro!: frames Cons.IH split: sum.split)
qed simp

lemma frame_room_traffic [frames]:
  "frame n m \<Longrightarrow> frame n (flushRoomMember W i mb m)"
  "frame n m \<Longrightarrow> frame n (sendRoomEvent W i t actor name ms mb m)"
  "frame n m \<Longrightarrow> frame n (send_room_reaction W i j emoji mb m)"
  by (auto simp: flushRoomMember_def sendRoomEvent_def send_room_reaction_def op_simps
      intro!: frames frame_flush_room_loop split: sum.split option.split)

lemma frame_room_change [frames]:
  "frame n m \<Longrightarrow> frame n (fst (CreateRoom_node W name members m))"
  "frame n m \<Longrightarrow> frame n (fst (RemoveRoomMember W i mb m))"
  "frame n m \<Longrightarrow> frame n (fst (RenameRoom W i name m))"
  "frame n m \<Longrightarrow> frame n (fst (AcceptRoomInvite W i m))"
  "frame n m \<Longrightarrow> frame n (fst (DeclineRoomInvite W i m))"
  by (auto simp: CreateRoom_node_def RemoveRoomMember_def RenameRoom_def AcceptRoomInvite_def DeclineRoomInvite_def op_simps
      intro!: frames split: sum.split option.split)

lemma frame_AddRoomMember [frames]: "frame n m \<Longrightarrow> frame n (fst (AddRoomMember W i mb m))"
  by (auto simp: AddRoomMember_def op_simps intro!: frames split: sum.split)

lemma frame_LeaveRoom [frames]: "frame n m \<Longrightarrow> frame n (fst (LeaveRoom W i m))"
  by (auto simp: LeaveRoom_def op_simps intro!: frames split: sum.split)

lemma frame_room_talk [frames]:
  "frame n m \<Longrightarrow> frame n (fst (SendRoomMessage W i body m))"
  "frame n m \<Longrightarrow> frame n (fst (SendRoomReaction W i j emoji m))"
  by (auto simp: SendRoomMessage_def SendRoomReaction_def op_simps intro!: frames split: sum.split)

lemma frame_room_received [frames]:
  "frame n m \<Longrightarrow> frame n (handleRoomReaction W l e m)"
  "frame n m \<Longrightarrow> frame n (handleRoomMsg W l e m)"
  "frame n m \<Longrightarrow> frame n (handleRoomAck W l e m)"
  by (auto simp: handleRoomReaction_def handleRoomMsg_def handleRoomAck_def op_simps intro!: frames split: sum.split)

lemma frame_room_events:
  "frame n m \<Longrightarrow> frame n (event_create W actor e m)"
  "frame n m \<Longrightarrow> frame n (event_join W actor e m)"
  "frame n m \<Longrightarrow> frame n (event_remove W actor e m)"
  "frame n m \<Longrightarrow> frame n (event_leave W actor e m)"
  "frame n m \<Longrightarrow> frame n (event_rename W actor e m)"
  by (auto simp: event_create_def event_join_def event_remove_def event_leave_def event_rename_def op_simps
      intro!: frames split: sum.split)

lemma frame_handleRoomEvent [frames]:
  "frame n m \<Longrightarrow> frame n (handleRoomEvent W l e m)"
  by (simp add: handleRoomEvent_def Let_def frame_room_events)

lemma frame_received [frames]:
  "frame n m \<Longrightarrow> frame n (fst (handle_msg W l e m))"
  "frame n m \<Longrightarrow> frame n (handle_ack W l e m)"
  "frame n m \<Longrightarrow> frame n (handle_del l e m)"
  "frame n m \<Longrightarrow> frame n (fst (handle_file W l e m))"
  by (auto simp: handle_msg_def handle_ack_def handle_del_def handle_file_def op_simps intro!: frames split: sum.split)

lemma frame_finish_receive [frames]: "frame n m \<Longrightarrow> frame n (finish_receive W l i m)"
  by (auto simp: finish_receive_def op_simps intro!: frames split: sum.split)

lemma frame_handle_chunk [frames]: "frame n m \<Longrightarrow> frame n (fst (handle_chunk W l e m))"
  by (auto simp: handle_chunk_def op_simps intro!: frames split: sum.split)

lemma frame_handle [frames]: "frame n m \<Longrightarrow> frame n (fst (handle W l e m))"
  unfolding handle_def Let_def by (simp add: frames)

lemma frame_ping_tick [frames]: "frame n m \<Longrightarrow> frame n (fst (ping_tick W l m))"
  by (auto simp: ping_tick_def op_simps intro!: frames split: sum.split)

lemma frame_nearby [frames]:
  "frame n m \<Longrightarrow> frame n (browse_step W up p m)"
  "frame n m \<Longrightarrow> frame n (dialDone W r fp ok m)"
  "frame n m \<Longrightarrow> frame n (fst (accept_step m))"
  by (auto simp: browse_step_def dialDone_def accept_step_def Let_def)

lemma frame_dial_entry: "dial_entry W m fp = Some (m', b) \<Longrightarrow> n_mu m \<Longrightarrow> frame n m \<Longrightarrow> frame n m' \<and> n_mu m'"
  by (cases "\<exists>nb. n_nearby m fp = Some nb \<and> stale W nb") (auto simp: dial_entry_stale dial_entry_fresh split: if_splits)

lemma frame_dial_scan: "dial_scan W fps m todo = Some (m', todo') \<Longrightarrow> n_mu m \<Longrightarrow> frame n m \<Longrightarrow> frame n m'"
  by (induction fps arbitrary: m todo) (auto simp: bind_eq_Some_conv dest: frame_dial_entry)

lemma frame_dial_tick: "dial_tick W fps m = Some (m', todo) \<Longrightarrow> frame n m \<Longrightarrow> frame n m'"
  by (auto simp: dial_tick_def mu_lock_def mu_unlock_def bind_eq_Some_conv dest: frame_dial_scan split: if_splits)

lemma frame_subscribers [frames]:
  "frame n m \<Longrightarrow> frame n (fst (Subscribe m))"
  "frame n m \<Longrightarrow> frame n (unsubscribe i m)"
  "frame n m \<Longrightarrow> frame n (fst (receive i m))"
  by (auto simp: Subscribe_def unsubscribe_def receive_def frame_def split: option.split list.split)

lemma frame_tasks [frames]:
  "frame n m \<Longrightarrow> frame n (runSession_start l m)"
  by (simp add: runSession_start_def)

lemma frame_deletes [frames]:
  "frame n m \<Longrightarrow> frame n (fst (DeleteFile_node i m))"
  "frame n m \<Longrightarrow> frame n (fst (DeleteMessage_node i m))"
  by (auto simp: DeleteFile_node_def DeleteMessage_node_def op_simps intro!: frames split: sum.split)

lemma frame_Stop [frames]: "frame n m \<Longrightarrow> frame n (Stop m)"
  by (auto simp: Stop_def frame_def intro: link_ext_trans)

lemma frame_announcing [frames]:
  "frame n m \<Longrightarrow> frame n (snd (fst (Start W D lsn d m)))"
  "frame n m \<Longrightarrow> frame n (snd (fst (Rename W D name d m)))"
  by (auto simp: Start_def Rename_def reannounce_def op_simps intro!: frames split: sum.split)

section \<open>The steps of a running node\<close>

text \<open>
  Each operation of the node, the body of each loop and each handled envelope is one atomic step,
  at a time, with randomness and network outcomes of its own world. Steps interleave in any
  order, which covers concurrent sessions, timers and user actions; that two operations of Go can
  overlap inside one step is not covered. \<open>outboxLoop\<close>, \<open>dialLoop\<close> and a session's life are
  sequences of these steps. \<open>H\<close> is what handshakes can return. The operations of the daemon around
  the node (setting up, locking, enabling a passphrase) are in \<open>App\<close> and are not steps.

  \<open>node_step\<close> holds the steps that keep every open session pinned: a refused \<open>AcceptKey\<close> and a
  \<open>Forget\<close> under a trimmed name among them. \<open>node_run\<close> adds the other two cases, of which \<open>T\<close>
  collects the sessions with that contact that were open.
\<close>

definition world_ok :: "env \<Rightarrow> world \<Rightarrow> bool" where
  "world_ok E W \<longleftrightarrow> w_env W = E \<and> nonce_ok (w_nonce W)"

inductive plain_step :: "env \<Rightarrow> node \<Rightarrow> node \<Rightarrow> bool" for E where
  browse: "world_ok E W \<Longrightarrow> plain_step E n (browse_step W up p n)"
| dial_tick: "world_ok E W \<Longrightarrow> dial_tick W fps n = Some (n', todo) \<Longrightarrow> plain_step E n n'"
| dial_done: "world_ok E W \<Longrightarrow> plain_step E n (dialDone W r fp ok n)"
| accept: "plain_step E n (fst (accept_step n))"
| session_start: "plain_step E n (runSession_start l n)"
| handle: "world_ok E W \<Longrightarrow> plain_step E n (fst (handle W l e n))"
| ping: "world_ok E W \<Longrightarrow> plain_step E n (fst (ping_tick W l n))"
| flush: "world_ok E W \<Longrightarrow> plain_step E n (flush W peer force n)"
| flush_file: "world_ok E W \<Longrightarrow> plain_step E n (fst (flushFile_prepare W peer i n))"
| flush_file_header: "world_ok E W \<Longrightarrow> plain_step E n (fst (flushFile_header W peer i k n))"
| flush_file_finish: "world_ok E W \<Longrightarrow> plain_step E n (fst (flushFile_finish W peer i k' n))"
| flush_room: "world_ok E W \<Longrightarrow> plain_step E n (flushRoomMember W i mb n)"
| retention: "world_ok E W \<Longrightarrow> plain_step E n (retention_run W n)"
| send_reply: "world_ok E W \<Longrightarrow> plain_step E n (fst (SendReply W peer body rt n))"
| send_file: "world_ok E W \<Longrightarrow> plain_step E n (fst (SendFile W peer name data n))"
| retry: "plain_step E n (RetryNow peer n)"
| react: "world_ok E W \<Longrightarrow> plain_step E n (fst (SendReaction W peer emoji i n))"
| typing: "world_ok E W \<Longrightarrow> plain_step E n (fst (SendTyping W peer n))"
| read_receipt: "world_ok E W \<Longrightarrow> plain_step E n (fst (SendReadReceipt W peer i n))"
| delete_everywhere: "world_ok E W \<Longrightarrow> plain_step E n (fst (DeleteMessageForEveryone W peer i n))"
| unqueue: "plain_step E n (fst (DeleteFromOutbox_node i n))"
| delete_file: "plain_step E n (fst (DeleteFile_node i n))"
| delete_message: "plain_step E n (fst (DeleteMessage_node i n))"
| clear: "plain_step E n (n\<lparr>n_store := fst (DeleteAllMessages (n_store n))\<rparr>)"
| settings: "plain_step E n (n\<lparr>n_store := fst (SaveSettings (n_store n) st)\<rparr>)"
| create_room: "world_ok E W \<Longrightarrow> plain_step E n (fst (CreateRoom_node W name members n))"
| room_message: "world_ok E W \<Longrightarrow> plain_step E n (fst (SendRoomMessage W i body n))"
| room_reaction: "world_ok E W \<Longrightarrow> plain_step E n (fst (SendRoomReaction W i j emoji n))"
| add_member: "world_ok E W \<Longrightarrow> plain_step E n (fst (AddRoomMember W i mb n))"
| remove_member: "world_ok E W \<Longrightarrow> plain_step E n (fst (RemoveRoomMember W i mb n))"
| leave_room: "world_ok E W \<Longrightarrow> plain_step E n (fst (LeaveRoom W i n))"
| rename_room: "world_ok E W \<Longrightarrow> plain_step E n (fst (RenameRoom W i name n))"
| accept_room: "world_ok E W \<Longrightarrow> plain_step E n (fst (AcceptRoomInvite W i n))"
| decline_room: "world_ok E W \<Longrightarrow> plain_step E n (fst (DeclineRoomInvite W i n))"
| subscribe: "plain_step E n (fst (Subscribe n))"
| unsubscribe: "plain_step E n (unsubscribe j n)"
| receive: "plain_step E n (fst (receive j n))"
| stop: "plain_step E n (Stop n)"

inductive node_step :: "env \<Rightarrow> 'd discovery \<Rightarrow> 'c conn result set \<Rightarrow> 'd \<times> node \<Rightarrow> 'd \<times> node \<Rightarrow> bool" for E D H where
  plain: "plain_step E n n' \<Longrightarrow> node_step E D H (d, n) (d, n')"
| start: "world_ok E W \<Longrightarrow> node_step E D H (d, n) (fst (Start W D lsn d n))"
| rename: "world_ok E W \<Longrightarrow> node_step E D H (d, n) (fst (Rename W D name d n))"
| establish: "world_ok E W \<Longrightarrow> hs \<in> H \<Longrightarrow> node_step E D H (d, n) (d, fst (establish W hs addr hsDone wantFP n))"
| session_end: "world_ok E W \<Longrightarrow> node_step E D H (d, n) (d, session_end W l n)"
| verify: "node_step E D H (d, n) (d, fst (Verify E name v n))"
| accept_refused: "AcceptKey E name n = (n', Inl e) \<Longrightarrow> node_step E D H (d, n) (d, n')"
| forget: "world_ok E W \<Longrightarrow> TrimSpace name = name \<Longrightarrow> node_step E D H (d, n) (d, fst (Forget W name n))"

definition sessions_of :: "env \<Rightarrow> string \<Rightarrow> node \<Rightarrow> nat set" where
  "sessions_of E name n = {l. l < n_next n \<and> l_open (n_links n l) \<and> peerKey E (l_peer (n_links n l)) = peerKey E name}"

inductive node_run :: "env \<Rightarrow> 'd discovery \<Rightarrow> 'c conn result set \<Rightarrow> 'd \<times> node \<Rightarrow> nat set \<Rightarrow> 'd \<times> node \<Rightarrow> bool" for E D H x where
  init: "node_run E D H x {} x"
| step: "node_run E D H x T y \<Longrightarrow> node_step E D H y z \<Longrightarrow> node_run E D H x T z"
| accept_key: "node_run E D H x T (d, n) \<Longrightarrow> AcceptKey E name n = (n', Inr ()) \<Longrightarrow> node_run E D H x (T \<union> sessions_of E name n) (d, n')"
| forget_spaced: "node_run E D H x T (d, n) \<Longrightarrow> world_ok E W \<Longrightarrow> TrimSpace name \<noteq> name
    \<Longrightarrow> node_run E D H x (T \<union> sessions_of E name n) (d, fst (Forget W name n))"

lemma plain_step_frame: "plain_step E n m \<Longrightarrow> frame n m"
  by (induction rule: plain_step.induct) (simp_all add: frames frame_dial_tick [OF _ frame_refl])

section \<open>The invariant\<close>

text \<open>
  The peers on record are well-formed and their names trimmed; an open link is the registered one
  of its peer and, unless it is in \<open>T\<close>, was authenticated by the pinned key; what went out on any
  link is valid.
\<close>

definition named_rows :: "store \<Rightarrow> bool" where
  "named_rows s \<longleftrightarrow> (\<forall>k p. bGet (bPeers (db s)) k = Some p \<longrightarrow> TrimSpace (p_Name p) = p_Name p)"

definition link_ok :: "env \<Rightarrow> nat set \<Rightarrow> node \<Rightarrow> nat \<Rightarrow> bool" where
  "link_ok E T n l \<longleftrightarrow> (let k = n_links n l in TrimSpace (l_peer k) = l_peer k
     \<and> (l_open k \<longrightarrow> n_live n (ToLower E (l_peer k)) = Some l \<and> (l \<notin> T \<longrightarrow> pinned_key (trust_of E (n_store n) (l_peer k)) = Some (l_key k)))
     \<and> (\<forall>e\<in>set (l_out k). validate e = Inr ()))"

definition sessions_except :: "env \<Rightarrow> nat set \<Rightarrow> node \<Rightarrow> bool" where
  "sessions_except E T n \<longleftrightarrow> trust_inv E (n_store n) \<and> named_rows (n_store n) \<and> (\<forall>l<n_next n. link_ok E T n l)"

abbreviation sessions_inv :: "env \<Rightarrow> node \<Rightarrow> bool" where
  "sessions_inv E n \<equiv> sessions_except E {} n"

lemma peers_same_trust:
  assumes "peers_same s t"
  shows "trust_of E t = trust_of E s" "trust_inv E t = trust_inv E s" "named_rows t = named_rows s"
proof -
  have k: "encKey t = encKey s" "idKey t = idKey s" using assms by (simp_all add: peers_same_def)
  have "decrypt E t = decrypt E s" unfolding fun_eq_iff decrypt_def k by simp
  then have p: "peer_trust E t = peer_trust E s" "peer_ok E t = peer_ok E s"
    unfolding fun_eq_iff peer_trust_def plain_def peer_ok_def by simp_all
  have b: "bPeers (db t) = bPeers (db s)" using assms by (simp add: peers_same_def)
  show "trust_of E t = trust_of E s" "trust_inv E t = trust_inv E s" "named_rows t = named_rows s"
    unfolding fun_eq_iff trust_of_def trust_inv_def keys_ok_def peers_inv_def named_rows_def k b p by simp_all
qed

lemma sessions_inv_trust: "sessions_except E T n \<Longrightarrow> trust_inv E (n_store n) \<and> named_rows (n_store n)"
  by (simp add: sessions_except_def)

lemma link_ext_ok:
  assumes "link_ext (n_links n l) (n_links m l)" "n_live m = n_live n" "trust_of E (n_store m) = trust_of E (n_store n)" "link_ok E T n l"
  shows "link_ok E T m l"
  using assms by (auto simp: link_ext_def link_ok_def Let_def)

lemma sessions_inv_frame: "sessions_except E T n \<Longrightarrow> frame n m \<Longrightarrow> sessions_except E T m"
  unfolding sessions_except_def frame_def using peers_same_trust link_ext_ok by metis

text \<open>Pins that survive a change of the store keep every link in order.\<close>

lemma link_ok_store:
  assumes "link_ok E T n l" "\<And>name k. pinned_key (trust_of E (n_store n) name) = Some k \<Longrightarrow> pinned_key (trust_of E s name) = Some k"
  shows "link_ok E T (n\<lparr>n_store := s\<rparr>) l"
  using assms by (auto simp: link_ok_def Let_def)

lemma named_rows_put: "named_rows s \<Longrightarrow> TrimSpace (p_Name p) = p_Name p \<Longrightarrow> named_rows (s\<lparr>db := putPeer E (db s) p\<rparr>)"
  by (auto simp: named_rows_def putPeer_def)

lemma Observe_named:
  assumes "Observe E r s name key now = (s', Inr (p, ok))" "named_rows s" "TrimSpace name = name"
  shows "named_rows s' \<and> TrimSpace (p_Name p) = p_Name p"
proof -
  have "TrimSpace (p_Name p) = p_Name p \<and> s' = s\<lparr>db := putPeer E (db s) p\<rparr>"
    using assms by (auto simp: Observe_def dbUpdate_def getPeer_def Let_def bindR_eq_Inr named_rows_def
        split: sum.splits option.splits if_splits prod.splits)
  then show ?thesis using named_rows_put [OF assms(2)] by simp
qed

lemma sessions_inv_observed:
  assumes "sessions_except E T n" "trust_inv E s" "named_rows s"
    "\<And>name k. pinned_key (trust_of E (n_store n) name) = Some k \<Longrightarrow> pinned_key (trust_of E s name) = Some k"
  shows "sessions_except E T (n\<lparr>n_store := s\<rparr>)"
  using assms link_ok_store by (simp add: sessions_except_def)

lemma sessions_inv_register:
  assumes "sessions_except E T n" "l_peer k = name" "TrimSpace name = name" "pinned_key (trust_of E (n_store n) name) = Some (l_key k)" "l_out k = []"
  shows "sessions_except E T (register (ToLower E name) k n)"
proof -
  let ?m = "register (ToLower E name) k n"
  have "link_ok E T ?m l" if "l < n_next ?m" for l
  proof (cases "l = n_next n")
    case True
    with assms show ?thesis by (simp add: link_ok_def)
  next
    case False
    with that have l: "l < n_next n" by simp
    with assms(1) have "link_ok E T n l" by (simp add: sessions_except_def)
    then show ?thesis using l by (auto simp: link_ok_def Let_def register_links)
  qed
  then show ?thesis using assms(1) by (simp add: sessions_except_def)
qed

lemma sessions_inv_noise [simp]:
  "sessions_except E T (emit e n) = sessions_except E T n" "sessions_except E T (logf W f a n) = sessions_except E T n"
  "sessions_except E T (release b n) = sessions_except E T n"
  by (simp_all add: sessions_except_def link_ok_def)

lemma sessions_inv_establish:
  assumes "sessions_except (w_env W) T n" "nonce_ok (w_nonce W)"
    "\<And>sc. hs = Inr sc \<Longrightarrow> \<not> IsEncrypted (c_RemoteKey sc) \<and> TrimSpace (c_RemoteName sc) = c_RemoteName sc"
  shows "sessions_except (w_env W) T (fst (establish W hs addr d wantFP n))"
proof (cases hs)
  case (Inl e)
  with assms(1) show ?thesis by (simp add: establish_def Let_def)
next
  case (Inr sc)
  let ?E = "w_env W"
  have sc: "observation_ok (w_nonce W, c_RemoteKey sc, w_now W)" "TrimSpace (c_RemoteName sc) = c_RemoteName sc"
    using assms(2,3) Inr by (simp_all add: observation_ok_def)
  have inv: "trust_inv ?E (n_store n)" "named_rows (n_store n)" using assms(1) by (simp_all add: sessions_except_def)
  obtain s' p ok where ob: "Observe ?E (w_nonce W) (n_store n) (c_RemoteName sc) (c_RemoteKey sc) (w_now W) = (s', Inr (p, ok))"
    "trust_inv ?E s'" "ok \<longleftrightarrow> pinned_key (trust_of ?E s' (c_RemoteName sc)) = Some (c_RemoteKey sc)"
    "peerKey ?E (p_Name p) = peerKey ?E (c_RemoteName sc)"
    "\<And>m k. pinned_key (trust_of ?E (n_store n) m) = Some k \<Longrightarrow> pinned_key (trust_of ?E s' m) = Some k"
    by (rule Observe_establishes [OF inv(1) sc(1)]) blast
  have nm: "named_rows s'" "TrimSpace (p_Name p) = p_Name p" using Observe_named [OF ob(1) inv(2) sc(2)] by simp_all
  have st: "sessions_except ?E T ((release d n)\<lparr>n_store := s'\<rparr>)"
    using assms(1) ob(2,5) nm(1) by (intro sessions_inv_observed) simp_all
  have "sessions_except ?E T (register (ToLower ?E (p_Name p)) (newLink W sc addr (p_Name p)) ((release d n)\<lparr>n_store := s'\<rparr>))" if ok
  proof (rule sessions_inv_register [OF st])
    show "pinned_key (trust_of ?E (n_store ((release d n)\<lparr>n_store := s'\<rparr>)) (p_Name p)) = Some (l_key (newLink W sc addr (p_Name p)))"
      using that ob(3,4) by (simp add: trust_of_def newLink_def)
  qed (simp_all add: nm newLink_def link0_def)
  then show ?thesis using Inr assms(1) ob(1) st by (auto simp: establish_def Let_def)
qed

lemma sessions_inv_session_end:
  assumes "sessions_except (w_env W) T n"
  shows "sessions_except (w_env W) T (session_end W l n)"
proof -
  have "link_ok (w_env W) T (session_end W l n) j" if "j < n_next n" for j
  proof -
    have "link_ok (w_env W) T n j" "l < n_next n \<Longrightarrow> link_ok (w_env W) T n l" using assms that by (simp_all add: sessions_except_def)
    then show ?thesis by (auto simp: session_end_def link_ok_def Let_def)
  qed
  moreover have "n_store (session_end W l n) = n_store n" "n_next (session_end W l n) = n_next n"
    by (simp_all add: session_end_def Let_def)
  ultimately show ?thesis using assms by (simp add: sessions_except_def)
qed

lemma SetVerified_store:
  assumes "trust_inv E s" "named_rows s"
  shows "trust_inv E (fst (SetVerified E s name v)) \<and> named_rows (fst (SetVerified E s name v))
    \<and> (\<forall>m. pinned_key (trust_of E (fst (SetVerified E s name v)) m) = pinned_key (trust_of E s m))"
proof (cases "getPeer E (db s) name")
  case (Inl e)
  with assms show ?thesis by (simp add: SetVerified_def dbUpdate_def)
next
  case (Inr p)
  then have row: "bGet (bPeers (db s)) (peerKey E name) = Some p" by (simp add: getPeer_def split: option.splits)
  then have p: "peerKey E (p_Name p) = peerKey E name" "TrimSpace (p_Name p) = p_Name p"
    using assms by (auto simp: trust_inv_def peers_inv_def named_rows_def)
  have s: "fst (SetVerified E s name v) = s\<lparr>db := putPeer E (db s) (p\<lparr>p_Verified := v\<rparr>)\<rparr>"
    using Inr by (simp add: SetVerified_def dbUpdate_def)
  have "pinned_key (trust_of E (fst (SetVerified E s name v)) m) = pinned_key (trust_of E s m)" for m
    using row p(1) unfolding s trust_of_put by (simp add: trust_of_def peer_trust_def)
  moreover have "named_rows (fst (SetVerified E s name v))" unfolding s by (rule named_rows_put) (simp_all add: assms p)
  moreover have "trust_inv E (fst (SetVerified E s name v))"
    using assms(1) SetVerified_refines(2) [of E s name v] by (simp add: trust_inv_def SetVerified_def)
  ultimately show ?thesis by simp
qed

lemma sessions_inv_Verify: "sessions_except E T n \<Longrightarrow> sessions_except E T (fst (Verify E name v n))"
  using SetVerified_store [of E "n_store n" name v] sessions_inv_observed [of E T n "fst (SetVerified E (n_store n) name v)"]
  by (simp add: Verify_def case_prod_beta sessions_inv_trust split: sum.split)

text \<open>Forgetting a contact touches the pins of no other one, and its own link is closed first.\<close>

lemma ForgetPeer_store:
  assumes "trust_inv E s" "named_rows s"
  shows "trust_inv E (fst (ForgetPeer E s name)) \<and> named_rows (fst (ForgetPeer E s name))
    \<and> (\<forall>m. peerKey E m \<noteq> peerKey E name \<longrightarrow> trust_of E (fst (ForgetPeer E s name)) m = trust_of E s m)"
proof (cases "getPeer E (db s) name")
  case (Inl e)
  with assms show ?thesis by (simp add: ForgetPeer_def dbUpdate_def)
next
  case (Inr p)
  then show ?thesis using assms
    by (auto simp: ForgetPeer_def dbUpdate_def Let_def trust_inv_def peers_inv_def named_rows_def trust_of_def keys_ok_def
        split: if_splits option.split)
qed

lemma AcceptPendingKey_store:
  assumes "trust_inv E s" "named_rows s"
  shows "trust_inv E (fst (AcceptPendingKey E s name)) \<and> named_rows (fst (AcceptPendingKey E s name))
    \<and> (\<forall>m. peerKey E m \<noteq> peerKey E name \<longrightarrow> trust_of E (fst (AcceptPendingKey E s name)) m = trust_of E s m)"
proof (cases "AcceptPendingKey E s name")
  case (Pair s' r)
  have t: "trust_inv E s'"
    using assms(1) AcceptPendingKey_refines(2) [of E s name] Pair
    by (auto simp: trust_inv_def AcceptPendingKey_def dbUpdate_def split: sum.splits)
  show ?thesis
  proof (cases r)
    case (Inl e)
    with Pair have "s' = s" by (auto simp: AcceptPendingKey_def dbUpdate_def split: sum.splits)
    with assms Pair show ?thesis by simp
  next
    case (Inr u)
    with Pair obtain p q where p: "getPeer E (db s) name = Inr p" "s' = s\<lparr>db := putPeer E (db s) q\<rparr>" "p_Name q = p_Name p"
      by (auto simp: AcceptPendingKey_def dbUpdate_def bindR_eq_Inr split: sum.splits option.splits)
    have row: "bGet (bPeers (db s)) (peerKey E name) = Some p" using p(1) by (simp add: getPeer_def split: option.splits)
    then have nm: "peerKey E (p_Name q) = peerKey E name" "TrimSpace (p_Name q) = p_Name q"
      using assms p(3) by (auto simp: trust_inv_def peers_inv_def named_rows_def)
    have "trust_of E s' m = trust_of E s m" if "peerKey E m \<noteq> peerKey E name" for m
      using that nm(1) unfolding p(2) trust_of_put by simp
    moreover have "named_rows s'" unfolding p(2) by (rule named_rows_put) (simp_all add: assms nm)
    ultimately show ?thesis using t Pair by simp
  qed
qed

text \<open>A change to one contact concerns the sessions with it only.\<close>

lemma sessions_inv_mono: "sessions_except E T n \<Longrightarrow> T \<subseteq> T' \<Longrightarrow> sessions_except E T' n"
  by (auto simp: sessions_except_def link_ok_def Let_def)

lemma sessions_inv_contact:
  assumes "sessions_except E T n" "trust_inv E s" "named_rows s"
    and "\<And>m. peerKey E m \<noteq> peerKey E name \<Longrightarrow> trust_of E s m = trust_of E (n_store n) m"
  shows "sessions_except E (T \<union> sessions_of E name n) (n\<lparr>n_store := s\<rparr>)"
  using assms by (auto simp: sessions_except_def link_ok_def Let_def sessions_of_def)

lemma sessions_inv_AcceptKey:
  assumes "sessions_except E T n" "AcceptKey E name n = (n', r)"
  shows "sessions_except E (T \<union> sessions_of E name n) n'" "r = Inl e \<Longrightarrow> sessions_except E T n'"
proof -
  let ?s = "fst (AcceptPendingKey E (n_store n) name)"
  have "trust_inv E ?s" "named_rows ?s" "\<And>m. peerKey E m \<noteq> peerKey E name \<Longrightarrow> trust_of E ?s m = trust_of E (n_store n) m"
    using AcceptPendingKey_store [of E "n_store n" name] assms(1) by (simp_all add: sessions_except_def)
  then have "sessions_except E (T \<union> sessions_of E name n) (n\<lparr>n_store := ?s\<rparr>)" by (rule sessions_inv_contact [OF assms(1)])
  with assms(2) show "sessions_except E (T \<union> sessions_of E name n) n'"
    by (auto simp: AcceptKey_def split: prod.splits sum.splits)
  assume "r = Inl e"
  with assms(2) have "n' = n" by (auto simp: AcceptKey_def AcceptPendingKey_def dbUpdate_def split: sum.splits)
  with assms(1) show "sessions_except E T n'" by simp
qed

lemma Forget_contact:
  assumes "sessions_except (w_env W) T n" "n1 = (case linkFor W n name of None \<Rightarrow> n | Some l \<Rightarrow> close l n)"
  shows "sessions_except (w_env W) T n1" "sessions_except (w_env W) (T \<union> sessions_of (w_env W) name n1) (fst (Forget W name n))"
    and "sessions_of (w_env W) name n1 \<subseteq> sessions_of (w_env W) name n"
proof -
  let ?E = "w_env W"
  let ?s = "fst (ForgetPeer ?E (n_store n1) name)"
  have f: "frame n n1" unfolding assms(2) by (auto intro: frames split: option.split)
  with assms(1) show inv: "sessions_except ?E T n1" by (rule sessions_inv_frame)
  have "trust_inv ?E ?s" "named_rows ?s" "\<And>m. peerKey ?E m \<noteq> peerKey ?E name \<Longrightarrow> trust_of ?E ?s m = trust_of ?E (n_store n1) m"
    using ForgetPeer_store [of ?E "n_store n1" name] inv by (simp_all add: sessions_except_def)
  then have "sessions_except ?E (T \<union> sessions_of ?E name n1) (n1\<lparr>n_store := ?s\<rparr>)" by (rule sessions_inv_contact [OF inv])
  then show "sessions_except ?E (T \<union> sessions_of ?E name n1) (fst (Forget W name n))"
    unfolding Forget_def assms(2) [symmetric] by (simp add: case_prod_beta split: sum.split)
  show "sessions_of ?E name n1 \<subseteq> sessions_of ?E name n"
    using f by (auto simp: sessions_of_def frame_def link_ext_def)
qed

lemma sessions_inv_Forget:
  assumes "sessions_except (w_env W) T n" "TrimSpace name = name"
  shows "sessions_except (w_env W) T (fst (Forget W name n))"
proof -
  let ?n1 = "case linkFor W n name of None \<Rightarrow> n | Some l \<Rightarrow> close l n"
  note f = Forget_contact [OF assms(1) refl, of name]
  have live: "n_live ?n1 = n_live n" by (simp split: option.split)
  have "peerKey (w_env W) (l_peer (n_links ?n1 l)) \<noteq> peerKey (w_env W) name" if "l < n_next ?n1" "l_open (n_links ?n1 l)" for l
  proof -
    have "link_ok (w_env W) T ?n1 l" using f(1) that by (simp add: sessions_except_def)
    then show ?thesis using that assms(2) live by (auto simp: link_ok_def Let_def peerKey_def linkFor_def split: option.splits if_splits)
  qed
  then have "sessions_of (w_env W) name ?n1 = {}" by (auto simp: sessions_of_def)
  with f(2) show ?thesis by simp
qed

definition handshakes_ok :: "'c conn result set \<Rightarrow> bool" where
  "handshakes_ok H \<longleftrightarrow> (\<forall>sc. Inr sc \<in> H \<longrightarrow> \<not> IsEncrypted (c_RemoteKey sc) \<and> TrimSpace (c_RemoteName sc) = c_RemoteName sc)"

lemma node_step_inv:
  assumes "node_step E D H x y" "handshakes_ok H" "sessions_except E T (snd x)"
  shows "sessions_except E T (snd y)"
  using assms(1,3)
proof (cases rule: node_step.cases)
  case (establish W hs d n addr hsDone wantFP)
  then show ?thesis
    using assms(2,3) by (auto simp: world_ok_def handshakes_ok_def intro!: sessions_inv_establish)
qed (use assms(3) in \<open>auto simp: world_ok_def intro: sessions_inv_frame [OF _ plain_step_frame]
  sessions_inv_frame [OF _ frame_announcing(1) [OF frame_refl]] sessions_inv_frame [OF _ frame_announcing(2) [OF frame_refl]]
  sessions_inv_session_end sessions_inv_Verify sessions_inv_Forget sessions_inv_AcceptKey(2)\<close>)

lemma run_inv:
  assumes "node_run E D H x T y" "handshakes_ok H" "sessions_inv E (snd x)"
  shows "sessions_except E T (snd y)"
  using assms
proof (induction rule: node_run.induct)
  case (forget_spaced T d n W name)
  then show ?case using Forget_contact [of W T n _ name, OF _ refl] by (auto simp: world_ok_def intro: sessions_inv_mono)
qed (auto intro: node_step_inv dest: sessions_inv_AcceptKey(1))

section \<open>What holds of every run\<close>

lemma fresh_inv: "trust_inv E (n_store n) \<Longrightarrow> named_rows (n_store n) \<Longrightarrow> n_next n = 0 \<Longrightarrow> sessions_inv E n"
  by (simp add: sessions_except_def)

abbreviation sample_session :: "node" where
  "sample_session \<equiv> fst (establish sample_world (Inr (sample_conn ''key-B'' ''Bob'')) ''10.0.0.2:1'' False [] sample_node)"

lemma sample_session: "n_next sample_session = 1" "n_links sample_session 0 = newLink sample_world (sample_conn ''key-B'' ''Bob'') ''10.0.0.2:1'' ''Bob''"
  "n_live sample_session = [ToLower sample_env ''Bob'' \<mapsto> 0]"
proof -
  let ?sc = "sample_conn ''key-B'' ''Bob''"
  have t: "trust_inv (w_env sample_world) (n_store sample_node)"
    by (simp add: sample_world_def sample_node_def New_def sample_store_ok)
  have u: "trust_of (w_env sample_world) (n_store sample_node) (c_RemoteName ?sc) = Unknown"
    by (simp add: sample_node_def New_def sample_store_def empty_db_def trust_of_def)
  obtain s' p ok where ob:
    "Observe (w_env sample_world) (w_nonce sample_world) (n_store sample_node) (c_RemoteName ?sc) (c_RemoteKey ?sc) (w_now sample_world) = (s', Inr (p, ok))"
    "ok \<longleftrightarrow> pinned_key (trust_of (w_env sample_world) s' (c_RemoteName ?sc)) = Some (c_RemoteKey ?sc)"
    "\<not> ok \<Longrightarrow> trust_of (w_env sample_world) s' (c_RemoteName ?sc) = fst (tofu_observe (c_RemoteKey ?sc)
      (trust_of (w_env sample_world) (n_store sample_node) (c_RemoteName ?sc)))"
    by (rule Observe_establishes [OF t sample_key_ok(1), where name = "c_RemoteName ?sc"]) blast
  have ok using ob(2,3) unfolding u by (cases ok) auto
  have "getPeer (w_env sample_world) (db (n_store sample_node)) (c_RemoteName ?sc) = Inl ErrNotFound"
    by (simp add: getPeer_def sample_node_def New_def sample_store_def empty_db_def)
  then have p: "p_Name p = ''Bob''" using ob(1) by (auto simp: Observe_def dbUpdate_def Let_def sample_conn_def split: sum.splits)
  have z: "n_next sample_node = 0" by (simp add: sample_node_def New_def)
  have l: "n_links (register k x m) 0 = x" if "n_next m = 0" for k x m using register_fields(4) [of k x m] that by simp
  show "n_next sample_session = 1" "n_links sample_session 0 = newLink sample_world ?sc ''10.0.0.2:1'' ''Bob''"
    using ob(1) \<open>ok\<close> sample_key_ok(2) by (auto simp: establish_def Let_def z l p)
  have "n_live sample_node = Map.empty" "w_env sample_world = sample_env" by (simp_all add: sample_node_def New_def sample_world_def)
  then show "n_live sample_session = [ToLower sample_env ''Bob'' \<mapsto> 0]"
    using ob(1) \<open>ok\<close> sample_key_ok(2) by (auto simp: establish_def Let_def z p)
qed

lemma sample_run:
  "trust_inv sample_env (n_store sample_node)" "named_rows (n_store sample_node)" "n_next sample_node = 0"
  "handshakes_ok {Inr (sample_conn ''key-B'' ''Bob'')}"
  "node_step sample_env D {Inr (sample_conn ''key-B'' ''Bob'')} (d, sample_node) (d, sample_session)"
proof -
  show "trust_inv sample_env (n_store sample_node)" "named_rows (n_store sample_node)"
    using sample_store_ok(1) by (simp_all add: sample_node_def New_def named_rows_def, simp add: sample_store_def empty_db_def)
  show "handshakes_ok {Inr (sample_conn ''key-B'' ''Bob'')}"
    by (simp add: handshakes_ok_def sample_conn_def IsEncrypted_def magic_def TrimSpace_def IsSpace_def)
  have "world_ok sample_env sample_world" by (simp add: world_ok_def sample_world_def)
  then show "node_step sample_env D {Inr (sample_conn ''key-B'' ''Bob'')} (d, sample_node) (d, sample_session)"
    by (rule node_step.establish) simp
qed (simp add: sample_node_def New_def)

lemma node_run_steps: "(node_step E D H)\<^sup>*\<^sup>* x y \<Longrightarrow> node_run E D H x {} y"
  by (induction rule: rtranclp_induct) (auto intro: node_run.intros)

text \<open>
  C4. In every run of a node, whatever its user does, whatever arrives, and in whatever order its
  operations are taken: an open session is the one messages to its peer are sent on, and there is
  no second open session with the same peer; and it was authenticated with the key that is pinned
  for its peer now, unless it is one of \<open>T\<close>, the sessions that were open when the user accepted
  another key for that peer, or forgot the peer under its name with spaces around it.
\<close>

theorem every_session_is_pinned:
  assumes "trust_inv E (n_store n)" "named_rows (n_store n)" "n_next n = 0" "handshakes_ok H"
    and "node_run E D H (d, n) T (d', n')" "l < n_next n'" "l_open (n_links n' l)"
  shows "(l \<notin> T \<longrightarrow> pinned_key (trust_of E (n_store n') (l_peer (n_links n' l))) = Some (l_key (n_links n' l)))
    \<and> (\<forall>W. w_env W = E \<longrightarrow> linkFor W n' (l_peer (n_links n' l)) = Some l)
    \<and> (\<forall>j<n_next n'. l_open (n_links n' j) \<longrightarrow> ToLower E (l_peer (n_links n' j)) = ToLower E (l_peer (n_links n' l)) \<longrightarrow> j = l)"
proof -
  have "sessions_except E T n'" using run_inv [OF assms(5,4)] fresh_inv [OF assms(1-3)] by simp
  then have "link_ok E T n' j" if "j < n_next n'" for j using that by (simp add: sessions_except_def)
  from this [OF assms(6)] this show ?thesis using assms(7) by (fastforce simp: link_ok_def Let_def linkFor_def)
qed

theorem every_session_is_pinned_witness:
  "pinned_key (trust_of sample_env (n_store sample_session) (l_peer (n_links sample_session 0))) = Some ''key-B''"
proof -
  have "l_open (n_links sample_session 0)" "l_key (n_links sample_session 0) = ''key-B''"
    using sample_session(2) by (auto simp: newLink_def sample_conn_def)
  moreover have r: "node_run sample_env undefined {Inr (sample_conn ''key-B'' ''Bob'')} ((), sample_node) {} ((), sample_session)"
    by (rule node_run.step [OF node_run.init sample_run(5)])
  ultimately show ?thesis
    using every_session_is_pinned [OF sample_run(1-4) r, where l = 0] by (simp add: sample_session(1))
qed

section \<open>Accepting a changed key\<close>

lemma AcceptKey_accepts:
  assumes "trust_inv E (n_store n)" "trust_of E (n_store n) name = Pinned k v (Some k')"
  obtains n' where "AcceptKey E name n = (n', Inr ())" "n_links n' = n_links n" "n_live n' = n_live n"
    "pinned_key (trust_of E (n_store n') name) = Some k'"
proof -
  let ?s = "n_store n"
  have p: "peers_inv E ?s" using assms(1) by (simp add: trust_inv_def)
  then show thesis
  proof (cases rule: getPeer_cases [where name = name])
    case none
    then show ?thesis using assms(2) by simp
  next
    case (some p)
    then obtain pk where pk: "p_PendingKey p = Some pk"
      using assms(2) by (cases "p_PendingKey p") (auto simp: peer_trust_def)
    then obtain key where "decrypt E ?s pk = Inr key" using some(4) by (auto simp: peer_ok_def)
    with some(1) pk have "snd (AcceptPendingKey E ?s name) = Inr ()"
      by (simp add: AcceptPendingKey_def dbUpdate_def wrap_err_def)
    then obtain s' where s': "AcceptPendingKey E ?s name = (s', Inr ())" by (cases "AcceptPendingKey E ?s name") simp
    have "pinned_key (trust_of E s' name) = Some k'"
      using AcceptPendingKey_refines(1) [OF p, of name] assms(2) s' by simp
    with s' show ?thesis by (intro that [of "fst (AcceptKey E name n)"]) (simp_all add: AcceptKey_def)
  qed
qed

lemma establish_id: "n_id (fst (establish W hs addr d fp n)) = n_id n"
  by (simp add: establish_def register_def case_prod_beta Let_def split: sum.split option.split)

lemma refused_key:
  assumes "trust_inv (w_env W) (n_store n)" "observation_ok (w_nonce W, c_RemoteKey sc, w_now W)"
    "c_RemoteKey sc \<noteq> Public (i_Key (n_id n))" "trust_of (w_env W) (n_store n) (c_RemoteName sc) = Pinned k v q" "c_RemoteKey sc \<noteq> k"
    "m = fst (establish W (Inr sc) addr d [] n)"
  shows "n_links m = n_links n" "n_next m = n_next n" "trust_of (w_env W) (n_store m) (c_RemoteName sc) = Pinned k v (Some (c_RemoteKey sc))"
proof -
  obtain s' p ok where ob: "Observe (w_env W) (w_nonce W) (n_store n) (c_RemoteName sc) (c_RemoteKey sc) (w_now W) = (s', Inr (p, ok))"
    "ok \<longleftrightarrow> pinned_key (trust_of (w_env W) s' (c_RemoteName sc)) = Some (c_RemoteKey sc)"
    "\<And>m k. pinned_key (trust_of (w_env W) (n_store n) m) = Some k \<Longrightarrow> pinned_key (trust_of (w_env W) s' m) = Some k"
    "\<not> ok \<Longrightarrow> trust_of (w_env W) s' (c_RemoteName sc) = fst (tofu_observe (c_RemoteKey sc) (trust_of (w_env W) (n_store n) (c_RemoteName sc)))"
    by (rule Observe_establishes [OF assms(1,2)]) blast
  have "\<not> ok" using ob(2) ob(3) [of "c_RemoteName sc" k] assms(4,5) by simp
  with ob establish_refused [OF assms(3), of "[]" W s' p] assms(4-6)
  show "n_links m = n_links n" "n_next m = n_next n" "trust_of (w_env W) (n_store m) (c_RemoteName sc) = Pinned k v (Some (c_RemoteKey sc))"
    by (auto split: if_splits)
qed

text \<open>
  C37. Accepting a changed key does not end a session with the old one: an open session that the
  old key authenticated stays open and stays the one that messages to the peer go out on, after
  the pin has been replaced.
\<close>

theorem accepted_key_keeps_old_session:
  assumes "sessions_inv E n" "l < n_next n" "l_open (n_links n l)"
    and "trust_of E (n_store n) (l_peer (n_links n l)) = Pinned k v (Some k')" "w_env W = E"
  shows "\<exists>n'. AcceptKey E (l_peer (n_links n l)) n = (n', Inr ()) \<and> pinned_key (trust_of E (n_store n') (l_peer (n_links n l))) = Some k'
    \<and> linkFor W n' (l_peer (n_links n l)) = Some l \<and> l_open (n_links n' l) \<and> l_key (n_links n' l) = k"
proof -
  have l: "link_ok E {} n l" "trust_inv E (n_store n)" using assms(1,2) by (simp_all add: sessions_except_def)
  obtain n' where n': "AcceptKey E (l_peer (n_links n l)) n = (n', Inr ())" "n_links n' = n_links n" "n_live n' = n_live n"
    "pinned_key (trust_of E (n_store n') (l_peer (n_links n l))) = Some k'"
    by (rule AcceptKey_accepts [OF l(2) assms(4)])
  show ?thesis
    by (rule exI [of _ n']) (use n' l(1) assms(3-5) in \<open>simp add: link_ok_def Let_def linkFor_def\<close>)
qed

theorem accepted_key_keeps_old_session_witness:
  "\<exists>n n'. (node_step sample_env undefined {Inr (sample_conn ''key-B'' ''Bob''), Inr (sample_conn ''key-C'' ''Bob'')})\<^sup>*\<^sup>* ((), sample_node) ((), n)
    \<and> AcceptKey sample_env ''Bob'' n = (n', Inr ()) \<and> pinned_key (trust_of sample_env (n_store n') ''Bob'') = Some ''key-C''
    \<and> linkFor sample_world n' ''Bob'' = Some 0 \<and> l_open (n_links n' 0) \<and> l_key (n_links n' 0) = ''key-B''"
proof -
  let ?H = "{Inr (sample_conn ''key-B'' ''Bob''), Inr (sample_conn ''key-C'' ''Bob'')}"
  let ?C = "sample_conn ''key-C'' ''Bob''"
  let ?n = "fst (establish sample_world (Inr ?C) ''10.0.0.3:1'' False [] sample_session)"
  have W: "world_ok sample_env sample_world" "w_env sample_world = sample_env" by (simp_all add: world_ok_def sample_world_def)
  have H: "handshakes_ok ?H"
    by (simp add: handshakes_ok_def sample_conn_def IsEncrypted_def magic_def TrimSpace_def IsSpace_def)
  have "node_step sample_env undefined ?H ((), sample_node) ((), sample_session)"
    "node_step sample_env undefined ?H ((), sample_session) ((), ?n)"
    by (rule node_step.establish [OF W(1)], simp)+
  then have run: "(node_step sample_env undefined ?H)\<^sup>*\<^sup>* ((), sample_node) ((), sample_session)"
    "(node_step sample_env undefined ?H)\<^sup>*\<^sup>* ((), sample_node) ((), ?n)"
    by (meson converse_rtranclp_into_rtranclp r_into_rtranclp)+
  have inv: "sessions_inv sample_env sample_session" "sessions_inv sample_env ?n"
    using run_inv [OF node_run_steps [OF run(1)] H] run_inv [OF node_run_steps [OF run(2)] H] fresh_inv [OF sample_run(1-3)] by simp_all
  have l: "l_open (n_links sample_session 0)" "l_peer (n_links sample_session 0) = ''Bob''" "l_key (n_links sample_session 0) = ''key-B''"
    unfolding sample_session(2) by (simp_all add: newLink_def sample_conn_def)
  have "pinned_key (trust_of sample_env (n_store sample_session) ''Bob'') = Some ''key-B''"
    using inv(1) l by (simp add: sessions_except_def link_ok_def sample_session(1))
  then obtain v q where t: "trust_of sample_env (n_store sample_session) ''Bob'' = Pinned ''key-B'' v q"
    by (cases "trust_of sample_env (n_store sample_session) ''Bob''") simp_all
  have "length ''key-C'' \<noteq> length (Public (i_Key (toy_ident (CHR ''a''))))" by (simp add: toy_ident_def)
  then have "''key-C'' \<noteq> Public (i_Key (n_id sample_session))"
    unfolding establish_id by (auto simp: sample_node_def New_def dest: arg_cong [of _ _ length])
  then have C: "observation_ok (w_nonce sample_world, ''key-C'', w_now sample_world)" "c_RemoteKey ?C = ''key-C''" "c_RemoteName ?C = ''Bob''"
    "''key-C'' \<noteq> Public (i_Key (n_id sample_session))"
    by (simp_all add: sample_world_def sample_conn_def observation_ok_def IsEncrypted_def magic_def)
  have e: "n_links ?n = n_links sample_session" "n_next ?n = 1" "trust_of sample_env (n_store ?n) ''Bob'' = Pinned ''key-B'' v (Some ''key-C'')"
    using refused_key [of sample_world sample_session ?C "''key-B''" v q ?n "''10.0.0.3:1''" False] inv(1) t C
    by (simp_all add: W(2) sessions_except_def sample_session(1))
  have "\<exists>n'. AcceptKey sample_env (l_peer (n_links ?n 0)) ?n = (n', Inr ())
    \<and> pinned_key (trust_of sample_env (n_store n') (l_peer (n_links ?n 0))) = Some ''key-C''
    \<and> linkFor sample_world n' (l_peer (n_links ?n 0)) = Some 0 \<and> l_open (n_links n' 0) \<and> l_key (n_links n' 0) = ''key-B''"
    by (rule accepted_key_keeps_old_session [OF inv(2)]) (simp_all add: e l W(2))
  then show ?thesis using run(2) unfolding e(1) l(2) by blast
qed

section \<open>Forgetting under a name with spaces\<close>

text \<open>
  \<open>Forget\<close> looks the session up under the name as given and the contact under the trimmed name:
  given a space too many, the pin goes and the session stays open and in use.
\<close>

theorem untrimmed_forget_keeps_session:
  assumes "sessions_except E T n" "w_env W = E" "l < n_next n" "l_open (n_links n l)" "peerKey E name = peerKey E (l_peer (n_links n l))"
    and "linkFor W n name = None" "trust_of E (n_store n) name \<noteq> Unknown"
  shows "\<exists>n'. Forget W name n = (n', Inr ()) \<and> trust_of E (n_store n') (l_peer (n_links n l)) = Unknown
    \<and> linkFor W n' (l_peer (n_links n l)) = Some l \<and> l_open (n_links n' l)"
proof -
  have k: "link_ok E T n l" using assms(1,3) by (simp add: sessions_except_def)
  obtain p where p: "getPeer E (db (n_store n)) name = Inr p"
    using assms(7) by (auto simp: trust_of_def getPeer_def split: option.splits)
  then obtain s' where s': "ForgetPeer E (n_store n) name = (s', Inr ())" "bGet (bPeers (db s')) (peerKey E name) = None"
    by (auto simp: ForgetPeer_def dbUpdate_def Let_def)
  then have "trust_of E s' (l_peer (n_links n l)) = Unknown" by (simp add: trust_of_def assms(5) [symmetric])
  with s' k assms(2,4,6) show ?thesis by (auto simp: Forget_def linkFor_def link_ok_def Let_def)
qed

theorem untrimmed_forget_keeps_session_witness:
  "\<exists>n'. Forget sample_world ''Bob '' sample_session = (n', Inr ()) \<and> trust_of sample_env (n_store n') ''Bob'' = Unknown
    \<and> linkFor sample_world n' ''Bob'' = Some 0 \<and> l_open (n_links n' 0)"
proof -
  have W: "w_env sample_world = sample_env" by (simp add: sample_world_def)
  have inv: "sessions_except sample_env {} sample_session"
    using run_inv [OF node_run.step [OF node_run.init sample_run(5)] sample_run(4)] fresh_inv [OF sample_run(1-3)] by simp
  have l: "l_open (n_links sample_session 0)" "l_peer (n_links sample_session 0) = ''Bob''" "l_key (n_links sample_session 0) = ''key-B''"
    unfolding sample_session(2) by (simp_all add: newLink_def sample_conn_def)
  have k: "peerKey sample_env ''Bob '' = peerKey sample_env ''Bob''"
    by (simp add: peerKey_def TrimSpace_def IsSpace_def)
  have "pinned_key (trust_of sample_env (n_store sample_session) ''Bob'') = Some ''key-B''"
    using inv l by (simp add: sessions_except_def link_ok_def sample_session(1))
  then have t: "trust_of sample_env (n_store sample_session) ''Bob '' \<noteq> Unknown"
    using k by (auto simp: trust_of_def)
  have "linkFor sample_world sample_session ''Bob '' = None"
    unfolding linkFor_def W sample_session(3) by (simp add: ToLower_def ascii_lower_def)
  then show ?thesis
    using untrimmed_forget_keeps_session [OF inv W _ l(1), of "''Bob ''"] k t l(2) by (simp add: sample_session(1))
qed

end
