(* ===== verification/Wire_Size.thy ===== *)
theory Wire_Size
  imports Node_Rooms
begin

text \<open>
  Whether what the node sends fits a frame. A body is bounded by validation, a chunk by its size,
  and both stay far below the limit even when JSON escapes every byte; a room's name is bounded
  by nothing.
\<close>

section \<open>The envelopes that carry user data\<close>

text \<open>One chunk of a file, as \<open>send_chunks\<close> builds it.\<close>

abbreviation chunk_envelope :: "string \<Rightarrow> int \<Rightarrow> bytes \<Rightarrow> envelope" where
  "chunk_envelope fileID off data \<equiv> envelope0\<lparr>e_T := TypeChunk, e_ID := fileID, e_Offset := off, e_Chunk := data\<rparr>"

lemma optional_checkID: "optional s (wrap_err m (checkID s)) = Inr () \<Longrightarrow> length s \<le> 32"
  by (auto simp: optional_def checkID_Inr split: if_splits)

lemma msg_fits:
  assumes "validate (msg_envelope m) = Inr ()" "in_int64 (UnixMilli (m_TS m))"
  shows "length (Marshal (envelope_json (msg_envelope m))) + 16 \<le> MaxFrame"
proof -
  have "length (m_ID m) = 32" "length (m_Body m) \<le> 4096" "length (m_ReplyTo m) \<le> 32"
    using assms(1) optional_checkID
    by (auto simp: validate_def msg_envelope_def envelope0_def checkID_Inr MaxBody_def)
  with length_envelope_json [of "msg_envelope m"] assms(2) show ?thesis
    by (simp add: msg_envelope_def envelope0_def MaxFrame_def)
qed

lemma room_msg_fits:
  assumes "validate (room_msg_envelope roomID m) = Inr ()" "in_int64 (UnixMilli (rm_TS m))"
  shows "length (Marshal (envelope_json (room_msg_envelope roomID m))) + 16 \<le> MaxFrame"
proof -
  have "length (rm_ID m) = 32" "length (rm_Body m) \<le> 4096" "length roomID = 32"
    using assms(1) by (auto simp: validate_def room_msg_envelope_def envelope0_def checkID_Inr MaxBody_def)
  with length_envelope_json [of "room_msg_envelope roomID m"] assms(2) show ?thesis
    by (simp add: room_msg_envelope_def envelope0_def MaxFrame_def)
qed

lemma chunk_fits:
  assumes "validate (chunk_envelope fileID off data) = Inr ()"
  shows "length (Marshal (envelope_json (chunk_envelope fileID off data))) + 16 \<le> MaxFrame"
proof -
  have v: "length fileID = 32" "length data \<le> 33792" "0 \<le> off" "off \<le> 104857600"
    using assms by (auto simp: validate_def envelope0_def checkID_Inr ChunkSize_def MaxFileSize_def)
  then have "(length data + 2) div 3 * 4 \<le> 45060" by linarith
  with length_envelope_json [of "chunk_envelope fileID off data"] v show ?thesis
    by (simp add: envelope0_def MaxFrame_def)
qed

lemma checkID_replicate: "checkID (replicate 32 CHR ''a'') = Inr ()"
  using hex_DecodeString_replicate [of "CHR ''a''" 16] by (simp add: checkID_Inr hex_value_def)

section \<open>Properties\<close>

text \<open>
  C32. Messages, room messages and file chunks always fit: an envelope of these kinds that passes
  validation is never refused for its size, whatever its text or data, so \<open>Send\<close> writes a frame.
\<close>

theorem payloads_fit_frames:
  assumes "cipher_pair S R" "R (c_enc c) (c_dec d)" "validate e = Inr ()" "in_int64 (e_TS e)"
    and "e \<in> {msg_envelope m, room_msg_envelope roomID rm, chunk_envelope fileID off data}"
  shows "\<exists>e' w. Send S c e = (c\<lparr>c_enc := e'\<rparr>, Inr w)"
proof -
  have l: "length (Marshal (envelope_json e)) + 16 \<le> MaxFrame"
    using assms(3-5) msg_fits [of m] room_msg_fits [of roomID rm] chunk_fits [where fileID = fileID and off = off and data = data]
    by (auto simp: msg_envelope_def room_msg_envelope_def)
  obtain e' ct where ct: "noise_Encrypt S (c_enc c) (Marshal (envelope_json e)) = Inr (e', ct)"
    "length ct = length (Marshal (envelope_json e)) + 16"
    using assms(1,2) unfolding cipher_pair_def by blast
  then have "\<exists>w. WriteFrame ct = Inr w" using l by (intro WriteFrame_fits) auto
  then show ?thesis using ct(1) assms(3) by (auto simp: Send_def Encode_def)
qed

theorem payloads_fit_frames_witness:
  "\<exists>e' w. Send toy_session toy_conn (chunk_envelope (replicate 32 CHR ''a'') 0 (replicate ChunkSize CHR ''x''))
     = (toy_conn\<lparr>c_enc := e'\<rparr>, Inr w)"
proof -
  let ?e = "chunk_envelope (replicate 32 CHR ''a'') 0 (replicate ChunkSize CHR ''x'')"
  have v: "validate ?e = Inr ()" using checkID_replicate by (simp add: validate_def envelope0_def ChunkSize_def MaxFileSize_def)
  have ts: "in_int64 (e_TS ?e)" by (simp add: envelope0_def)
  have mem: "?e \<in> {msg_envelope undefined, room_msg_envelope [] undefined, ?e}" by simp
  show ?thesis by (rule payloads_fit_frames [OF toy_cipher _ v ts mem, where d = toy_conn]) simp
qed

text \<open>
  C39. A long room name breaks the session: renaming a room to a name of about eleven thousand
  characters that JSON escapes is accepted, the event cannot be sent, and the failed send has used
  up a nonce. The next envelope is sent without an error and fails to authenticate at the peer,
  whose read loop ends. (A record numbered one ahead of the reader's count does not authenticate:
  \<open>nonce_bound\<close>.)
\<close>

theorem long_room_name_desynchronises:
  assumes "cipher_pair S R" "nonce_bound S R" "R (c_enc c) (c_dec d)" "checkID roomID = Inr ()" "actor \<noteq> []"
    and "name = replicate k CHR ''<''" "10920 \<le> k"
  shows "\<exists>c'. Send S c (room_event W roomID ''rename'' actor name []) = (c', Inl ErrFrameTooLarge)
    \<and> (\<forall>f. sendable f \<longrightarrow> (\<exists>c'' w. Send S c' f = (c'', Inr w)))
    \<and> (\<forall>f c'' w rest. Send S c' f = (c'', Inr w) \<longrightarrow> Recv S d (w @ rest) = Inl (Err ''session: authentication failed''))"
proof -
  let ?e = "room_event W roomID ''rename'' actor name []"
  have "roomID \<noteq> []" using assms(4) by (auto simp: checkID_Inr)
  then have v: "validate ?e = Inr ()"
    using assms(4,5) by (simp add: validate_def room_event_def envelope0_def wrap_err_def)
  have "length (Marshal (JStr name)) = 6 * k + 2"
  proof -
    have "segs name = replicate k (0x3C, ''<'')" unfolding assms(6) by (induction k) simp_all
    moreover have "length (esc_rune (0x3C, ''<'')) = 6" by (simp add: esc_rune_def)
    ultimately show ?thesis by (simp add: Marshal_def appendString_def length_concat sum_list_replicate)
  qed
  moreover have "(\<Sum>(k, v)\<leftarrow>kvs. length (appendString k) + length (Marshal v) + 2) \<ge> length (Marshal v) + 2"
    if "(k, v) \<in> set kvs" for k v kvs
    using member_le_sum_list [of "length (appendString k) + length (Marshal v) + 2"
        "map (\<lambda>(k, v). length (appendString k) + length (Marshal v) + 2) kvs"] that by force
  moreover obtain kvs where kvs: "envelope_json ?e = JObj kvs" "(''roomName'', JStr name) \<in> set kvs"
    using assms(6,7) by (auto simp: envelope_json_def room_event_def envelope0_def set_omitempty)
  moreover have "kvs \<noteq> []" using kvs(2) by auto
  ultimately have "length (Marshal (envelope_json ?e)) \<ge> 6 * k" by (fastforce simp: length_Marshal_JObj)
  then have l: "length (Marshal (envelope_json ?e)) + 16 > MaxFrame" using assms(7) by (simp add: MaxFrame_def)
  show ?thesis by (rule oversized_desync [OF assms(1-3) v l])
qed

theorem long_room_name_desynchronises_witness:
  "\<exists>c' c'' w. Send toy_session toy_conn (room_event sample_world (replicate 32 CHR ''a'') ''rename'' ''Ann'' (replicate 11000 CHR ''<'') [])
     = (c', Inl ErrFrameTooLarge) \<and> Send toy_session c' (envelope0\<lparr>e_T := TypePing\<rparr>) = (c'', Inr w)
     \<and> Recv toy_session toy_conn w = Inl (Err ''session: authentication failed'')"
proof -
  have p: "sendable (envelope0\<lparr>e_T := TypePing\<rparr>)" by (rule sendable_ping)
  obtain c' where c': "Send toy_session toy_conn (room_event sample_world (replicate 32 CHR ''a'') ''rename'' ''Ann'' (replicate 11000 CHR ''<'') [])
      = (c', Inl ErrFrameTooLarge)" "\<And>f. sendable f \<Longrightarrow> \<exists>c'' w. Send toy_session c' f = (c'', Inr w)"
    "\<And>f c'' w rest. Send toy_session c' f = (c'', Inr w) \<Longrightarrow> Recv toy_session toy_conn (w @ rest) = Inl (Err ''session: authentication failed'')"
    using long_room_name_desynchronises [OF toy_cipher toy_nonce _ checkID_replicate _ refl, where c = toy_conn and d = toy_conn
      and actor = "''Ann''" and k = 11000 and W = sample_world] by auto
  obtain c'' w where "Send toy_session c' (envelope0\<lparr>e_T := TypePing\<rparr>) = (c'', Inr w)" using c'(2) [OF p] by blast
  with c'(1) c'(3) [OF this, of "[]"] show ?thesis by auto
qed

end
