(* ===== verification/App.thy ===== *)
theory App
  imports Views
begin

text \<open>
  Package \<open>internal/app\<close>: the life cycle of the process around the
  store and the node - opening and unlocking the database, first-run setup, restoring a backup,
  and closing.

  The data directory is a record of what the closed database holds; \<open>busy\<close> says that another
  handle has the file locked. \<open>a.St\<close> and the node's store are one object: it is \<open>a_St\<close> until a
  node runs and the node's store from then on. A nil pointer that the code follows is a \<open>Panic\<close>.
\<close>

section \<open>State\<close>

record disk =
  dk_db :: db
  dk_files :: "string \<Rightarrow> filedir option"

record app_cfg =
  ac_ListenAddr :: string
  ac_Passphrase :: string
  ac_Tune :: "config \<Rightarrow> config"

record 'd app =
  a_cfg :: app_cfg
  a_St :: "store option"
  a_openErr :: "err option"
  a_n :: "node option"
  a_disc :: 'd

text \<open>What a start takes from outside: the clock, the backend and its fresh state, the listener.\<close>

record 'd launch =
  la_W :: world
  la_D :: "'d discovery"
  la_d0 :: 'd
  la_listen :: "(string \<times> int) result"

definition St :: "'d app \<Rightarrow> store option" where
  "St a = (case a_n a of Some n \<Rightarrow> Some (n_store n) | None \<Rightarrow> a_St a)"

section \<open>Opening\<close>

definition startNode :: "'d launch \<Rightarrow> store \<Rightarrow> ident \<Rightarrow> 'd app \<Rightarrow> 'd app \<times> unit result" where
  "startNode L st ide a = (let W = la_W L;
       nc = ac_Tune (a_cfg a) \<lparr>ListenAddr = ac_ListenAddr (a_cfg a), PingEvery = 0, DeadAfter = 0, RetryBase = 0,
              RetryMax = 0, DialTick = 0\<rparr>
     in case Start W (la_D L) (la_listen L) (la_d0 L) (New (w_env W) nc st ide) of
          ((d, n), Inl e) \<Rightarrow> (a\<lparr>a_St := Some st\<rparr>, Inl e)
        | ((d, n), Inr _) \<Rightarrow> (a\<lparr>a_St := Some st, a_n := Some n, a_disc := d\<rparr>, Inr ()))"

definition SetKey :: "bytes \<Rightarrow> store \<Rightarrow> store" where
  "SetKey key s = s\<lparr>encKey := Some key\<rparr>"

definition Open_app :: "'d launch \<Rightarrow> unit result \<Rightarrow> bool \<Rightarrow> app_cfg \<Rightarrow> disk \<Rightarrow> 'd app result" where
  "Open_app L mkdir_res busy cfg dk = (let E = w_env (la_W L);
       a = \<lparr>a_cfg = cfg, a_St = None, a_openErr = None, a_n = None, a_disc = la_d0 L\<rparr>
     in bindR mkdir_res (\<lambda>_.
       if busy then Inl (ErrWrap ''store: open %s'' (Err ''timeout''))
       else case OpenWithPassphrase E (dk_db dk) (dk_files dk) (ac_Passphrase cfg) of
         Inl e \<Rightarrow> if errors_Is e ErrPassphraseRequired then Inr (a\<lparr>a_openErr := Some e\<rparr>) else Inl e
       | Inr st \<Rightarrow> (case LoadIdentity E st of
           Inl e \<Rightarrow> Inl e
         | Inr None \<Rightarrow> Inr (a\<lparr>a_St := Some st\<rparr>)
         | Inr (Some ide) \<Rightarrow>
             (case startNode L (if encKey st = None then SetKey (DeriveKeyFromIdentity E (Private (i_Key ide))) st else st) ide a of
                (a1, Inl e) \<Rightarrow> Inl e
              | (a1, Inr _) \<Rightarrow> Inr a1))))"

definition Unlock :: "'d launch \<Rightarrow> unit result \<Rightarrow> bool \<Rightarrow> app_cfg \<Rightarrow> string \<Rightarrow> disk \<Rightarrow> 'd app result" where
  "Unlock L mkdir_res busy cfg passphrase dk = Open_app L mkdir_res busy (cfg\<lparr>ac_Passphrase := passphrase\<rparr>) dk"

definition Replace :: "'d app \<Rightarrow> 'd app \<Rightarrow> 'd app" where
  "Replace a nxt = a\<lparr>a_St := a_St nxt, a_n := a_n nxt, a_disc := a_disc nxt, a_cfg := a_cfg nxt, a_openErr := None\<rparr>"

definition NeedsPassphrase :: "'d app \<Rightarrow> bool" where
  "NeedsPassphrase a \<longleftrightarrow> a_openErr a \<noteq> None"

section \<open>Identity\<close>

text \<open>The common end of \<open>Setup\<close> and \<open>Restore\<close>: set the key, save, start.\<close>

definition adopt :: "'d launch \<Rightarrow> ident \<Rightarrow> 'd app \<Rightarrow> 'd app \<times> unit result" where
  "adopt L ide a = (let W = la_W L; E = w_env W in
     case a_St a of
       None \<Rightarrow> (a, Inl (Panic ''nil pointer dereference''))
     | Some st \<Rightarrow> (case SaveIdentity E (w_nonce W) (SetKey (DeriveKeyFromIdentity E (Private (i_Key ide))) st) ide of
         (s', Inl e) \<Rightarrow> (a\<lparr>a_St := Some s'\<rparr>, Inl e)
       | (s', Inr _) \<Rightarrow> startNode L s' ide (a\<lparr>a_St := Some s'\<rparr>)))"

definition Setup :: "'d launch \<Rightarrow> rnd \<Rightarrow> string \<Rightarrow> 'd app \<Rightarrow> 'd app \<times> unit result" where
  "Setup L r name a =
     (if a_n a \<noteq> None then (a, Inl (Err ''app: already set up''))
      else case Generate (w_env (la_W L)) r name of
        Inl e \<Rightarrow> (a, Inl e)
      | Inr ide \<Rightarrow> adopt L ide a)"

definition Restore :: "'d launch \<Rightarrow> bytes \<Rightarrow> string \<Rightarrow> 'd app \<Rightarrow> 'd app \<times> unit result" where
  "Restore L data passphrase a =
     (if a_n a \<noteq> None then (a, Inl (Err ''app: already set up''))
      else case ImportBackup (w_env (la_W L)) data passphrase of
        Inl e \<Rightarrow> (a, Inl e)
      | Inr ide \<Rightarrow> adopt L ide a)"

definition ErrNeedsSetup :: err where "ErrNeedsSetup = Err ''app: no identity yet''"

definition Backup :: "env \<Rightarrow> rnd \<Rightarrow> rnd \<Rightarrow> string \<Rightarrow> 'd app \<Rightarrow> bytes result" where
  "Backup E r1 r2 passphrase a = (case a_n a of
     None \<Rightarrow> Inl ErrNeedsSetup
   | Some n \<Rightarrow> ExportBackup E r1 r2 (n_id n) passphrase)"

definition EnablePassphrase_app :: "env \<Rightarrow> rnd \<Rightarrow> rnd \<Rightarrow> string \<Rightarrow> 'd app \<Rightarrow> 'd app \<times> unit result" where
  "EnablePassphrase_app E r_salt r_nonce passphrase a = (case a_n a of
     None \<Rightarrow> (a, Inl ErrNeedsSetup)
   | Some n \<Rightarrow> (case EnablePassphrase E r_salt r_nonce (n_store n) passphrase of
       (s', res) \<Rightarrow> (a\<lparr>a_n := Some (n\<lparr>n_store := s'\<rparr>)\<rparr>, res)))"

text \<open>\<open>Close\<close>: the node stops; what stays is the data directory.\<close>

definition Close :: "'d app \<Rightarrow> disk option" where
  "Close a = map_option (\<lambda>s. \<lparr>dk_db = db s, dk_files = filesDir s\<rparr>) (St (a\<lparr>a_n := map_option Stop (a_n a)\<rparr>))"

section \<open>Starting\<close>

text \<open>Outside conditions under which a node starts: a free listening address and a working backend.\<close>

definition launches :: "'d launch \<Rightarrow> bool" where
  "launches L \<longleftrightarrow> (\<exists>lsn. la_listen L = Inr lsn) \<and> (\<forall>d. snd (disc_Browse (la_D L) d) = Inr ())
     \<and> (\<forall>a d. snd (disc_Announce (la_D L) a d) = Inr ())"

lemma fold_goRun_fields [simp]:
  "n_store (fold goRun ts n) = n_store n" "n_id (fold goRun ts n) = n_id n" "n_myFP (fold goRun ts n) = n_myFP n"
  "n_ln (fold goRun ts n) = n_ln n" "n_announcing (fold goRun ts n) = n_announcing n"
  by (induction ts arbitrary: n) (simp_all add: goRun_def)

lemma logf_ln [simp]: "n_ln (logf W f a n) = n_ln n"
  by (simp add: logf_def Let_def)

lemma Start_launches:
  assumes "launches L"
  obtains d n' where "Start W (la_D L) (la_listen L) d0 n = ((d, n'), Inr ())" "n_store n' = n_store n" "n_id n' = n_id n"
    "n_myFP n' = n_myFP n" "n_announcing n'" "n_ln n' \<noteq> None"
proof -
  obtain lsn where l: "la_listen L = Inr lsn" using assms by (auto simp: launches_def)
  let ?n = "n\<lparr>n_ln := Some lsn, n_started := w_now W\<rparr>"
  obtain d1 where b: "disc_Browse (la_D L) d0 = (d1, Inr ())"
    using assms by (metis launches_def prod.collapse)
  obtain a where a: "announcement_of ?n = Inr a" by (cases lsn) (simp add: announcement_of_def Port_def)
  obtain d2 where c: "disc_Announce (la_D L) a d1 = (d2, Inr ())"
    using assms by (metis launches_def prod.collapse)
  let ?n' = "fold goRun (map TLoop [''acceptLoop'', ''browseLoop'', ''dialLoop'', ''retentionLoop'', ''outboxLoop''])
    (logf W ''listening on %s, announcing as %q (%s)'' [AStr (fst lsn), AStr (i_Name (n_id n)), AStr (take 8 (n_myFP n))]
      (?n\<lparr>n_announcing := True\<rparr>))"
  have "Start W (la_D L) (la_listen L) d0 n = ((d2, ?n'), Inr ())"
    unfolding Start_def l Let_def using b a c by (simp del: fold_simps)
  then show thesis by (rule that) (simp_all del: fold_simps list.map)
qed

lemma startNode_launches:
  assumes "launches L"
  obtains a' n where "startNode L st ide a = (a', Inr ())" "a_n a' = Some n" "n_store n = st" "n_id n = ide"
    "n_myFP n = Fingerprint (w_env (la_W L)) (Public (i_Key ide))" "a_openErr a' = a_openErr a" "a_cfg a' = a_cfg a"
proof -
  let ?nc = "ac_Tune (a_cfg a) \<lparr>ListenAddr = ac_ListenAddr (a_cfg a), PingEvery = 0, DeadAfter = 0, RetryBase = 0,
    RetryMax = 0, DialTick = 0\<rparr>"
  obtain d n where s: "Start (la_W L) (la_D L) (la_listen L) (la_d0 L) (New (w_env (la_W L)) ?nc st ide) = ((d, n), Inr ())"
    "n_store n = n_store (New (w_env (la_W L)) ?nc st ide)" "n_id n = n_id (New (w_env (la_W L)) ?nc st ide)"
    "n_myFP n = n_myFP (New (w_env (la_W L)) ?nc st ide)" "n_announcing n" "n_ln n \<noteq> None"
    by (rule Start_launches [OF assms])
  show thesis
    by (rule that [of "a\<lparr>a_St := Some st, a_n := Some n, a_disc := d\<rparr>" n]) 
      (simp_all add: startNode_def s(1) s(2-4) Let_def, simp_all add: New_def)
qed

lemma Close_node: "a_n a = Some n \<Longrightarrow> Close a = Some \<lparr>dk_db = db (n_store n), dk_files = filesDir (n_store n)\<rparr>"
  by (simp add: Close_def St_def Stop_def)

section \<open>Identities on disk\<close>

abbreviation no_passphrase :: "db \<Rightarrow> bool" where
  "no_passphrase d \<equiv> meta_kdf d \<noteq> Some ''argon2id''"

text \<open>A database in its first run.\<close>

definition first_run :: "'d app \<Rightarrow> store \<Rightarrow> bool" where
  "first_run a st \<longleftrightarrow> a_n a = None \<and> a_St a = Some st \<and> meta_identity (db st) = None \<and> no_passphrase (db st) \<and> idKey st = None"

lemma adopt_launches:
  assumes "launches L" "first_run a st"
  obtains a' n where "adopt L ide a = (a', Inr ())" "a_n a' = Some n" "n_id n = ide"
    "n_myFP n = Fingerprint (w_env (la_W L)) (Public (i_Key ide))"
    "n_store n = st\<lparr>encKey := Some (DeriveKeyFromIdentity (w_env (la_W L)) (Private (i_Key ide))),
       db := (db st)\<lparr>meta_identity := Some (idRecord_Marshal \<lparr>id_Name = i_Name ide, id_Priv = Private (i_Key ide), id_Pub = Public (i_Key ide)\<rparr>)\<rparr>\<rparr>"
proof -
  let ?E = "w_env (la_W L)" and ?k = "DeriveKeyFromIdentity (w_env (la_W L)) (Private (i_Key ide))"
  let ?s = "st\<lparr>encKey := Some ?k,
       db := (db st)\<lparr>meta_identity := Some (idRecord_Marshal \<lparr>id_Name = i_Name ide, id_Priv = Private (i_Key ide), id_Pub = Public (i_Key ide)\<rparr>)\<rparr>\<rparr>"
  have "SaveIdentity ?E (w_nonce (la_W L)) (SetKey ?k st) ide = (?s, Inr ())"
    using assms(2) by (simp add: SaveIdentity_def SetKey_def first_run_def encryptWith_def dbUpdate_def wrap_err_def)
  moreover obtain a' n where "startNode L ?s ide (a\<lparr>a_St := Some ?s\<rparr>) = (a', Inr ())" "a_n a' = Some n" "n_store n = ?s" "n_id n = ide"
    "n_myFP n = Fingerprint ?E (Public (i_Key ide))" "a_openErr a' = a_openErr (a\<lparr>a_St := Some ?s\<rparr>)"
    "a_cfg a' = a_cfg (a\<lparr>a_St := Some ?s\<rparr>)"
    by (rule startNode_launches [OF assms(1)])
  ultimately show thesis using assms(2) by (intro that [of a' n]) (simp_all add: adopt_def first_run_def)
qed

text \<open>Opening an unprotected data directory that holds an identity.\<close>

lemma Open_app_plain:
  assumes "launches L" "no_passphrase (dk_db dk)" "stored_identity (dk_db dk) = Some rec" "\<not> IsEncrypted (id_Priv rec)"
  obtains a n where "Open_app L (Inr ()) False cfg dk = Inr a" "a_n a = Some n"
    "n_id n = \<lparr>i_Name = id_Name rec, i_Key = \<lparr>Private = id_Priv rec, Public = id_Pub rec\<rparr>\<rparr>"
    "n_myFP n = Fingerprint (w_env (la_W L)) (id_Pub rec)"
    "n_store n = \<lparr>db = dk_db dk, encKey = Some (DeriveKeyFromIdentity (w_env (la_W L)) (id_Priv rec)), idKey = None, filesDir = dk_files dk\<rparr>"
proof -
  let ?E = "w_env (la_W L)" and ?st = "openStore (dk_db dk) (dk_files dk) None None"
  let ?ide = "\<lparr>i_Name = id_Name rec, i_Key = \<lparr>Private = id_Priv rec, Public = id_Pub rec\<rparr>\<rparr>"
  let ?a = "\<lparr>a_cfg = cfg, a_St = None, a_openErr = None, a_n = None, a_disc = la_d0 L\<rparr>"
  let ?st1 = "SetKey (DeriveKeyFromIdentity ?E (id_Priv rec)) ?st"
  have o: "OpenWithPassphrase ?E (dk_db dk) (dk_files dk) (ac_Passphrase cfg) = Inr ?st"
    using assms(2) by (simp add: OpenWithPassphrase_def Let_def)
  have l: "LoadIdentity ?E ?st = Inr (Some ?ide)"
    using assms(3,4) by (simp add: LoadIdentity_stored openStore_def decrypt_def wrap_err_def)
  obtain a n where s: "startNode L ?st1 ?ide ?a = (a, Inr ())" "a_n a = Some n" "n_store n = ?st1" "n_id n = ?ide"
    "n_myFP n = Fingerprint ?E (Public (i_Key ?ide))" "a_openErr a = a_openErr ?a" "a_cfg a = a_cfg ?a"
    by (rule startNode_launches [OF assms(1)])
  have "encKey ?st = None" by (simp add: openStore_def)
  then have "Open_app L (Inr ()) False cfg dk = Inr a"
    unfolding Open_app_def Let_def by (simp add: o l s(1))
  then show thesis by (rule that [OF _ s(2)]) (simp_all add: s SetKey_def openStore_def)
qed

lemma Generate_Inr:
  "ValidateName name0 = Inr name \<Longrightarrow> Generate E (Some priv) name0 =
     Inr \<lparr>i_Name = name, i_Key = \<lparr>Private = priv, Public = x25519_public E priv\<rparr>\<rparr>"
  by (simp add: Generate_def GenerateKeypair_def)

section \<open>Passphrase protection\<close>

lemma strings_Contains_append: "strings_Contains (u @ sub @ v) sub"
proof (induction u)
  case Nil
  then show ?case by (simp add: strings_Contains_def strings_Index.simps [of "sub @ v"])
next
  case (Cons c u)
  then show ?case by (auto simp: strings_Contains_def strings_Index.simps [of "c # _"])
qed

lemma ToLower_id: "is_ascii s \<Longrightarrow> (\<And>c. c \<in> set s \<Longrightarrow> ascii_lower (of_char c) = of_char c) \<Longrightarrow> ToLower E s = s"
  by (simp add: ToLower_def list_all_iff map_idI)

lemma DeriveKeyFromPassphraseSalt_length: "kdf_ok E \<Longrightarrow> length (DeriveKeyFromPassphraseSalt E p salt) = 32"
  by (simp add: DeriveKeyFromPassphraseSalt_def kdf_ok_def keyLen_def)

text \<open>A data directory whose identity \<open>rec\<close> is sealed as \<open>c\<close> under the passphrase.\<close>

definition protected_by :: "env \<Rightarrow> string \<Rightarrow> bytes \<Rightarrow> idRecord \<Rightarrow> disk \<Rightarrow> bytes \<Rightarrow> bool" where
  "protected_by E pass salt rec dk c \<longleftrightarrow> meta_kdf (dk_db dk) = Some ''argon2id'' \<and> meta_kdSalt (dk_db dk) = Some salt
     \<and> stored_identity (dk_db dk) = Some (rec\<lparr>id_Priv := c\<rparr>) \<and> IsEncrypted c
     \<and> Decrypt E (DeriveKeyFromPassphraseSalt E pass salt) c = Inr (id_Priv rec)"

lemma EnablePassphrase_protects:
  assumes "aead_ok E" "kdf_ok E" "nonce_ok r" "a_n a = Some n" "stored_identity (db (n_store n)) = Some rec"
    and "\<not> IsEncrypted (id_Priv rec)" "id_Priv rec \<noteq> []" "no_passphrase (db (n_store n))" "12 \<le> RuneCountInString pass"
  obtains a' dk c where "EnablePassphrase_app E (Some salt) r pass a = (a', Inr ())" "Close a' = Some dk"
    "protected_by E pass salt rec dk c" "Encrypt E r (DeriveKeyFromPassphraseSalt E pass salt) (id_Priv rec) = Inr c"
proof -
  let ?s = "n_store n" and ?k = "DeriveKeyFromPassphraseSalt E pass salt"
  obtain c where c: "Encrypt E r ?k (id_Priv rec) = Inr c" "IsEncrypted c" "Decrypt E ?k c = Inr (id_Priv rec)"
    using box.sealed_opens [OF assms(1) DeriveKeyFromPassphraseSalt_length [OF assms(2)] assms(3)] by metis
  let ?d = "(db ?s)\<lparr>meta_kdf := Some ''argon2id'', meta_kdSalt := Some salt, meta_identity := Some (idRecord_Marshal (rec\<lparr>id_Priv := c\<rparr>))\<rparr>"
  obtain row where row: "meta_identity (db ?s) = Some row" "idRecord_Unmarshal row = Inr rec" "clean_text (id_Name rec) = id_Name rec"
    by (rule stored_identity_row [OF assms(5)])
  have load: "LoadIdentity E ?s = Inr (Some \<lparr>i_Name = id_Name rec, i_Key = \<lparr>Private = id_Priv rec, Public = id_Pub rec\<rparr>\<rparr>)"
    using assms(6) by (simp add: LoadIdentity_stored [OF assms(5)] decrypt_def wrap_err_def)
  have "\<exists>s'. EnablePassphrase E (Some salt) r ?s pass = (s', Inr ()) \<and> db s' = ?d"
    using row assms(7,8,9) c(1) load unfolding EnablePassphrase_def
    by (simp add: PassphraseSet_def wrap_err_def DeriveKeyFromPassphrase_def Let_def dbUpdate_def encryptWith_def)
  then obtain s' where s': "EnablePassphrase E (Some salt) r ?s pass = (s', Inr ())" "db s' = ?d" by blast
  have e: "EnablePassphrase_app E (Some salt) r pass a = (a\<lparr>a_n := Some (n\<lparr>n_store := s'\<rparr>)\<rparr>, Inr ())"
    using assms(4) s'(1) by (simp add: EnablePassphrase_app_def)
  show thesis
    by (rule that [OF e Close_node [of _ "n\<lparr>n_store := s'\<rparr>"]]) (use s'(2) c row(3) in \<open>simp_all add: protected_by_def stored_identity_Marshal\<close>)
qed

lemma OpenWithPassphrase_protected:
  assumes "protected_by E pass salt rec dk c"
  shows "OpenWithPassphrase E (dk_db dk) fs [] = Inl ErrPassphraseRequired"
    and "pass \<noteq> [] \<Longrightarrow> \<exists>st. OpenWithPassphrase E (dk_db dk) fs pass = Inr st \<and> db st = dk_db dk
       \<and> encKey st = Some (DeriveKeyFromIdentity E (id_Priv rec)) \<and> idKey st = Some (DeriveKeyFromPassphraseSalt E pass salt)"
    and "w \<noteq> [] \<Longrightarrow> isl (Decrypt E (DeriveKeyFromPassphraseSalt E w salt) c) \<Longrightarrow>
       OpenWithPassphrase E (dk_db dk) fs w = Inl (Err ''store: wrong database passphrase'')"
proof -
  note p = assms [unfolded protected_by_def]
  show "OpenWithPassphrase E (dk_db dk) fs [] = Inl ErrPassphraseRequired"
    using p by (simp add: OpenWithPassphrase_def Let_def)
  show "\<exists>st. OpenWithPassphrase E (dk_db dk) fs pass = Inr st \<and> db st = dk_db dk
       \<and> encKey st = Some (DeriveKeyFromIdentity E (id_Priv rec)) \<and> idKey st = Some (DeriveKeyFromPassphraseSalt E pass salt)"
    if "pass \<noteq> []"
    using p that by (simp add: OpenWithPassphrase_def Let_def LoadIdentity_stored openStore_def decrypt_def wrap_err_def)
  show "OpenWithPassphrase E (dk_db dk) fs w = Inl (Err ''store: wrong database passphrase'')"
    if w: "w \<noteq> []" "isl (Decrypt E (DeriveKeyFromPassphraseSalt E w salt) c)"
  proof -
    obtain e where e: "Decrypt E (DeriveKeyFromPassphraseSalt E w salt) c = Inl e" using w(2) by (auto simp: isl_def)
    obtain nn ct where c: "length nn = nonceLen" "16 \<le> length ct" "c = magic @ [char_of version] @ nn @ ct"
      using p Decrypt_eq_Inr [of E _ c] by (auto simp: IsEncrypted_def magic_def)
    have "Decrypt E [] c = Inl (ErrWrap ''crypto: aead'' ErrKeyLength)"
      using c by (simp add: Decrypt_def nth_append version_def chacha20poly1305_New_def require_def wrap_err_def Let_def)
    moreover have "strings_Contains (ToLower E ''store: decrypt identity key: crypto: aead: chacha20poly1305: bad key length'') ''decrypt''"
      using strings_Contains_append [of "''store: ''" "''decrypt''" "'' identity key: crypto: aead: chacha20poly1305: bad key length''"]
      by (subst ToLower_id) (auto simp: ascii_lower_def)
    ultimately show ?thesis using p w(1) e
      by (simp add: OpenWithPassphrase_def Let_def LoadIdentity_stored openStore_def decrypt_def wrap_err_def)
  qed
qed

lemma Open_app_unlocked:
  assumes "launches L" "protected_by (w_env (la_W L)) pass salt rec dk c" "pass \<noteq> []"
    and "isl (Decrypt (w_env (la_W L)) (DeriveKeyFromIdentity (w_env (la_W L)) (id_Priv rec)) c)"
  shows "\<exists>b n'. Open_app L (Inr ()) False (cfg\<lparr>ac_Passphrase := pass\<rparr>) dk = Inr b \<and> a_n b = Some n'
    \<and> n_id n' = \<lparr>i_Name = id_Name rec, i_Key = \<lparr>Private = id_Priv rec, Public = id_Pub rec\<rparr>\<rparr>
    \<and> encKey (n_store n') = Some (DeriveKeyFromIdentity (w_env (la_W L)) (id_Priv rec))"
proof -
  let ?E = "w_env (la_W L)" and ?a = "\<lparr>a_cfg = cfg\<lparr>ac_Passphrase := pass\<rparr>, a_St = None, a_openErr = None, a_n = None, a_disc = la_d0 L\<rparr>"
  let ?ide = "\<lparr>i_Name = id_Name rec, i_Key = \<lparr>Private = id_Priv rec, Public = id_Pub rec\<rparr>\<rparr>"
  note p = assms(2) [unfolded protected_by_def]
  obtain st where st: "OpenWithPassphrase ?E (dk_db dk) (dk_files dk) pass = Inr st" "db st = dk_db dk"
    "encKey st = Some (DeriveKeyFromIdentity ?E (id_Priv rec))" "idKey st = Some (DeriveKeyFromPassphraseSalt ?E pass salt)"
    using OpenWithPassphrase_protected(2) [OF assms(2,3)] by blast
  have "\<exists>x. LoadIdentity ?E st = Inr (Some x) \<and> x = ?ide"
    using p st assms(4) by (auto simp: LoadIdentity_stored decrypt_def wrap_err_def isl_def)
  then have l: "LoadIdentity ?E st = Inr (Some ?ide)" by simp
  obtain b n' where s: "startNode L st ?ide ?a = (b, Inr ())" "a_n b = Some n'" "n_store n' = st" "n_id n' = ?ide"
    "n_myFP n' = Fingerprint ?E (Public (i_Key ?ide))" "a_openErr b = a_openErr ?a" "a_cfg b = a_cfg ?a"
    by (rule startNode_launches [OF assms(1)])
  have "Open_app L (Inr ()) False (cfg\<lparr>ac_Passphrase := pass\<rparr>) dk = Inr b"
    using st(3) by (simp add: Open_app_def Let_def st(1) l s(1))
  then show ?thesis using s st(3) by auto
qed

section \<open>Backups\<close>

definition plain_of :: "ident \<Rightarrow> backupPlain" where
  "plain_of ide = \<lparr>bp_Name = i_Name ide, bp_Priv = Private (i_Key ide), bp_Pub = Public (i_Key ide)\<rparr>"

definition file_of :: "bytes \<Rightarrow> bytes \<Rightarrow> bytes \<Rightarrow> backupFile" where
  "file_of salt nonce data = \<lparr>bf_V = backupVersion, bf_KDF = ''scrypt'', bf_N = scryptN, bf_R = scryptR, bf_P = scryptP,
     bf_Salt = salt, bf_Non = nonce, bf_Data = data\<rparr>"

text \<open>An identity as \<open>Generate\<close> makes it: an accepted name and a 32-byte pair of keys.\<close>

definition ident_ok :: "env \<Rightarrow> ident \<Rightarrow> bool" where
  "ident_ok E ide \<longleftrightarrow> ValidateName (i_Name ide) = Inr (i_Name ide) \<and> length (Private (i_Key ide)) = 32
     \<and> length (Public (i_Key ide)) = 32 \<and> Public (i_Key ide) = x25519_public E (Private (i_Key ide))"

lemma scryptN_accepted: "\<not> (scryptN < 2 ^ 14 \<or> scryptN > 2 ^ 20 \<or> scryptN AND (scryptN - 1) \<noteq> 0)"
proof -
  have "scryptN = 2 ^ 15" "scryptN - 1 = mask 15" by (simp_all add: scryptN_def mask_eq_exp_minus_1)
  moreover have "(2 :: int) ^ 15 AND mask 15 = 0" by (simp flip: take_bit_eq_mask)
  ultimately show ?thesis by simp
qed

lemma ImportBackup_ExportBackup:
  assumes "aead_ok E" "kdf_ok E" "ValidString (i_Name ide)" "ident_ok E ide" "length salt = 16" "length nonce = 12"
    and "ExportBackup E (Some salt) (Some nonce) ide pass = Inr data"
  shows "ImportBackup E data pass = Inr ide"
proof -
  let ?key = "scrypt_32 E pass salt scryptN scryptR scryptP"
  let ?ad = "ad_Marshal backupVersion ''scrypt'' scryptN scryptR scryptP salt"
  let ?plain = "Marshal (plain_json (plain_of ide))"
  let ?c = "aead_Seal E ?key nonce ?plain ?ad"
  have k: "length ?key = 32" using assms(2) by (simp add: scrypt_32_def kdf_ok_def)
  have op: "aead_Open E ?key nonce ?c ?ad = Some ?plain" by (rule aead_okD(1) [OF assms(1) k assms(6)])
  have "data = MarshalIndent (file_json (file_of salt nonce ?c))"
    using assms(7) by (simp add: ExportBackup_def Let_def plain_of_def file_of_def split: if_splits)
  then have f: "unmarshal_struct file_fields backupFile0 data = Inr (file_of salt nonce ?c)"
    by (simp add: file_roundtrip file_of_def backupVersion_def scryptN_def scryptR_def scryptP_def ValidString_ascii)
  have p: "unmarshal_struct plain_fields backupPlain0 ?plain = Inr (plain_of ide)"
    by (rule plain_roundtrip) (simp add: plain_of_def assms(3))
  have kp: "i_Key ide = \<lparr>Private = Private (i_Key ide), Public = x25519_public E (Private (i_Key ide))\<rparr>"
    using assms(4) by (cases "i_Key ide") (simp add: ident_ok_def)
  have len: "length (x25519_public E (Private (i_Key ide))) = 32" using assms(4) by (metis ident_ok_def)
  show ?thesis unfolding ImportBackup_def f sum.case
    using op p scryptN_accepted assms(4-6) len kp
    by (simp add: file_of_def scryptP_def Let_def plain_of_def ident_ok_def GenerateKeypair_def)
qed

section \<open>Properties\<close>

text \<open>
  C18. First run and restart: setting up creates an identity with the accepted name and the new key
  pair and starts a node with it; after closing, opening the same directory starts a node with
  the same keys and fingerprint, the same database, the same key for the data, and the same name.
  The name must be valid UTF-8 for that: \<open>ValidateName\<close> does not ask for it, and the JSON of the
  identity record turns every other byte into U+FFFD.
\<close>

theorem setup_survives_restart:
  assumes "launches L" "launches L'" "w_env (la_W L') = w_env (la_W L)" "first_run a st"
    and "ValidateName name0 = Inr name" "\<not> IsEncrypted priv"
  shows "\<exists>a' n dk a'' n''. Setup L (Some priv) name0 a = (a', Inr ()) \<and> a_n a' = Some n
    \<and> n_id n = \<lparr>i_Name = name, i_Key = \<lparr>Private = priv, Public = x25519_public (w_env (la_W L)) priv\<rparr>\<rparr>
    \<and> Close a' = Some dk \<and> Open_app L' (Inr ()) False cfg dk = Inr a'' \<and> a_n a'' = Some n''
    \<and> n_id n'' = (n_id n)\<lparr>i_Name := clean_text name\<rparr> \<and> (ValidString name \<longrightarrow> n_id n'' = n_id n)
    \<and> n_myFP n'' = n_myFP n \<and> db (n_store n'') = db (n_store n) \<and> encKey (n_store n'') = encKey (n_store n)"
proof -
  let ?E = "w_env (la_W L)"
  let ?ide = "\<lparr>i_Name = name, i_Key = \<lparr>Private = priv, Public = x25519_public ?E priv\<rparr>\<rparr>"
  let ?rec = "\<lparr>id_Name = clean_text name, id_Priv = priv, id_Pub = x25519_public ?E priv\<rparr>"
  obtain a' n where s: "adopt L ?ide a = (a', Inr ())" "a_n a' = Some n" "n_id n = ?ide" "n_myFP n = Fingerprint ?E (Public (i_Key ?ide))"
    "n_store n = st\<lparr>encKey := Some (DeriveKeyFromIdentity ?E (Private (i_Key ?ide))),
       db := (db st)\<lparr>meta_identity := Some (idRecord_Marshal \<lparr>id_Name = i_Name ?ide, id_Priv = Private (i_Key ?ide), id_Pub = Public (i_Key ?ide)\<rparr>)\<rparr>\<rparr>"
    by (rule adopt_launches [OF assms(1,4)])
  have su: "Setup L (Some priv) name0 a = (a', Inr ())"
    using assms(4) s(1) by (simp add: Setup_def first_run_def Generate_Inr [OF assms(5)])
  let ?dk = "\<lparr>dk_db = db (n_store n), dk_files = filesDir (n_store n)\<rparr>"
  have dk: "no_passphrase (dk_db ?dk)" "stored_identity (dk_db ?dk) = Some ?rec" "\<not> IsEncrypted (id_Priv ?rec)"
    using assms(4,6) s(5) by (simp_all add: first_run_def stored_identity_Marshal)
  obtain a'' n'' where o: "Open_app L' (Inr ()) False cfg ?dk = Inr a''" "a_n a'' = Some n''"
    "n_id n'' = \<lparr>i_Name = id_Name ?rec, i_Key = \<lparr>Private = id_Priv ?rec, Public = id_Pub ?rec\<rparr>\<rparr>"
    "n_myFP n'' = Fingerprint (w_env (la_W L')) (id_Pub ?rec)"
    "n_store n'' = \<lparr>db = dk_db ?dk, encKey = Some (DeriveKeyFromIdentity (w_env (la_W L')) (id_Priv ?rec)), idKey = None,
       filesDir = dk_files ?dk\<rparr>"
    by (rule Open_app_plain [OF assms(2) dk])
  show ?thesis
    by (intro exI conjI, rule su, rule s(2), rule s(3), rule Close_node [OF s(2)], rule o(1), rule o(2))
      (simp_all add: s(3-5) o(3-5) assms(3))
qed

text \<open>
  C36. Setup writes the private key to the database as it is, in base64 in the row's JSON text.
  Whoever reads the file has the identity and, since the key of the data is derived from it alone, everything else; only a passphrase
  changes that.
\<close>

theorem private_key_in_clear:
  assumes "launches L" "first_run a st" "ValidateName name0 = Inr name"
  shows "\<exists>a' n dk rec. Setup L (Some priv) name0 a = (a', Inr ()) \<and> a_n a' = Some n \<and> Close a' = Some dk
    \<and> stored_identity (dk_db dk) = Some rec \<and> id_Priv rec = priv
    \<and> (\<exists>u w. meta_identity (dk_db dk) = Some (u @ base64_EncodeToString priv @ w))
    \<and> encKey (n_store n) = Some (DeriveKeyFromIdentity (w_env (la_W L)) (id_Priv rec))"
proof -
  let ?E = "w_env (la_W L)"
  let ?ide = "\<lparr>i_Name = name, i_Key = \<lparr>Private = priv, Public = x25519_public ?E priv\<rparr>\<rparr>"
  obtain a' n where s: "adopt L ?ide a = (a', Inr ())" "a_n a' = Some n" "n_id n = ?ide" "n_myFP n = Fingerprint ?E (Public (i_Key ?ide))"
    "n_store n = st\<lparr>encKey := Some (DeriveKeyFromIdentity ?E (Private (i_Key ?ide))),
       db := (db st)\<lparr>meta_identity := Some (idRecord_Marshal \<lparr>id_Name = i_Name ?ide, id_Priv = Private (i_Key ?ide), id_Pub = Public (i_Key ?ide)\<rparr>)\<rparr>\<rparr>"
    by (rule adopt_launches [OF assms(1,2)])
  have "Setup L (Some priv) name0 a = (a', Inr ())"
    using assms(2) s(1) by (simp add: Setup_def first_run_def Generate_Inr [OF assms(3)])
  then show ?thesis
    using Close_node [OF s(2)] s(2,5) idRecord_text [of "\<lparr>id_Name = name, id_Priv = priv, id_Pub = x25519_public ?E priv\<rparr>"]
    by (auto simp: stored_identity_Marshal)
qed

definition sample_launch :: "(hub \<times> nat \<times> nat list) launch" where
  "sample_launch = \<lparr>la_W = sample_world, la_D = hub_discovery [], la_d0 = (NewHub, 0, []), la_listen = Inr (''0.0.0.0:4000'', 4000)\<rparr>"

definition sample_cfg :: app_cfg where
  "sample_cfg = \<lparr>ac_ListenAddr = [], ac_Passphrase = [], ac_Tune = (\<lambda>c. c)\<rparr>"

definition sample_app :: "(hub \<times> nat \<times> nat list) app" where
  "sample_app = \<lparr>a_cfg = sample_cfg, a_St = Some (openStore empty_db Map.empty None None), a_openErr = None, a_n = None,
     a_disc = (NewHub, 0, [])\<rparr>"

lemma sample_launches: "launches sample_launch"
  by (simp add: launches_def sample_launch_def hub_discovery_def split: prod.split)

lemma sample_first_run: "first_run sample_app (openStore empty_db Map.empty None None)"
  by (simp add: first_run_def sample_app_def openStore_def empty_db_def)

lemma ValidateName_Ann: "ValidateName ''Ann'' = Inr ''Ann''"
  by (simp add: ValidateName_def TrimSpace_def IsSpace_def RuneCountInString_def MaxNameLen_def Let_def
      runes_ascii [of "''Ann''"])

definition sample_priv :: bytes where "sample_priv = replicate 32 CHR ''k''"

lemma sample_priv_plain: "\<not> IsEncrypted sample_priv"
  by (simp add: IsEncrypted_def sample_priv_def magic_def numeral_eq_Suc)

theorem setup_survives_restart_witness:
  "\<exists>a' dk a'' n''. Setup sample_launch (Some sample_priv) ''Ann'' sample_app = (a', Inr ()) \<and> Close a' = Some dk
     \<and> Open_app sample_launch (Inr ()) False sample_cfg dk = Inr a'' \<and> a_n a'' = Some n'' \<and> i_Name (n_id n'') = ''Ann''"
  using ValidString_ascii [of "''Ann''"] setup_survives_restart [OF sample_launches sample_launches refl sample_first_run ValidateName_Ann sample_priv_plain, of sample_cfg]
  by auto

theorem private_key_in_clear_witness:
  "\<exists>a' dk rec. Setup sample_launch (Some sample_priv) ''Ann'' sample_app = (a', Inr ()) \<and> Close a' = Some dk
     \<and> stored_identity (dk_db dk) = Some rec \<and> id_Priv rec = sample_priv"
  using private_key_in_clear [OF sample_launches sample_first_run ValidateName_Ann, of sample_priv] by auto

text \<open>
  C19. Passphrase protection: turning it on succeeds for a running app with a passphrase of twelve or
  more characters and seals the private key in the file. From then on the directory opens to a
  locked shell without the passphrase, to the same identity and data key with it, and a
  passphrase whose key does not open the seal is reported as wrong. The last hypothesis is the
  authenticity of the seal: the key of the data does not open it.
\<close>

theorem passphrase_protects:
  assumes "aead_ok (w_env (la_W L))" "kdf_ok (w_env (la_W L))" "nonce_ok r" "launches L" "a_n a = Some n"
    and "stored_identity (db (n_store n)) = Some rec" "\<not> IsEncrypted (id_Priv rec)" "id_Priv rec \<noteq> []"
    and "no_passphrase (db (n_store n))" "12 \<le> RuneCountInString pass"
    and "\<forall>c. Encrypt (w_env (la_W L)) r (DeriveKeyFromPassphraseSalt (w_env (la_W L)) pass salt) (id_Priv rec) = Inr c
      \<longrightarrow> isl (Decrypt (w_env (la_W L)) (DeriveKeyFromIdentity (w_env (la_W L)) (id_Priv rec)) c)"
  shows "\<exists>a' dk c. EnablePassphrase_app (w_env (la_W L)) (Some salt) r pass a = (a', Inr ()) \<and> Close a' = Some dk
    \<and> stored_identity (dk_db dk) = Some (rec\<lparr>id_Priv := c\<rparr>) \<and> c \<noteq> id_Priv rec
    \<and> (\<exists>b. Open_app L (Inr ()) False (cfg\<lparr>ac_Passphrase := []\<rparr>) dk = Inr b \<and> NeedsPassphrase b \<and> a_n b = None)
    \<and> (\<exists>b n'. Open_app L (Inr ()) False (cfg\<lparr>ac_Passphrase := pass\<rparr>) dk = Inr b \<and> a_n b = Some n'
        \<and> n_id n' = \<lparr>i_Name = id_Name rec, i_Key = \<lparr>Private = id_Priv rec, Public = id_Pub rec\<rparr>\<rparr>
        \<and> encKey (n_store n') = Some (DeriveKeyFromIdentity (w_env (la_W L)) (id_Priv rec)))
    \<and> (\<forall>w. w \<noteq> [] \<longrightarrow> isl (Decrypt (w_env (la_W L)) (DeriveKeyFromPassphraseSalt (w_env (la_W L)) w salt) c)
        \<longrightarrow> Open_app L (Inr ()) False (cfg\<lparr>ac_Passphrase := w\<rparr>) dk = Inl (Err ''store: wrong database passphrase''))"
proof -
  let ?E = "w_env (la_W L)"
  obtain a' dk c where e: "EnablePassphrase_app ?E (Some salt) r pass a = (a', Inr ())" "Close a' = Some dk" "protected_by ?E pass salt rec dk c"
    "Encrypt ?E r (DeriveKeyFromPassphraseSalt ?E pass salt) (id_Priv rec) = Inr c"
    by (rule EnablePassphrase_protects [OF assms(1,2,3,5,6,7,8,9,10)])
  note op = OpenWithPassphrase_protected [OF e(3)]
  have pass: "pass \<noteq> []" using assms(10) by (auto simp: RuneCountInString_def)
  have "Open_app L (Inr ()) False (cfg\<lparr>ac_Passphrase := w\<rparr>) dk = Inl (Err ''store: wrong database passphrase'')"
    if "w \<noteq> []" "isl (Decrypt ?E (DeriveKeyFromPassphraseSalt ?E w salt) c)" for w
    using op(3) [OF that] by (simp add: Open_app_def Let_def)
  moreover have "\<exists>b. Open_app L (Inr ()) False (cfg\<lparr>ac_Passphrase := []\<rparr>) dk = Inr b \<and> NeedsPassphrase b \<and> a_n b = None"
    using op(1) by (simp add: Open_app_def Let_def NeedsPassphrase_def)
  moreover have "\<exists>b n'. Open_app L (Inr ()) False (cfg\<lparr>ac_Passphrase := pass\<rparr>) dk = Inr b \<and> a_n b = Some n'
        \<and> n_id n' = \<lparr>i_Name = id_Name rec, i_Key = \<lparr>Private = id_Priv rec, Public = id_Pub rec\<rparr>\<rparr>
        \<and> encKey (n_store n') = Some (DeriveKeyFromIdentity ?E (id_Priv rec))"
    by (rule Open_app_unlocked [OF assms(4) e(3) pass]) (use assms(11) e(4) in blast)
  moreover have "c \<noteq> id_Priv rec" "stored_identity (dk_db dk) = Some (rec\<lparr>id_Priv := c\<rparr>)"
    using e(3) assms(7) by (auto simp: protected_by_def)
  ultimately show ?thesis using e(1,2) by blast
qed

text \<open>A running app set up as above, and what protecting it with a passphrase gives.\<close>

lemma sample_running:
  obtains a n where "Setup sample_launch (Some sample_priv) ''Ann'' sample_app = (a, Inr ())" "a_n a = Some n"
    "n_id n = \<lparr>i_Name = ''Ann'', i_Key = \<lparr>Private = sample_priv, Public = x25519_public sample_env sample_priv\<rparr>\<rparr>"
    "stored_identity (db (n_store n)) = Some \<lparr>id_Name = ''Ann'', id_Priv = sample_priv, id_Pub = x25519_public sample_env sample_priv\<rparr>"
    "no_passphrase (db (n_store n))"
proof -
  let ?ide = "\<lparr>i_Name = ''Ann'', i_Key = \<lparr>Private = sample_priv, Public = x25519_public sample_env sample_priv\<rparr>\<rparr>"
  have E: "w_env (la_W sample_launch) = sample_env" by (simp add: sample_launch_def sample_world_def)
  obtain a n where s: "adopt sample_launch ?ide sample_app = (a, Inr ())" "a_n a = Some n" "n_id n = ?ide"
    "n_myFP n = Fingerprint (w_env (la_W sample_launch)) (Public (i_Key ?ide))"
    "n_store n = (openStore empty_db Map.empty None None)\<lparr>encKey := Some (DeriveKeyFromIdentity (w_env (la_W sample_launch)) (Private (i_Key ?ide))),
       db := (db (openStore empty_db Map.empty None None))\<lparr>meta_identity := Some (idRecord_Marshal \<lparr>id_Name = i_Name ?ide, id_Priv = Private (i_Key ?ide), id_Pub = Public (i_Key ?ide)\<rparr>)\<rparr>\<rparr>"
    by (rule adopt_launches [OF sample_launches sample_first_run])
  have "Setup sample_launch (Some sample_priv) ''Ann'' sample_app = (a, Inr ())"
    using s(1) by (simp add: Setup_def Generate_Inr [OF ValidateName_Ann] E) (simp add: sample_app_def)
  then show thesis by (rule that [OF _ s(2) s(3)]) (simp_all add: s(5) openStore_def empty_db_def stored_identity_Marshal ValidString_ascii)
qed

lemma sample_wrong_key:
  assumes "Encrypt sample_env (Some nonce) k p = Inr c" "length nonce = 12" "take 8 k \<noteq> take 8 k'"
  shows "isl (Decrypt sample_env k' c)"
proof -
  have c: "length k = 32" "c = magic @ [char_of version] @ nonce @ p @ take 8 k @ take 8 nonce"
    using assms(1) by (auto simp: Encrypt_eq_Inr sample_env_def)
  then have "aead_Open sample_env k' nonce (p @ take 8 k @ take 8 nonce) [] = None"
    using assms(2,3) by (simp add: sample_env_def)
  then show ?thesis using assms(2)
    by (simp add: c(2) Decrypt_def nth_append version_def nonceLen_def Let_def bindR_def split: sum.split)
qed

definition sample_pass :: string where "sample_pass = ''correct horse''"

theorem passphrase_protects_witness:
  "\<exists>(a :: (hub \<times> nat \<times> nat list) app) a' dk b n'. EnablePassphrase_app sample_env (Some (replicate 16 CHR ''s'')) sample_nonce sample_pass a = (a', Inr ())
     \<and> Close a' = Some dk \<and> Open_app sample_launch (Inr ()) False (sample_cfg\<lparr>ac_Passphrase := sample_pass\<rparr>) dk = Inr b
     \<and> a_n b = Some n' \<and> i_Name (n_id n') = ''Ann''"
proof -
  obtain a n where s: "Setup sample_launch (Some sample_priv) ''Ann'' sample_app = (a, Inr ())" "a_n a = Some n"
    "n_id n = \<lparr>i_Name = ''Ann'', i_Key = \<lparr>Private = sample_priv, Public = x25519_public sample_env sample_priv\<rparr>\<rparr>"
    "stored_identity (db (n_store n)) = Some \<lparr>id_Name = ''Ann'', id_Priv = sample_priv, id_Pub = x25519_public sample_env sample_priv\<rparr>"
    "no_passphrase (db (n_store n))" by (rule sample_running)
  let ?rec = "\<lparr>id_Name = ''Ann'', id_Priv = sample_priv, id_Pub = x25519_public sample_env sample_priv\<rparr>"
  have E: "w_env (la_W sample_launch) = sample_env" by (simp add: sample_launch_def sample_world_def)
  let ?kp = "DeriveKeyFromPassphraseSalt sample_env sample_pass (replicate 16 CHR ''s'')"
    and ?kd = "DeriveKeyFromIdentity sample_env sample_priv"
  have "take 8 ?kp = ''correct ''" "take 8 ?kd = replicate 8 CHR ''k''"
    by (simp_all add: DeriveKeyFromPassphraseSalt_def DeriveKeyFromIdentity_def sample_env_def sample_pass_def sample_priv_def
        keyLen_def pad_def)
  then have "take 8 ?kp \<noteq> take 8 ?kd" by (simp add: numeral_eq_Suc)
  then have "isl (Decrypt sample_env ?kd c)" if "Encrypt sample_env sample_nonce ?kp sample_priv = Inr c" for c
    using sample_wrong_key [OF that [unfolded sample_nonce_def]] by simp
  moreover have "12 \<le> RuneCountInString sample_pass" "id_Priv ?rec \<noteq> []"
    by (simp_all add: sample_pass_def sample_priv_def RuneCountInString_def)
  ultimately obtain a' dk b n' where
    "EnablePassphrase_app sample_env (Some (replicate 16 CHR ''s'')) sample_nonce sample_pass a = (a', Inr ())" "Close a' = Some dk"
    "Open_app sample_launch (Inr ()) False (sample_cfg\<lparr>ac_Passphrase := sample_pass\<rparr>) dk = Inr b" "a_n b = Some n'"
    "n_id n' = \<lparr>i_Name = id_Name ?rec, i_Key = \<lparr>Private = id_Priv ?rec, Public = id_Pub ?rec\<rparr>\<rparr>"
    using passphrase_protects [OF _ _ _ sample_launches s(2,4) _ _ s(5), of sample_nonce sample_pass "replicate 16 CHR ''s''" sample_cfg]
      sample_priv_plain unfolding E by auto
  then show ?thesis by fastforce
qed

text \<open>
  C20. A backup restores the identity: what a running app exports under a passphrase, a fresh app
  imports under the same passphrase as the same name and key pair, and its node starts with it.
\<close>

theorem backup_restores_identity:
  assumes "aead_ok (w_env (la_W L))" "kdf_ok (w_env (la_W L))" "launches L" "first_run b st" "a_n a = Some n"
    and "ident_ok (w_env (la_W L)) (n_id n)" "ValidString (i_Name (n_id n))" "length salt = 16" "length nonce = 12"
    and "12 \<le> RuneCountInString pass"
  shows "\<exists>data b' n'. Backup (w_env (la_W L)) (Some salt) (Some nonce) pass a = Inr data \<and> Restore L data pass b = (b', Inr ())
    \<and> a_n b' = Some n' \<and> n_id n' = n_id n \<and> n_myFP n' = Fingerprint (w_env (la_W L)) (Public (i_Key (n_id n)))"
proof -
  let ?E = "w_env (la_W L)"
  obtain data where d: "ExportBackup ?E (Some salt) (Some nonce) (n_id n) pass = Inr data"
    using assms(10) by (simp add: ExportBackup_def MinPassphraseLen_def Let_def)
  note i = ImportBackup_ExportBackup [OF assms(1,2,7,6,8,9) d]
  obtain b' n' where s: "adopt L (n_id n) b = (b', Inr ())" "a_n b' = Some n'" "n_id n' = n_id n"
    "n_myFP n' = Fingerprint ?E (Public (i_Key (n_id n)))"
    "n_store n' = st\<lparr>encKey := Some (DeriveKeyFromIdentity ?E (Private (i_Key (n_id n)))),
       db := (db st)\<lparr>meta_identity := Some (idRecord_Marshal \<lparr>id_Name = i_Name (n_id n), id_Priv = Private (i_Key (n_id n)), id_Pub = Public (i_Key (n_id n))\<rparr>)\<rparr>\<rparr>"
    by (rule adopt_launches [OF assms(3,4)])
  have "Restore L data pass b = (b', Inr ())" using assms(4) s(1) i by (simp add: Restore_def first_run_def)
  then show ?thesis using d assms(5) s by (auto simp: Backup_def)
qed

theorem backup_restores_identity_witness:
  "\<exists>(a :: (hub \<times> nat \<times> nat list) app) n data b' n'. a_n a = Some n \<and> Backup sample_env (Some (replicate 16 CHR ''s'')) (Some (replicate 12 CHR ''n'')) sample_pass a = Inr data
     \<and> Restore sample_launch data sample_pass sample_app = (b', Inr ()) \<and> a_n b' = Some n' \<and> n_id n' = n_id n"
proof -
  obtain a n where s: "Setup sample_launch (Some sample_priv) ''Ann'' sample_app = (a, Inr ())" "a_n a = Some n"
    "n_id n = \<lparr>i_Name = ''Ann'', i_Key = \<lparr>Private = sample_priv, Public = x25519_public sample_env sample_priv\<rparr>\<rparr>"
    "stored_identity (db (n_store n)) = Some \<lparr>id_Name = ''Ann'', id_Priv = sample_priv, id_Pub = x25519_public sample_env sample_priv\<rparr>"
    "no_passphrase (db (n_store n))" by (rule sample_running)
  have E: "w_env (la_W sample_launch) = sample_env" by (simp add: sample_launch_def sample_world_def)
  have "ident_ok sample_env (n_id n)"
    unfolding s(3) ident_ok_def using ValidateName_Ann by (simp add: sample_priv_def sample_env_def)
  moreover have "ValidString (i_Name (n_id n))" unfolding s(3) by (simp add: ValidString_ascii)
  moreover have "12 \<le> RuneCountInString sample_pass" by (simp add: sample_pass_def RuneCountInString_def)
  ultimately obtain data b' n' where
    "Backup sample_env (Some (replicate 16 CHR ''s'')) (Some (replicate 12 CHR ''n'')) sample_pass a = Inr data"
    "Restore sample_launch data sample_pass sample_app = (b', Inr ())" "a_n b' = Some n'" "n_id n' = n_id n"
    using backup_restores_identity [OF _ _ sample_launches sample_first_run s(2), of "replicate 16 CHR ''s''" "replicate 12 CHR ''n''" sample_pass]
    unfolding E by auto
  with s(2) show ?thesis by blast
qed

end
