(* ===== verification/Api_Requests.thy ===== *)
theory Api_Requests
  imports App
begin

text \<open>
  The JSON bodies of the HTTP interface: one decoder per anonymous struct of \<open>internal/api\<close>, all
  through \<open>readJSON\<close>'s decoder, which refuses unknown fields and looks no further than the first
  value. \<open>None\<close> is the reply \<open>invalid JSON body\<close>.
\<close>

section \<open>Decoders\<close>

definition read_body :: "'s fields \<Rightarrow> 's \<Rightarrow> bytes \<Rightarrow> 's option" where
  "read_body fs zero b = (case bindR (decoder_value b) (\<lambda>(v, _). decode_struct True fs v zero) of
     Inl _ \<Rightarrow> None | Inr s \<Rightarrow> Some s)"

text \<open>A struct of strings is a map from the names of its fields.\<close>

definition string_fields :: "string list \<Rightarrow> (string \<Rightarrow> string) fields" where
  "string_fields ks = map (\<lambda>k. (k, put_field dec_string (\<lambda>s. s k) (\<lambda>f s. s(k := f (s k))))) ks"

definition read_strings :: "string list \<Rightarrow> bytes \<Rightarrow> (string \<Rightarrow> string) option" where
  "read_strings ks = read_body (string_fields ks) (\<lambda>_. [])"

definition dec_Passphrase :: "bytes \<Rightarrow> string option" where
  "dec_Passphrase b = map_option (\<lambda>s. s ''passphrase'') (read_strings [''passphrase''] b)"

definition dec_Name :: "bytes \<Rightarrow> string option" where
  "dec_Name b = map_option (\<lambda>s. s ''name'') (read_strings [''name''] b)"

definition dec_Restore :: "bytes \<Rightarrow> (string \<times> string) option" where
  "dec_Restore b = map_option (\<lambda>s. (s ''backup'', s ''passphrase'')) (read_strings [''backup'', ''passphrase''] b)"

definition dec_Send :: "bytes \<Rightarrow> (string \<times> string) option" where
  "dec_Send b = map_option (\<lambda>s. (s ''body'', s ''replyTo'')) (read_strings [''body'', ''replyTo''] b)"

definition dec_Verified :: "bytes \<Rightarrow> bool option" where
  "dec_Verified = read_body [(''verified'', dec_bool)] False"

definition dec_Dial :: "bytes \<Rightarrow> (string \<times> string \<times> string) option" where
  "dec_Dial b = map_option (\<lambda>s. (s ''host'', s ''port'', s ''fingerprint'')) (read_strings [''host'', ''port'', ''fingerprint''] b)"

definition dec_URI :: "bytes \<Rightarrow> string option" where
  "dec_URI b = map_option (\<lambda>s. s ''uri'') (read_strings [''uri''] b)"

definition settings_fields :: "settings fields" where
  "settings_fields = [
     (''retentionDays'', put_field dec_int64 RetentionDays RetentionDays_update),
     (''notify'', put_field dec_bool Notify Notify_update),
     (''previews'', put_field dec_bool Previews Previews_update),
     (''typing'', put_field dec_bool Typing Typing_update),
     (''receipts'', put_field dec_bool Receipts Receipts_update)]"

definition dec_Settings :: "bytes \<Rightarrow> settings option" where
  "dec_Settings = read_body settings_fields
     \<lparr>RetentionDays = 0, Notify = False, Previews = False, Typing = False, Receipts = False\<rparr>"

definition room_fields :: "(string \<times> string list \<times> string list) fields" where
  "room_fields = [
     (''name'', put_field dec_string (\<lambda>(n, m). n) (\<lambda>f (n, m). (f n, m))),
     (''members'', put_field (dec_slice dec_string []) (\<lambda>(n, m). m) (\<lambda>f (n, m). (n, f m)))]"

definition dec_Room :: "bytes \<Rightarrow> (string \<times> string list) option" where
  "dec_Room b = map_option (\<lambda>(n, ms, _). (n, ms)) (read_body room_fields ([], [], []) b)"

definition dec_Body :: "bytes \<Rightarrow> string option" where
  "dec_Body b = map_option (\<lambda>s. s ''body'') (read_strings [''body''] b)"

definition dec_React :: "bytes \<Rightarrow> (string \<times> string) option" where
  "dec_React b = map_option (\<lambda>s. (s ''emoji'', s ''target'')) (read_strings [''emoji'', ''target''] b)"

definition dec_Target :: "bytes \<Rightarrow> string option" where
  "dec_Target b = map_option (\<lambda>s. s ''target'') (read_strings [''target''] b)"

definition dec_Emoji :: "bytes \<Rightarrow> string option" where
  "dec_Emoji b = map_option (\<lambda>s. s ''emoji'') (read_strings [''emoji''] b)"

section \<open>What the interface sends is understood\<close>

text \<open>The body with one string field, as the browser's \<open>JSON.stringify\<close> or any JSON printer writes it.\<close>

abbreviation one_field :: "string \<Rightarrow> string \<Rightarrow> bytes" where
  "one_field k s \<equiv> Marshal (JObj [(k, JStr s)])"

lemma read_one_field:
  assumes "ValidString k" "ValidString s"
  shows "read_strings [k] (one_field k s) = Some ((\<lambda>_. [])(k := s))"
proof -
  have "jok maxNestingDepth (JObj [(k, JStr s)])" using assms by (simp add: maxNestingDepth_def)
  then have "decoder_value (one_field k s) = Inr (JObj [(k, JStr s)], [])" by (rule decoder_value_Marshal)
  then show ?thesis
    by (simp add: read_strings_def read_body_def decode_struct_def string_fields_def find_field_def put_field_def)
qed

lemma dec_one_field:
  assumes "ValidString s"
  shows "dec_Passphrase (one_field ''passphrase'' s) = Some s" "dec_Name (one_field ''name'' s) = Some s"
  using assms by (simp_all add: dec_Passphrase_def dec_Name_def read_one_field ValidString_ascii)

lemma length_one_field: "length (one_field k s) \<le> 10 + 6 * length k + 6 * length s"
  using length_appendString [of k] length_Marshal_JStr [of s] by (simp add: length_Marshal_JObj)

end
