(* ===== verification/Api.thy ===== *)
theory Api
  imports Api_Requests
begin

text \<open>
  Package \<open>internal/api\<close>: the loopback HTTP interface - the hardening in front of the router, the
  routes, and every handler as a function from a request and the app to the app and a reply.

  A path is given as its decoded segments. The JSON and multipart decoders, content sniffing,
  URL parsing and Go's string quoting are parameters; a decoder sees the body up to the limit the
  hardening sets. A reply keeps the value handed to the JSON encoder. A handler that panics is
  dropped by the HTTP server (\<open>Aborted\<close>).
\<close>

section \<open>Requests and replies\<close>

record request =
  rq_Method :: string
  rq_Host :: string
  rq_Path :: "string list"
  rq_Header :: "string \<Rightarrow> string"    \<comment> \<open>\<open>Header.Get\<close>: empty when absent\<close>
  rq_Query :: "string \<Rightarrow> string"     \<comment> \<open>\<open>Query().Get\<close>\<close>
  rq_Body :: bytes

datatype jvalue =
    VErr string                       \<comment> \<open>\<open>{"error": msg}\<close>\<close>
  | VError err                        \<comment> \<open>\<open>{"error": err.Error()}\<close>\<close>
  | VPrefixed string err
  | VOk
  | VSetup bool                       \<comment> \<open>no identity yet; locked?\<close>
  | VState me_view
  | VMe me_view
  | VPeers "peerView list"
  | VMessages "message list"
  | VMessage message
  | VInvite invite
  | VParsed string string string
  | VDiag diag
  | VSettings settings
  | VRooms "roomView list"
  | VRoom room
  | VRoomView roomView
  | VRoomMessages "roomMessage list"
  | VRoomMessage roomMessage
  | VSearch "searchResult list"
  | VFiles "fileRec list"
  | VFile fileRec
  | VUpload string string

datatype content = Json jvalue | Raw bytes | Text string

type_synonym headers = "string \<Rightarrow> string option"

datatype reply =
    Reply nat headers content
  | Aborted          \<comment> \<open>the handler panicked\<close>
  | Static           \<comment> \<open>the embedded file server\<close>
  | Stream nat headers string nat   \<comment> \<open>an open event stream: what it has written and its subscription\<close>

text \<open>Everything a handler takes from outside.\<close>

record ('c, 'd) outside =
  o_W :: world
  o_L :: "'d launch"
  o_mkdir :: "unit result"
  o_busy :: bool
  o_disk :: disk
  o_upload :: "bytes \<Rightarrow> ((string \<times> bytes) result) result"   \<comment> \<open>\<open>ParseMultipartForm\<close>, then \<open>FormFile\<close>: name and content\<close>
  o_r1 :: rnd
  o_r2 :: rnd
  o_enc :: qr_encoder
  o_ifaces :: "iface list result"
  o_connect :: "string \<Rightarrow> unit result"
  o_hs :: "string \<Rightarrow> 'c conn result"
  o_fps :: "string list"
  o_ks :: "string list"
  o_flusher :: bool                         \<comment> \<open>the writer can flush\<close>
  o_sniff :: "bytes \<Rightarrow> string"                \<comment> \<open>\<open>http.DetectContentType\<close>\<close>
  o_quote :: "string \<Rightarrow> string"               \<comment> \<open>\<open>%q\<close>\<close>
  o_urlhost :: "string \<Rightarrow> string option"      \<comment> \<open>\<open>url.Parse\<close>, then \<open>Host\<close>\<close>

abbreviation o_E :: "('c, 'd) outside \<Rightarrow> env" where "o_E X \<equiv> w_env (o_W X)"

section \<open>Helpers\<close>

definition maxBody :: nat where "maxBody = 64 * 1024"
definition maxFileUpload :: nat where "maxFileUpload = nat MaxFileSize + 1024 * 1024"

definition writeJSON :: "nat \<Rightarrow> jvalue \<Rightarrow> reply" where
  "writeJSON code v = Reply code [''Content-Type'' \<mapsto> ''application/json''] (Json v)"

definition writeErr :: "nat \<Rightarrow> string \<Rightarrow> reply" where
  "writeErr code msg = writeJSON code (VErr msg)"

fun panics :: "err \<Rightarrow> bool" where
  "panics (Panic _) = True"
| "panics (ErrWrap _ e) = panics e"
| "panics _ = False"

text \<open>A reply that reports an error, unless the error is a panic on its way up.\<close>

definition unless_panic :: "err \<Rightarrow> reply \<Rightarrow> reply" where
  "unless_panic e r = (if panics e then Aborted else r)"

definition errReply :: "nat \<Rightarrow> err \<Rightarrow> reply" where
  "errReply code e = unless_panic e (writeJSON code (VError e))"

definition fail :: "err \<Rightarrow> reply" where
  "fail e = unless_panic e (
     if errors_Is e ErrUnknownPeer \<or> errors_Is e ErrNotFound then writeErr 404 ''not found''
     else if errors_Is e ErrKeyChanged then writeJSON 409 (VError e)
     else if errors_Is e ErrBadBody then writeJSON 400 (VError e)
     else if errors_Is e ErrBadPassphrase then writeJSON 401 (VError e)
     else writeJSON 500 (VError e))"

definition ok_reply :: reply where "ok_reply = writeJSON 200 VOk"

text \<open>\<open>readJSON\<close>: what does not decode is answered, what does is passed on.\<close>

definition readJSON :: "(bytes \<Rightarrow> 'a option) \<Rightarrow> request \<Rightarrow> 's \<Rightarrow> ('a \<Rightarrow> 's \<times> reply) \<Rightarrow> 's \<times> reply" where
  "readJSON dec rq s f = (case dec (rq_Body rq) of
     None \<Rightarrow> (s, writeErr 400 ''invalid JSON body'') | Some v \<Rightarrow> f v)"

text \<open>The three shapes most handlers have.\<close>

definition answer :: "'s \<times> 'a result \<Rightarrow> ('a \<Rightarrow> reply) \<Rightarrow> 's \<times> reply" where
  "answer r f = (case r of (s, Inl e) \<Rightarrow> (s, fail e) | (s, Inr v) \<Rightarrow> (s, f v))"

definition query :: "'s \<Rightarrow> 'a result \<Rightarrow> ('a \<Rightarrow> jvalue) \<Rightarrow> 's \<times> reply" where
  "query s r v = answer (s, r) (\<lambda>x. writeJSON 200 (v x))"

definition perform :: "'s \<times> unit result \<Rightarrow> 's \<times> reply" where
  "perform r = answer r (\<lambda>_. ok_reply)"

definition path_text :: "string list \<Rightarrow> string" where
  "path_text p = concat (map (\<lambda>s. ''/'' @ s) p)"

definition isFileUpload :: "request \<Rightarrow> bool" where
  "isFileUpload rq \<longleftrightarrow> strings_Contains (path_text (rq_Path rq)) ''/file'' \<and> rq_Method rq = ''POST''"

section \<open>The hardening\<close>

definition csp :: string where
  "csp = ''default-src 'none'; script-src 'self'; style-src 'self'; img-src 'self' data:; font-src 'self'; connect-src 'self'; base-uri 'none'; form-action 'none'; frame-ancestors 'none'' @ [CHR 0x27]"

definition security_headers :: headers where
  "security_headers = [''Content-Security-Policy'' \<mapsto> csp, ''X-Content-Type-Options'' \<mapsto> ''nosniff'',
     ''Referrer-Policy'' \<mapsto> ''no-referrer'', ''Cache-Control'' \<mapsto> ''no-store'']"

definition http_Error :: "string \<Rightarrow> nat \<Rightarrow> headers \<Rightarrow> reply" where
  "http_Error msg code h = Reply code (h(''Content-Type'' \<mapsto> ''text/plain; charset=utf-8'', ''X-Content-Type-Options'' \<mapsto> ''nosniff''))
     (Text (msg @ [CHR 0x0A]))"

fun with_headers :: "headers \<Rightarrow> reply \<Rightarrow> reply" where
  "with_headers h (Reply code g c) = Reply code (h ++ g) c"
| "with_headers h (Stream code g t i) = Stream code (h ++ g) t i"
| "with_headers h r = r"

definition host_of :: "request \<Rightarrow> string" where
  "host_of rq = (case SplitHostPort (rq_Host rq) of Inl _ \<Rightarrow> rq_Host rq | Inr (host, _) \<Rightarrow> host)"

definition allowed_host :: "string \<Rightarrow> bool" where
  "allowed_host h \<longleftrightarrow> h \<in> {''127.0.0.1'', ''localhost'', ''[::1]'', ''::1''}"

definition mutating :: "request \<Rightarrow> bool" where
  "mutating rq \<longleftrightarrow> rq_Method rq \<noteq> ''GET'' \<and> rq_Method rq \<noteq> ''HEAD''"

definition same_origin :: "(string \<Rightarrow> string option) \<Rightarrow> request \<Rightarrow> bool" where
  "same_origin urlhost rq \<longleftrightarrow> rq_Header rq ''Origin'' = [] \<or> urlhost (rq_Header rq ''Origin'') = Some (rq_Host rq)"

definition secure :: "(string \<Rightarrow> string option) \<Rightarrow> (request \<Rightarrow> 's \<Rightarrow> 's \<times> reply) \<Rightarrow> request \<Rightarrow> 's \<Rightarrow> 's \<times> reply" where
  "secure urlhost next rq s =
     (if \<not> allowed_host (host_of rq) then (s, http_Error ''forbidden host'' 403 Map.empty)
      else if \<not> mutating rq then apsnd (with_headers security_headers) (next rq s)
      else if rq_Header rq ''X-Chirp'' \<noteq> ''1'' then (s, http_Error ''missing X-Chirp header'' 403 security_headers)
      else if \<not> same_origin urlhost rq then (s, http_Error ''cross-origin request refused'' 403 security_headers)
      else let limit = (if isFileUpload rq then maxFileUpload else maxBody) in
        apsnd (with_headers security_headers) (next (rq\<lparr>rq_Body := take limit (rq_Body rq)\<rparr>) s))"

section \<open>Handlers before and around an identity\<close>

definition state :: "('c, 'd) outside \<Rightarrow> 'd app \<Rightarrow> 'd app \<times> reply" where
  "state X a = (case a_n a of
     None \<Rightarrow> (a, if (case a_openErr a of None \<Rightarrow> False | Some e \<Rightarrow> errors_Is e ErrPassphraseRequired)
                then writeJSON 200 (VSetup True) else writeJSON 200 (VSetup False))
   | Some n \<Rightarrow> (case Me (o_E X) n of Inl e \<Rightarrow> (a, errReply 500 e) | Inr m \<Rightarrow> (a, writeJSON 200 (VState m))))"

definition unlock :: "('c, 'd) outside \<Rightarrow> request \<Rightarrow> 'd app \<Rightarrow> 'd app \<times> reply" where
  "unlock X rq a = readJSON dec_Passphrase rq a (\<lambda>pass.
     case Unlock (o_L X) (o_mkdir X) (o_busy X) (a_cfg a) pass (o_disk X) of
       Inl e \<Rightarrow> (a, unless_panic e (
         if errors_Is e ErrPassphraseRequired \<or> strings_Contains (ToLower (o_E X) (err_text e)) ''passphrase''
         then writeErr 401 ''wrong passphrase'' else writeJSON 500 (VError e)))
     | Inr a1 \<Rightarrow> state X (Replace a a1))"

definition enablePassphrase :: "('c, 'd) outside \<Rightarrow> request \<Rightarrow> 'd app \<Rightarrow> 'd app \<times> reply" where
  "enablePassphrase X rq a = readJSON dec_Passphrase rq a (\<lambda>pass.
     case EnablePassphrase_app (o_E X) (o_r1 X) (o_r2 X) pass a of
       (a1, Inl e) \<Rightarrow> (a1, errReply 400 e) | (a1, Inr _) \<Rightarrow> (a1, ok_reply))"

definition setup_h :: "('c, 'd) outside \<Rightarrow> request \<Rightarrow> 'd app \<Rightarrow> 'd app \<times> reply" where
  "setup_h X rq a = readJSON dec_Name rq a (\<lambda>name.
     case Setup (o_L X) (o_r1 X) name a of
       (a1, Inl e) \<Rightarrow> (a1, errReply 400 e) | (a1, Inr _) \<Rightarrow> state X a1)"

definition restore :: "('c, 'd) outside \<Rightarrow> request \<Rightarrow> 'd app \<Rightarrow> 'd app \<times> reply" where
  "restore X rq a = readJSON dec_Restore rq a (\<lambda>(backup, pass).
     case Restore (o_L X) backup pass a of
       (a1, Inl e) \<Rightarrow> (a1, if errors_Is e ErrBadPassphrase then fail e else errReply 400 e)
     | (a1, Inr _) \<Rightarrow> state X a1)"

definition backup_headers :: headers where
  "backup_headers = [''Content-Type'' \<mapsto> ''application/json'',
     ''Content-Disposition'' \<mapsto> ''attachment; filename=\"chirp-key-backup.json\"'']"

definition backup_h :: "('c, 'd) outside \<Rightarrow> request \<Rightarrow> 'd app \<Rightarrow> 'd app \<times> reply" where
  "backup_h X rq a = readJSON dec_Passphrase rq a (\<lambda>pass.
     case Backup (o_E X) (o_r1 X) (o_r2 X) pass a of
       Inl e \<Rightarrow> (a, errReply 400 e) | Inr data \<Rightarrow> (a, Reply 200 backup_headers (Raw data)))"

definition me_h :: "('c, 'd) outside \<Rightarrow> node \<Rightarrow> node \<times> reply" where
  "me_h X n = (case Me (o_E X) n of Inl e \<Rightarrow> (n, errReply 500 e) | Inr m \<Rightarrow> (n, writeJSON 200 (VMe m)))"

definition rename_h :: "('c, 'd) outside \<Rightarrow> request \<Rightarrow> 'd \<times> node \<Rightarrow> ('d \<times> node) \<times> reply" where
  "rename_h X rq dn = readJSON dec_Name rq dn (\<lambda>name.
     case Rename (o_W X) (la_D (o_L X)) name (fst dn) (snd dn) of
       (dn1, Inl e) \<Rightarrow> (dn1, fail e)
     | ((d1, n1), Inr _) \<Rightarrow> apfst (Pair d1) (me_h X n1))"

section \<open>Contacts and messages\<close>

type_synonym path_values = "string \<Rightarrow> string"

definition peers_h :: "('c, 'd) outside \<Rightarrow> node \<Rightarrow> node \<times> reply" where
  "peers_h X n = query n (Peers (o_E X) (o_fps X) (o_ks X) n) VPeers"

definition messages_h :: "('c, 'd) outside \<Rightarrow> path_values \<Rightarrow> node \<Rightarrow> node \<times> reply" where
  "messages_h X pv n = query n (Messages_node (o_E X) n (pv ''name'') 300) VMessages"

definition send_h :: "('c, 'd) outside \<Rightarrow> request \<Rightarrow> path_values \<Rightarrow> node \<Rightarrow> node \<times> reply" where
  "send_h X rq pv n = readJSON dec_Send rq n (\<lambda>(body, replyTo).
     answer (SendReply (o_W X) (pv ''name'') body replyTo n) (\<lambda>m. writeJSON 201 (VMessage m)))"

definition verify_h :: "('c, 'd) outside \<Rightarrow> request \<Rightarrow> path_values \<Rightarrow> node \<Rightarrow> node \<times> reply" where
  "verify_h X rq pv n = readJSON dec_Verified rq n (\<lambda>v. perform (Verify (o_E X) (pv ''name'') v n))"

definition acceptKey_h :: "('c, 'd) outside \<Rightarrow> path_values \<Rightarrow> node \<Rightarrow> node \<times> reply" where
  "acceptKey_h X pv n = (case AcceptKey (o_E X) (pv ''name'') n of
     (n1, Inl e) \<Rightarrow> (n1, if errors_Is e ErrNotFound then fail e else errReply 409 e)
   | (n1, Inr _) \<Rightarrow> (n1, ok_reply))"

definition retry_h :: "path_values \<Rightarrow> node \<Rightarrow> node \<times> reply" where
  "retry_h pv n = (RetryNow (pv ''name'') n, writeJSON 202 VOk)"

definition forget_h :: "('c, 'd) outside \<Rightarrow> path_values \<Rightarrow> node \<Rightarrow> node \<times> reply" where
  "forget_h X pv n = perform (Forget (o_W X) (pv ''name'') n)"

definition dial_h :: "('c, 'd) outside \<Rightarrow> request \<Rightarrow> node \<Rightarrow> node \<times> reply" where
  "dial_h X rq n = readJSON dec_Dial rq n (\<lambda>(host, port, fp).
     case Dial (o_W X) (o_connect X) (o_hs X) host port fp n of
       (n1, Inl e) \<Rightarrow> (n1, unless_panic e (if errors_Is e ErrFPMismatch
          then writeErr 403 ''the key the remote presented does not match the fingerprint you gave; nothing was trusted''
          else writeJSON 502 (VError e)))
     | (n1, Inr _) \<Rightarrow> (n1, ok_reply))"

definition invite_h :: "('c, 'd) outside \<Rightarrow> node \<Rightarrow> node \<times> reply" where
  "invite_h X n = query n (Invite (o_enc X) (o_ifaces X) n) VInvite"

definition parseInvite_h :: "('c, 'd) outside \<Rightarrow> request \<Rightarrow> node \<Rightarrow> node \<times> reply" where
  "parseInvite_h X rq n = readJSON dec_URI rq n (\<lambda>uri.
     case ParseInvite uri of
       Inl e \<Rightarrow> (n, errReply 400 e)
     | Inr (host, port, fp) \<Rightarrow> (n, writeJSON 200 (VParsed host port fp)))"

definition outbox_h :: "('c, 'd) outside \<Rightarrow> node \<Rightarrow> node \<times> reply" where
  "outbox_h X n = query n (Outbox (o_E X) n) VMessages"

definition deleteOutbox_h :: "path_values \<Rightarrow> node \<Rightarrow> node \<times> reply" where
  "deleteOutbox_h pv n = perform (DeleteFromOutbox_node (pv ''id'') n)"

definition diagnostics_h :: "('c, 'd) outside \<Rightarrow> node \<Rightarrow> node \<times> reply" where
  "diagnostics_h X n = (case Diagnostics (o_W X) (o_fps X) (o_ks X) n of
     Inl e \<Rightarrow> (n, errReply 500 e) | Inr d \<Rightarrow> (n, writeJSON 200 (VDiag d)))"

text \<open>\<open>s.app.St\<close> is the node's store.\<close>

definition getSettings_h :: "node \<Rightarrow> node \<times> reply" where
  "getSettings_h n = query n (Settings (n_store n)) VSettings"

definition putSettings_h :: "('c, 'd) outside \<Rightarrow> request \<Rightarrow> node \<Rightarrow> node \<times> reply" where
  "putSettings_h X rq n = readJSON dec_Settings rq n (\<lambda>st.
     case SaveSettings (n_store n) st of
       (s', Inl e) \<Rightarrow> (n\<lparr>n_store := s'\<rparr>, errReply 400 e)
     | (s', Inr _) \<Rightarrow> (n\<lparr>n_store := s'\<rparr>, writeJSON 200 (VSettings st)))"

definition clearMessages_h :: "node \<Rightarrow> node \<times> reply" where
  "clearMessages_h n = (case DeleteAllMessages (n_store n) of
     (s', Inl e) \<Rightarrow> (n\<lparr>n_store := s'\<rparr>, fail e)
   | (s', Inr _) \<Rightarrow> (emit (event0\<lparr>ev_Type := ''peers''\<rparr>) (n\<lparr>n_store := s'\<rparr>), ok_reply))"

definition react_h :: "('c, 'd) outside \<Rightarrow> request \<Rightarrow> path_values \<Rightarrow> node \<Rightarrow> node \<times> reply" where
  "react_h X rq pv n = readJSON dec_React rq n (\<lambda>(emoji, target).
     perform (SendReaction (o_W X) (pv ''name'') emoji target n))"

definition typing_h :: "('c, 'd) outside \<Rightarrow> path_values \<Rightarrow> node \<Rightarrow> node \<times> reply" where
  "typing_h X pv n = perform (SendTyping (o_W X) (pv ''name'') n)"

definition readReceipt_h :: "('c, 'd) outside \<Rightarrow> request \<Rightarrow> path_values \<Rightarrow> node \<Rightarrow> node \<times> reply" where
  "readReceipt_h X rq pv n = readJSON dec_Target rq n (\<lambda>target.
     perform (SendReadReceipt (o_W X) (pv ''name'') target n))"

definition deleteMessage_h :: "('c, 'd) outside \<Rightarrow> request \<Rightarrow> path_values \<Rightarrow> node \<Rightarrow> node \<times> reply" where
  "deleteMessage_h X rq pv n = (let i = pv ''id''; peer = rq_Query rq ''peer'' in
     if rq_Query rq ''everyone'' = ''1'' then
       (if peer = [] then (n, writeErr 400 ''peer is required to delete for everyone'')
        else case DeleteMessageForEveryone (o_W X) peer i n of
          (n1, Inl e) \<Rightarrow> (n1, fail e)
        | (n1, Inr _) \<Rightarrow> perform (DeleteMessage_node i n1))
     else perform (DeleteMessage_node i n))"

definition search_h :: "('c, 'd) outside \<Rightarrow> request \<Rightarrow> node \<Rightarrow> node \<times> reply" where
  "search_h X rq n = (let q = rq_Query rq ''q'' in
     if TrimSpace q = [] then (n, writeJSON 200 (VSearch []))
     else query n (Search_node (o_E X) n q 50) VSearch)"

section \<open>Rooms\<close>

definition rooms_h :: "('c, 'd) outside \<Rightarrow> node \<Rightarrow> node \<times> reply" where
  "rooms_h X n = query n (Rooms (o_W X) n) VRooms"

definition createRoom_h :: "('c, 'd) outside \<Rightarrow> request \<Rightarrow> node \<Rightarrow> node \<times> reply" where
  "createRoom_h X rq n = readJSON dec_Room rq n (\<lambda>(name, members).
     answer (CreateRoom_node (o_W X) name members n) (\<lambda>r. writeJSON 201 (VRoom r)))"

definition getRoom_h :: "('c, 'd) outside \<Rightarrow> path_values \<Rightarrow> node \<Rightarrow> node \<times> reply" where
  "getRoom_h X pv n = query n (GetRoom_node (o_W X) n (pv ''id'')) VRoomView"

definition roomMessages_h :: "('c, 'd) outside \<Rightarrow> path_values \<Rightarrow> node \<Rightarrow> node \<times> reply" where
  "roomMessages_h X pv n = query n (RoomMessages_node (o_E X) n (pv ''id'') 300) VRoomMessages"

definition sendRoomMessage_h :: "('c, 'd) outside \<Rightarrow> request \<Rightarrow> path_values \<Rightarrow> node \<Rightarrow> node \<times> reply" where
  "sendRoomMessage_h X rq pv n = readJSON dec_Body rq n (\<lambda>body.
     answer (SendRoomMessage (o_W X) (pv ''id'') body n) (\<lambda>m. writeJSON 201 (VRoomMessage m)))"

definition deleteRoom_h :: "('c, 'd) outside \<Rightarrow> path_values \<Rightarrow> node \<Rightarrow> node \<times> reply" where
  "deleteRoom_h X pv n = perform (LeaveRoom (o_W X) (pv ''id'') n)"

definition addRoomMember_h :: "('c, 'd) outside \<Rightarrow> request \<Rightarrow> path_values \<Rightarrow> node \<Rightarrow> node \<times> reply" where
  "addRoomMember_h X rq pv n = readJSON dec_Name rq n (\<lambda>name.
     perform (AddRoomMember (o_W X) (pv ''id'') name n))"

definition removeRoomMember_h :: "('c, 'd) outside \<Rightarrow> path_values \<Rightarrow> node \<Rightarrow> node \<times> reply" where
  "removeRoomMember_h X pv n = perform (RemoveRoomMember (o_W X) (pv ''id'') (pv ''name'') n)"

definition acceptRoom_h :: "('c, 'd) outside \<Rightarrow> path_values \<Rightarrow> node \<Rightarrow> node \<times> reply" where
  "acceptRoom_h X pv n = perform (AcceptRoomInvite (o_W X) (pv ''id'') n)"

definition declineRoom_h :: "('c, 'd) outside \<Rightarrow> path_values \<Rightarrow> node \<Rightarrow> node \<times> reply" where
  "declineRoom_h X pv n = perform (DeclineRoomInvite (o_W X) (pv ''id'') n)"

definition reactRoomMessage_h :: "('c, 'd) outside \<Rightarrow> request \<Rightarrow> path_values \<Rightarrow> node \<Rightarrow> node \<times> reply" where
  "reactRoomMessage_h X rq pv n = readJSON dec_Emoji rq n (\<lambda>emoji.
     perform (SendRoomReaction (o_W X) (pv ''id'') (pv ''msgId'') emoji n))"

definition renameRoom_h :: "('c, 'd) outside \<Rightarrow> request \<Rightarrow> path_values \<Rightarrow> node \<Rightarrow> node \<times> reply" where
  "renameRoom_h X rq pv n = readJSON dec_Name rq n (\<lambda>name.
     perform (RenameRoom (o_W X) (pv ''id'') name n))"

section \<open>Files\<close>

definition after_last :: "char \<Rightarrow> string \<Rightarrow> string" where
  "after_last c s = (case LastIndexByte s c of None \<Rightarrow> s | Some i \<Rightarrow> drop (i + 1) s)"

definition sanitizeFilename :: "string \<Rightarrow> string" where
  "sanitizeFilename name0 = (if name0 = [] then ''file''
     else let name = after_last CHR 0x5C (after_last CHR ''/'' name0) in
       if name = [] \<or> name = ''.'' \<or> name = ''..'' then ''file'' else name)"

definition sendFile_h :: "('c, 'd) outside \<Rightarrow> request \<Rightarrow> path_values \<Rightarrow> node \<Rightarrow> node \<times> reply" where
  "sendFile_h X rq pv n = (case o_upload X (rq_Body rq) of
     Inl e \<Rightarrow> (n, writeJSON 400 (VPrefixed ''could not parse upload: '' e))
   | Inr (Inl e) \<Rightarrow> (n, writeJSON 400 (VPrefixed ''no file in upload: '' e))
   | Inr (Inr (filename, cont)) \<Rightarrow>
       let data = take (nat MaxFileSize + 1) cont; name = sanitizeFilename filename in
       answer (SendFile (o_W X) (pv ''name'') name data n) (\<lambda>i. writeJSON 201 (VUpload i name)))"

definition files_h :: "node \<Rightarrow> node \<times> reply" where
  "files_h n = query n (Files n) VFiles"

definition getFile_h :: "path_values \<Rightarrow> node \<Rightarrow> node \<times> reply" where
  "getFile_h pv n = query n (FileMeta n (pv ''id'')) VFile"

definition fileData_h :: "('c, 'd) outside \<Rightarrow> path_values \<Rightarrow> node \<Rightarrow> node \<times> reply" where
  "fileData_h X pv n = (case FileData_node (o_E X) n (pv ''id'') of
     Inl e \<Rightarrow> (n, fail e)
   | Inr data \<Rightarrow>
       let h = [''Content-Type'' \<mapsto> ''application/octet-stream'', ''Content-Length'' \<mapsto> Itoa (length data)];
           h1 = (case FileMeta n (pv ''id'') of
             Inl _ \<Rightarrow> h
           | Inr f \<Rightarrow> if f_Name f \<noteq> []
               then h(''Content-Disposition'' \<mapsto> ''attachment; filename='' @ o_quote X (sanitizeFilename (f_Name f))) else h)
       in (n, Reply 200 h1 (Raw data)))"

definition previewable :: "string \<Rightarrow> bool" where
  "previewable ct \<longleftrightarrow> ct \<in> {''image/png'', ''image/jpeg'', ''image/gif'', ''image/webp''}"

definition media_type :: "string \<Rightarrow> string" where
  "media_type ct = (case IndexByte ct CHR '';'' of None \<Rightarrow> ct | Some i \<Rightarrow> TrimSpace (take i ct))"

definition preview_headers :: "string \<Rightarrow> bytes \<Rightarrow> headers" where
  "preview_headers ct data = [''Content-Type'' \<mapsto> ct, ''Content-Length'' \<mapsto> Itoa (length data),
     ''X-Content-Type-Options'' \<mapsto> ''nosniff'', ''Content-Security-Policy'' \<mapsto> ''sandbox; default-src 'none'' @ [CHR 0x27],
     ''Content-Disposition'' \<mapsto> ''inline'']"

definition filePreview_h :: "('c, 'd) outside \<Rightarrow> path_values \<Rightarrow> node \<Rightarrow> node \<times> reply" where
  "filePreview_h X pv n = (case FileMeta n (pv ''id'') of
     Inl e \<Rightarrow> (n, fail e)
   | Inr f \<Rightarrow>
       if f_Dir f \<noteq> DirIn \<or> f_Status f \<noteq> FileComplete then (n, writeErr 404 ''no preview for this file'')
       else case FileData_node (o_E X) n (pv ''id'') of
         Inl e \<Rightarrow> (n, fail e)
       | Inr data \<Rightarrow> let ct = media_type (o_sniff X data) in
           if \<not> previewable ct then (n, writeErr 415 ''not a previewable image'')
           else (n, Reply 200 (preview_headers ct data) (Raw data)))"

definition deleteFile_h :: "path_values \<Rightarrow> node \<Rightarrow> node \<times> reply" where
  "deleteFile_h pv n = perform (DeleteFile_node (pv ''id'') n)"

section \<open>The event stream\<close>

definition events_h :: "('c, 'd) outside \<Rightarrow> node \<Rightarrow> node \<times> reply" where
  "events_h X n = (if \<not> o_flusher X then (n, writeErr 500 ''streaming unsupported'')
     else let (n1, i) = Subscribe n in
       (n1, Stream 200 [''Content-Type'' \<mapsto> ''text/event-stream'', ''X-Accel-Buffering'' \<mapsto> ''no'']
          (''retry: 2000'' @ [CHR 0x0A, CHR 0x0A]) i))"

text \<open>
  One turn of the loop: the request ends, the heartbeat fires, or an event is there. What is
  written, and whether the stream goes on; \<open>ok\<close> is the outcome of the write.
\<close>

datatype stream_turn = Done | Heartbeat | Deliver

definition stream_step :: "(event \<Rightarrow> string) \<Rightarrow> nat \<Rightarrow> bool \<Rightarrow> stream_turn \<Rightarrow> node \<Rightarrow> node \<times> string \<times> bool" where
  "stream_step marshal i ok t n = (case t of
     Done \<Rightarrow> (unsubscribe i n, [], False)
   | Heartbeat \<Rightarrow> if ok then (n, '': hb'' @ [CHR 0x0A, CHR 0x0A], True) else (unsubscribe i n, [], False)
   | Deliver \<Rightarrow> (case receive i n of
       (n1, None) \<Rightarrow> (n1, [], True)
     | (n1, Some e) \<Rightarrow> if ok then (n1, ''data: '' @ marshal e @ [CHR 0x0A, CHR 0x0A], True)
         else (unsubscribe i n1, [], False)))"

section \<open>Routing\<close>

definition needNode :: "('d app \<Rightarrow> node \<Rightarrow> 'd app \<times> reply) \<Rightarrow> 'd app \<Rightarrow> 'd app \<times> reply" where
  "needNode f a = (case a_n a of None \<Rightarrow> (a, writeErr 409 ''setup required'') | Some n \<Rightarrow> f a n)"

text \<open>A handler that works on the node only.\<close>

definition on_node :: "(node \<Rightarrow> node \<times> reply) \<Rightarrow> 'd app \<Rightarrow> 'd app \<times> reply" where
  "on_node f = needNode (\<lambda>a n. let (n1, r) = f n in (a\<lparr>a_n := Some n1\<rparr>, r))"

definition on_disc_node :: "('d \<times> node \<Rightarrow> ('d \<times> node) \<times> reply) \<Rightarrow> 'd app \<Rightarrow> 'd app \<times> reply" where
  "on_disc_node f = needNode (\<lambda>a n. let ((d1, n1), r) = f (a_disc a, n) in (a\<lparr>a_n := Some n1, a_disc := d1\<rparr>, r))"

datatype seg = Lit string | Wild string

fun match_path :: "seg list \<Rightarrow> string list \<Rightarrow> path_values option" where
  "match_path [] [] = Some (\<lambda>_. [])"
| "match_path (Lit s # ps) (x # xs) = (if x = s then match_path ps xs else None)"
| "match_path (Wild k # ps) (x # xs) = (if x = [] then None else map_option (\<lambda>pv. pv(k := x)) (match_path ps xs))"
| "match_path _ _ = None"

text \<open>A pattern for \<open>GET\<close> also takes \<open>HEAD\<close>.\<close>

definition match_method :: "string \<Rightarrow> string \<Rightarrow> bool" where
  "match_method pat m \<longleftrightarrow> m = pat \<or> pat = ''GET'' \<and> m = ''HEAD''"

type_synonym 'd handler = "request \<Rightarrow> path_values \<Rightarrow> 'd app \<Rightarrow> 'd app \<times> reply"

text \<open>The table of \<open>New\<close>, the reading routes apart from the changing ones; no two patterns overlap.\<close>

definition read_routes :: "('c, 'd) outside \<Rightarrow> (string \<times> seg list \<times> 'd handler) list" where
  "read_routes X = [
     (''GET'', [Lit ''api'', Lit ''state''], (\<lambda>rq pv. state X)),
     (''GET'', [Lit ''api'', Lit ''me''], (\<lambda>rq pv. on_node (me_h X))),
     (''GET'', [Lit ''api'', Lit ''peers''], (\<lambda>rq pv. on_node (peers_h X))),
     (''GET'', [Lit ''api'', Lit ''peers'', Wild ''name'', Lit ''messages''], (\<lambda>rq pv. on_node (messages_h X pv))),
     (''GET'', [Lit ''api'', Lit ''search''], (\<lambda>rq pv. on_node (search_h X rq))),
     (''GET'', [Lit ''api'', Lit ''invite''], (\<lambda>rq pv. on_node (invite_h X))),
     (''GET'', [Lit ''api'', Lit ''outbox''], (\<lambda>rq pv. on_node (outbox_h X))),
     (''GET'', [Lit ''api'', Lit ''diagnostics''], (\<lambda>rq pv. on_node (diagnostics_h X))),
     (''GET'', [Lit ''api'', Lit ''settings''], (\<lambda>rq pv. on_node getSettings_h)),
     (''GET'', [Lit ''api'', Lit ''events''], (\<lambda>rq pv. on_node (events_h X))),
     (''GET'', [Lit ''api'', Lit ''files''], (\<lambda>rq pv. on_node files_h)),
     (''GET'', [Lit ''api'', Lit ''files'', Wild ''id''], (\<lambda>rq pv. on_node (getFile_h pv))),
     (''GET'', [Lit ''api'', Lit ''files'', Wild ''id'', Lit ''data''], (\<lambda>rq pv. on_node (fileData_h X pv))),
     (''GET'', [Lit ''api'', Lit ''files'', Wild ''id'', Lit ''preview''], (\<lambda>rq pv. on_node (filePreview_h X pv))),
     (''GET'', [Lit ''api'', Lit ''rooms''], (\<lambda>rq pv. on_node (rooms_h X))),
     (''GET'', [Lit ''api'', Lit ''rooms'', Wild ''id''], (\<lambda>rq pv. on_node (getRoom_h X pv))),
     (''GET'', [Lit ''api'', Lit ''rooms'', Wild ''id'', Lit ''messages''], (\<lambda>rq pv. on_node (roomMessages_h X pv)))]"

definition write_routes :: "('c, 'd) outside \<Rightarrow> (string \<times> seg list \<times> 'd handler) list" where
  "write_routes X = [
     (''POST'', [Lit ''api'', Lit ''setup''], (\<lambda>rq pv. setup_h X rq)),
     (''POST'', [Lit ''api'', Lit ''restore''], (\<lambda>rq pv. restore X rq)),
     (''POST'', [Lit ''api'', Lit ''unlock''], (\<lambda>rq pv. unlock X rq)),
     (''POST'', [Lit ''api'', Lit ''passphrase''], (\<lambda>rq pv. needNode (\<lambda>a n. enablePassphrase X rq a))),
     (''POST'', [Lit ''api'', Lit ''me'', Lit ''rename''], (\<lambda>rq pv. on_disc_node (rename_h X rq))),
     (''POST'', [Lit ''api'', Lit ''peers'', Wild ''name'', Lit ''messages''], (\<lambda>rq pv. on_node (send_h X rq pv))),
     (''POST'', [Lit ''api'', Lit ''peers'', Wild ''name'', Lit ''verify''], (\<lambda>rq pv. on_node (verify_h X rq pv))),
     (''POST'', [Lit ''api'', Lit ''peers'', Wild ''name'', Lit ''accept-key''], (\<lambda>rq pv. on_node (acceptKey_h X pv))),
     (''POST'', [Lit ''api'', Lit ''peers'', Wild ''name'', Lit ''retry''], (\<lambda>rq pv. on_node (retry_h pv))),
     (''POST'', [Lit ''api'', Lit ''peers'', Wild ''name'', Lit ''react''], (\<lambda>rq pv. on_node (react_h X rq pv))),
     (''POST'', [Lit ''api'', Lit ''peers'', Wild ''name'', Lit ''typing''], (\<lambda>rq pv. on_node (typing_h X pv))),
     (''POST'', [Lit ''api'', Lit ''peers'', Wild ''name'', Lit ''read''], (\<lambda>rq pv. on_node (readReceipt_h X rq pv))),
     (''DELETE'', [Lit ''api'', Lit ''messages'', Wild ''id''], (\<lambda>rq pv. on_node (deleteMessage_h X rq pv))),
     (''DELETE'', [Lit ''api'', Lit ''peers'', Wild ''name''], (\<lambda>rq pv. on_node (forget_h X pv))),
     (''POST'', [Lit ''api'', Lit ''dial''], (\<lambda>rq pv. on_node (dial_h X rq))),
     (''POST'', [Lit ''api'', Lit ''invite'', Lit ''parse''], (\<lambda>rq pv. on_node (parseInvite_h X rq))),
     (''DELETE'', [Lit ''api'', Lit ''outbox'', Wild ''id''], (\<lambda>rq pv. on_node (deleteOutbox_h pv))),
     (''PUT'', [Lit ''api'', Lit ''settings''], (\<lambda>rq pv. on_node (putSettings_h X rq))),
     (''POST'', [Lit ''api'', Lit ''messages'', Lit ''clear''], (\<lambda>rq pv. on_node clearMessages_h)),
     (''POST'', [Lit ''api'', Lit ''backup''], (\<lambda>rq pv. needNode (\<lambda>a n. backup_h X rq a))),
     (''POST'', [Lit ''api'', Lit ''peers'', Wild ''name'', Lit ''file''], (\<lambda>rq pv. on_node (sendFile_h X rq pv))),
     (''DELETE'', [Lit ''api'', Lit ''files'', Wild ''id''], (\<lambda>rq pv. on_node (deleteFile_h pv))),
     (''POST'', [Lit ''api'', Lit ''rooms''], (\<lambda>rq pv. on_node (createRoom_h X rq))),
     (''POST'', [Lit ''api'', Lit ''rooms'', Wild ''id'', Lit ''messages''], (\<lambda>rq pv. on_node (sendRoomMessage_h X rq pv))),
     (''DELETE'', [Lit ''api'', Lit ''rooms'', Wild ''id''], (\<lambda>rq pv. on_node (deleteRoom_h X pv))),
     (''POST'', [Lit ''api'', Lit ''rooms'', Wild ''id'', Lit ''members''], (\<lambda>rq pv. on_node (addRoomMember_h X rq pv))),
     (''DELETE'', [Lit ''api'', Lit ''rooms'', Wild ''id'', Lit ''members'', Wild ''name''], (\<lambda>rq pv. on_node (removeRoomMember_h X pv))),
     (''POST'', [Lit ''api'', Lit ''rooms'', Wild ''id'', Lit ''rename''], (\<lambda>rq pv. on_node (renameRoom_h X rq pv))),
     (''POST'', [Lit ''api'', Lit ''rooms'', Wild ''id'', Lit ''messages'', Wild ''msgId'', Lit ''react''], (\<lambda>rq pv. on_node (reactRoomMessage_h X rq pv))),
     (''POST'', [Lit ''api'', Lit ''rooms'', Wild ''id'', Lit ''accept''], (\<lambda>rq pv. on_node (acceptRoom_h X pv))),
     (''POST'', [Lit ''api'', Lit ''rooms'', Wild ''id'', Lit ''decline''], (\<lambda>rq pv. on_node (declineRoom_h X pv)))]"

text \<open>
  The router. Anything else that is read is the file server's; every path matches its pattern
  \<open>GET /\<close>, so another method on an unknown path is 405.
\<close>

fun find_route :: "(string \<times> seg list \<times> 'h) list \<Rightarrow> string \<Rightarrow> string list \<Rightarrow> ('h \<times> path_values) option" where
  "find_route [] m p = None"
| "find_route ((m', pat, h) # rs) m p = (if match_method m' m
     then (case match_path pat p of Some pv \<Rightarrow> Some (h, pv) | None \<Rightarrow> find_route rs m p)
     else find_route rs m p)"

definition mux :: "('c, 'd) outside \<Rightarrow> request \<Rightarrow> 'd app \<Rightarrow> 'd app \<times> reply" where
  "mux X rq a = (case find_route (read_routes X @ write_routes X) (rq_Method rq) (rq_Path rq) of
     Some (h, pv) \<Rightarrow> h rq pv a
   | None \<Rightarrow> if match_method ''GET'' (rq_Method rq) then (a, Static)
       else (a, http_Error ''Method Not Allowed'' 405 Map.empty))"

definition Handler :: "('c, 'd) outside \<Rightarrow> request \<Rightarrow> 'd app \<Rightarrow> 'd app \<times> reply" where
  "Handler X = secure (o_urlhost X) (mux X)"

section \<open>Reading requests change nothing\<close>

lemma find_route_Some:
  assumes "find_route rs m p = Some (h, pv)"
  shows "\<exists>m' pat. (m', pat, h) \<in> set rs \<and> match_method m' m \<and> match_path pat p = Some pv"
  using assms
proof (induction rs m p rule: find_route.induct)
  case (2 m' pat h' rs m p)
  then show ?case by (cases "match_method m' m"; cases "match_path pat p") auto
qed simp

lemma shape_simps [simp]:
  "fst (answer r f) = fst r"
  "fst (query s r' v) = s"
  "fst (perform u) = fst u"
  by (auto simp: answer_def query_def perform_def split: prod.split sum.split)

text \<open>The handlers of the reading routes.\<close>

lemma readers [simp]:
  "fst (state X a) = a" "fst (me_h X n) = n" "fst (peers_h X n) = n" "fst (messages_h X pv n) = n"
  "fst (search_h X rq n) = n" "fst (invite_h X n) = n" "fst (outbox_h X n) = n" "fst (diagnostics_h X n) = n"
  "fst (getSettings_h n) = n" "fst (files_h n) = n" "fst (getFile_h pv n) = n" "fst (fileData_h X pv n) = n"
  "fst (filePreview_h X pv n) = n" "fst (rooms_h X n) = n" "fst (getRoom_h X pv n) = n" "fst (roomMessages_h X pv n) = n"
  by (simp_all add: state_def me_h_def peers_h_def messages_h_def search_h_def invite_h_def outbox_h_def diagnostics_h_def
      getSettings_h_def files_h_def getFile_h_def fileData_h_def filePreview_h_def rooms_h_def getRoom_h_def roomMessages_h_def
      Let_def split: option.split sum.split)

text \<open>Opening the event stream registers one more subscriber; nothing else is touched.\<close>

definition at_most_subscribes :: "'d app \<Rightarrow> 'd app \<Rightarrow> bool" where
  "at_most_subscribes a a' \<longleftrightarrow> a' = a \<or> (\<exists>n. a_n a = Some n \<and> a' = a\<lparr>a_n := Some (fst (Subscribe n))\<rparr>)"

lemma on_node_reader: "(\<And>n. fst (f n) = n) \<Longrightarrow> fst (on_node f a) = a"
  by (cases "a_n a") (simp_all add: on_node_def needNode_def split: prod.split, metis app.surjective app.update_convs(4) fst_conv)

lemma on_node_events: "at_most_subscribes a (fst (on_node (events_h X) a))"
proof (cases "a_n a")
  case (Some n)
  have "fst (events_h X n) = n \<or> fst (events_h X n) = fst (Subscribe n)"
    by (simp add: events_h_def split: prod.split)
  then show ?thesis using Some
    by (auto simp: at_most_subscribes_def on_node_def needNode_def split: prod.split)
qed (simp add: at_most_subscribes_def on_node_def needNode_def)

lemma at_most_subscribes_refl [simp]: "at_most_subscribes a a"
  by (simp add: at_most_subscribes_def)

lemma read_routes_read:
  "(m, pat, h) \<in> set (read_routes X) \<Longrightarrow> m = ''GET'' \<and> at_most_subscribes a (fst (h rq pv a))"
  unfolding read_routes_def by (auto simp: on_node_reader on_node_events)

lemma write_routes_methods: "(m, pat, h) \<in> set (write_routes X) \<Longrightarrow> m \<in> {''POST'', ''PUT'', ''DELETE''}"
  unfolding write_routes_def by auto

lemma mux_reads: "\<not> mutating rq \<Longrightarrow> at_most_subscribes a (fst (mux X rq a))"
proof (cases "find_route (read_routes X @ write_routes X) (rq_Method rq) (rq_Path rq)")
  case (Some hp)
  obtain h pv where hp: "hp = (h, pv)" by (cases hp)
  assume "\<not> mutating rq"
  then have m: "rq_Method rq \<in> {''GET'', ''HEAD''}" by (auto simp: mutating_def)
  obtain m' pat where r: "(m', pat, h) \<in> set (read_routes X @ write_routes X)" "match_method m' (rq_Method rq)"
    using find_route_Some [OF Some [unfolded hp]] by (elim exE conjE) (rule that)
  from m r(2) have "m' \<notin> {''POST'', ''PUT'', ''DELETE''}" by (auto simp: match_method_def)
  with r(1) write_routes_methods [of m' pat h X] have "(m', pat, h) \<in> set (read_routes X)" by auto
  with Some hp show ?thesis by (simp add: mux_def read_routes_read)
qed (simp add: mux_def)

section \<open>Bytes that came from somebody else\<close>

text \<open>A reply that carries no raw bytes.\<close>

fun no_raw :: "reply \<Rightarrow> bool" where
  "no_raw (Reply _ _ (Raw _)) = False"
| "no_raw _ = True"

lemma no_raw_basic [simp]:
  "no_raw (writeJSON c v)" "no_raw (writeErr c msg)" "no_raw (errReply c e)" "no_raw (fail e)" "no_raw ok_reply"
  "no_raw (http_Error msg c h)" "no_raw (unless_panic e r) = (panics e \<or> no_raw r)"
  by (simp_all add: writeJSON_def writeErr_def errReply_def fail_def ok_reply_def http_Error_def unless_panic_def)

lemma no_raw_shapes [simp]:
  "(\<And>x. no_raw (f x)) \<Longrightarrow> no_raw (snd (answer r f))"
  "no_raw (snd (query s r' v))" "no_raw (snd (perform u))"
  "(\<And>v. no_raw (snd (g v))) \<Longrightarrow> no_raw (snd (readJSON dec rq s g))"
  by (auto simp: answer_def query_def perform_def readJSON_def split: prod.split sum.split option.split)

lemma no_raw_node: "(\<And>n. no_raw (snd (f n))) \<Longrightarrow> no_raw (snd (on_node f a))"
  by (auto simp: on_node_def needNode_def split: option.split prod.split) (metis snd_conv)

lemma no_raw_state [simp]: "no_raw (snd (state X a))"
  by (simp add: state_def split: option.split sum.split)

lemma no_raw_handlers [simp]:
  "no_raw (snd (unlock X rq a))" "no_raw (snd (enablePassphrase X rq a))" "no_raw (snd (setup_h X rq a))"
  "no_raw (snd (restore X rq a))" "no_raw (snd (me_h X n))" "no_raw (snd (peers_h X n))" "no_raw (snd (messages_h X pv n))"
  "no_raw (snd (send_h X rq pv n))" "no_raw (snd (verify_h X rq pv n))" "no_raw (snd (acceptKey_h X pv n))"
  "no_raw (snd (retry_h pv n))" "no_raw (snd (forget_h X pv n))" "no_raw (snd (dial_h X rq n))" "no_raw (snd (invite_h X n))"
  "no_raw (snd (parseInvite_h X rq n))" "no_raw (snd (outbox_h X n))" "no_raw (snd (deleteOutbox_h pv n))"
  "no_raw (snd (diagnostics_h X n))" "no_raw (snd (getSettings_h n))" "no_raw (snd (putSettings_h X rq n))"
  "no_raw (snd (clearMessages_h n))" "no_raw (snd (react_h X rq pv n))" "no_raw (snd (typing_h X pv n))"
  "no_raw (snd (readReceipt_h X rq pv n))" "no_raw (snd (deleteMessage_h X rq pv n))" "no_raw (snd (search_h X rq n))"
  by (auto simp: unlock_def enablePassphrase_def setup_h_def restore_def me_h_def peers_h_def messages_h_def send_h_def
      verify_h_def acceptKey_h_def retry_h_def forget_h_def dial_h_def invite_h_def parseInvite_h_def outbox_h_def
      deleteOutbox_h_def diagnostics_h_def getSettings_h_def putSettings_h_def clearMessages_h_def react_h_def typing_h_def
      readReceipt_h_def deleteMessage_h_def search_h_def Let_def split: sum.split prod.split)

lemma no_raw_handlers2 [simp]:
  "no_raw (snd (rooms_h X n))" "no_raw (snd (createRoom_h X rq n))" "no_raw (snd (getRoom_h X pv n))"
  "no_raw (snd (roomMessages_h X pv n))" "no_raw (snd (sendRoomMessage_h X rq pv n))" "no_raw (snd (deleteRoom_h X pv n))"
  "no_raw (snd (addRoomMember_h X rq pv n))" "no_raw (snd (removeRoomMember_h X pv n))" "no_raw (snd (acceptRoom_h X pv n))"
  "no_raw (snd (declineRoom_h X pv n))" "no_raw (snd (reactRoomMessage_h X rq pv n))" "no_raw (snd (renameRoom_h X rq pv n))"
  "no_raw (snd (sendFile_h X rq pv n))" "no_raw (snd (files_h n))" "no_raw (snd (getFile_h pv n))" "no_raw (snd (deleteFile_h pv n))"
  "no_raw (snd (events_h X n))" "no_raw (snd (rename_h X rq dn))"
  by (auto simp: rooms_h_def createRoom_h_def getRoom_h_def roomMessages_h_def sendRoomMessage_h_def deleteRoom_h_def
      addRoomMember_h_def removeRoomMember_h_def acceptRoom_h_def declineRoom_h_def reactRoomMessage_h_def renameRoom_h_def
      sendFile_h_def files_h_def getFile_h_def deleteFile_h_def events_h_def rename_h_def Let_def split: sum.split prod.split)

lemma no_raw_disc: "(\<And>dn. no_raw (snd (f dn))) \<Longrightarrow> no_raw (snd (on_disc_node f a))"
  by (auto simp: on_disc_node_def needNode_def split: option.split prod.split) (metis snd_conv)

lemma raw_routes:
  assumes "(m, pat, h) \<in> set (read_routes X @ write_routes X)" "\<not> no_raw (snd (h rq pv a))"
  shows "snd (h rq pv a) = snd (on_node (fileData_h X pv) a) \<or> snd (h rq pv a) = snd (on_node (filePreview_h X pv) a)
    \<or> snd (h rq pv a) = snd (needNode (\<lambda>a n. backup_h X rq a) a)"
  using assms unfolding read_routes_def write_routes_def
  by (auto simp: no_raw_node no_raw_disc) (auto simp: needNode_def split: option.splits)

definition sandbox :: string where "sandbox = ''sandbox; default-src 'none'' @ [CHR 0x27]"

text \<open>
  Headers under which a browser does not run what it gets: never sniffed; a download, the
  encrypted key backup as a download, or a sandboxed raster image.
\<close>

definition inert :: "headers \<Rightarrow> bool" where
  "inert h \<longleftrightarrow> h ''X-Content-Type-Options'' = Some ''nosniff'' \<and>
     (h ''Content-Type'' = Some ''application/octet-stream''
      \<or> h ''Content-Type'' = Some ''application/json'' \<and> h ''Content-Disposition'' = backup_headers ''Content-Disposition''
      \<or> (\<exists>ct. previewable ct \<and> h ''Content-Type'' = Some ct \<and> h ''Content-Security-Policy'' = Some sandbox))"

lemma on_node_raw:
  assumes "snd (on_node f a) = Reply c g (Raw d)"
  obtains n where "a_n a = Some n" "snd (f n) = Reply c g (Raw d)"
  using assms by (cases "a_n a") (auto simp: on_node_def needNode_def writeErr_def writeJSON_def split: prod.splits)

lemma fileData_raw:
  assumes "snd (fileData_h X pv n) = Reply c g (Raw d)"
  shows "inert (security_headers ++ g)"
  using assms
  by (auto simp: fileData_h_def fail_def unless_panic_def writeErr_def writeJSON_def inert_def security_headers_def Let_def
      map_add_def split: sum.splits if_splits)

lemma filePreview_raw:
  assumes "snd (filePreview_h X pv n) = Reply c g (Raw d)"
  shows "inert (security_headers ++ g) \<and> FileData_node (o_E X) n (pv ''id'') = Inr d
    \<and> (\<exists>f. FileMeta n (pv ''id'') = Inr f \<and> f_Dir f = DirIn \<and> f_Status f = FileComplete)"
  using assms
  by (auto simp: filePreview_h_def fail_def unless_panic_def writeErr_def writeJSON_def inert_def preview_headers_def sandbox_def
      Let_def split: sum.splits if_splits)

lemma backup_raw:
  assumes "snd (backup_h X rq a) = Reply c g (Raw d)"
  shows "inert (security_headers ++ g)"
  using assms
  by (auto simp: backup_h_def readJSON_def errReply_def unless_panic_def writeErr_def writeJSON_def inert_def security_headers_def
      backup_headers_def map_add_def split: sum.splits option.splits if_splits)

lemma mux_raw:
  assumes "snd (mux X rq a) = Reply c g (Raw d)"
  shows "inert (security_headers ++ g)"
proof (cases "find_route (read_routes X @ write_routes X) (rq_Method rq) (rq_Path rq)")
  case None
  with assms show ?thesis by (simp add: mux_def http_Error_def split: if_splits)
next
  case (Some hp)
  obtain h pv where hp: "hp = (h, pv)" by (cases hp)
  from find_route_Some [OF Some [unfolded hp]] obtain m' pat
    where r: "(m', pat, h) \<in> set (read_routes X @ write_routes X)" by (elim exE conjE) (rule that)
  have h: "snd (h rq pv a) = Reply c g (Raw d)" using assms Some hp by (simp add: mux_def)
  then have "\<not> no_raw (snd (h rq pv a))" by simp
  from raw_routes [OF r this] h consider
      "snd (on_node (fileData_h X pv) a) = Reply c g (Raw d)" | "snd (on_node (filePreview_h X pv) a) = Reply c g (Raw d)"
    | "snd (needNode (\<lambda>a n. backup_h X rq a) a) = Reply c g (Raw d)" by auto
  then show ?thesis
  proof cases
    case 1
    then show ?thesis by (rule on_node_raw) (rule fileData_raw)
  next
    case 2
    then show ?thesis by (rule on_node_raw) (rule conjunct1 [OF filePreview_raw])
  next
    case 3
    then show ?thesis using backup_raw by (auto simp: needNode_def writeErr_def writeJSON_def split: option.splits)
  qed
qed

section \<open>File names\<close>

lemma after_last_free: "c \<notin> set (after_last c s)"
  by (auto simp: after_last_def LastIndexByte_None dest: LastIndexByte_Some split: option.split)

lemma after_last_suffix: "\<exists>u. s = u @ after_last c s"
  by (cases "LastIndexByte s c") (auto simp: after_last_def, metis append_take_drop_id)

lemma after_last_id: "c \<notin> set s \<Longrightarrow> after_last c s = s"
  by (simp add: after_last_def LastIndexByte_None [THEN iffD2])

section \<open>Properties\<close>

definition guarded :: "(string \<Rightarrow> string option) \<Rightarrow> request \<Rightarrow> bool" where
  "guarded urlhost rq \<longleftrightarrow> allowed_host (host_of rq) \<and> mutating rq \<and> rq_Header rq ''X-Chirp'' = ''1'' \<and> same_origin urlhost rq"

text \<open>
  C16. A request changes the app only if it names one of the loopback hosts, uses a method other than
  GET and HEAD, carries the \<open>X-Chirp\<close> header, and has no foreign \<open>Origin\<close>; whatever else arrives
  leaves the database, the node and the settings as they are (an event stream may gain a
  subscriber). A foreign host, a missing header and a foreign origin are answered with 403.
\<close>

theorem no_cross_site_mutation:
  assumes "\<not> guarded (o_urlhost X) rq"
  shows "at_most_subscribes a (fst (Handler X rq a))
    \<and> (\<not> allowed_host (host_of rq) \<or> mutating rq \<longrightarrow> fst (Handler X rq a) = a \<and> (\<exists>h msg. snd (Handler X rq a) = Reply 403 h (Text msg)))"
proof -
  consider "\<not> allowed_host (host_of rq)" | "allowed_host (host_of rq)" "\<not> mutating rq"
    | "allowed_host (host_of rq)" "mutating rq" "rq_Header rq ''X-Chirp'' \<noteq> ''1'' \<or> \<not> same_origin (o_urlhost X) rq"
    using assms by (auto simp: guarded_def)
  then show ?thesis
  proof cases
    case 2
    then have "fst (Handler X rq a) = fst (mux X rq a)" by (simp add: Handler_def secure_def)
    with 2 mux_reads [of rq a X] show ?thesis by simp
  qed (auto simp: Handler_def secure_def http_Error_def)
qed

text \<open>A concrete surrounding: uploads that take the body as it is, an image sniffer, no network.\<close>

definition sample_outside :: "(nat, hub \<times> nat \<times> nat list) outside" where
  "sample_outside = \<lparr>o_W = sample_world, o_L = sample_launch, o_mkdir = Inr (), o_busy = False,
     o_disk = \<lparr>dk_db = empty_db\<lparr>meta_kdf := Some ''argon2id''\<rparr>, dk_files = Map.empty\<rparr>, o_upload = (\<lambda>b. Inr (Inr (''f'', b))),
     o_r1 = Some sample_priv, o_r2 = None, o_enc = sample_enc, o_ifaces = Inr [], o_connect = (\<lambda>_. Inl (Err [])),
     o_hs = (\<lambda>_. Inl (Err [])), o_fps = [], o_ks = [], o_flusher = True, o_sniff = (\<lambda>_. ''image/png''), o_quote = (\<lambda>s. s), o_urlhost = (\<lambda>_. None)\<rparr>"

definition sample_request :: request where
  "sample_request = \<lparr>rq_Method = ''POST'', rq_Host = ''127.0.0.1:7777'', rq_Path = [''api'', ''messages'', ''clear''],
     rq_Header = (\<lambda>_. []), rq_Query = (\<lambda>_. []), rq_Body = []\<rparr>"

text \<open>A page that asks the daemon to clear all messages, without the header.\<close>

theorem no_cross_site_mutation_witness:
  "fst (Handler sample_outside sample_request sample_app) = sample_app
   \<and> (\<exists>h msg. snd (Handler sample_outside sample_request sample_app) = Reply 403 h (Text msg))"
  using no_cross_site_mutation [of sample_outside sample_request sample_app]
  by (simp add: guarded_def mutating_def sample_request_def)

text \<open>
  C26. Bytes that a peer may have chosen reach the browser only in a form it does not run: every
  reply with raw bytes forbids sniffing and is a download, the encrypted key backup, or one of
  four raster image types under a sandbox policy.
\<close>

theorem served_bytes_are_inert:
  assumes "snd (Handler X rq a) = Reply code h (Raw d)"
  shows "inert h"
proof -
  obtain rq' where "with_headers security_headers (snd (mux X rq' a)) = Reply code h (Raw d)"
    using assms by (auto simp: Handler_def secure_def http_Error_def Let_def split: if_splits)
  then obtain g where "snd (mux X rq' a) = Reply code g (Raw d)" "h = security_headers ++ g"
    by (cases "snd (mux X rq' a)") auto
  with mux_raw show ?thesis by blast
qed

definition backup_request :: request where
  "backup_request = \<lparr>rq_Method = ''POST'', rq_Host = ''127.0.0.1:7777'', rq_Path = [''api'', ''backup''],
     rq_Header = (\<lambda>k. if k = ''X-Chirp'' then ''1'' else []), rq_Query = (\<lambda>_. []), rq_Body = one_field ''passphrase'' sample_pass\<rparr>"

theorem served_bytes_are_inert_witness:
  "\<exists>h d. snd (Handler (sample_outside\<lparr>o_r2 := sample_nonce\<rparr>) backup_request (sample_app\<lparr>a_n := Some sample_node\<rparr>)) = Reply 200 h (Raw d) \<and> inert h"
proof -
  let ?X = "sample_outside\<lparr>o_r2 := sample_nonce\<rparr>" and ?a = "sample_app\<lparr>a_n := Some sample_node\<rparr>"
  have "SplitHostPort (''127.0.0.1'' @ '':'' @ ''7777'') = Inr (''127.0.0.1'', ''7777'')"
    by (rule SplitHostPort_plain) (simp_all add: plain_part_def)
  then have guard: "allowed_host (host_of backup_request)" "mutating backup_request" "same_origin u backup_request" for u
    by (simp_all add: host_of_def allowed_host_def mutating_def same_origin_def backup_request_def)
  let ?body = "one_field ''passphrase'' sample_pass"
  have "length ?body \<le> 1000" using length_one_field [of "''passphrase''" sample_pass] by (simp add: sample_pass_def)
  then have body: "rq_Body backup_request = ?body" "take maxBody ?body = ?body"
    "take maxFileUpload ?body = ?body" "backup_request\<lparr>rq_Body := ?body\<rparr> = backup_request"
    by (simp_all add: backup_request_def maxBody_def maxFileUpload_def MaxFileSize_def)
  have pass: "dec_Passphrase ?body = Some sample_pass"
    by (rule dec_one_field) (simp add: ValidString_ascii sample_pass_def)
  obtain data where "Backup sample_env (Some sample_priv) sample_nonce sample_pass ?a = Inr data"
    by (simp add: Backup_def ExportBackup_def sample_pass_def RuneCountInString_def MinPassphraseLen_def sample_nonce_def Let_def)
  then have "backup_h ?X backup_request ?a = (?a, Reply 200 backup_headers (Raw data))"
    using body(1) pass by (simp add: backup_h_def readJSON_def sample_outside_def sample_world_def)
  moreover have "find_route (read_routes ?X @ write_routes ?X) ''POST'' [''api'', ''backup''] = Some (\<lambda>rq pv. needNode (\<lambda>a n. backup_h ?X rq a), \<lambda>_. [])"
    by (simp add: read_routes_def write_routes_def match_method_def)
  moreover have "rq_Method backup_request = ''POST''" "rq_Path backup_request = [''api'', ''backup'']"
    "rq_Header backup_request ''X-Chirp'' = ''1''" by (simp_all add: backup_request_def)
  ultimately have "mux ?X backup_request ?a = (?a, Reply 200 backup_headers (Raw data))"
    and hd: "rq_Header backup_request ''X-Chirp'' = ''1''" by (simp_all add: mux_def needNode_def)
  then have "snd (Handler ?X backup_request ?a) = Reply 200 (security_headers ++ backup_headers) (Raw data)"
    using guard by (simp add: Handler_def secure_def Let_def body)
  with served_bytes_are_inert [OF this] show ?thesis by blast
qed

text \<open>
  The name under which a file is stored or offered has no directory part: it contains no slash
  and no backslash, is not empty and not one of the dot names, is the end of the name given (or
  \<open>file\<close>), and sanitizing it again changes nothing.
\<close>

theorem sanitized_filename:
  "CHR ''/'' \<notin> set (sanitizeFilename s) \<and> CHR 0x5C \<notin> set (sanitizeFilename s)
   \<and> sanitizeFilename s \<notin> {[], ''.'', ''..''}
   \<and> (sanitizeFilename s = ''file'' \<or> (\<exists>u. s = u @ sanitizeFilename s))
   \<and> sanitizeFilename (sanitizeFilename s) = sanitizeFilename s"
proof -
  let ?t = "after_last CHR 0x5C (after_last CHR ''/'' s)"
  obtain u v where uv: "s = u @ after_last CHR ''/'' s" "after_last CHR ''/'' s = v @ ?t"
    using after_last_suffix by metis
  have free: "CHR 0x5C \<notin> set ?t" "CHR ''/'' \<notin> set ?t"
    using after_last_free [of "CHR ''/''" s] after_last_free [of "CHR 0x5C"] uv(2) by (simp, metis Un_iff set_append)
  have suf: "s = (u @ v) @ ?t" using uv by simp
  have idem: "sanitizeFilename t = t" if "CHR 0x5C \<notin> set t" "CHR ''/'' \<notin> set t" "t \<notin> {[], ''.'', ''..''}" for t
    using that by (simp add: sanitizeFilename_def after_last_id)
  show ?thesis
  proof (cases "s = [] \<or> ?t \<in> {[], ''.'', ''..''}")
    case True
    then have "sanitizeFilename s = ''file''" by (auto simp: sanitizeFilename_def Let_def)
    then show ?thesis using idem [of "''file''"] by simp
  next
    case False
    then have "sanitizeFilename s = ?t" by (auto simp: sanitizeFilename_def Let_def)
    moreover have "\<exists>u. s = u @ ?t" using suf by (rule exI)
    ultimately show ?thesis using False free idem [of ?t] by simp
  qed
qed

text \<open>
  Unlocking with an empty passphrase hides the lock: the request is answered as a success, the
  app no longer says that it is locked, so the interface offers a first-run setup for a database
  that exists, and a setup request then makes the handler panic.
\<close>

theorem empty_unlock_hides_lock:
  assumes "meta_kdf (dk_db (o_disk X)) = Some ''argon2id''" "o_mkdir X = Inr ()" "\<not> o_busy X"
    and "dec_Passphrase (rq_Body rq) = Some []" "a_n a = None" "a_openErr a = Some ErrPassphraseRequired"
    and "dec_Name (rq_Body rq2) = Some name0" "ValidateName name0 = Inr name" "o_r1 X = Some priv"
  shows "snd (state X a) = writeJSON 200 (VSetup True)
    \<and> (\<exists>a'. unlock X rq a = (a', writeJSON 200 (VSetup False)) \<and> \<not> NeedsPassphrase a' \<and> setup_h X rq2 a' = (a', Aborted))"
proof -
  let ?shell = "\<lparr>a_cfg = (a_cfg a)\<lparr>ac_Passphrase := []\<rparr>, a_St = None, a_openErr = Some ErrPassphraseRequired, a_n = None,
    a_disc = la_d0 (o_L X)\<rparr>"
  have "Unlock (o_L X) (o_mkdir X) (o_busy X) (a_cfg a) [] (o_disk X) = Inr ?shell"
    using assms(1-3) by (simp add: Unlock_def Open_app_def OpenWithPassphrase_def Let_def)
  then have u: "unlock X rq a = (Replace a ?shell, writeJSON 200 (VSetup False))"
    using assms(4) by (simp add: unlock_def readJSON_def state_def Replace_def)
  have "setup_h X rq2 (Replace a ?shell) = (Replace a ?shell, Aborted)"
    using assms(7-9) by (simp add: setup_h_def readJSON_def Setup_def Replace_def Generate_Inr adopt_def errReply_def unless_panic_def)
  moreover have "\<not> NeedsPassphrase (Replace a ?shell)" by (simp add: NeedsPassphrase_def Replace_def)
  moreover have "snd (state X a) = writeJSON 200 (VSetup True)" using assms(5,6) by (simp add: state_def)
  ultimately show ?thesis using u by blast
qed

theorem empty_unlock_hides_lock_witness:
  "\<exists>a'. unlock sample_outside (sample_request\<lparr>rq_Body := one_field ''passphrase'' []\<rparr>)
       (sample_app\<lparr>a_St := None, a_openErr := Some ErrPassphraseRequired\<rparr>) = (a', writeJSON 200 (VSetup False))
     \<and> setup_h sample_outside (sample_request\<lparr>rq_Body := one_field ''name'' ''Ann''\<rparr>) a' = (a', Aborted)"
proof -
  have "dec_Passphrase (one_field ''passphrase'' []) = Some []" "dec_Name (one_field ''name'' ''Ann'') = Some ''Ann''"
    by (simp_all add: dec_one_field ValidString_ascii)
  then show ?thesis
    using empty_unlock_hides_lock [of sample_outside "sample_request\<lparr>rq_Body := one_field ''passphrase'' []\<rparr>"
        "sample_app\<lparr>a_St := None, a_openErr := Some ErrPassphraseRequired\<rparr>"
        "sample_request\<lparr>rq_Body := one_field ''name'' ''Ann''\<rparr>" "''Ann''" "''Ann''" sample_priv] ValidateName_Ann
    by (auto simp: sample_outside_def sample_app_def)
qed

text \<open>
  Mistakes of the client that are answered as failures of the server: asking for a file that
  does not exist, and renaming oneself to a name that is not allowed, both give status 500.
\<close>

theorem client_errors_reported_as_500:
  assumes "GetFile (n_store n) (pv ''id'') = Inl ErrFileNotFound"
    and "dec_Name (rq_Body rq) = Some name0" "ValidateName name0 = Inl e"
  shows "getFile_h pv n = (n, writeJSON 500 (VError ErrFileNotFound)) \<and> rename_h X rq (d, n) = ((d, n), writeJSON 500 (VError ErrBadName))"
  using assms by (simp add: getFile_h_def query_def answer_def FileMeta_def fail_def unless_panic_def rename_h_def readJSON_def Rename_def)

theorem client_errors_reported_as_500_witness:
  "getFile_h (\<lambda>_. ''x'') sample_node = (sample_node, writeJSON 500 (VError ErrFileNotFound))"
proof -
  have "dec_Name (one_field ''name'' []) = Some []" by (simp add: dec_one_field ValidString_ascii)
  then show ?thesis
    using client_errors_reported_as_500 [of sample_node "\<lambda>_. ''x''" "sample_request\<lparr>rq_Body := one_field ''name'' []\<rparr>" "[]"
        "Err ''name is empty''" sample_outside "la_d0 sample_launch"]
    by (simp add: sample_node_def New_def GetFile_def sample_store_def empty_db_def ValidateName_def TrimSpace_def Let_def)
qed

end
