(* ===== verification/Daemon.thy ===== *)
theory Daemon
  imports Api
begin

text \<open>
  The command \<open>cmd/chirpd\<close>: the check that the web interface listens on a loopback address only,
  and the start of the process up to the web server. \<open>net.ParseIP\<close> is the parser of
  \<open>net/netip\<close> (Go 1.23) over eight 16-bit groups; flag parsing, signals and the server loop are
  not modelled.
\<close>

section \<open>Parsing addresses\<close>

text \<open>
  \<open>parseIPv4Fields\<close>: the fields so far, the value and the number of digits of the current one.
  A dot with no digit before it is the first character or follows a dot.
\<close>

fun parseIPv4Fields :: "nat list \<Rightarrow> nat \<Rightarrow> nat \<Rightarrow> bytes \<Rightarrow> nat list option" where
  "parseIPv4Fields fs v digLen [] = (if length fs < 3 then None else Some (fs @ [v]))"
| "parseIPv4Fields fs v digLen (c # cs) =
     (if is_digit c then
        if digLen = 1 \<and> v = 0 then None
        else let v' = v * 10 + (of_char c - 48) in
          if v' > 255 then None else parseIPv4Fields fs v' (digLen + 1) cs
      else if c = CHR ''.'' then
        if digLen = 0 \<or> cs = [] then None
        else if length fs = 3 then None
        else parseIPv4Fields (fs @ [v]) 0 0 cs
      else None)"

definition hex_number :: "bytes \<Rightarrow> nat" where
  "hex_number s = fold (\<lambda>c acc. acc * 16 + (case hex_value c of None \<Rightarrow> 0 | Some v \<Rightarrow> v)) s 0"

lemma rest_shorter: "dropWhile P s = c # s1 \<Longrightarrow> length s1 < length s \<and> length s1 - Suc 0 < length s"
  using length_dropWhile_le [of P s] by auto

text \<open>
  The loop of \<open>parseIPv6\<close>: the groups so far, where the ellipsis stood, the rest of the text. An
  IPv4 address may stand for the last two groups.
\<close>

function ip6_groups :: "nat list \<Rightarrow> nat option \<Rightarrow> bytes \<Rightarrow> (nat list \<times> nat option \<times> bytes) option" where
  "ip6_groups gs ellipsis s =
     (if length gs \<ge> 8 then Some (gs, ellipsis, s)
      else let hx = takeWhile (\<lambda>c. hex_value c \<noteq> None) s; r = dropWhile (\<lambda>c. hex_value c \<noteq> None) s in
        if length hx > 4 \<or> hx = [] then None
        else (case r of
          [] \<Rightarrow> Some (gs @ [hex_number hx], ellipsis, [])
        | c # s1 \<Rightarrow>
            if c = CHR ''.'' then
              if (ellipsis = None \<and> length gs \<noteq> 6) \<or> length gs + 2 > 8 then None
              else (case parseIPv4Fields [] 0 0 s of
                  Some [a, b, c4, d] \<Rightarrow> Some (gs @ [256 * a + b, 256 * c4 + d], ellipsis, [])
                | _ \<Rightarrow> None)
            else if c \<noteq> CHR '':'' \<or> s1 = [] then None
            else let gs1 = gs @ [hex_number hx] in
              if hd s1 = CHR '':'' then
                if ellipsis \<noteq> None then None
                else if tl s1 = [] then Some (gs1, Some (length gs1), [])
                else ip6_groups gs1 (Some (length gs1)) (tl s1)
              else ip6_groups gs1 ellipsis s1))"
  by pat_completeness auto

termination
  by (relation "measure (\<lambda>(gs, e, s). length s)") (auto dest!: rest_shorter [OF sym])

declare ip6_groups.simps [simp del]

text \<open>\<open>parseIPv6\<close> without a zone; a text with a zone is no address for \<open>net.ParseIP\<close>.\<close>

definition parseIPv6 :: "bytes \<Rightarrow> ip6 option" where
  "parseIPv6 s =
     (if CHR ''%'' \<in> set s then None
      else let (ellipsis, s1) = (if take 2 s = ''::'' then (Some 0, drop 2 s) else (None, s)) in
        if take 2 s = ''::'' \<and> s1 = [] then Some (replicate 8 0)
        else case ip6_groups [] ellipsis s1 of
          None \<Rightarrow> None
        | Some (gs, ell, rest) \<Rightarrow>
            if rest \<noteq> [] then None
            else if length gs < 8 then
              (case ell of None \<Rightarrow> None | Some e \<Rightarrow> Some (take e gs @ replicate (8 - length gs) 0 @ drop e gs))
            else if ell \<noteq> None then None
            else Some gs)"

text \<open>\<open>net.ParseIP\<close>; an IPv4 address is the IPv6 address it maps to.\<close>

definition ParseIP :: "bytes \<Rightarrow> ip6 option" where
  "ParseIP s = (case find (\<lambda>c. c = CHR ''.'' \<or> c = CHR '':'' \<or> c = CHR ''%'') s of
     None \<Rightarrow> None
   | Some c \<Rightarrow>
       if c = CHR ''.'' then
         (case parseIPv4Fields [] 0 0 s of
            Some [a, b, c4, d] \<Rightarrow> Some (replicate 5 0 @ [0xFFFF, 256 * a + b, 256 * c4 + d])
          | _ \<Rightarrow> None)
       else if c = CHR '':'' then parseIPv6 s
       else None)"

definition ip6_IsLoopback :: "ip6 \<Rightarrow> bool" where
  "ip6_IsLoopback ip = (case To4 ip of
     Some a \<Rightarrow> IsLoopback a | None \<Rightarrow> ip = [0, 0, 0, 0, 0, 0, 0, 1])"

section \<open>The command\<close>

definition requireLoopback :: "string \<Rightarrow> unit result" where
  "requireLoopback addr = (case SplitHostPort addr of
     Inl e \<Rightarrow> Inl (ErrWrap ''bad --http address'' e)
   | Inr (host, _) \<Rightarrow>
       if host = ''localhost'' then Inr ()
       else (case ParseIP host of
           Some ip \<Rightarrow> if ip6_IsLoopback ip then Inr ()
             else Inl (ErrF ''--http must be a loopback address (got %q): the UI has no login, so it must not be reachable from the network'' [host])
         | None \<Rightarrow> Inl (ErrF ''--http must be a loopback address (got %q): the UI has no login, so it must not be reachable from the network'' [host])))"

record flags =
  fl_http :: string
  fl_listen :: string
  fl_name :: string
  fl_version :: bool

text \<open>
  \<open>run\<close> up to the web server: \<open>None\<close> when only the version was asked for; \<open>http_ln\<close> is the
  outcome of listening on the interface's address.
\<close>

definition run :: "'d launch \<Rightarrow> flags \<Rightarrow> unit result \<Rightarrow> bool \<Rightarrow> rnd \<Rightarrow> unit result \<Rightarrow> disk \<Rightarrow> 'd app option result" where
  "run L fl mkdir_res busy r http_ln dk =
     (if fl_version fl then Inr None
      else bindR (requireLoopback (fl_http fl)) (\<lambda>_.
        bindR (Open_app L mkdir_res busy \<lparr>ac_ListenAddr = fl_listen fl, ac_Passphrase = [], ac_Tune = (\<lambda>c. c)\<rparr> dk) (\<lambda>a.
        bindR (if a_n a = None \<and> fl_name fl \<noteq> [] then (case Setup L r (fl_name fl) a of (a1, Inl e) \<Rightarrow> Inl e | (a1, Inr _) \<Rightarrow> Inr a1)
               else Inr a) (\<lambda>a1.
        bindR http_ln (\<lambda>_. Inr (Some a1))))))"

section \<open>Which addresses are served\<close>

lemma is_digit_char [simp]: "d < (10 :: nat) \<Longrightarrow> is_digit (char_of (48 + d))"
  by (simp add: is_digit_def)

lemma digit_value [simp]: "d < (10 :: nat) \<Longrightarrow> (of_char (char_of (48 + d) :: char) :: nat) = 48 + d"
  by simp

lemma Itoa_three:
  assumes "0 < x" "x < 10" "y < 10" "z < 10"
  shows "Itoa (100 * x + 10 * y + z) = [char_of (48 + x), char_of (48 + y), char_of (48 + z)]"
proof -
  have e: "100 * x + 10 * y + z = z + 10 * (10 * x + y)" "10 * x + y = y + 10 * x" by simp_all
  have g: "i < 10 \<Longrightarrow> (i + 10 * k) div 10 = k" "i < 10 \<Longrightarrow> (i + 10 * k) mod 10 = i" for i k :: nat by simp_all
  have "(100 * x + 10 * y + z) div 10 = 10 * x + y" "(100 * x + 10 * y + z) mod 10 = z"
    unfolding e(1) using assms(4) by (rule g)+
  moreover have "(10 * x + y) div 10 = x" "(10 * x + y) mod 10 = y"
    unfolding e(2) using assms(3) by (rule g)+
  ultimately show ?thesis using assms
    by (simp add: Itoa.simps [of "100 * x + 10 * y + z"] Itoa.simps [of "10 * x + y"] Itoa.simps [of x])
qed

lemma parse_octet:
  assumes "v < 256"
  shows "\<exists>dl. parseIPv4Fields fs 0 0 (Itoa v @ rest) = parseIPv4Fields fs v (Suc dl) rest"
proof -
  consider "v < 10" | "10 \<le> v" "v < 100" | "100 \<le> v" by linarith
  then show ?thesis
  proof cases
    case 1
    then show ?thesis using assms by (intro exI [of _ 0]) (simp add: Itoa.simps)
  next
    case 2
    then have "v div 10 < 10" "v mod 10 < 10" "v div 10 \<noteq> 0" by auto
    with 2 assms show ?thesis by (intro exI [of _ 1]) (simp add: Itoa.simps [of v] Itoa.simps [of "v div 10"] Let_def)
  next
    case 3
    obtain x y z where v: "v = 100 * x + 10 * y + z" "0 < x" "x < 10" "y < 10" "z < 10"
    proof
      have "v = 10 * (v div 10) + v mod 10" "v div 10 = 10 * (v div 10 div 10) + v div 10 mod 10" by simp_all
      then show "v = 100 * (v div 10 div 10) + 10 * (v div 10 mod 10) + v mod 10" by linarith
    qed (use 3 assms in auto)
    moreover have "x * 10 + y < 256" "(x * 10 + y) * 10 + z = 100 * x + 10 * y + z" using v(1) assms by simp_all
    ultimately show ?thesis using assms unfolding v(1) Itoa_three [OF v(2-5)]
      by (intro exI [of _ "Suc (Suc 0)"]) (simp add: Let_def mult.commute [of y])
  qed
qed

lemma not_digit_dot [simp]: "\<not> is_digit CHR ''.''"
  by (simp add: is_digit_def)

lemma parse_octet_dot:
  assumes "v < 256" "rest \<noteq> []" "length fs < 3"
  shows "parseIPv4Fields fs 0 0 (Itoa v @ CHR ''.'' # rest) = parseIPv4Fields (fs @ [v]) 0 0 rest"
  using parse_octet [OF assms(1), of fs "CHR ''.'' # rest"] assms(2,3) by auto

lemma parseIPv4_ip_String:
  assumes "a < 256" "b < 256" "c < 256" "d < 256"
  shows "parseIPv4Fields [] 0 0 (ip_String (IP4 a b c d)) = Some [a, b, c, d]"
  using assms parse_octet [OF assms(4), of "[a, b, c]" "[]"] by (auto simp: parse_octet_dot)

lemma find_dot: "find (\<lambda>c. c = CHR ''.'' \<or> c = CHR '':'' \<or> c = CHR ''%'') (Itoa v @ CHR ''.'' # s) = Some CHR ''.''"
proof -
  have "filter (\<lambda>c. c = CHR ''.'' \<or> c = CHR '':'' \<or> c = CHR ''%'') (Itoa v) = []"
    using set_Itoa [of _ v] by (fastforce simp: filter_empty_conv)
  then show ?thesis by (simp add: find_dropWhile dropWhile_append3 filter_empty_conv)
qed

lemma ParseIP_ip_String:
  assumes "a < 256" "b < 256" "c < 256" "d < 256"
  shows "ParseIP (ip_String (IP4 a b c d)) = Some (replicate 5 0 @ [0xFFFF, 256 * a + b, 256 * c + d])"
proof -
  have "find (\<lambda>c. c = CHR ''.'' \<or> c = CHR '':'' \<or> c = CHR ''%'') (ip_String (IP4 a b c d)) = Some CHR ''.''"
    using find_dot by simp
  then show ?thesis unfolding ParseIP_def parseIPv4_ip_String [OF assms] by simp
qed

lemma mapped_IsLoopback: "b < 256 \<Longrightarrow> ip6_IsLoopback (replicate 5 0 @ [0xFFFF, 256 * a + b, x]) \<longleftrightarrow> a = 127"
  by (simp add: ip6_IsLoopback_def To4_def nth_append)

lemma ParseIP_loopback6: "ParseIP ''::1'' = Some [0, 0, 0, 0, 0, 0, 0, 1]"
proof -
  have "ip6_groups [] (Some 0) ''1'' = Some ([1], Some 0, [])"
    by (subst ip6_groups.simps) (simp add: hex_number_def hex_value_def)
  moreover have "replicate 7 (0 :: nat) = [0, 0, 0, 0, 0, 0, 0]" by (simp add: numeral_eq_Suc)
  ultimately show ?thesis by (simp add: ParseIP_def parseIPv6_def)
qed

text \<open>
  C17. The daemon serves its interface, which has no login, on a loopback address only: if it gets
  as far as serving, the address it was given is \<open>localhost\<close> or parses as a loopback address.
  Of the dotted addresses exactly those of the form 127.x.y.z pass, as do \<open>localhost\<close> and \<open>[::1]\<close>;
  the unspecified address and an empty host do not.
\<close>

theorem served_on_loopback_only:
  assumes "plain_part port"
  shows "(run L fl mk busy r web dk = Inr (Some a) \<longrightarrow> (\<exists>host p. SplitHostPort (fl_http fl) = Inr (host, p)
      \<and> (host = ''localhost'' \<or> (\<exists>ip. ParseIP host = Some ip \<and> ip6_IsLoopback ip))))
    \<and> (\<forall>w x y z. w < 256 \<longrightarrow> x < 256 \<longrightarrow> y < 256 \<longrightarrow> z < 256 \<longrightarrow>
        (requireLoopback (JoinHostPort (ip_String (IP4 w x y z)) port) = Inr () \<longleftrightarrow> w = 127))
    \<and> requireLoopback (JoinHostPort ''localhost'' port) = Inr () \<and> requireLoopback (JoinHostPort ''::1'' port) = Inr ()
    \<and> requireLoopback (JoinHostPort [] port) \<noteq> Inr ()"
proof (intro conjI allI impI)
  note split = SplitHostPort_JoinHostPort [OF _ assms]
  show "\<exists>host p. SplitHostPort (fl_http fl) = Inr (host, p) \<and> (host = ''localhost'' \<or> (\<exists>ip. ParseIP host = Some ip \<and> ip6_IsLoopback ip))"
    if "run L fl mk busy r web dk = Inr (Some a)"
    using that by (auto simp: run_def bindR_eq_Inr requireLoopback_def split: if_splits sum.splits prod.splits option.splits)
  show "requireLoopback (JoinHostPort (ip_String (IP4 w x y z)) port) = Inr () \<longleftrightarrow> w = 127"
    if "w < 256" "x < 256" "y < 256" "z < 256" for w x y z
  proof -
    have "ip_String (IP4 w x y z) \<noteq> ''localhost''"
      using parseIPv4_ip_String [OF that] by (auto simp: is_digit_def simp del: ip_String.simps)
    then show ?thesis using split [OF unbracketed_ip, of "IP4 w x y z"] mapped_IsLoopback [OF that(2), of w]
      by (simp add: requireLoopback_def ParseIP_ip_String [OF that] del: ip_String.simps)
  qed
  show "requireLoopback (JoinHostPort ''localhost'' port) = Inr ()" using split [of "''localhost''"] by (simp add: requireLoopback_def)
  show "requireLoopback (JoinHostPort ''::1'' port) = Inr ()"
    using split [of "''::1''"] by (simp add: requireLoopback_def ParseIP_loopback6 ip6_IsLoopback_def To4_def numeral_nat)
  show "requireLoopback (JoinHostPort [] port) \<noteq> Inr ()" using split [of "[]"] by (simp add: requireLoopback_def ParseIP_def)
qed

theorem served_on_loopback_only_witness:
  "requireLoopback (JoinHostPort (ip_String (IP4 127 0 0 1)) ''7777'') = Inr () \<and> requireLoopback (JoinHostPort (ip_String (IP4 0 0 0 0)) ''7777'') \<noteq> Inr ()"
proof -
  have "plain_part ''7777''" by (simp add: plain_part_def)
  note w = served_on_loopback_only [OF this, THEN conjunct2, THEN conjunct1, rule_format]
  show ?thesis using w [of 127 0 0 1] w [of 0 0 0 0] by (simp del: ip_String.simps)
qed

text \<open>
  Starting with \<open>--name\<close> on a database that is locked by a passphrase: the app is a shell without
  a store, and the setup that the name asks for follows its nil pointer.
\<close>

theorem named_start_panics_when_locked:
  assumes "\<not> fl_version fl" "requireLoopback (fl_http fl) = Inr ()" "mk = Inr ()" "\<not> busy" "meta_kdf (dk_db dk) = Some ''argon2id''"
    and "fl_name fl \<noteq> []" "ValidateName (fl_name fl) = Inr name"
  shows "\<exists>m. run L fl mk busy (Some priv) web dk = Inl (Panic m)"
  using assms by (simp add: run_def Open_app_def OpenWithPassphrase_def Setup_def adopt_def Generate_def GenerateKeypair_def Let_def)

end
