(* ===== verification/Demo.thy ===== *)
theory Demo
  imports Daemon Node_Steps
begin

text \<open>
  The command \<open>cmd/demo\<close>: the real application beside scripted bots on an in-memory discovery
  hub. A bot's node is a node like any other; the scripts around it are modelled, and what the
  node does while a script waits is a function argument. Random choices and the outcomes of
  \<open>net.Listen\<close> and of opening the database file are arguments; the web server is not modelled.
\<close>

section \<open>Start of the demo\<close>

record demo_flags =
  df_http :: string
  df_name :: string
  df_onboard :: bool

definition demo_http :: "string \<Rightarrow> unit result" where
  "demo_http addr = (case SplitHostPort addr of
     Inl _ \<Rightarrow> Inl (Err ''--http must be a loopback ip:port'')
   | Inr (host, _) \<Rightarrow> (case ParseIP host of
       None \<Rightarrow> Inl (Err ''--http must be a loopback ip:port'')
     | Some ip \<Rightarrow> if ip6_IsLoopback ip then Inr () else Inl (Err ''--http must be a loopback ip:port'')))"

text \<open>A member of the hub before it browses or announces.\<close>

definition hub_New :: "hub \<Rightarrow> hub \<times> nat \<times> nat list" where
  "hub_New h = (h, 0, [])"

text \<open>\<open>main\<close> up to the bots; the data directory is a new temporary one.\<close>

definition demo_main ::
    "(hub \<times> nat \<times> nat list) launch \<Rightarrow> demo_flags \<Rightarrow> unit result \<Rightarrow> unit result \<Rightarrow> rnd \<Rightarrow> (hub \<times> nat \<times> nat list) app result" where
  "demo_main L fl mktemp mkdir_res r =
     bindR (demo_http (df_http fl)) (\<lambda>_.
     bindR mktemp (\<lambda>_.
     bindR (Open_app (L\<lparr>la_d0 := hub_New NewHub\<rparr>) mkdir_res False
        \<lparr>ac_ListenAddr = ''127.0.0.1:0'', ac_Passphrase = [], ac_Tune = (\<lambda>c. c)\<rparr> \<lparr>dk_db = empty_db, dk_files = Map.empty\<rparr>) (\<lambda>a.
       if df_onboard fl then Inr a
       else case Setup (L\<lparr>la_d0 := hub_New NewHub\<rparr>) r (df_name fl) a of (a1, Inl e) \<Rightarrow> Inl e | (a1, Inr _) \<Rightarrow> Inr a1)))"

section \<open>Bots\<close>

definition botNames :: "string list" where
  "botNames = [''Alex Rivera'', ''Sam Okafor'', ''Priya N.'', ''Dana Kim'']"

definition replies :: "string list" where
  "replies = [''Sounds good, see you at 3.'', ''Can you also bring the HDMI adapter?'', ''Ha, yes. Working on it now.'',
     ''Nice. That went through without any server at all.'', ''Got it.'']"

definition bot_cfg :: config where
  "bot_cfg = \<lparr>ListenAddr = ''127.0.0.1:0'', PingEvery = 0, DeadAfter = 0, RetryBase = 0, RetryMax = 0, DialTick = 0\<rparr>"

text \<open>The database of a bot is opened without a key; \<open>opened\<close> is the outcome of opening the file.\<close>

definition newBot :: "env \<Rightarrow> unit result \<Rightarrow> disk \<Rightarrow> string \<Rightarrow> ident option \<Rightarrow> rnd \<Rightarrow> node result" where
  "newBot E opened dk name ido r =
     bindR opened (\<lambda>_. bindR (Open (dk_db dk) (dk_files dk)) (\<lambda>st.
     bindR (case ido of Some i \<Rightarrow> Inr i | None \<Rightarrow> Generate E r name) (\<lambda>i.
       Inr (New E bot_cfg st i))))"

text \<open>
  \<open>autoReply\<close>: an event taken from the subscription starts an answer to an inbound message; the
  answer goes out after a delay, as one of the canned replies. \<open>peers\<close> are the answers under way.
\<close>

definition autoReply_event :: "event \<Rightarrow> string list" where
  "autoReply_event e = (case ev_Message e of
     Some m \<Rightarrow> if ev_Type e = ''message'' \<and> m_Dir m = DirIn then [ev_Peer e] else []
   | None \<Rightarrow> [])"

definition autoReply_take :: "nat \<Rightarrow> node \<times> string list \<Rightarrow> node \<times> string list" where
  "autoReply_take sub = (\<lambda>(n, peers). case receive sub n of
     (n1, None) \<Rightarrow> (n1, peers)
   | (n1, Some e) \<Rightarrow> (n1, peers @ autoReply_event e))"

definition autoReply_send :: "world \<Rightarrow> nat \<Rightarrow> string \<Rightarrow> node \<times> string list \<Rightarrow> node \<times> string list" where
  "autoReply_send W pick peer = (\<lambda>(n, peers).
     if peer \<in> set peers then (fst (Send_node W peer (replies ! (pick mod length replies)) n), remove1 peer peers)
     else (n, peers))"

text \<open>\<open>demoAttachment\<close>: lines are appended until there are 400 KB.\<close>

definition demo_line :: bytes where
  "demo_line = ''14:02  agreed: the daemon stays on loopback, the UI talks to it over SSE'' @ [CHR 0x0A]"

function attachment_loop :: "bytes \<Rightarrow> bytes" where
  "attachment_loop b = (if length b < 400 * 2 ^ 10 then attachment_loop (b @ demo_line) else b)"
  by pat_completeness auto

termination
  by (relation "measure (\<lambda>b. 400 * 2 ^ 10 - length b)") (auto simp: demo_line_def)

declare attachment_loop.simps [simp del]

definition demoAttachment :: bytes where
  "demoAttachment = attachment_loop []"

text \<open>
  The greeting of \<open>bot\<close>: at most sixty polls of the contact list, the first online contact that is
  not a bot gets a message and, after a pause, a file; an error of the file is logged outside.
\<close>

record poll =
  po_idle :: "node \<Rightarrow> node"              \<comment> \<open>the node during the half second before the poll\<close>
  po_W :: world
  po_orders :: "string list \<times> string list"
  po_pause :: "node \<Rightarrow> node"             \<comment> \<open>the node between message and file\<close>
  po_W' :: world

definition stranger :: "peerView \<Rightarrow> bool" where
  "stranger p \<longleftrightarrow> pv_Online p \<and> pv_Name p \<notin> set botNames"

fun greet_loop :: "poll list \<Rightarrow> node \<Rightarrow> node" where
  "greet_loop [] n = n"
| "greet_loop (po # pos) n0 = (let n = po_idle po n0;
       ps = (case Peers (w_env (po_W po)) (fst (po_orders po)) (snd (po_orders po)) n of Inl _ \<Rightarrow> [] | Inr ps \<Rightarrow> ps)
     in case find stranger ps of
          None \<Rightarrow> greet_loop pos n
        | Some p \<Rightarrow> let n1 = fst (Send_node (po_W po) (pv_Name p) ''Hey, are you on the same Wi-Fi? Just testing Chirp.'' n)
            in fst (SendFile (po_W' po) (pv_Name p) ''meeting-notes.txt'' demoAttachment (po_pause po n1)))"

definition greet :: "poll list \<Rightarrow> node \<Rightarrow> node" where
  "greet pos n = greet_loop (take 60 pos) n"

section \<open>Lifetimes\<close>

text \<open>What the hub's goroutines do once a member's context is done.\<close>

definition hub_done :: "hub \<times> nat \<times> nat list \<Rightarrow> hub" where
  "hub_done = (\<lambda>(h, self, own). fold (\<lambda>i h. case h_announce h i of
     None \<Rightarrow> h | Some a \<Rightarrow> hub_withdraw self i a h) own (hub_leave self h))"

text \<open>From \<open>Start\<close> to \<open>Stop\<close>; \<open>run\<close> is all that happens between, the scripts included.\<close>

record lifetime =
  lt_W :: world
  lt_order :: "nat list"
  lt_listen :: "(string \<times> int) result"
  lt_run :: "(hub \<times> nat \<times> nat list) \<times> node \<Rightarrow> (hub \<times> nat \<times> nat list) \<times> node"

definition live_once :: "lifetime \<Rightarrow> hub \<Rightarrow> node \<Rightarrow> hub \<times> node result" where
  "live_once lt h n = (case Start (lt_W lt) (hub_discovery (lt_order lt)) (lt_listen lt) (hub_New h) n of
     ((d, n1), Inl e) \<Rightarrow> (fst d, Inl e)
   | ((d, n1), Inr _) \<Rightarrow> (case lt_run lt (d, n1) of (d', n2) \<Rightarrow> (hub_done d', Inr (Stop n2))))"

definition bot_life :: "lifetime \<Rightarrow> unit result \<Rightarrow> disk \<Rightarrow> string \<Rightarrow> rnd \<Rightarrow> hub \<Rightarrow> hub \<times> node result" where
  "bot_life lt opened dk name r h = (case newBot (w_env (lt_W lt)) opened dk name None r of
     Inl e \<Rightarrow> (h, Inl e) | Inr n \<Rightarrow> live_once lt h n)"

text \<open>\<open>flaky\<close>: one store and identity, and a new node for every window online.\<close>

fun flaky_loop :: "lifetime list \<Rightarrow> ident \<Rightarrow> hub \<Rightarrow> store \<Rightarrow> hub \<times> store" where
  "flaky_loop [] ide h st = (h, st)"
| "flaky_loop (lt # lts) ide h st = (case live_once lt h (New (w_env (lt_W lt)) bot_cfg st ide) of
     (h1, Inl e) \<Rightarrow> (h1, st)
   | (h1, Inr n) \<Rightarrow> flaky_loop lts ide h1 (n_store n))"

definition flaky :: "env \<Rightarrow> lifetime list \<Rightarrow> unit result \<Rightarrow> disk \<Rightarrow> string \<Rightarrow> rnd \<Rightarrow> hub \<Rightarrow> hub \<times> store result" where
  "flaky E lts opened dk name r h = (case bindR opened (\<lambda>_. Open (dk_db dk) (dk_files dk)) of
     Inl e \<Rightarrow> (h, Inl e)
   | Inr st \<Rightarrow> (case Generate E r name of
       Inl _ \<Rightarrow> (h, Inl (Panic ''nil pointer dereference''))
     | Inr ide \<Rightarrow> (case flaky_loop lts ide h st of (h1, st1) \<Rightarrow> (h1, Inr st1))))"

text \<open>\<open>impostor\<close>: the same name with another key and database; \<open>cancelled\<close> says the demo ended in the first life.\<close>

definition impostor ::
    "lifetime \<Rightarrow> lifetime \<Rightarrow> unit result \<Rightarrow> unit result \<Rightarrow> disk \<Rightarrow> disk \<Rightarrow> string \<Rightarrow> rnd \<Rightarrow> rnd \<Rightarrow> bool \<Rightarrow> hub \<Rightarrow> hub \<times> node result" where
  "impostor lt lt2 opened opened2 dk dk2 name r r2 cancelled h = (case bot_life lt opened dk name r h of
     (h1, Inl e) \<Rightarrow> (h1, Inl e)
   | (h1, Inr n) \<Rightarrow> if cancelled then (h1, Inr n) else bot_life lt2 opened2 dk2 name r2 h1)"

section \<open>The attachment\<close>

lemma length_demo_line: "length demo_line = 73"
  by (simp add: demo_line_def)

lemma attachment_loop_steps:
  "length b + 73 * k < 400 * 2 ^ 10 + 73 \<Longrightarrow> attachment_loop b = attachment_loop (b @ concat (replicate k demo_line))"
proof (induction k arbitrary: b)
  case (Suc k)
  then have "attachment_loop b = attachment_loop (b @ demo_line)" by (subst attachment_loop.simps) simp
  also have "\<dots> = attachment_loop ((b @ demo_line) @ concat (replicate k demo_line))"
    by (rule Suc.IH) (use Suc.prems in \<open>simp add: length_demo_line\<close>)
  finally show ?case by simp
qed simp

lemma length_lines: "length (concat (replicate k demo_line)) = 73 * k"
  by (induction k) (simp_all add: length_demo_line)

text \<open>The loop ends with 5611 lines: fewer than 400 KB would not do, and the file takes thirteen chunks.\<close>

lemma demoAttachment_lines: "demoAttachment = concat (replicate 5611 demo_line)"
proof -
  have "demoAttachment = attachment_loop (concat (replicate 5611 demo_line))"
    unfolding demoAttachment_def by (subst attachment_loop_steps [of _ 5611]) simp_all
  also have "\<dots> = concat (replicate 5611 demo_line)"
    by (subst attachment_loop.simps) (simp only: length_lines, simp)
  finally show ?thesis .
qed

lemma length_demoAttachment: "length demoAttachment = 409603"
  unfolding demoAttachment_lines length_lines by simp

lemma demoAttachment_chunks:
  "demoAttachment \<noteq> []" "int (length demoAttachment) \<le> MaxFileSize" "(length demoAttachment + ChunkSize - 1) div ChunkSize = 13"
  using length_demoAttachment by (auto simp: MaxFileSize_def ChunkSize_def)

section \<open>Scripts and flags\<close>

lemma demo_http_requireLoopback: "demo_http addr = Inr () \<Longrightarrow> requireLoopback addr = Inr ()"
  by (auto simp: demo_http_def requireLoopback_def split: sum.splits option.splits if_splits)

text \<open>No bot is refused for what it says.\<close>

lemma replies_sendable: "list_all (\<lambda>b. b \<noteq> [] \<and> length b \<le> MaxBody \<and> ValidString b) replies"
  by (simp add: replies_def MaxBody_def ValidString_ascii)

section \<open>What the impostor meets\<close>

text \<open>The connection on which a node presents itself.\<close>

definition presents :: "node \<Rightarrow> 'c conn \<Rightarrow> bool" where
  "presents b sc \<longleftrightarrow> c_RemoteKey sc = Public (i_Key (n_id b)) \<and> c_RemoteName sc = i_Name (n_id b)"

lemma newBot_name: "newBot E opened dk name None r = Inr b \<Longrightarrow> ValidateName name = Inr (i_Name (n_id b))"
  by (auto simp: newBot_def Generate_def bindR_def New_def split: sum.splits)

lemma session_end_fields: "n_store (session_end W l n) = n_store n" "n_id (session_end W l n) = n_id n"
  by (simp_all add: session_end_def Let_def close_def set_link_def emit_def logf_def)

text \<open>A handshake without an expected fingerprint does what the trust automaton does with the key.\<close>

lemma establish_tofu:
  assumes "trust_inv (w_env W) (n_store n)" "observation_ok (w_nonce W, c_RemoteKey sc, w_now W)"
    "c_RemoteKey sc \<noteq> Public (i_Key (n_id n))" "m = fst (establish W (Inr sc) addr d [] n)"
  obtains ok where "tofu_observe (c_RemoteKey sc) (trust_of (w_env W) (n_store n) (c_RemoteName sc))
      = (trust_of (w_env W) (n_store m) (c_RemoteName sc), ok)"
    "trust_inv (w_env W) (n_store m)" "n_id m = n_id n" "ok \<longleftrightarrow> \<not> isl (snd (establish W (Inr sc) addr d [] n))"
proof -
  let ?E = "w_env W" and ?x = "(w_nonce W, c_RemoteKey sc, w_now W)" and ?name = "c_RemoteName sc"
  obtain s' p ok where ob: "Observe ?E (w_nonce W) (n_store n) ?name (c_RemoteKey sc) (w_now W) = (s', Inr (p, ok))" "trust_inv ?E s'"
    by (rule Observe_establishes [OF assms(1,2)]) blast
  have st: "observe_step ?E (n_store n) ?name ?x = (s', ok)" by (simp add: observe_step_def ob(1))
  have m: "n_store m = s'" "ok \<longleftrightarrow> \<not> isl (snd (establish W (Inr sc) addr d [] n))"
    using establish_refused [OF assms(3), of "[]" W s' p addr d] establish_accepted [OF assms(3), of "[]" W s' p addr d] ob(1) assms(4)
    by (cases ok; auto)+
  show thesis
  proof (rule that)
    show "tofu_observe (c_RemoteKey sc) (trust_of ?E (n_store n) ?name) = (trust_of ?E (n_store m) ?name, ok)"
      using pins.observe_spec [OF assms(1,2), of ?name] by (simp add: st m(1))
  qed (use ob(2) m assms(4) in \<open>simp_all add: establish_id\<close>)
qed

section \<open>Properties\<close>

text \<open>
  C7. What the demo is there to show: a bot comes online, is met, leaves, and comes back under its
  name with another key. The user's node opens a session with the first, refuses the second,
  keeps the first key pinned with the second one held for review, and refuses to send anything
  to that name, text or file, without changing anything.
\<close>

theorem impostor_is_caught:
  assumes "newBot E o1 dk1 name None r1 = Inr b1" "newBot E o2 dk2 name None r2 = Inr b2"
    "presents b1 sc1" "presents b2 sc2" "c_RemoteKey sc1 \<noteq> c_RemoteKey sc2"
    and "trust_inv E (n_store n)" "trust_of E (n_store n) (c_RemoteName sc1) = Unknown"
    "w_env W1 = E" "observation_ok (w_nonce W1, c_RemoteKey sc1, w_now W1)" "c_RemoteKey sc1 \<noteq> Public (i_Key (n_id n))"
    "w_env W2 = E" "observation_ok (w_nonce W2, c_RemoteKey sc2, w_now W2)" "c_RemoteKey sc2 \<noteq> Public (i_Key (n_id n))"
    and "n1 = session_end W l (fst (establish W1 (Inr sc1) addr1 d1 [] n))" "n2 = fst (establish W2 (Inr sc2) addr2 d2 [] n1)"
    and "w_env W3 = E" "body \<noteq> []" "length body \<le> 4096" "ValidString body"
  shows "\<not> isl (snd (establish W1 (Inr sc1) addr1 d1 [] n)) \<and> isl (snd (establish W2 (Inr sc2) addr2 d2 [] n1))
    \<and> trust_of E (n_store n2) (c_RemoteName sc2) = Pinned (c_RemoteKey sc1) False (Some (c_RemoteKey sc2))
    \<and> Send_node W3 (c_RemoteName sc2) body n2 = (n2, Inl ErrKeyChanged)
    \<and> SendFile W3 (c_RemoteName sc2) file data n2 = (n2, Inl ErrKeyChanged)"
proof -
  have name: "c_RemoteName sc2 = c_RemoteName sc1"
    using newBot_name [OF assms(1)] newBot_name [OF assms(2)] assms(3,4) by (simp add: presents_def)
  let ?m = "fst (establish W1 (Inr sc1) addr1 d1 [] n)"
  obtain ok1 where e1: "tofu_observe (c_RemoteKey sc1) (trust_of E (n_store n) (c_RemoteName sc1)) = (trust_of E (n_store ?m) (c_RemoteName sc1), ok1)"
    "trust_inv E (n_store ?m)" "n_id ?m = n_id n" "ok1 \<longleftrightarrow> \<not> isl (snd (establish W1 (Inr sc1) addr1 d1 [] n))"
    using establish_tofu [of W1 n sc1 ?m addr1 d1] assms(6,8-10) by auto
  have t1: "trust_of E (n_store n1) (c_RemoteName sc2) = Pinned (c_RemoteKey sc1) False None" "trust_inv E (n_store n1)" "n_id n1 = n_id n"
    using e1 assms(7,14) by (simp_all add: session_end_fields name)
  obtain ok2 where e2: "tofu_observe (c_RemoteKey sc2) (trust_of E (n_store n1) (c_RemoteName sc2)) = (trust_of E (n_store n2) (c_RemoteName sc2), ok2)"
    "trust_inv E (n_store n2)" "ok2 \<longleftrightarrow> \<not> isl (snd (establish W2 (Inr sc2) addr2 d2 [] n1))"
    using establish_tofu [of W2 n1 sc2 n2 addr2 d2] t1(2,3) assms(11-13,15) by auto
  then have t2: "trust_of E (n_store n2) (c_RemoteName sc2) = Pinned (c_RemoteKey sc1) False (Some (c_RemoteKey sc2))" "\<not> ok2"
    using t1(1) assms(5) by auto
  then have "sendable_peer W3 n2 (c_RemoteName sc2) = Inl ErrKeyChanged"
    using sendable_peer_trust [of W3 n2 "c_RemoteName sc2"] e2(2) assms(16) by simp
  then show ?thesis
    using t2 e1(1,4) e2(3) assms(7,17-19) by (simp add: Send_node_def SendReply_def SendFile_def MaxBody_def)
qed

text \<open>Two lives of the bot Dana Kim.\<close>

definition sample_bot :: "bytes \<Rightarrow> node" where
  "sample_bot priv = New sample_env bot_cfg (openStore empty_db Map.empty None None)
     \<lparr>i_Name = ''Dana Kim'', i_Key = \<lparr>Private = priv, Public = rev priv\<rparr>\<rparr>"

lemma sample_newBot:
  "newBot sample_env (Inr ()) \<lparr>dk_db = empty_db, dk_files = Map.empty\<rparr> ''Dana Kim'' None (Some priv) = Inr (sample_bot priv)"
proof -
  have "ValidateName ''Dana Kim'' = Inr ''Dana Kim''"
    by (simp add: ValidateName_def TrimSpace_def Let_def runes_ascii RuneCountInString_def segs_ascii MaxNameLen_def IsSpace_def)
  then show ?thesis
    by (simp add: newBot_def Open_def PassphraseSet_def empty_db_def Generate_def GenerateKeypair_def sample_bot_def sample_env_def)
qed

abbreviation dana :: "bytes \<Rightarrow> nat conn" where "dana key \<equiv> sample_conn key ''Dana Kim''"

theorem impostor_is_caught_witness:
  "\<exists>n1 n2. n1 = session_end sample_world 0 (fst (establish sample_world (Inr (dana ''key-B'')) [] False [] sample_node))
     \<and> n2 = fst (establish sample_world (Inr (dana ''key-C'')) [] False [] n1)
     \<and> trust_of sample_env (n_store n2) ''Dana Kim'' = Pinned ''key-B'' False (Some ''key-C'')
     \<and> Send_node sample_world ''Dana Kim'' ''hi'' n2 = (n2, Inl ErrKeyChanged)"
proof -
  have own: "''key-B'' \<noteq> Public (i_Key (n_id sample_node))" "''key-C'' \<noteq> Public (i_Key (n_id sample_node))"
    by (auto simp: sample_node_def New_def toy_ident_def dest: arg_cong [of _ _ length])
  have p: "presents (sample_bot ''B-yek'') (dana ''key-B'')" "presents (sample_bot ''C-yek'') (dana ''key-C'')"
    by (simp_all add: presents_def sample_bot_def sample_conn_def New_def)
  have o: "observation_ok (w_nonce sample_world, ''key-B'', t)" "observation_ok (w_nonce sample_world, ''key-C'', t)" for t
    by (simp_all add: sample_world_def observation_ok_def IsEncrypted_def magic_def)
  have u: "trust_of sample_env (n_store sample_node) ''Dana Kim'' = Unknown" "trust_inv sample_env (n_store sample_node)"
    by (simp_all add: sample_node_def New_def trust_of_def sample_store_def empty_db_def sample_store_ok [unfolded sample_store_def empty_db_def])
  have f: "w_env sample_world = sample_env" "c_RemoteKey (dana k) = k" "c_RemoteName (dana k) = ''Dana Kim''" for k
    by (simp_all add: sample_world_def sample_conn_def)
  show ?thesis
    using impostor_is_caught [OF sample_newBot sample_newBot p, of sample_node sample_world sample_world _ sample_world 0 "[]" False _ "[]" False
        sample_world "''hi''" "[]" "[]"] own o u f
    by (simp add: ValidString_ascii)
qed

end
