(* ===== verification/Spec2Isabelle.thy ===== *)
theory Spec2Isabelle
  imports Delivery File_Transfer Room_Auth Node_Steps Wire_Size Daemon Demo
begin

text \<open>
  Chirp: a verified model of a serverless messenger for the local network.

  \<^bold>\<open>The program.\<close> \<open>chirpd\<close> is one process per person. A node announces itself on the local network
  (\<open>internal/discovery\<close>), dials the peers it hears of, and runs an authenticated, encrypted session
  with each (\<open>internal/session\<close> over the frames of \<open>internal/proto\<close>). The first key seen under a
  name is pinned (\<open>internal/store\<close>); messages, room messages and files wait in outboxes until the
  recipient's session acknowledges them (\<open>internal/node\<close>). Everything is kept in an embedded
  database, encrypted under keys derived from the identity (\<open>internal/crypto\<close>,
  \<open>internal/identity\<close>). A web interface on a loopback address (\<open>internal/api\<close>, \<open>internal/app\<close>,
  \<open>cmd/chirpd\<close>) is the only way a user drives it.

  \<^bold>\<open>Conventions.\<close> A Go string or byte slice is a list of 8-bit characters; a result with an error is
  \<open>err + 'a\<close>, a panic being the error \<open>Panic\<close>; times and durations are integers of nanoseconds;
  sequence numbers and the retry shift keep their 64 bits. An operation that changes a struct
  takes and returns its record. Names are those of the source, with a suffix where a node's method
  and a store's share one (\<open>_node\<close>) and for the HTTP handlers (\<open>_h\<close>). A loop body run by a
  goroutine is one function; interleaving is the order in which steps are composed. The clock, the
  random source, the network's verdict on each send and the outcome of each handshake come in
  through the record \<open>world\<close>, so that theorems hold for all of them.

  \<^bold>\<open>Parameters.\<close> \<open>Platform.env\<close> holds the Unicode tables, SHA-256, the AEAD, the key derivations and
  the public-key function; \<open>session_env\<close> the Noise library; \<open>discovery\<close> the
  multicast backend; \<open>outside\<close> what an HTTP handler meets
  (URL, multipart and MIME parsing, the state of the disk). What the code relies on is a named
  hypothesis (\<open>aead_ok\<close>, \<open>kdf_ok\<close>, \<open>sha256_ok\<close>, \<open>nonce_ok\<close>, \<open>cipher_pair\<close>, \<open>nonce_bound\<close>, \<open>launches\<close>, \<open>handshakes_ok\<close>,
  \<open>publishes\<close>) that a concrete instance satisfies in the witnesses.

  \<^bold>\<open>The theories.\<close>
  \<^item> \<open>Chirp_Prelude\<close>, \<open>Go_Text\<close>, \<open>Platform\<close>: results and errors, UTF-8 and the string functions of
    Go's library, the insertion sort the code writes out, the parameters.
  \<^item> \<open>Go_Json\<close>, \<open>Go_Json_Roundtrip\<close>, \<open>Go_Struct\<close>, \<open>Go_Json_Clean\<close>: \<open>encoding/json\<close> as the program uses it: printing
    with its escapes, the scanner with its depth limit, and storing an object's members in the
    fields of a struct (names up to case, unknown fields, nulls, base64, reused slices). What is
    printed is read back, how long it is, and every text that is read is valid UTF-8.
  \<^item> \<open>Bolt\<close>, \<open>Indexed_Log\<close>: the ordered buckets of the database and the pattern \<open>rows under sequence
    keys + index by id\<close>, as locales (\<open>ordered_kv\<close>, \<open>indexed_log\<close>, \<open>grouped_log\<close>) that the buckets
    and both message tables interpret.
  \<^item> \<open>Proto\<close>, \<open>Proto_Json\<close> (\<open>proto.go\<close>), \<open>Crypto_Envelope\<close> (\<open>crypto.go\<close>, locale \<open>sealed_box\<close>), \<open>Identity\<close>
    (\<open>identity.go\<close>, \<open>backup.go\<close>, \<open>words.go\<close>), \<open>Session\<close> (\<open>session.go\<close>): frames, validation and
    the text of envelopes, the at-rest envelope, names, fingerprints and backups, and the handshake and record layer:
    what is sent in a session arrives in order, what is decoded from any bytes can be encoded
    again to the same envelope, and after an oversized record the peer can read nothing more.
  \<^item> \<open>Store_Core\<close>, \<open>Store_Peers\<close>, \<open>Store_Messages\<close>, \<open>Store_Mail\<close>, \<open>Store_Rooms\<close> (\<open>store.go\<close>) and
    \<open>Store_Files\<close> (\<open>files.go\<close>): every operation of the store. The encrypted peer rows refine a
    trust automaton (locale \<open>tofu\<close>): no observation replaces a pin. A queued message survives
    every sequence of operations that neither acknowledges nor deletes it. A file marked complete
    has the announced hash.
  \<^item> \<open>Node_Core\<close>, \<open>Node_Send\<close>, \<open>Node_Rooms\<close>, \<open>Node_Link\<close>, \<open>Invite\<close>, \<open>Discovery\<close>, \<open>Node_Run\<close>, \<open>Views\<close>
    (\<open>node.go\<close>, \<open>events.go\<close>, \<open>link.go\<close>, \<open>rooms.go\<close>, \<open>invite.go\<close>, \<open>qr.go\<close>, \<open>views.go\<close>,
    \<open>internal/discovery\<close>): the engine, its handlers, loops and views. Sessions exist only with
    the pinned key; acknowledgements go out only for what is stored and settle only messages to
    names that fold to that of their sender; retries back off within bounds; the rate limit holds; the chunk loop ends.
  \<^item> \<open>Wire_Size\<close>: valid messages and file chunks always fit a frame; a room's name may not.
  \<^item> \<open>Room_Auth\<close>: the room handlers refine an abstract directory of rooms in which the creator
    alone decides, with the exception of leaving.
  \<^item> \<open>Delivery\<close>, \<open>File_Transfer\<close>: two nodes and a network. Over a network that loses, repeats and
    reorders, a message shown as delivered is stored at the recipient (locales \<open>mail_sender\<close>,
    \<open>mail_receiver\<close>, \<open>delivery\<close>, interpreted on the two nodes; the steps are composing, flushing,
    arrival, acknowledgement and reconnecting, without deletions); over a working session one
    round delivers what is valid and within the rate limit, and a transfer ends with identical
    bytes.
  \<^item> \<open>Node_Steps\<close>: one node as a state machine, whose steps are the operations of the node's users,
    peers and timers, each atomic (the daemon's operations around a node, such as enabling a
    passphrase, are not steps). In all runs an open session is the only one with its peer and
    matches the pin, apart from sessions that were open when the user accepted another key for
    the peer or forgot it under a name with spaces around it.
  \<^item> \<open>App\<close> (\<open>app.go\<close>), \<open>Api_Requests\<close>, \<open>Api\<close> (\<open>api.go\<close>), \<open>Daemon\<close> (\<open>cmd/chirpd\<close>), \<open>Demo\<close> (\<open>cmd/demo\<close>): the life cycle on disk (setup,
    restart, passphrase, backup), the HTTP interface (no cross-site changes, inert downloads,
    file names), the loopback check with Go's IP address parser, and the demo's bots, whose
    impostor is refused and flagged.

  \<^bold>\<open>Findings.\<close> Theorems that describe what the code does where it is not what it means to do are
  stated like the others: the dial loop locks a mutex it holds when a peer expires; any peer can
  delete any message and a namesake can delete a room; a reply to a non-id blocks a queue; a file
  that was received but not completed stalls; Setup leaves the private key in clear; an empty
  unlock hides the lock; accepting a key keeps the old session; an invitation's fingerprint is
  never accepted; a long room name puts a session out of step; the check for trailing data lets
  some of it through; forgetting a contact under a name with a space too many keeps its session;
  a peer whose name folds to another's settles messages to that one; a name that is not UTF-8
  changes on restart.

  \<^bold>\<open>Fuel and termination.\<close> No definition uses fuel. Recursions that are not structural (UTF-8
  decoding, decimal texts, the JSON scanner, the chunk loop, the IPv6 parser) have measures; endless loops of the
  program appear as steps or over the finite list of what arrives.

  \<^bold>\<open>Not modelled.\<close> Sockets, deadlines, contexts and the memory model of goroutines below the
  granularity of one operation (the lock that the dial loop takes twice is modelled); a failing
  disk and torn writes; multipart forms, URLs, MIME sniffing and the QR encoder, which are
  parameters; the JSON of the HTTP replies and of the database rows other than the identity's,
  which are kept as values (of their texts only the name of an uploaded file can be one that JSON
  alters); bbolt's refusal of empty and of oversized keys; flag parsing, signals and the server loop
  of both commands; \<open>internal/web\<close>, one embed directive for the
  browser's assets.
\<close>

end
